(* ===== verification/Prelude.thy ===== *)
theory Prelude
  imports Main "HOL-Library.Word" "HOL-Library.Signed_Division"
begin

unbundle bit_operations_syntax

text \<open>
  Shared vocabulary of the development: exceptions as values, sequencing of fallible
  computations, the fixed-width integer conversions of the C++ sources, and generic lemmas on
  lists, maps and words that the component theories use through the simplifier.
\<close>

named_theorems res_simps \<open>rewriting of sequenced fallible computations\<close>
named_theorems width_simps \<open>fixed-width integers whose value is in range\<close>

section \<open>Exceptions and sequencing\<close>

text \<open>
  A thrown C++ exception is a value. \<open>Assert_exn\<close> is \<^verbatim>\<open>fc::assert_exception\<close>, thrown by
  \<^verbatim>\<open>FC_ASSERT\<close> and by the \<^verbatim>\<open>HIVE_PROTOCOL_*_ASSERT\<close> and \<^verbatim>\<open>HIVE_CHAIN_*_ASSERT\<close> macros, with the
  text that identifies the assertion; \<open>Fc_exn\<close> another \<^verbatim>\<open>fc::exception\<close>; \<open>Overflow_exn\<close> is what the checked integer of the fc
  library throws; \<open>Parse_exn\<close> a failed text conversion; \<open>Logic_error\<close> and \<open>Out_of_range\<close> the
  standard exceptions of chainbase; \<open>Unlinkable_exn\<close>, \<open>Order_match_exn\<close> and \<open>Order_fill_exn\<close>
  the exceptions of \<^verbatim>\<open>database_exceptions.hpp\<close>. \<open>Undefined\<close> marks behaviour the C++ language
  leaves undefined (a division by zero): no theorem relies on its value.
\<close>

datatype exn =
    Assert_exn string
  | Fc_exn string
  | Overflow_exn
  | Parse_exn
  | Logic_error
  | Out_of_range
  | Unlinkable_exn
  | Order_match_exn
  | Order_fill_exn
  | Undefined

type_synonym 'a res = "exn + 'a"

definition bind_r :: "'a res \<Rightarrow> ('a \<Rightarrow> 'b res) \<Rightarrow> 'b res" where
  "bind_r m f = (case m of Inl e \<Rightarrow> Inl e | Inr x \<Rightarrow> f x)"

definition check_r :: "bool \<Rightarrow> string \<Rightarrow> unit res" where
  "check_r c msg = (if c then Inr () else Inl (Assert_exn msg))"

definition throws :: "'a res \<Rightarrow> bool" where
  "throws m = (case m of Inl _ \<Rightarrow> True | Inr _ \<Rightarrow> False)"

lemma bind_r_simps [simp, res_simps]:
  "bind_r (Inl e) f = Inl e"
  "bind_r (Inr x) f = f x"
  by (simp_all add: bind_r_def)

lemma bind_r_eq_Inr [res_simps]:
  "bind_r m f = Inr y \<longleftrightarrow> (\<exists>x. m = Inr x \<and> f x = Inr y)"
  by (cases m) simp_all

lemma bind_r_eq_Inl [res_simps]:
  "bind_r m f = Inl e \<longleftrightarrow> m = Inl e \<or> (\<exists>x. m = Inr x \<and> f x = Inl e)"
  by (cases m) simp_all

lemma bind_r_assoc: "bind_r (bind_r m f) g = bind_r m (\<lambda>x. bind_r (f x) g)"
  by (cases m) simp_all

lemma bind_r_cong [fundef_cong]:
  "m = m' \<Longrightarrow> (\<And>x. m' = Inr x \<Longrightarrow> f x = f' x) \<Longrightarrow> bind_r m f = bind_r m' f'"
  by (cases m') auto

lemma check_r_simps [simp]:
  "check_r True msg = Inr ()"
  "check_r False msg = Inl (Assert_exn msg)"
  by (simp_all add: check_r_def)

lemma check_r_eq_Inr [simp, res_simps]: "check_r c msg = Inr u \<longleftrightarrow> c"
  by (simp add: check_r_def)

lemma check_r_eq_Inl [simp, res_simps]:
  "check_r c msg = Inl e \<longleftrightarrow> \<not> c \<and> e = Assert_exn msg"
  by (auto simp: check_r_def)

lemma throws_simps [simp]: "throws (Inl e)" "\<not> throws (Inr x)"
  by (simp_all add: throws_def)

lemma not_throws_iff: "\<not> throws m \<longleftrightarrow> (\<exists>x. m = Inr x)"
  by (cases m) simp_all

section \<open>Signed and unsigned machine integers\<close>

text \<open>
  \<^verbatim>\<open>int64_t\<close> values are integers in range; \<open>wrap64\<close> is the two's complement value of an
  arbitrary integer, what a conversion to \<^verbatim>\<open>int64_t\<close> yields. Unsigned values are words.
\<close>

abbreviation max_i64 :: int where "max_i64 \<equiv> 9223372036854775807"
abbreviation min_i64 :: int where "min_i64 \<equiv> - 9223372036854775808"

definition in_i64 :: "int \<Rightarrow> bool" where
  "in_i64 x \<longleftrightarrow> min_i64 \<le> x \<and> x \<le> max_i64"

definition wrap64 :: "int \<Rightarrow> int" where
  "wrap64 x = (x + 9223372036854775808) mod 18446744073709551616 - 9223372036854775808"

lemma in_i64_0 [simp]: "in_i64 0"
  by (simp add: in_i64_def)

lemma wrap64_id [width_simps]: "in_i64 x \<Longrightarrow> wrap64 x = x"
  by (simp add: wrap64_def in_i64_def)

lemma in_i64_wrap64 [simp]: "in_i64 (wrap64 x)"
  using pos_mod_bound [of 18446744073709551616 "x + 9223372036854775808"]
    pos_mod_sign [of 18446744073709551616 "x + 9223372036854775808"]
  unfolding in_i64_def wrap64_def by linarith

lemma in_i64_leI: "0 \<le> x \<Longrightarrow> x \<le> y \<Longrightarrow> in_i64 y \<Longrightarrow> in_i64 x"
  by (simp add: in_i64_def)

text \<open>A non-negative \<^verbatim>\<open>int64_t\<close> converted to \<^verbatim>\<open>uint128_t\<close> keeps its value; so does the product
  of two of them.\<close>

lemma uint_of_int_128 [width_simps]:
  "0 \<le> x \<Longrightarrow> x < 340282366920938463463374607431768211456 \<Longrightarrow> uint (of_int x :: 128 word) = x"
  by (simp add: uint_word_of_int)

lemma i64_mult_bound:
  assumes "in_i64 a" "in_i64 b" "0 \<le> a" "0 \<le> b"
  shows "a * b < 340282366920938463463374607431768211456"
proof -
  have "a * b \<le> max_i64 * max_i64"
    using assms by (intro mult_mono) (auto simp: in_i64_def)
  then show ?thesis by simp
qed

lemma uint_mult_128 [width_simps]:
  fixes a b :: "128 word"
  assumes "uint a * uint b < 340282366920938463463374607431768211456"
  shows "uint (a * b) = uint a * uint b"
  using assms by (simp add: uint_word_ariths)

lemma uint_add_128 [width_simps]:
  fixes a b :: "128 word"
  assumes "uint a + uint b < 340282366920938463463374607431768211456"
  shows "uint (a + b) = uint a + uint b"
  using assms by (simp add: uint_word_ariths)

section \<open>Lists\<close>

lemma list_all2_nthI:
  "length xs = length ys \<Longrightarrow> (\<And>i. i < length xs \<Longrightarrow> P (xs ! i) (ys ! i)) \<Longrightarrow> list_all2 P xs ys"
  by (simp add: list_all2_conv_all_nth)

section \<open>Little-endian byte strings\<close>

text \<open>\<open>le_bytes n x\<close> are the first \<open>n\<close> bytes of the memory representation of \<open>x\<close> on the
  little-endian targets the node is built for; \<open>le_nat\<close> reads them back.\<close>

type_synonym byte = "8 word"

fun le_bytes :: "nat \<Rightarrow> nat \<Rightarrow> byte list" where
  "le_bytes 0 x = []"
| "le_bytes (Suc n) x = of_nat (x mod 256) # le_bytes n (x div 256)"

fun le_nat :: "byte list \<Rightarrow> nat" where
  "le_nat [] = 0"
| "le_nat (b # bs) = unat b + 256 * le_nat bs"

lemma length_le_bytes [simp]: "length (le_bytes n x) = n"
  by (induction n arbitrary: x) simp_all

lemma unat_byte_of_nat [simp]: "unat (of_nat (x mod 256) :: byte) = x mod 256"
  by (simp add: unat_of_nat)

lemma le_nat_le_bytes: "le_nat (le_bytes n x) = x mod 256 ^ n"
proof (induction n arbitrary: x)
  case 0
  then show ?case by simp
next
  case (Suc n)
  have "le_nat (le_bytes (Suc n) x) = x mod 256 + 256 * (x div 256 mod 256 ^ n)"
    using Suc.IH [of "x div 256"] by simp
  also have "\<dots> = x mod (256 * 256 ^ n)"
    by (simp add: mod_mult2_eq)
  finally show ?case by simp
qed

lemma le_nat_append: "le_nat (xs @ ys) = le_nat xs + 256 ^ length xs * le_nat ys"
  by (induction xs) (simp_all add: algebra_simps)

lemma take_le_bytes: "m \<le> n \<Longrightarrow> take m (le_bytes n x) = le_bytes m x"
proof (induction n arbitrary: m x)
  case 0
  then show ?case by simp
next
  case (Suc n)
  then show ?case by (cases m) simp_all
qed

lemma le_nat_4: "le_nat (le_bytes 4 (unat (w :: 32 word))) = unat w"
  using unsigned_less [where ?'a = nat and w = w] by (simp add: le_nat_le_bytes)

lemma le_nat_8: "le_nat (le_bytes 8 (unat (w :: 64 word))) = unat w"
  using unsigned_less [where ?'a = nat and w = w] by (simp add: le_nat_le_bytes)

end
