(* ===== verification/Chainbase.thy ===== *)
theory Chainbase
  imports Prelude "HOL-Library.Finite_Map"
begin

text \<open>
  The undo stack of the object store (\<^verbatim>\<open>chainbase/chainbase.hpp\<close>, \<^verbatim>\<open>generic_index\<close>, and the loops
  over all indices of \<^verbatim>\<open>chainbase/src/chainbase.cpp\<close>). An index maps object ids to objects; every
  undo level remembers the objects created, changed and removed since the level was opened. The
  specification is a stack of snapshots of the whole index.
\<close>

section \<open>The multi-index container\<close>

text \<open>
  The container is a map from ids to objects with further unique indices. \<open>clash\<close> says that two
  objects have the same key in one of them; \<open>check_on_remove\<close> is the check some object types make
  before they are removed. Both belong to the object type.
\<close>

record 'v value_ops =
  clash :: "'v \<Rightarrow> 'v \<Rightarrow> bool"
  check_on_remove :: "'v \<Rightarrow> unit res"

type_synonym 'v objects = "(nat, 'v) fmap"

definition fits :: "'v value_ops \<Rightarrow> nat \<Rightarrow> 'v \<Rightarrow> 'v objects \<Rightarrow> bool" where
  "fits P i v ix \<longleftrightarrow> fmpred (\<lambda>j w. j \<noteq> i \<longrightarrow> \<not> clash P v w) ix"

text \<open>Insertion of an object whose id or unique key is taken is refused; a modification that makes
  two objects clash removes the modified object from the container.\<close>

definition mi_emplace :: "'v value_ops \<Rightarrow> nat \<Rightarrow> 'v \<Rightarrow> 'v objects \<Rightarrow> 'v objects \<times> bool" where
  "mi_emplace P i v ix =
     (if fmlookup ix i = None \<and> fits P i v ix then (fmupd i v ix, True) else (ix, False))"

definition mi_modify :: "'v value_ops \<Rightarrow> nat \<Rightarrow> 'v \<Rightarrow> 'v objects \<Rightarrow> 'v objects \<times> bool" where
  "mi_modify P i v ix = (if fits P i v ix then (fmupd i v ix, True) else (fmdrop i ix, False))"

section \<open>Index and undo states\<close>

record 'v undo_state =
  old_values :: "'v objects"
  removed_values :: "'v objects"
  new_ids :: "nat fset"
  old_next_id :: nat
  level_revision :: int

text \<open>The head of \<open>stack\<close> is the back of the deque, the level opened last.\<close>

record 'v generic_index =
  stack :: "'v undo_state list"
  revision :: int
  next_id :: nat
  indices :: "'v objects"

definition empty_index :: "'v generic_index" where
  "empty_index = \<lparr>stack = [], revision = 0, next_id = 0, indices = fmempty\<rparr>"

definition enabled :: "'v generic_index \<Rightarrow> bool" where
  "enabled s \<longleftrightarrow> stack s \<noteq> []"

definition set_head :: "('v undo_state \<Rightarrow> 'v undo_state) \<Rightarrow> 'v generic_index \<Rightarrow> 'v generic_index" where
  "set_head f s = (case stack s of [] \<Rightarrow> s | u # us \<Rightarrow> s\<lparr>stack := f u # us\<rparr>)"

definition level_modify :: "nat \<Rightarrow> 'v \<Rightarrow> 'v undo_state \<Rightarrow> 'v undo_state" where
  "level_modify i v u =
     (if i |\<in>| new_ids u then u
      else if fmlookup (old_values u) i \<noteq> None then u
      else u\<lparr>old_values := fmupd i v (old_values u)\<rparr>)"

definition on_modify :: "nat \<Rightarrow> 'v \<Rightarrow> 'v generic_index \<Rightarrow> 'v generic_index" where
  "on_modify i v s = set_head (level_modify i v) s"

definition level_remove :: "nat \<Rightarrow> 'v \<Rightarrow> 'v undo_state \<Rightarrow> 'v undo_state" where
  "level_remove i v u =
     (if i |\<in>| new_ids u then u\<lparr>new_ids := new_ids u |-| {|i|}\<rparr>
      else
        (case fmlookup (old_values u) i of
           Some w \<Rightarrow> u\<lparr>removed_values :=
                         (if fmlookup (removed_values u) i = None
                          then fmupd i w (removed_values u) else removed_values u),
                       old_values := fmdrop i (old_values u)\<rparr>
         | None \<Rightarrow>
             if fmlookup (removed_values u) i \<noteq> None then u
             else u\<lparr>removed_values := fmupd i v (removed_values u)\<rparr>))"

definition on_remove :: "nat \<Rightarrow> 'v \<Rightarrow> 'v generic_index \<Rightarrow> 'v generic_index" where
  "on_remove i v s = set_head (level_remove i v) s"

definition level_create :: "nat \<Rightarrow> 'v undo_state \<Rightarrow> 'v undo_state" where
  "level_create i u = u\<lparr>new_ids := finsert i (new_ids u)\<rparr>"

definition on_create :: "nat \<Rightarrow> 'v generic_index \<Rightarrow> 'v generic_index" where
  "on_create i s = set_head (level_create i) s"

section \<open>Operations on objects\<close>

text \<open>An operation returns the new state together with its result, since an exception may leave
  the state changed. The constructor of the object type is \<open>ctor\<close>; a modifier may throw after it
  changed the object. An operation on an object that is not in the index is undefined.\<close>

definition emplace ::
  "'v value_ops \<Rightarrow> (nat \<Rightarrow> 'v res) \<Rightarrow> 'v generic_index \<Rightarrow> 'v generic_index \<times> nat res" where
  "emplace P ctor s =
     (let new_id = next_id s in
      case ctor new_id of
        Inl e \<Rightarrow> (s, Inl e)
      | Inr v \<Rightarrow>
          (case mi_emplace P new_id v (indices s) of (ix, ok) \<Rightarrow>
             if \<not> ok then (s, Inl Logic_error)
             else (on_create new_id (s\<lparr>indices := ix, next_id := next_id s + 1\<rparr>), Inr new_id)))"

definition modify ::
  "'v value_ops \<Rightarrow> nat \<Rightarrow> ('v \<Rightarrow> 'v \<times> unit res) \<Rightarrow> 'v generic_index \<Rightarrow>
   'v generic_index \<times> unit res" where
  "modify P i m s =
     (case fmlookup (indices s) i of
        None \<Rightarrow> (s, Inl Undefined)
      | Some v \<Rightarrow>
          let s1 = on_modify i v s in
          (case m v of (v', r) \<Rightarrow>
             (case mi_modify P i v' (indices s1) of (ix, ok) \<Rightarrow>
                let s2 = s1\<lparr>indices := ix\<rparr> in
                (case r of Inl e \<Rightarrow> (s2, Inl e)
                 | Inr _ \<Rightarrow> if \<not> ok then (s2, Inl Logic_error) else (s2, Inr ())))))"

definition remove ::
  "'v value_ops \<Rightarrow> nat \<Rightarrow> 'v generic_index \<Rightarrow> 'v generic_index \<times> unit res" where
  "remove P i s =
     (case fmlookup (indices s) i of
        None \<Rightarrow> (s, Inl Undefined)
      | Some v \<Rightarrow>
          (case check_on_remove P v of
             Inl e \<Rightarrow> (s, Inl e)
           | Inr _ \<Rightarrow> ((on_remove i v s)\<lparr>indices := fmdrop i (indices s)\<rparr>, Inr ())))"

definition get_object :: "nat \<Rightarrow> 'v generic_index \<Rightarrow> 'v res" where
  "get_object i s =
     (case fmlookup (indices s) i of None \<Rightarrow> Inl Out_of_range | Some v \<Rightarrow> Inr v)"

section \<open>Sessions\<close>

definition start_undo_session :: "'v generic_index \<Rightarrow> 'v generic_index" where
  "start_undo_session s =
     s\<lparr>revision := revision s + 1,
       stack := \<lparr>old_values = fmempty, removed_values = fmempty, new_ids = {||},
                 old_next_id = next_id s, level_revision = revision s + 1\<rparr> # stack s\<rparr>"

text \<open>The three loops of \<^verbatim>\<open>undo\<close>, each over the entries in the order of the ids.\<close>

fun undo_old_values ::
  "'v value_ops \<Rightarrow> (nat \<times> 'v) list \<Rightarrow> 'v objects \<Rightarrow> 'v objects \<times> unit res" where
  "undo_old_values P [] ix = (ix, Inr ())"
| "undo_old_values P ((i, v) # items) ix =
     (case (if fmlookup ix i \<noteq> None then mi_modify P i v ix else mi_emplace P i v ix) of (ix', ok) \<Rightarrow>
        if \<not> ok then (ix', Inl Logic_error) else undo_old_values P items ix')"

fun undo_new_ids :: "nat list \<Rightarrow> 'v objects \<Rightarrow> 'v objects \<times> unit res" where
  "undo_new_ids [] ix = (ix, Inr ())"
| "undo_new_ids (i # is) ix =
     (if fmlookup ix i = None then (ix, Inl Logic_error) else undo_new_ids is (fmdrop i ix))"

fun undo_removed_values ::
  "'v value_ops \<Rightarrow> (nat \<times> 'v) list \<Rightarrow> 'v objects \<Rightarrow> 'v objects \<times> unit res" where
  "undo_removed_values P [] ix = (ix, Inr ())"
| "undo_removed_values P ((i, v) # items) ix =
     (case mi_emplace P i v ix of (ix', ok) \<Rightarrow>
        if \<not> ok then (ix', Inl Logic_error) else undo_removed_values P items ix')"

definition clear_level :: "'v undo_state \<Rightarrow> 'v undo_state" where
  "clear_level u = u\<lparr>old_values := fmempty, new_ids := {||}, removed_values := fmempty\<rparr>"

definition undo ::
  "'v value_ops \<Rightarrow> bool \<Rightarrow> 'v generic_index \<Rightarrow> 'v generic_index \<times> unit res" where
  "undo P keep_alive s =
     (case stack s of
        [] \<Rightarrow> (s, Inr ())
      | u # us \<Rightarrow>
        (case undo_old_values P (sorted_list_of_fmap (old_values u)) (indices s) of (ix1, r1) \<Rightarrow>
         case r1 of Inl e \<Rightarrow> (s\<lparr>indices := ix1\<rparr>, Inl e) | Inr _ \<Rightarrow>
        (case undo_new_ids (sorted_list_of_fset (new_ids u)) ix1 of (ix2, r2) \<Rightarrow>
         case r2 of Inl e \<Rightarrow> (s\<lparr>indices := ix2\<rparr>, Inl e) | Inr _ \<Rightarrow>
        (let s3 = s\<lparr>next_id := old_next_id u\<rparr> in
         case undo_removed_values P (sorted_list_of_fmap (removed_values u)) ix2 of (ix3, r3) \<Rightarrow>
         case r3 of Inl e \<Rightarrow> (s3\<lparr>indices := ix3\<rparr>, Inl e) | Inr _ \<Rightarrow>
           if keep_alive then (s3\<lparr>indices := ix3, stack := clear_level u # us\<rparr>, Inr ())
           else (s3\<lparr>indices := ix3, stack := us, revision := revision s - 1\<rparr>, Inr ())))))"

text \<open>The three loops of \<^verbatim>\<open>squash\<close>, which merge the last level into the one before it.\<close>

definition merge_old :: "nat \<times> 'v \<Rightarrow> 'v undo_state \<Rightarrow> 'v undo_state" where
  "merge_old = (\<lambda>(i, v) prev.
     if i |\<in>| new_ids prev then prev
     else if fmlookup (old_values prev) i \<noteq> None then prev
     else prev\<lparr>old_values := fmupd i v (old_values prev)\<rparr>)"

definition merge_removed :: "nat \<times> 'v \<Rightarrow> 'v undo_state \<Rightarrow> 'v undo_state" where
  "merge_removed = (\<lambda>(i, v) prev.
     if i |\<in>| new_ids prev then prev\<lparr>new_ids := new_ids prev |-| {|i|}\<rparr>
     else
       (case fmlookup (old_values prev) i of
          Some w \<Rightarrow>
            prev\<lparr>removed_values :=
                   (if fmlookup (removed_values prev) i = None
                    then fmupd i w (removed_values prev) else removed_values prev),
                 old_values := fmdrop i (old_values prev)\<rparr>
        | None \<Rightarrow>
            prev\<lparr>removed_values :=
                   (if fmlookup (removed_values prev) i = None
                    then fmupd i v (removed_values prev) else removed_values prev)\<rparr>))"

definition merge_levels :: "'v undo_state \<Rightarrow> 'v undo_state \<Rightarrow> 'v undo_state" where
  "merge_levels state prev =
     (let p1 = fold merge_old (sorted_list_of_fmap (old_values state)) prev;
          p2 = fold (\<lambda>i p. p\<lparr>new_ids := finsert i (new_ids p)\<rparr>)
                 (sorted_list_of_fset (new_ids state)) p1
      in fold merge_removed (sorted_list_of_fmap (removed_values state)) p2)"

definition squash :: "bool \<Rightarrow> 'v generic_index \<Rightarrow> 'v generic_index" where
  "squash keep_alive s =
     (case stack s of
        [] \<Rightarrow> s
      | [u] \<Rightarrow>
          if keep_alive then
            s\<lparr>revision := revision s + 1,
              stack := [(clear_level u)\<lparr>old_next_id := next_id s,
                                        level_revision := revision s + 1\<rparr>]\<rparr>
          else s\<lparr>stack := []\<rparr>
      | u # prev # us \<Rightarrow>
          if keep_alive then
            s\<lparr>stack := (clear_level u)\<lparr>old_next_id := next_id s\<rparr> # merge_levels u prev # us\<rparr>
          else s\<lparr>stack := merge_levels u prev # us, revision := revision s - 1\<rparr>)"

text \<open>\<^verbatim>\<open>commit\<close> drops levels from the front of the deque, the far end of the list.\<close>

definition commit :: "int \<Rightarrow> 'v generic_index \<Rightarrow> 'v generic_index" where
  "commit n s = s\<lparr>stack := rev (dropWhile (\<lambda>u. level_revision u \<le> n) (rev (stack s)))\<rparr>"

fun undo_levels ::
  "'v value_ops \<Rightarrow> nat \<Rightarrow> 'v generic_index \<Rightarrow> 'v generic_index \<times> unit res" where
  "undo_levels P 0 s = (s, Inr ())"
| "undo_levels P (Suc n) s =
     (case undo P False s of (s', r) \<Rightarrow> case r of Inl e \<Rightarrow> (s', Inl e) | Inr _ \<Rightarrow> undo_levels P n s')"

text \<open>\<^verbatim>\<open>while( enabled() ) undo();\<close>: every successful round removes one level.\<close>

definition undo_all ::
  "'v value_ops \<Rightarrow> 'v generic_index \<Rightarrow> 'v generic_index \<times> unit res" where
  "undo_all P s = undo_levels P (length (stack s)) s"

definition set_revision :: "int \<Rightarrow> 'v generic_index \<Rightarrow> 'v generic_index res" where
  "set_revision n s = (if stack s \<noteq> [] then Inl Logic_error else Inr (s\<lparr>revision := n\<rparr>))"

section \<open>All indices together\<close>

text \<open>The database applies each session operation to its indices in turn; an exception of one
  index leaves the later ones untouched.\<close>

type_synonym 'v database = "('v value_ops \<times> 'v generic_index) list"

definition db_start_undo_session :: "'v database \<Rightarrow> 'v database" where
  "db_start_undo_session db = map (\<lambda>(P, s). (P, start_undo_session s)) db"

fun db_undo :: "bool \<Rightarrow> 'v database \<Rightarrow> 'v database \<times> unit res" where
  "db_undo keep_alive [] = ([], Inr ())"
| "db_undo keep_alive ((P, s) # db) =
     (case undo P keep_alive s of (s', r) \<Rightarrow>
        (case r of Inl e \<Rightarrow> ((P, s') # db, Inl e)
         | Inr _ \<Rightarrow> (case db_undo keep_alive db of (db', r') \<Rightarrow> ((P, s') # db', r'))))"

definition db_squash :: "bool \<Rightarrow> 'v database \<Rightarrow> 'v database" where
  "db_squash keep_alive db = map (\<lambda>(P, s). (P, squash keep_alive s)) db"

definition db_commit :: "int \<Rightarrow> 'v database \<Rightarrow> 'v database" where
  "db_commit n db = map (\<lambda>(P, s). (P, commit n s)) db"

fun db_undo_all :: "'v database \<Rightarrow> 'v database \<times> unit res" where
  "db_undo_all [] = ([], Inr ())"
| "db_undo_all ((P, s) # db) =
     (case undo_all P s of (s', r) \<Rightarrow>
        (case r of Inl e \<Rightarrow> ((P, s') # db, Inl e)
         | Inr _ \<Rightarrow> (case db_undo_all db of (db', r') \<Rightarrow> ((P, s') # db', r'))))"

fun db_set_revision :: "int \<Rightarrow> 'v database \<Rightarrow> 'v database res" where
  "db_set_revision n [] = Inr []"
| "db_set_revision n ((P, s) # db) =
     bind_r (set_revision n s) (\<lambda>s'. bind_r (db_set_revision n db) (\<lambda>db'. Inr ((P, s') # db')))"

definition db_revision :: "'v database \<Rightarrow> int" where
  "db_revision db = (case db of [] \<Rightarrow> - 1 | (P, s) # _ \<Rightarrow> revision s)"

text \<open>The session guard undoes on destruction unless it was pushed, squashed or undone.\<close>

record undo_session_guard =
  undo_on_destroy :: bool

definition open_guard :: "'v database \<Rightarrow> 'v database \<times> undo_session_guard" where
  "open_guard db = (db_start_undo_session db, \<lparr>undo_on_destroy = (db \<noteq> [])\<rparr>)"

definition guard_push :: "undo_session_guard \<Rightarrow> undo_session_guard" where
  "guard_push g = g\<lparr>undo_on_destroy := False\<rparr>"

definition guard_squash ::
  "bool \<Rightarrow> undo_session_guard \<Rightarrow> 'v database \<Rightarrow> 'v database \<times> undo_session_guard" where
  "guard_squash keep_alive g db =
     (db_squash keep_alive db, if keep_alive then g else g\<lparr>undo_on_destroy := False\<rparr>)"

definition guard_undo ::
  "bool \<Rightarrow> undo_session_guard \<Rightarrow> 'v database \<Rightarrow> 'v database \<times> undo_session_guard \<times> unit res" where
  "guard_undo keep_alive g db =
     (case db_undo keep_alive db of (db', r) \<Rightarrow>
        (db', (case r of Inl _ \<Rightarrow> g
               | Inr _ \<Rightarrow> if keep_alive then g else g\<lparr>undo_on_destroy := False\<rparr>), r))"

definition guard_destroy :: "undo_session_guard \<Rightarrow> 'v database \<Rightarrow> 'v database \<times> unit res" where
  "guard_destroy g db = (if undo_on_destroy g then db_undo False db else (db, Inr ()))"

section \<open>Specification vocabulary\<close>

text \<open>
  \<open>restore u c\<close> is the snapshot that level \<open>u\<close> stands for when the index holds \<open>c\<close>; \<open>history\<close> lists the
  snapshots of all levels, the newest first. \<open>store_inv\<close> is the invariant of an index: every
  level only mentions objects in a way the operations can produce, revisions of the levels are
  consecutive, and no snapshot holds two objects with the same unique key. \<open>session_run\<close> is a
  run of edits with nested sessions that are opened, undone and squashed; \<open>keeps_unique\<close> excludes
  the modification that the container answers by dropping the object.
\<close>

definition restore :: "'v undo_state \<Rightarrow> 'v objects \<Rightarrow> 'v objects" where
  "restore u c =
     fmadd (fmdrop_fset (new_ids u) (fmadd c (old_values u))) (removed_values u)"

fun snapshots :: "'v objects \<Rightarrow> 'v undo_state list \<Rightarrow> ('v objects \<times> nat) list" where
  "snapshots c [] = []"
| "snapshots c (u # us) = (restore u c, old_next_id u) # snapshots (restore u c) us"

definition view :: "'v generic_index \<Rightarrow> 'v objects \<times> nat" where
  "view s = (indices s, next_id s)"

definition history :: "'v generic_index \<Rightarrow> ('v objects \<times> nat) list" where
  "history s = snapshots (indices s) (stack s)"

definition level_wf :: "'v objects \<Rightarrow> nat \<Rightarrow> 'v undo_state \<Rightarrow> bool" where
  "level_wf c n u \<longleftrightarrow> old_next_id u \<le> n \<and>
     (\<forall>i.
       (i |\<in>| new_ids u \<longrightarrow> fmlookup c i \<noteq> None \<and> old_next_id u \<le> i \<and>
          fmlookup (old_values u) i = None \<and> fmlookup (removed_values u) i = None) \<and>
       (fmlookup (old_values u) i \<noteq> None \<longrightarrow>
          fmlookup (removed_values u) i = None \<and> i < old_next_id u) \<and>
       (fmlookup (removed_values u) i \<noteq> None \<longrightarrow> fmlookup c i = None \<and> i < old_next_id u) \<and>
       (fmlookup c i \<noteq> None \<longrightarrow> i < n \<and> (i |\<in>| new_ids u \<or> i < old_next_id u)))"

fun stack_wf :: "'v objects \<Rightarrow> nat \<Rightarrow> 'v undo_state list \<Rightarrow> bool" where
  "stack_wf c n [] \<longleftrightarrow> (\<forall>i. fmlookup c i \<noteq> None \<longrightarrow> i < n)"
| "stack_wf c n (u # us) \<longleftrightarrow> level_wf c n u \<and> stack_wf (restore u c) (old_next_id u) us"

fun revisions_ok :: "int \<Rightarrow> 'v undo_state list \<Rightarrow> bool" where
  "revisions_ok r [] \<longleftrightarrow> True"
| "revisions_ok r (u # us) \<longleftrightarrow> level_revision u = r \<and> revisions_ok (r - 1) us"

definition index_wf :: "'v generic_index \<Rightarrow> bool" where
  "index_wf s \<longleftrightarrow> stack_wf (indices s) (next_id s) (stack s) \<and> revisions_ok (revision s) (stack s)"

definition consistent :: "'v value_ops \<Rightarrow> 'v objects \<Rightarrow> bool" where
  "consistent P c \<longleftrightarrow>
     (\<forall>i v j w. fmlookup c i = Some v \<and> fmlookup c j = Some w \<and> i \<noteq> j \<longrightarrow> \<not> clash P v w)"

definition undo_fits :: "'v value_ops \<Rightarrow> 'v undo_state \<Rightarrow> 'v objects \<Rightarrow> bool" where
  "undo_fits P u c \<longleftrightarrow> consistent P (restore u c) \<and>
     (\<forall>i v j w. fmlookup (old_values u) i = Some v \<and> fmlookup c j = Some w \<and> i \<noteq> j \<longrightarrow> \<not> clash P v w)"

definition level_complete :: "'v objects \<Rightarrow> 'v undo_state \<Rightarrow> bool" where
  "level_complete c u \<longleftrightarrow> (\<forall>i. fmlookup (old_values u) i \<noteq> None \<longrightarrow> fmlookup c i \<noteq> None)"

fun stack_complete :: "'v objects \<Rightarrow> 'v undo_state list \<Rightarrow> bool" where
  "stack_complete c [] \<longleftrightarrow> True"
| "stack_complete c (u # us) \<longleftrightarrow> level_complete c u \<and> stack_complete (restore u c) us"

definition clash_sym :: "'v value_ops \<Rightarrow> bool" where
  "clash_sym P \<longleftrightarrow> (\<forall>v w. clash P v w = clash P w v)"

definition store_inv :: "'v value_ops \<Rightarrow> 'v generic_index \<Rightarrow> bool" where
  "store_inv P s \<longleftrightarrow> index_wf s \<and> stack_complete (indices s) (stack s) \<and>
     clash_sym P \<and> (\<forall>c \<in> set (indices s # map fst (history s)). consistent P c)"

datatype 'v edit =
    Create "nat \<Rightarrow> 'v res"
  | Modify nat "'v \<Rightarrow> 'v \<times> unit res"
  | Remove nat

definition apply_edit :: "'v value_ops \<Rightarrow> 'v edit \<Rightarrow> 'v generic_index \<Rightarrow> 'v generic_index" where
  "apply_edit P e s =
     (case e of Create ctor \<Rightarrow> fst (emplace P ctor s)
      | Modify i m \<Rightarrow> fst (modify P i m s)
      | Remove i \<Rightarrow> fst (remove P i s))"

definition run_edits :: "'v value_ops \<Rightarrow> 'v edit list \<Rightarrow> 'v generic_index \<Rightarrow> 'v generic_index" where
  "run_edits P es s = fold (apply_edit P) es s"

definition keeps_unique :: "'v value_ops \<Rightarrow> 'v edit \<Rightarrow> 'v generic_index \<Rightarrow> bool" where
  "keeps_unique P e s \<longleftrightarrow>
     (case e of
        Modify i m \<Rightarrow>
          (case fmlookup (indices s) i of None \<Rightarrow> True | Some v \<Rightarrow> fits P i (fst (m v)) (indices s))
      | _ \<Rightarrow> True)"

inductive session_run :: "'v value_ops \<Rightarrow> 'v generic_index \<Rightarrow> nat \<Rightarrow> 'v generic_index \<Rightarrow> bool"
  for P s where
  run_start: "session_run P s 0 s"
| run_open: "session_run P s d t \<Longrightarrow> session_run P s (Suc d) (start_undo_session t)"
| run_edit: "session_run P s d t \<Longrightarrow> keeps_unique P e t \<Longrightarrow> session_run P s d (apply_edit P e t)"
| run_undo: "session_run P s (Suc d) t \<Longrightarrow> undo P False t = (t', Inr ()) \<Longrightarrow> session_run P s d t'"
| run_squash: "session_run P s (Suc d) t \<Longrightarrow> session_run P s d (squash False t)"

definition starts :: "'v generic_index \<Rightarrow> 'v generic_index \<Rightarrow> bool" where
  "starts s t \<longleftrightarrow> t = start_undo_session s"

definition edited :: "'v value_ops \<Rightarrow> 'v generic_index \<Rightarrow> 'v generic_index \<Rightarrow> bool" where
  "edited P s t \<longleftrightarrow> (\<exists>e. keeps_unique P e s \<and> t = apply_edit P e s)"

definition undone :: "'v value_ops \<Rightarrow> 'v generic_index \<Rightarrow> 'v generic_index \<Rightarrow> bool" where
  "undone P s t \<longleftrightarrow> undo P False s = (t, Inr ())"

definition squashed_to :: "'v generic_index \<Rightarrow> 'v generic_index \<Rightarrow> bool" where
  "squashed_to s t \<longleftrightarrow> t = squash False s"

definition db_ran :: "'v database \<Rightarrow> 'v database \<Rightarrow> bool" where
  "db_ran db db' \<longleftrightarrow> list_all2 (\<lambda>(P, s) (Q, t). Q = P \<and> session_run P s 0 t) db db'"

definition db_inv :: "'v database \<Rightarrow> bool" where
  "db_inv db \<longleftrightarrow> (\<forall>(P, s) \<in> set db. store_inv P s)"

definition unique_ops :: "nat value_ops" where
  "unique_ops = \<lparr>clash = (=), check_on_remove = (\<lambda>_. Inr ())\<rparr>"

definition one_object :: "nat generic_index" where
  "one_object = apply_edit unique_ops (Create (\<lambda>_. Inr 1)) empty_index"

definition handed_over :: "nat edit list" where
  "handed_over = [Modify 0 (\<lambda>_. (2, Inr ())), Create (\<lambda>_. Inr 1)]"

fun upd_all :: "(nat \<times> 'v) list \<Rightarrow> 'v objects \<Rightarrow> 'v objects" where
  "upd_all [] c = c"
| "upd_all ((i, v) # items) c = upd_all items (fmupd i v c)"

fun drop_all :: "nat list \<Rightarrow> 'v objects \<Rightarrow> 'v objects" where
  "drop_all [] c = c"
| "drop_all (i # is) c = drop_all is (fmdrop i c)"

definition example_edits :: "nat edit list" where
  "example_edits = [Modify 0 (\<lambda>v. (v + 6, Inr ())), Create (\<lambda>_. Inr 9), Remove 0]"

definition example_session :: "nat generic_index" where
  "example_session =
     squash False (start_undo_session
       (run_edits unique_ops example_edits (start_undo_session one_object)))"

section \<open>Levels restore snapshots\<close>

lemma fmlookup_restore:
  "fmlookup (restore u c) i =
     (case fmlookup (removed_values u) i of Some v \<Rightarrow> Some v
      | None \<Rightarrow> if i |\<in>| new_ids u then None
                else (case fmlookup (old_values u) i of Some v \<Rightarrow> Some v | None \<Rightarrow> fmlookup c i))"
  by (auto simp: restore_def fmlookup_dom_iff split: option.splits)

lemma level_wfD:
  assumes "level_wf c n u"
  shows "i |\<in>| new_ids u \<Longrightarrow> \<exists>v. fmlookup c i = Some v"
    "i |\<in>| new_ids u \<Longrightarrow> old_next_id u \<le> i"
    "i |\<in>| new_ids u \<Longrightarrow> fmlookup (old_values u) i = None"
    "i |\<in>| new_ids u \<Longrightarrow> fmlookup (removed_values u) i = None"
    "fmlookup (old_values u) i = Some v \<Longrightarrow> fmlookup (removed_values u) i = None"
    "fmlookup (old_values u) i = Some v \<Longrightarrow> i < old_next_id u"
    "fmlookup (removed_values u) i = Some v \<Longrightarrow> fmlookup c i = None"
    "fmlookup (removed_values u) i = Some v \<Longrightarrow> i < old_next_id u"
    "fmlookup c i = Some v \<Longrightarrow> i < n"
    "fmlookup c i = Some v \<Longrightarrow> i |\<in>| new_ids u \<or> i < old_next_id u"
    "old_next_id u \<le> n"
  using assms unfolding level_wf_def by (metis option.distinct(1) option.exhaust)+

lemma level_create_restore:
  assumes "level_wf c n u" "fmlookup c n = None"
  shows "restore (level_create n u) (fmupd n v c) = restore u c"
    "level_wf (fmupd n v c) (Suc n) (level_create n u)"
    "old_next_id (level_create n u) = old_next_id u" "level_revision (level_create n u) = level_revision u"
proof -
  have n: "fmlookup (old_values u) n = None" "fmlookup (removed_values u) n = None" "n |\<notin>| new_ids u"
    using assms unfolding level_wf_def by (metis not_less option.exhaust)+
  show "restore (level_create n u) (fmupd n v c) = restore u c"
    using n assms(2) by (intro fmap_ext) (auto simp: fmlookup_restore level_create_def split: option.splits)
  show "level_wf (fmupd n v c) (Suc n) (level_create n u)"
    using assms n by (auto simp: level_wf_def level_create_def less_Suc_eq le_Suc_eq)
qed (simp_all add: level_create_def)

lemma level_modify_restore:
  assumes "level_wf c n u" "fmlookup c i = Some v"
  shows "restore (level_modify i v u) (fmupd i v' c) = restore u c"
    "level_wf (fmupd i v' c) n (level_modify i v u)"
    "old_next_id (level_modify i v u) = old_next_id u" "level_revision (level_modify i v u) = level_revision u"
proof -
  show "restore (level_modify i v u) (fmupd i v' c) = restore u c"
    using assms by (intro fmap_ext) (auto simp: fmlookup_restore level_modify_def split: option.splits)
  show "level_wf (fmupd i v' c) n (level_modify i v u)"
    using assms unfolding level_wf_def level_modify_def by (auto split: if_splits)
qed (simp_all add: level_modify_def)

lemma level_remove_restore:
  assumes "level_wf c n u" "fmlookup c i = Some v"
  shows "restore (level_remove i v u) (fmdrop i c) = restore u c"
    "level_wf (fmdrop i c) n (level_remove i v u)"
    "old_next_id (level_remove i v u) = old_next_id u" "level_revision (level_remove i v u) = level_revision u"
proof -
  have r: "fmlookup (removed_values u) i = None"
    using assms(1,2) unfolding level_wf_def by (metis option.distinct(1))
  show "restore (level_remove i v u) (fmdrop i c) = restore u c"
    using assms r unfolding level_wf_def
    by (intro fmap_ext) (auto simp: fmlookup_restore level_remove_def split: option.splits)
  show "level_wf (fmdrop i c) n (level_remove i v u)"
    using assms r unfolding level_wf_def level_remove_def
    by (auto split: if_splits option.splits)
qed (simp_all add: level_remove_def split: option.splits)

lemma sorted_list_of_fmap_facts [simp]:
  "map_of (sorted_list_of_fmap m) = fmlookup m"
  "distinct (map fst (sorted_list_of_fmap m))"
proof -
  show d: "distinct (map fst (sorted_list_of_fmap m))"
    by (simp add: sorted_list_of_fmap_def comp_def sorted_list_of_fset.rep_eq)
  show "map_of (sorted_list_of_fmap m) = fmlookup m"
  proof
    fix i
    show "map_of (sorted_list_of_fmap m) i = fmlookup m i"
    proof (cases "fmlookup m i")
      case None
      then have "i \<notin> set (map fst (sorted_list_of_fmap m))"
        by (auto simp: sorted_list_of_fmap_def fmlookup_dom_iff)
      then show ?thesis using None by (metis map_of_eq_None_iff set_map)
    next
      case (Some v)
      then have "(i, v) \<in> set (sorted_list_of_fmap m)"
        by (force simp: sorted_list_of_fmap_def fmlookup_dom_iff image_iff intro: fmdomI)
      then show ?thesis using Some d by simp
    qed
  qed
qed

section \<open>Undo\<close>

lemma fmlookup_upd_all:
  "distinct (map fst items) \<Longrightarrow>
   fmlookup (upd_all items c) i = (case map_of items i of Some v \<Rightarrow> Some v | None \<Rightarrow> fmlookup c i)"
proof (induction items arbitrary: c)
  case (Cons x items)
  obtain j v where x: "x = (j, v)" by force
  have "map_of items j = None"
    using Cons.prems by (simp add: x map_of_eq_None_iff)
  then show ?case
    using Cons by (auto simp: x split: option.splits)
qed simp

lemma upd_all_fmadd: "upd_all (sorted_list_of_fmap m) c = fmadd c m"
  by (rule fmap_ext) (auto simp: fmlookup_upd_all fmlookup_dom_iff split: option.splits)

lemma undo_old_values_Inr:
  "undo_old_values P items c = (c', Inr ()) \<Longrightarrow> c' = upd_all items c"
proof (induction items arbitrary: c)
  case (Cons x items)
  then show ?case
    by (cases x) (auto simp: mi_modify_def mi_emplace_def split: if_splits)
qed simp

lemma undo_removed_values_Inr:
  "undo_removed_values P items c = (c', Inr ()) \<Longrightarrow> c' = upd_all items c"
proof (induction items arbitrary: c)
  case (Cons x items)
  then show ?case
    by (cases x) (auto simp: mi_emplace_def split: if_splits)
qed simp

lemma fmlookup_drop_all: "fmlookup (drop_all is c) i = (if i \<in> set is then None else fmlookup c i)"
  by (induction "is" arbitrary: c) auto

lemma undo_new_ids_Inr: "undo_new_ids is c = (c', Inr ()) \<Longrightarrow> c' = drop_all is c"
  by (induction "is" arbitrary: c) (auto split: if_splits)

lemma drop_all_fset: "drop_all (sorted_list_of_fset S) c = fmdrop_fset S c"
  by (rule fmap_ext) (simp add: fmlookup_drop_all)

lemma undo_Inr:
  assumes "undo P keep s = (s', Inr ())" "stack s = u # us"
  shows "s' = (if keep
      then s\<lparr>next_id := old_next_id u, indices := restore u (indices s), stack := clear_level u # us\<rparr>
      else s\<lparr>next_id := old_next_id u, indices := restore u (indices s), stack := us,
             revision := revision s - 1\<rparr>)"
proof -
  obtain c1 c2 c3 where c:
    "undo_old_values P (sorted_list_of_fmap (old_values u)) (indices s) = (c1, Inr ())"
    "undo_new_ids (sorted_list_of_fset (new_ids u)) c1 = (c2, Inr ())"
    "undo_removed_values P (sorted_list_of_fmap (removed_values u)) c2 = (c3, Inr ())"
    "s' = (if keep then s\<lparr>next_id := old_next_id u, indices := c3, stack := clear_level u # us\<rparr>
      else s\<lparr>next_id := old_next_id u, indices := c3, stack := us, revision := revision s - 1\<rparr>)"
    using assms by (auto simp: undo_def Let_def split: prod.splits sum.splits if_splits)
  have "c3 = restore u (indices s)"
    using undo_old_values_Inr [OF c(1)] undo_new_ids_Inr [OF c(2)] undo_removed_values_Inr [OF c(3)]
    by (simp add: upd_all_fmadd drop_all_fset restore_def)
  then show ?thesis using c(4) by simp
qed

lemma undo_old_values_total:
  assumes "distinct (map fst items)"
    and "\<And>i v j w. (i, v) \<in> set items \<Longrightarrow> j \<noteq> i \<Longrightarrow> fmlookup c j = Some w \<or> (j, w) \<in> set items \<Longrightarrow> \<not> clash P v w"
  shows "\<exists>c'. undo_old_values P items c = (c', Inr ())"
  using assms
proof (induction items arbitrary: c)
  case (Cons x items)
  obtain i v where x: "x = (i, v)" by force
  have f: "fits P i v c"
    using Cons.prems(2) [of i v] by (auto simp: fits_def x intro!: fmpredI)
  have "\<exists>c'. undo_old_values P items (fmupd i v c) = (c', Inr ())"
  proof (rule Cons.IH)
    show "distinct (map fst items)" using Cons.prems(1) by simp
    show "\<not> clash P v' w"
      if "(i', v') \<in> set items" "j \<noteq> i'" "fmlookup (fmupd i v c) j = Some w \<or> (j, w) \<in> set items" for i' v' j w
      using Cons.prems(2) [of i' v' j w] that by (auto simp: x split: if_splits)
  qed
  then show ?case
    using f by (auto simp: x mi_modify_def mi_emplace_def)
qed simp

lemma undo_removed_values_total:
  assumes "distinct (map fst items)"
    and "\<And>i v. (i, v) \<in> set items \<Longrightarrow> fmlookup c i = None"
    and "\<And>i v j w. (i, v) \<in> set items \<Longrightarrow> j \<noteq> i \<Longrightarrow> fmlookup c j = Some w \<or> (j, w) \<in> set items \<Longrightarrow> \<not> clash P v w"
  shows "\<exists>c'. undo_removed_values P items c = (c', Inr ())"
  using assms
proof (induction items arbitrary: c)
  case (Cons x items)
  obtain i v where x: "x = (i, v)" by force
  have f: "fits P i v c" "fmlookup c i = None"
    using Cons.prems(3) [of i v] Cons.prems(2) by (auto simp: fits_def x intro!: fmpredI)
  have "\<exists>c'. undo_removed_values P items (fmupd i v c) = (c', Inr ())"
  proof (rule Cons.IH)
    show "distinct (map fst items)" using Cons.prems(1) by simp
    show "fmlookup (fmupd i v c) i' = None" if "(i', v') \<in> set items" for i' v'
      using Cons.prems(1) Cons.prems(2) [of i' v'] that by (force simp: x)
    show "\<not> clash P v' w"
      if "(i', v') \<in> set items" "j \<noteq> i'" "fmlookup (fmupd i v c) j = Some w \<or> (j, w) \<in> set items" for i' v' j w
      using Cons.prems(3) [of i' v' j w] that by (auto simp: x split: if_splits)
  qed
  then show ?case
    using f by (auto simp: x mi_emplace_def)
qed simp

lemma undo_new_ids_total:
  "distinct is \<Longrightarrow> (\<And>i. i \<in> set is \<Longrightarrow> fmlookup c i \<noteq> None) \<Longrightarrow> \<exists>c'. undo_new_ids is c = (c', Inr ())"
proof (induction "is" arbitrary: c)
  case (Cons a "is")
  have "\<exists>c'. undo_new_ids is (fmdrop a c) = (c', Inr ())"
    using Cons.prems by (intro Cons.IH) auto
  then show ?case using Cons.prems(2) [of a] by simp
qed simp

lemma in_sorted_list_of_fmap [simp]: "(i, v) \<in> set (sorted_list_of_fmap m) \<longleftrightarrow> fmlookup m i = Some v"
  by (metis sorted_list_of_fmap_facts map_of_eq_Some_iff)

lemma undo_total:
  assumes "stack s = u # us" "level_wf (indices s) n u" "undo_fits P u (indices s)"
  shows "\<exists>s'. undo P keep s = (s', Inr ())"
proof -
  let ?c = "indices s"
  have nr: "\<not> clash P v w" if "fmlookup (restore u ?c) i = Some v" "fmlookup (restore u ?c) j = Some w" "i \<noteq> j" for i j v w
    using assms(3) that by (auto simp: undo_fits_def consistent_def)
  have wf: "fmlookup (removed_values u) i = None" "i |\<notin>| new_ids u" if "fmlookup (old_values u) i = Some v" for i v
    using level_wfD(3,5) [OF assms(2), of i] that by auto
  obtain c1 where c1: "undo_old_values P (sorted_list_of_fmap (old_values u)) ?c = (c1, Inr ())"
  proof (atomize_elim, rule undo_old_values_total)
    show "\<not> clash P v w"
      if "(i, v) \<in> set (sorted_list_of_fmap (old_values u))" "j \<noteq> i"
        "fmlookup ?c j = Some w \<or> (j, w) \<in> set (sorted_list_of_fmap (old_values u))" for i v j w
    proof (cases "fmlookup ?c j = Some w")
      case True
      then show ?thesis using that(1,2) assms(3) unfolding undo_fits_def by (metis in_sorted_list_of_fmap)
    next
      case False
      then show ?thesis using that wf nr [of i v j w] by (auto simp: fmlookup_restore)
    qed
  qed simp
  then have e1: "c1 = fmadd ?c (old_values u)"
    using undo_old_values_Inr upd_all_fmadd by metis
  obtain c2 where c2: "undo_new_ids (sorted_list_of_fset (new_ids u)) c1 = (c2, Inr ())"
  proof (atomize_elim, rule undo_new_ids_total)
    show "distinct (sorted_list_of_fset (new_ids u))" by (simp add: sorted_list_of_fset.rep_eq)
    show "fmlookup c1 i \<noteq> None" if "i \<in> set (sorted_list_of_fset (new_ids u))" for i
      using that level_wfD(1,3) [OF assms(2), of i] by (auto simp: e1 fmlookup_dom_iff)
  qed
  then have e2: "c2 = fmdrop_fset (new_ids u) c1"
    using undo_new_ids_Inr drop_all_fset by metis
  have rs: "restore u ?c = fmadd c2 (removed_values u)"
    by (simp add: restore_def e1 e2 del: fmdrop_fset_add_distrib)
  have free: "fmlookup c2 i = None" if "fmlookup (removed_values u) i = Some v" for i v
    using that level_wfD(5,7) [OF assms(2), of i] by (auto simp: e1 e2 fmlookup_dom_iff)
  have look: "fmlookup (restore u ?c) j = Some w"
    if "fmlookup c2 j = Some w \<or> fmlookup (removed_values u) j = Some w" for j w
    using that free [of j] by (cases "fmlookup (removed_values u) j") (auto simp: rs fmlookup_dom_iff)
  obtain c3 where c3: "undo_removed_values P (sorted_list_of_fmap (removed_values u)) c2 = (c3, Inr ())"
  proof (atomize_elim, rule undo_removed_values_total)
    show "fmlookup c2 i = None" if "(i, v) \<in> set (sorted_list_of_fmap (removed_values u))" for i v
      using that free by simp
    show "\<not> clash P v w"
      if "(i, v) \<in> set (sorted_list_of_fmap (removed_values u))" "j \<noteq> i"
        "fmlookup c2 j = Some w \<or> (j, w) \<in> set (sorted_list_of_fmap (removed_values u))" for i v j w
      using that look nr [of i v j w] by simp
  qed simp
  show ?thesis
    using c1 c2 c3 by (auto simp: undo_def assms(1) Let_def)
qed

lemma merge_old_fold:
  assumes "distinct (map fst items)"
  shows "fmlookup (old_values (fold merge_old items p)) i =
      (if i |\<in>| new_ids p then fmlookup (old_values p) i
       else case fmlookup (old_values p) i of Some v \<Rightarrow> Some v | None \<Rightarrow> map_of items i)"
    "new_ids (fold merge_old items p) = new_ids p"
    "removed_values (fold merge_old items p) = removed_values p"
    "old_next_id (fold merge_old items p) = old_next_id p"
    "level_revision (fold merge_old items p) = level_revision p"
  using assms
proof (induction items arbitrary: p)
  case (Cons x items)
  obtain j v where x: "x = (j, v)" by force
  have j: "distinct (map fst (x # items)) \<Longrightarrow> map_of items j = None"
    by (simp add: x map_of_eq_None_iff)
  note m = merge_old_def
  { case 1 then show ?case using Cons.IH(1) [of "merge_old x p"] j [OF 1] by (auto simp: x m split: option.splits) }
  { case 2 then show ?case using Cons.IH(2) [of "merge_old x p"] by (simp add: x m) }
  { case 3 then show ?case using Cons.IH(3) [of "merge_old x p"] by (simp add: x m) }
  { case 4 then show ?case using Cons.IH(4) [of "merge_old x p"] by (simp add: x m) }
  { case 5 then show ?case using Cons.IH(5) [of "merge_old x p"] by (simp add: x m) }
qed (simp_all split: option.splits)

lemma merge_new_fold:
  fixes p :: "'v undo_state"
  shows "fold (\<lambda>i p. p\<lparr>new_ids := finsert i (new_ids p)\<rparr>) is p = p\<lparr>new_ids := fset_of_list is |\<union>| new_ids p\<rparr>"
  by (induction "is" arbitrary: p) simp_all

lemma merge_removed_fold:
  assumes "distinct (map fst items)"
  shows "i |\<in>| new_ids (fold merge_removed items p) \<longleftrightarrow> i |\<in>| new_ids p \<and> map_of items i = None"
    "fmlookup (old_values (fold merge_removed items p)) i =
      (if i |\<in>| new_ids p \<or> map_of items i = None then fmlookup (old_values p) i else None)"
    "fmlookup (removed_values (fold merge_removed items p)) i =
      (if i |\<in>| new_ids p \<or> fmlookup (removed_values p) i \<noteq> None then fmlookup (removed_values p) i
       else case map_of items i of None \<Rightarrow> None
            | Some v \<Rightarrow> (case fmlookup (old_values p) i of Some w \<Rightarrow> Some w | None \<Rightarrow> Some v))"
    "old_next_id (fold merge_removed items p) = old_next_id p"
    "level_revision (fold merge_removed items p) = level_revision p"
  using assms
proof (induction items arbitrary: p)
  case (Cons x items)
  obtain j v where x: "x = (j, v)" by force
  have j: "distinct (map fst (x # items)) \<Longrightarrow> map_of items j = None"
    by (simp add: x map_of_eq_None_iff)
  note m = merge_removed_def
  { case 1 then show ?case using Cons.IH(1) [of "merge_removed x p"] j [OF 1] by (auto simp: x m split: option.splits) }
  { case 2 then show ?case using Cons.IH(2) [of "merge_removed x p"] j [OF 2] by (auto simp: x m split: option.splits) }
  { case 3 then show ?case using Cons.IH(3) [of "merge_removed x p"] j [OF 3] by (auto simp: x m split: option.splits) }
  { case 4 then show ?case using Cons.IH(4) [of "merge_removed x p"] by (simp add: x m split: option.splits) }
  { case 5 then show ?case using Cons.IH(5) [of "merge_removed x p"] by (simp add: x m split: option.splits) }
qed simp_all

lemma merge_levels_lookup:
  "i |\<in>| new_ids (merge_levels u p) \<longleftrightarrow>
     (i |\<in>| new_ids p \<or> i |\<in>| new_ids u) \<and> fmlookup (removed_values u) i = None"
  "fmlookup (old_values (merge_levels u p)) i =
     (if i |\<in>| new_ids u \<or> i |\<in>| new_ids p \<or> fmlookup (removed_values u) i = None
      then (if i |\<in>| new_ids p then fmlookup (old_values p) i
            else case fmlookup (old_values p) i of Some v \<Rightarrow> Some v | None \<Rightarrow> fmlookup (old_values u) i)
      else None)"
  "fmlookup (removed_values (merge_levels u p)) i =
     (if i |\<in>| new_ids u \<or> i |\<in>| new_ids p \<or> fmlookup (removed_values p) i \<noteq> None
      then fmlookup (removed_values p) i
      else case fmlookup (removed_values u) i of None \<Rightarrow> None
           | Some v \<Rightarrow>
              (case (case fmlookup (old_values p) i of Some w \<Rightarrow> Some w | None \<Rightarrow> fmlookup (old_values u) i) of
                 Some w \<Rightarrow> Some w | None \<Rightarrow> Some v))"
  "old_next_id (merge_levels u p) = old_next_id p"
  "level_revision (merge_levels u p) = level_revision p"
  by (simp_all add: merge_levels_def Let_def merge_new_fold merge_removed_fold merge_old_fold
      split: option.splits) auto

text \<open>What a level can say of one object: the rows and columns of the merge table.\<close>

lemma level_cases [consumes 1, case_names new upd del nop]:
  assumes "level_wf c n u"
  obtains v where "i |\<in>| new_ids u" "fmlookup (old_values u) i = None"
      "fmlookup (removed_values u) i = None" "fmlookup c i = Some v" "old_next_id u \<le> i" "i < n"
      "fmlookup (restore u c) i = None"
    | x where "i |\<notin>| new_ids u" "fmlookup (old_values u) i = Some x"
      "fmlookup (removed_values u) i = None" "i < old_next_id u" "fmlookup (restore u c) i = Some x"
    | x where "i |\<notin>| new_ids u" "fmlookup (old_values u) i = None"
      "fmlookup (removed_values u) i = Some x" "fmlookup c i = None" "i < old_next_id u"
      "fmlookup (restore u c) i = Some x"
    | "i |\<notin>| new_ids u" "fmlookup (old_values u) i = None" "fmlookup (removed_values u) i = None"
      "fmlookup (restore u c) i = fmlookup c i" "fmlookup c i \<noteq> None \<longrightarrow> i < old_next_id u"
proof (cases "i |\<in>| new_ids u")
  case True
  then show ?thesis
    using that(1) level_wfD(1-4,9) [OF assms, of i] by (force simp: fmlookup_restore)
next
  case False
  show ?thesis
  proof (cases "fmlookup (old_values u) i")
    case (Some x)
    then show ?thesis
      using that(2) False level_wfD(5,6) [OF assms, of i] by (simp add: fmlookup_restore)
  next
    case None
    then show ?thesis
      using that(3,4) False level_wfD(7,8,10) [OF assms, of i]
      by (cases "fmlookup (removed_values u) i") (auto simp: fmlookup_restore)
  qed
qed

lemma merge_levels_restore:
  assumes "level_wf c n u" "level_wf (restore u c) (old_next_id u) p" "level_complete c u"
  shows "restore (merge_levels u p) c = restore p (restore u c)"
    "level_wf c n (merge_levels u p)"
proof -
  let ?m = "merge_levels u p"
  have oc: "fmlookup c i \<noteq> None" if "fmlookup (old_values u) i = Some x" for i x
    using assms(3) that by (auto simp: level_complete_def)
  have le: "old_next_id p \<le> old_next_id u" "old_next_id u \<le> n"
    using level_wfD(11) [OF assms(2)] level_wfD(11) [OF assms(1)] .
  have bound: "fmlookup c i \<noteq> None \<longrightarrow> i < n" for i
    using level_wfD(9) [OF assms(1), of i] by auto
  have "fmlookup (restore ?m c) i = fmlookup (restore p (restore u c)) i \<and>
     (i |\<in>| new_ids ?m \<longrightarrow> fmlookup c i \<noteq> None \<and> old_next_id ?m \<le> i \<and>
        fmlookup (old_values ?m) i = None \<and> fmlookup (removed_values ?m) i = None) \<and>
     (fmlookup (old_values ?m) i \<noteq> None \<longrightarrow>
        fmlookup (removed_values ?m) i = None \<and> i < old_next_id ?m) \<and>
     (fmlookup (removed_values ?m) i \<noteq> None \<longrightarrow> fmlookup c i = None \<and> i < old_next_id ?m) \<and>
     (fmlookup c i \<noteq> None \<longrightarrow> i < n \<and> (i |\<in>| new_ids ?m \<or> i < old_next_id ?m))" for i
    using assms(1)
  proof (cases rule: level_cases [where i = i])
    case (new v)
    with assms(2) show ?thesis
      by (cases rule: level_cases [where i = i]) (use le in \<open>simp_all add: fmlookup_restore [of ?m] merge_levels_lookup\<close>)
  next
    case (upd x)
    with assms(2) oc [of i x] show ?thesis
      by (cases rule: level_cases [where i = i]) (use le bound [of i] in \<open>simp_all add: fmlookup_restore [of ?m] merge_levels_lookup\<close>)
  next
    case (del x)
    with assms(2) show ?thesis
      by (cases rule: level_cases [where i = i]) (use le in \<open>simp_all add: fmlookup_restore [of ?m] merge_levels_lookup\<close>)
  next
    case nop
    with assms(2) show ?thesis
      by (cases rule: level_cases [where i = i]; cases "fmlookup c i")
        (use le bound [of i] in \<open>auto simp: fmlookup_restore [of ?m] merge_levels_lookup\<close>)
  qed
  then show "restore ?m c = restore p (restore u c)" "level_wf c n ?m"
    using le by (auto simp: level_wf_def merge_levels_lookup(4) intro: fmap_ext)
qed

text \<open>An operation that changes the last level so that it still restores the same objects keeps
  the whole history.\<close>

lemma head_update:
  assumes "index_wf s" "stack_complete (indices s) (stack s)"
    and "stack s = [] \<Longrightarrow> (\<forall>i. fmlookup c i \<noteq> None \<longrightarrow> i < n)"
    and "\<And>u us. stack s = u # us \<Longrightarrow> restore (f u) c = restore u (indices s) \<and> level_wf c n (f u) \<and>
      old_next_id (f u) = old_next_id u \<and> level_revision (f u) = level_revision u \<and> level_complete c (f u)"
    and "s' = (set_head f s)\<lparr>indices := c, next_id := n\<rparr>"
  shows "index_wf s'" "stack_complete (indices s') (stack s')" "history s' = history s"
    "indices s' = c" "next_id s' = n"
  using assms by (cases "stack s"; simp add: index_wf_def history_def set_head_def)+

lemma consistent_upd:
  assumes "consistent P c" "clash_sym P" "fits P i v c"
  shows "consistent P (fmupd i v c)"
  using assms by (auto simp: consistent_def clash_sym_def fits_def dest: fmpredD)

lemma consistent_drop: "consistent P c \<Longrightarrow> consistent P (fmdrop i c)"
  by (auto simp: consistent_def)

lemma indices_below:
  assumes "index_wf s" "fmlookup (indices s) i \<noteq> None"
  shows "i < next_id s"
  using assms level_wfD(9) by (cases "stack s") (auto simp: index_wf_def)

lemma set_head_sel [simp]:
  "indices (set_head f s) = indices s" "next_id (set_head f s) = next_id s"
  "revision (set_head f s) = revision s"
  by (simp_all add: set_head_def split: list.splits)

lemma edit_create:
  assumes "store_inv P s" "ctor (next_id s) = Inr v" "fits P (next_id s) v (indices s)"
  shows "store_inv P (fst (emplace P ctor s))" "history (fst (emplace P ctor s)) = history s"
proof -
  let ?n = "next_id s" and ?c = "fmupd (next_id s) v (indices s)"
  have wf: "index_wf s" and cm: "stack_complete (indices s) (stack s)"
    using assms(1) by (simp_all add: store_inv_def)
  have fresh: "fmlookup (indices s) ?n = None"
    using indices_below [OF wf, of ?n] by (cases "fmlookup (indices s) ?n") auto
  have s': "fst (emplace P ctor s) = (set_head (level_create ?n) s)\<lparr>indices := ?c, next_id := Suc ?n\<rparr>"
    using assms fresh
    by (cases "stack s") (simp_all add: emplace_def mi_emplace_def on_create_def set_head_def Let_def)
  note hu = head_update [OF wf cm _ _ s']
  have 1: "\<forall>i. fmlookup ?c i \<noteq> None \<longrightarrow> i < Suc ?n"
    using indices_below [OF wf] less_Suc_eq by auto
  have 2: "restore (level_create ?n u) ?c = restore u (indices s) \<and> level_wf ?c (Suc ?n) (level_create ?n u) \<and>
      old_next_id (level_create ?n u) = old_next_id u \<and>
      level_revision (level_create ?n u) = level_revision u \<and> level_complete ?c (level_create ?n u)"
    if "stack s = u # us" for u us
    using wf cm that level_create_restore(1,2) [OF _ fresh, where u = u and v = v]
    by (auto simp: index_wf_def level_complete_def level_create_def)
  have "consistent P ?c"
    using assms by (intro consistent_upd) (simp_all add: store_inv_def)
  then show "store_inv P (fst (emplace P ctor s))" "history (fst (emplace P ctor s)) = history s"
    using hu [OF 1 2] assms(1) by (simp_all add: store_inv_def)
qed

lemma edit_modify:
  assumes "store_inv P s" "fmlookup (indices s) i = Some v" "fits P i (fst (m v)) (indices s)"
  shows "store_inv P (fst (modify P i m s))" "history (fst (modify P i m s)) = history s"
proof -
  let ?n = "next_id s" and ?c = "fmupd i (fst (m v)) (indices s)"
  have wf: "index_wf s" and cm: "stack_complete (indices s) (stack s)"
    using assms(1) by (simp_all add: store_inv_def)
  have s': "fst (modify P i m s) = (set_head (level_modify i v) s)\<lparr>indices := ?c, next_id := ?n\<rparr>"
    using assms by (cases "stack s"; cases "m v"; cases "snd (m v)")
      (simp_all add: modify_def mi_modify_def on_modify_def set_head_def Let_def split: prod.splits sum.splits)
  note hu = head_update [OF wf cm _ _ s']
  have 1: "\<forall>j. fmlookup ?c j \<noteq> None \<longrightarrow> j < ?n"
    using indices_below [OF wf] assms(2) by auto
  have 2: "restore (level_modify i v u) ?c = restore u (indices s) \<and> level_wf ?c ?n (level_modify i v u) \<and>
      old_next_id (level_modify i v u) = old_next_id u \<and>
      level_revision (level_modify i v u) = level_revision u \<and> level_complete ?c (level_modify i v u)"
    if "stack s = u # us" for u us
    using wf cm that level_modify_restore(1,2) [OF _ assms(2), where u = u and v' = "fst (m v)" and n = ?n]
    by (auto simp: index_wf_def level_complete_def level_modify_def)
  have "consistent P ?c"
    using assms by (intro consistent_upd) (simp_all add: store_inv_def)
  then show "store_inv P (fst (modify P i m s))" "history (fst (modify P i m s)) = history s"
    using hu [OF 1 2] assms(1) by (simp_all add: store_inv_def)
qed

lemma edit_remove:
  assumes "store_inv P s" "fmlookup (indices s) i = Some v" "check_on_remove P v = Inr ()"
  shows "store_inv P (fst (remove P i s))" "history (fst (remove P i s)) = history s"
proof -
  let ?n = "next_id s" and ?c = "fmdrop i (indices s)"
  have wf: "index_wf s" and cm: "stack_complete (indices s) (stack s)"
    using assms(1) by (simp_all add: store_inv_def)
  have s': "fst (remove P i s) = (set_head (level_remove i v) s)\<lparr>indices := ?c, next_id := ?n\<rparr>"
    using assms by (cases "stack s") (simp_all add: remove_def on_remove_def set_head_def)
  note hu = head_update [OF wf cm _ _ s']
  have 1: "\<forall>j. fmlookup ?c j \<noteq> None \<longrightarrow> j < ?n"
    using indices_below [OF wf] by auto
  have 2: "restore (level_remove i v u) ?c = restore u (indices s) \<and> level_wf ?c ?n (level_remove i v u) \<and>
      old_next_id (level_remove i v u) = old_next_id u \<and>
      level_revision (level_remove i v u) = level_revision u \<and> level_complete ?c (level_remove i v u)"
    if "stack s = u # us" for u us
    using wf cm that level_remove_restore(1,2) [OF _ assms(2), where u = u and n = ?n] level_wfD(3) [of "indices s" ?n u i]
    by (auto simp: index_wf_def level_complete_def level_remove_def split: option.splits)
  have "consistent P ?c"
    using assms by (intro consistent_drop) (simp_all add: store_inv_def)
  then show "store_inv P (fst (remove P i s))" "history (fst (remove P i s)) = history s"
    using hu [OF 1 2] assms(1) by (simp_all add: store_inv_def)
qed

lemma edit_law:
  assumes "store_inv P s" "keeps_unique P e s"
  shows "store_inv P (apply_edit P e s) \<and> history (apply_edit P e s) = history s"
proof (cases e)
  case (Create ctor)
  have fresh: "fmlookup (indices s) (next_id s) = None"
    using assms(1) indices_below [of s "next_id s"]
    by (cases "fmlookup (indices s) (next_id s)") (auto simp: store_inv_def)
  have "emplace P ctor s = (s, snd (emplace P ctor s)) \<or>
      (\<exists>v. ctor (next_id s) = Inr v \<and> fits P (next_id s) v (indices s))"
    by (cases "ctor (next_id s)") (auto simp: emplace_def mi_emplace_def Let_def fresh)
  then show ?thesis
    using edit_create [OF assms(1)] assms(1) by (auto simp: apply_edit_def Create) (metis fst_conv)+
next
  case (Modify i m)
  then show ?thesis
    using edit_modify [OF assms(1), of i _ m] assms
    by (cases "fmlookup (indices s) i") (simp_all add: apply_edit_def keeps_unique_def modify_def)
next
  case (Remove i)
  have "remove P i s = (s, snd (remove P i s)) \<or>
      (\<exists>v. fmlookup (indices s) i = Some v \<and> check_on_remove P v = Inr ())"
    by (auto simp: remove_def split: option.splits sum.splits)
  then show ?thesis
    using edit_remove [OF assms(1)] assms(1) by (auto simp: apply_edit_def Remove) (metis fst_conv)+
qed

lemma restore_fresh [simp]:
  "restore \<lparr>old_values = fmempty, removed_values = fmempty, new_ids = {||}, old_next_id = n, level_revision = r\<rparr> c = c"
  "restore (clear_level u) c = c"
  "restore (u\<lparr>old_next_id := n\<rparr>) c = restore u c"
  "restore (u\<lparr>level_revision := r\<rparr>) c = restore u c"
  by (simp_all add: restore_def clear_level_def)

lemma open_law:
  assumes "store_inv P s"
  shows "store_inv P (start_undo_session s) \<and> view (start_undo_session s) = view s \<and>
    history (start_undo_session s) = view s # history s"
  using assms indices_below [of s]
  by (auto simp: store_inv_def start_undo_session_def index_wf_def history_def view_def level_wf_def
      level_complete_def)

lemma undo_law:
  assumes "store_inv P s" "undo P False s = (t, Inr ())" "history s = h # hs"
  shows "store_inv P t \<and> view t = h \<and> history t = hs"
proof -
  obtain u us where s: "stack s = u # us"
    using assms(3) by (cases "stack s") (simp_all add: history_def)
  show ?thesis
    using undo_Inr [OF assms(2) s] assms(1,3) s
    by (auto simp: store_inv_def index_wf_def history_def view_def)
qed

lemma merge_levels_complete:
  assumes "level_wf c n u" "level_wf (restore u c) (old_next_id u) p"
    and "level_complete c u" "level_complete (restore u c) p"
  shows "level_complete c (merge_levels u p)"
  unfolding level_complete_def
proof (intro allI impI)
  fix i
  assume i: "fmlookup (old_values (merge_levels u p)) i \<noteq> None"
  have "fmlookup (old_values p) i \<noteq> None \<longrightarrow> fmlookup (restore u c) i \<noteq> None"
    "fmlookup (old_values u) i \<noteq> None \<longrightarrow> fmlookup c i \<noteq> None"
    using assms(3,4) by (auto simp: level_complete_def)
  moreover have "i |\<in>| new_ids p \<longrightarrow> fmlookup (old_values p) i = None"
    using level_wfD(3) [OF assms(2)] by blast
  ultimately show "fmlookup c i \<noteq> None"
    using assms(1) i
    by (cases rule: level_cases [OF assms(1), where i = i])
      (auto simp: merge_levels_lookup split: if_splits)
qed

lemma squash_law:
  assumes "store_inv P s" "history s = h # hs"
  shows "store_inv P (squash False s) \<and> view (squash False s) = view s \<and> history (squash False s) = hs"
proof -
  obtain u us where s: "stack s = u # us"
    using assms(2) by (cases "stack s") (simp_all add: history_def)
  show ?thesis
  proof (cases us)
    case Nil
    then show ?thesis
      using assms s indices_below [of s]
      by (auto simp: squash_def store_inv_def index_wf_def history_def view_def)
  next
    case (Cons p ps)
    then have wf: "level_wf (indices s) (next_id s) u" "level_wf (restore u (indices s)) (old_next_id u) p"
      "level_complete (indices s) u" "level_complete (restore u (indices s)) p"
      using assms(1) s by (simp_all add: store_inv_def index_wf_def)
    show ?thesis
      using merge_levels_restore [OF wf(1-3)] merge_levels_complete [OF wf] assms s Cons
      by (auto simp: squash_def store_inv_def index_wf_def history_def view_def merge_levels_lookup(4,5))
  qed
qed

locale snapshot_stack =
  fixes inv :: "'s \<Rightarrow> bool"
    and view_of :: "'s \<Rightarrow> 'c"
    and past :: "'s \<Rightarrow> 'c list"
    and opens edits undoes squashes :: "'s \<Rightarrow> 's \<Rightarrow> bool"
  assumes opens_law: "inv s \<Longrightarrow> opens s t \<Longrightarrow> inv t \<and> view_of t = view_of s \<and> past t = view_of s # past s"
    and edits_law: "inv s \<Longrightarrow> edits s t \<Longrightarrow> inv t \<and> past t = past s"
    and undoes_law: "inv s \<Longrightarrow> undoes s t \<Longrightarrow> past s = h # hs \<Longrightarrow> inv t \<and> view_of t = h \<and> past t = hs"
    and squashes_law:
      "inv s \<Longrightarrow> squashes s t \<Longrightarrow> past s = h # hs \<Longrightarrow> inv t \<and> view_of t = view_of s \<and> past t = hs"
begin

text \<open>\<open>nested s d t\<close>: a run from \<open>s\<close> to \<open>t\<close> that closes no session opened before \<open>s\<close> and leaves
  \<open>d\<close> of its own sessions open.\<close>

inductive nested :: "'s \<Rightarrow> nat \<Rightarrow> 's \<Rightarrow> bool" for s where
  nested_refl: "nested s 0 s"
| nested_open: "nested s d t \<Longrightarrow> opens t t' \<Longrightarrow> nested s (Suc d) t'"
| nested_edit: "nested s d t \<Longrightarrow> edits t t' \<Longrightarrow> nested s d t'"
| nested_undo: "nested s (Suc d) t \<Longrightarrow> undoes t t' \<Longrightarrow> nested s d t'"
| nested_squash: "nested s (Suc d) t \<Longrightarrow> squashes t t' \<Longrightarrow> nested s d t'"

lemma nested_past:
  assumes "nested s d t" "inv s"
  shows "inv t \<and> (\<exists>pre. length pre = d \<and> past t = pre @ past s)"
  using assms
proof (induction rule: nested.induct)
  case (nested_open d t t')
  then show ?case using opens_law [of t t'] by (metis append_Cons length_Cons)
next
  case (nested_undo d t t')
  then obtain p pre where "past t = p # pre @ past s" "length pre = d" "inv t"
    by (auto simp: length_Suc_conv)
  then show ?case using undoes_law nested_undo.hyps(2) by blast
next
  case (nested_squash d t t')
  then obtain p pre where "past t = p # pre @ past s" "length pre = d" "inv t"
    by (auto simp: length_Suc_conv)
  then show ?case using squashes_law nested_squash.hyps(2) by blast
qed (use edits_law in auto)

lemma rollback:
  assumes "inv s" "opens s s0" "nested s0 0 t" "undoes t t'"
  shows "inv t' \<and> view_of t' = view_of s \<and> past t' = past s"
  using opens_law [OF assms(1,2)] nested_past [OF assms(3)] undoes_law [of t t'] assms(4) by simp

lemma squashed:
  assumes "inv s" "opens s s0" "nested s0 0 t" "squashes t t'"
  shows "inv t' \<and> view_of t' = view_of t \<and> past t' = past s"
  using opens_law [OF assms(1,2)] nested_past [OF assms(3)] squashes_law [of t t'] assms(4) by simp

end

interpretation cb: snapshot_stack "store_inv P" view history starts "edited P" "undone P" squashed_to
  for P :: "'v value_ops"
  by unfold_locales
    (auto simp: starts_def edited_def undone_def squashed_to_def
      dest: open_law edit_law undo_law squash_law)

lemma session_run_nested: "session_run P s d t \<Longrightarrow> cb.nested P s d t"
proof (induction rule: session_run.induct)
  case run_start
  show ?case by (rule cb.nested_refl)
next
  case (run_open d t)
  have "starts t (start_undo_session t)" by (simp add: starts_def)
  with run_open.IH show ?case by (rule cb.nested_open)
next
  case (run_edit d t e)
  have "edited P t (apply_edit P e t)" using run_edit.hyps(2) by (auto simp: edited_def)
  with run_edit.IH show ?case by (rule cb.nested_edit)
next
  case (run_undo d t t')
  have "undone P t t'" using run_undo.hyps(2) by (simp add: undone_def)
  with run_undo.IH show ?case by (rule cb.nested_undo)
next
  case (run_squash d t)
  have "squashed_to t (squash False t)" by (simp add: squashed_to_def)
  with run_squash.IH show ?case by (rule cb.nested_squash)
qed

lemma session_rollback_law:
  assumes "store_inv P s" "session_run P (start_undo_session s) 0 t" "undo P False t = (t', Inr ())"
  shows "indices t' = indices s \<and> next_id t' = next_id s \<and> history t' = history s \<and> store_inv P t'"
  using cb.rollback [OF assms(1) _ session_run_nested [OF assms(2)], of t'] assms(3)
  by (auto simp: starts_def undone_def view_def)

lemma empty_store: "clash_sym P \<Longrightarrow> store_inv P empty_index"
  by (simp add: store_inv_def index_wf_def empty_index_def history_def consistent_def)

lemma unique_ops_sym: "clash_sym unique_ops"
  by (auto simp: clash_sym_def unique_ops_def)

lemma one_object_inv: "store_inv unique_ops one_object"
  unfolding one_object_def
  using edit_law [OF empty_store [OF unique_ops_sym]] by (simp add: keeps_unique_def)

lemma example_session_run:
  "session_run unique_ops (start_undo_session one_object) 0 example_session"
proof -
  have "keeps_unique unique_ops (Modify 0 (\<lambda>v. (v + 6, Inr ()))) (start_undo_session one_object)"
    by code_simp
  then have "session_run unique_ops (start_undo_session one_object) 0
      (run_edits unique_ops example_edits (start_undo_session one_object))"
    unfolding run_edits_def example_edits_def
    by (auto simp: keeps_unique_def intro!: run_edit run_start)
  then show ?thesis
    unfolding example_session_def by (intro run_squash run_open)
qed

lemma example_session_undo:
  "undo unique_ops False example_session = (fst (undo unique_ops False example_session), Inr ())"
proof -
  have "snd (undo unique_ops False example_session) = Inr ()" by code_simp
  then show ?thesis by (metis prod.collapse)
qed





lemma revisions_take:
  assumes "revisions_ok r us"
  shows "rev (dropWhile (\<lambda>u. level_revision u \<le> n) (rev us)) = take (nat (r - n)) us"
  using assms
proof (induction us arbitrary: r)
  case (Cons u us)
  let ?p = "\<lambda>u. level_revision u \<le> n"
  have IH: "rev (dropWhile ?p (rev us)) = take (nat (r - 1 - n)) us"
    using Cons by simp
  show ?case
  proof (cases "r \<le> n")
    case True
    then have "dropWhile ?p (rev us) = []" using IH by simp
    then have "\<forall>x \<in> set (rev us). ?p x" by (simp only: dropWhile_eq_Nil_conv)
    then show ?thesis using True Cons.prems by (simp add: dropWhile_append3)
  next
    case False
    then have "nat (r - n) = Suc (nat (r - 1 - n))" by simp
    moreover have "dropWhile ?p (rev us @ [u]) = dropWhile ?p (rev us) @ [u]"
      using False Cons.prems by (auto simp: dropWhile_append)
    ultimately show ?thesis using IH by simp
  qed
qed simp

lemma take_stack:
  "snapshots c (take k us) = take k (snapshots c us)"
  "stack_wf c n us \<Longrightarrow> stack_wf c n (take k us)"
  "revisions_ok r us \<Longrightarrow> revisions_ok r (take k us)"
  "stack_complete c us \<Longrightarrow> stack_complete c (take k us)"
proof (induction us arbitrary: c n r k)
  case (Cons u us)
  { case 1 then show ?case using Cons.IH(1) by (cases k) simp_all }
  { case 2 then show ?case using Cons.IH(2) level_wfD(9) by (cases k) auto }
  { case 3 then show ?case using Cons.IH(3) by (cases k) auto }
  { case 4 then show ?case using Cons.IH(4) by (cases k) auto }
qed simp_all






lemma handed_over_run:
  "session_run unique_ops (start_undo_session one_object) 0
     (run_edits unique_ops handed_over (start_undo_session one_object))"
proof -
  have "keeps_unique unique_ops (Modify 0 (\<lambda>_. (2, Inr ()))) (start_undo_session one_object)"
    by code_simp
  then show ?thesis
    unfolding run_edits_def handed_over_def
    by (auto simp: keeps_unique_def intro!: run_edit run_start)
qed

lemma handed_over_undo:
  "snd (undo unique_ops False (run_edits unique_ops handed_over (start_undo_session one_object))) =
     Inl Logic_error"
  "fmlookup (indices (fst (undo unique_ops False
     (run_edits unique_ops handed_over (start_undo_session one_object))))) 0 = None"
  by code_simp+


lemma undo_levels_Inr:
  assumes "store_inv P s" "length (stack s) = k" "undo_levels P k s = (t, Inr ())"
  shows "store_inv P t \<and> stack t = [] \<and> view t = last (view s # history s)"
  using assms
proof (induction k arbitrary: s)
  case (Suc k)
  obtain s' where u: "undo P False s = (s', Inr ())" "undo_levels P k s' = (t, Inr ())"
    using Suc.prems(3) by (auto split: prod.splits sum.splits)
  obtain l ls where st: "stack s = l # ls" using Suc.prems(2) by (cases "stack s") auto
  have law: "store_inv P s' \<and> view s' = hd (history s) \<and> history s' = tl (history s)"
    using undo_law [OF Suc.prems(1) u(1)] st by (simp add: history_def)
  moreover have "length (stack s') = k"
    using undo_Inr [OF u(1) st] Suc.prems(2) st by simp
  ultimately have "store_inv P t \<and> stack t = [] \<and> view t = last (view s' # history s')"
    using Suc.IH u(2) by blast
  then show ?case using law st by (simp add: history_def)
qed (simp add: history_def)

lemma db_undo_Inr:
  "db_undo keep db = (db', Inr ()) \<Longrightarrow>
     list_all2 (\<lambda>(P, s) (Q, t). Q = P \<and> undo P keep s = (t, Inr ())) db db'"
proof (induction db arbitrary: db')
  case (Cons x db)
  obtain P s where x: "x = (P, s)" by force
  obtain s' ds where "undo P keep s = (s', Inr ())" "db_undo keep db = (ds, Inr ())"
    "db' = (P, s') # ds"
    using Cons.prems by (auto simp: x split: prod.splits sum.splits)
  then show ?case using Cons.IH by (simp add: x)
qed auto



end
