(* ===== verification/Fork_Database.thy ===== *)
theory Fork_Database
  imports Prelude
begin

text \<open>
  The tree of reversible blocks (\<^verbatim>\<open>chain/fork_database.hpp\<close>, \<^verbatim>\<open>chain/fork_database.cpp\<close>). Blocks that
  link to a known block form a tree held in \<^verbatim>\<open>_index\<close>; blocks that arrive before their parent wait
  in \<^verbatim>\<open>_unlinked_index\<close>. The read-write lock around every operation is not modelled: an operation
  is one step on the state.
\<close>

section \<open>Blocks and items\<close>

text \<open>A block id is the 160-bit hash whose first 32 bits are replaced by the block number, read as
  a big-endian number; 0 is the default id.\<close>

definition num_from_id :: "nat \<Rightarrow> nat" where
  "num_from_id i = i div 2 ^ 128"

record block =
  block_id :: nat
  previous :: nat
  witness :: string
  timestamp :: nat

definition get_block_num :: "block \<Rightarrow> nat" where
  "get_block_num b = num_from_id (block_id b)"

text \<open>
  A \<^verbatim>\<open>fork_item\<close> is an object that is shared by pointers. Items live in a store and are named by
  their position in it; \<open>prev\<close> is the weak pointer to the parent.
\<close>

record fork_item =
  prev :: "nat option"
  invalid :: bool
  full_block :: block

definition new_item :: "block \<Rightarrow> fork_item" where
  "new_item b = \<lparr>prev = None, invalid = False, full_block = b\<rparr>"

record fork_database =
  items :: "fork_item list"
  index :: "nat list"
  unlinked_index :: "nat list"
  head :: "nat option"
  max_size :: nat

definition empty_fork_db :: fork_database where
  "empty_fork_db = \<lparr>items = [], index = [], unlinked_index = [], head = None, max_size = 1024\<rparr>"

definition blk :: "fork_database \<Rightarrow> nat \<Rightarrow> block" where
  "blk s a = full_block (items s ! a)"

abbreviation num_of :: "fork_database \<Rightarrow> nat \<Rightarrow> nat" where
  "num_of s a \<equiv> get_block_num (blk s a)"

text \<open>\<^verbatim>\<open>weak_ptr::lock\<close>: the item is alive as long as one of the containers or the head holds it.\<close>

definition lock :: "fork_database \<Rightarrow> nat option \<Rightarrow> nat option" where
  "lock s w =
     (case w of None \<Rightarrow> None
      | Some a \<Rightarrow> if a \<in> set (index s) \<or> a \<in> set (unlinked_index s) \<or> head s = Some a
                  then Some a else None)"

text \<open>Both containers have a unique index on the block id: an insertion of a known id is refused.\<close>

definition find_id :: "fork_database \<Rightarrow> nat list \<Rightarrow> nat \<Rightarrow> nat option" where
  "find_id s as i = List.find (\<lambda>a. block_id (blk s a) = i) as"

definition insert_item :: "fork_database \<Rightarrow> nat \<Rightarrow> nat list \<Rightarrow> nat list" where
  "insert_item s a as = (if find_id s as (block_id (blk s a)) = None then as @ [a] else as)"

definition allocate :: "block \<Rightarrow> fork_database \<Rightarrow> nat \<times> fork_database" where
  "allocate b s = (length (items s), s\<lparr>items := items s @ [new_item b]\<rparr>)"

text \<open>Block numbers are \<^verbatim>\<open>uint32_t\<close>: sums and differences are taken modulo \<open>2^32\<close>.\<close>

definition u32 :: "nat \<Rightarrow> nat" where
  "u32 x = x mod 4294967296"

definition u32_sub :: "nat \<Rightarrow> nat \<Rightarrow> nat" where
  "u32_sub x y = u32 (x + (4294967296 - y))"

section \<open>Changing the tree\<close>

definition reset :: "fork_database \<Rightarrow> fork_database" where
  "reset s = s\<lparr>head := None, index := []\<rparr>"

definition pop_block :: "fork_database \<Rightarrow> fork_database res" where
  "pop_block s =
     (case head s of
        None \<Rightarrow> Inl (Assert_exn ''cannot pop an empty fork database'')
      | Some h \<Rightarrow>
          (case lock s (prev (items s ! h)) of
             None \<Rightarrow> Inl (Assert_exn ''popping head block would leave fork DB empty'')
           | Some p \<Rightarrow> Inr (s\<lparr>head := Some p\<rparr>)))"

definition start_block :: "block \<Rightarrow> fork_database \<Rightarrow> fork_database" where
  "start_block b s =
     (case allocate b s of (a, s1) \<Rightarrow> s1\<lparr>index := insert_item s1 a (index s1), head := Some a\<rparr>)"

definition too_old :: "fork_database \<Rightarrow> nat \<Rightarrow> bool" where
  "too_old s n = (case head s of None \<Rightarrow> False | Some h \<Rightarrow> \<not> n > num_of s h - max_size s)"

text \<open>\<^verbatim>\<open>_push_block\<close> up to the call of \<^verbatim>\<open>_push_next\<close>.\<close>

definition attach_parent :: "nat \<Rightarrow> fork_database \<Rightarrow> fork_database res" where
  "attach_parent a s =
     (if head s \<noteq> None \<and> previous (blk s a) \<noteq> 0 then
        (case find_id s (index s) (previous (blk s a)) of
           None \<Rightarrow> Inl Unlinkable_exn
         | Some p \<Rightarrow>
             if invalid (items s ! p) then Inl (Assert_exn ''invalid'')
             else Inr (s\<lparr>items := (items s)[a := (items s ! a)\<lparr>prev := Some p\<rparr>]\<rparr>))
      else Inr s)"

definition put_item :: "nat \<Rightarrow> fork_database \<Rightarrow> fork_database" where
  "put_item a s =
     s\<lparr>index := insert_item s a (index s),
       head := (case head s of None \<Rightarrow> Some a
                | Some h \<Rightarrow> if num_of s a > num_of s h then Some a else Some h)\<rparr>"

definition link_block :: "nat \<Rightarrow> fork_database \<Rightarrow> fork_database res" where
  "link_block a s =
     (if too_old s (num_of s a) then Inl Unlinkable_exn
      else bind_r (attach_parent a s) (\<lambda>s1. Inr (put_item a s1)))"

text \<open>
  \<^verbatim>\<open>_push_next\<close> calls \<^verbatim>\<open>_push_block\<close> for every waiting child, which calls \<^verbatim>\<open>_push_next\<close> again. What
  \<^verbatim>\<open>_push_block\<close> throws is an \<^verbatim>\<open>fc::assert_exception\<close>, which the loop swallows. Every round takes an
  item out of the waiting ones, so that their number bounds the rounds; \<open>n\<close> counts them down.
\<close>

definition unqueue :: "nat \<Rightarrow> fork_database \<Rightarrow> fork_database" where
  "unqueue t s = s\<lparr>unlinked_index := remove1 t (unlinked_index s)\<rparr>"

definition waiting_child :: "nat \<Rightarrow> fork_database \<Rightarrow> nat option" where
  "waiting_child a s =
     List.find (\<lambda>t. previous (blk s t) = block_id (blk s a)) (unlinked_index s)"

fun push_next :: "nat \<Rightarrow> nat \<Rightarrow> fork_database \<Rightarrow> fork_database" where
  "push_next 0 a s = s"
| "push_next (Suc n) a s =
     (case waiting_child a s of
        None \<Rightarrow> s
      | Some t \<Rightarrow>
          let s1 = unqueue t s in
          push_next n a (case link_block t s1 of Inl _ \<Rightarrow> s1 | Inr s2 \<Rightarrow> push_next n t s2))"

definition push_item :: "nat \<Rightarrow> fork_database \<Rightarrow> fork_database res" where
  "push_item a s = bind_r (link_block a s) (\<lambda>s1. Inr (push_next (length (unlinked_index s1)) a s1))"

definition push_block :: "block \<Rightarrow> fork_database \<Rightarrow> fork_database \<times> (nat option) res" where
  "push_block b s =
     (case allocate b s of (a, s1) \<Rightarrow>
        (case push_item a s1 of
           Inr s2 \<Rightarrow> (s2, Inr (head s2))
         | Inl e \<Rightarrow>
             if e = Unlinkable_exn
             then (s1\<lparr>unlinked_index := insert_item s1 a (unlinked_index s1)\<rparr>, Inl e)
             else (s1, Inl e)))"

definition set_max_size :: "nat \<Rightarrow> fork_database \<Rightarrow> fork_database" where
  "set_max_size n s =
     (let s1 = s\<lparr>max_size := n\<rparr> in
      case head s1 of
        None \<Rightarrow> s1
      | Some h \<Rightarrow>
          s1\<lparr>index := filter (\<lambda>a. \<not> num_of s a \<le> num_of s h - n) (index s),
             unlinked_index := filter (\<lambda>a. \<not> num_of s a \<le> num_of s h - n) (unlinked_index s)\<rparr>)"

definition set_head_item :: "nat option \<Rightarrow> fork_database \<Rightarrow> fork_database" where
  "set_head_item h s = s\<lparr>head := h\<rparr>"

definition remove_block :: "nat \<Rightarrow> fork_database \<Rightarrow> fork_database" where
  "remove_block i s =
     (let s1 = (case head s of
                  Some h \<Rightarrow> if block_id (blk s h) = i
                            then s\<lparr>head := lock s (prev (items s ! h))\<rparr> else s
                | None \<Rightarrow> s)
      in s1\<lparr>index := filter (\<lambda>a. block_id (blk s a) \<noteq> i) (index s)\<rparr>)"

section \<open>Queries\<close>

definition is_known_block :: "nat \<Rightarrow> fork_database \<Rightarrow> bool" where
  "is_known_block i s \<longleftrightarrow>
     find_id s (index s) i \<noteq> None \<or> find_id s (unlinked_index s) i \<noteq> None"

definition fetch_block :: "nat \<Rightarrow> bool \<Rightarrow> fork_database \<Rightarrow> nat option" where
  "fetch_block i search_linked_blocks_only s =
     (case find_id s (index s) i of
        Some a \<Rightarrow> Some a
      | None \<Rightarrow> if \<not> search_linked_blocks_only then find_id s (unlinked_index s) i else None)"

definition fetch_block_by_number :: "nat \<Rightarrow> fork_database \<Rightarrow> nat list" where
  "fetch_block_by_number n s = filter (\<lambda>a. num_of s a = n) (index s)"

definition fetch_heads :: "fork_database \<Rightarrow> nat list" where
  "fetch_heads s =
     filter (\<lambda>a. \<not> (\<exists>c \<in> set (index s). previous (blk s c) = block_id (blk s a))) (index s)"

definition get_oldest_block_num :: "fork_database \<Rightarrow> nat res" where
  "get_oldest_block_num s =
     (if index s = [] then Inl Undefined else Inr (Min (num_of s ` set (index s))))"

definition get_last_irreversible_block_num :: "fork_database \<Rightarrow> nat res" where
  "get_last_irreversible_block_num s = get_oldest_block_num s"

definition get_last_block_generated_by_each_witness :: "fork_database \<Rightarrow> string \<rightharpoonup> nat" where
  "get_last_block_generated_by_each_witness s =
     map_of (rev (map (\<lambda>a. (witness (blk s a), block_id (blk s a)))
       (sort_key (num_of s) (index s))))"

definition head_block_time :: "fork_database \<Rightarrow> nat" where
  "head_block_time s = (case head s of None \<Rightarrow> 0 | Some h \<Rightarrow> timestamp (blk s h))"

definition head_block_num :: "fork_database \<Rightarrow> nat" where
  "head_block_num s = (case head s of None \<Rightarrow> 0 | Some h \<Rightarrow> num_of s h)"

definition head_block_id :: "fork_database \<Rightarrow> nat" where
  "head_block_id s = (case head s of None \<Rightarrow> 0 | Some h \<Rightarrow> block_id (blk s h))"

text \<open>The loops that follow the parents stop at a given number or at a dead pointer. They are
  counted down from the number of the first block, which the links decrease.\<close>

fun branch_down :: "nat \<Rightarrow> fork_database \<Rightarrow> nat \<Rightarrow> nat \<Rightarrow> nat list \<Rightarrow> (nat \<times> nat list) res" where
  "branch_down k s a n acc =
     (if num_of s a > n then
        (case k of 0 \<Rightarrow> Inl Undefined
         | Suc j \<Rightarrow>
             (case lock s (prev (items s ! a)) of
                None \<Rightarrow> Inl (Assert_exn ''Can't lock'')
              | Some p \<Rightarrow> branch_down j s p n (acc @ [a])))
      else Inr (a, acc))"

fun branch_both ::
  "nat \<Rightarrow> fork_database \<Rightarrow> nat \<Rightarrow> nat \<Rightarrow> nat list \<Rightarrow> nat list \<Rightarrow>
   (nat \<times> nat \<times> nat list \<times> nat list) res" where
  "branch_both k s a b acc1 acc2 =
     (if previous (blk s a) \<noteq> previous (blk s b) then
        (case k of 0 \<Rightarrow> Inl Undefined
         | Suc j \<Rightarrow>
             (case lock s (prev (items s ! a)) of
                None \<Rightarrow> Inl (Assert_exn ''first_branch'')
              | Some p \<Rightarrow>
                  (case lock s (prev (items s ! b)) of
                     None \<Rightarrow> Inl (Assert_exn ''second_branch'')
                   | Some q \<Rightarrow> branch_both j s p q (acc1 @ [a]) (acc2 @ [b]))))
      else Inr (a, b, acc1, acc2))"

definition fetch_branch_from ::
  "nat \<Rightarrow> nat \<Rightarrow> fork_database \<Rightarrow> (nat list \<times> nat list) res" where
  "fetch_branch_from first second s =
     (case find_id s (index s) first of
        None \<Rightarrow> Inl (Assert_exn ''first_branch_itr'')
      | Some a \<Rightarrow>
     (case find_id s (index s) second of
        None \<Rightarrow> Inl (Assert_exn ''second_branch_itr'')
      | Some b \<Rightarrow>
        bind_r (branch_down (num_of s a) s a (num_of s b) []) (\<lambda>(a1, acc1).
        bind_r (branch_down (num_of s b) s b (num_of s a1) []) (\<lambda>(b1, acc2).
        bind_r (branch_both (num_of s a1) s a1 b1 acc1 acc2) (\<lambda>(a2, b2, r1, r2).
        Inr (if block_id (blk s a2) \<noteq> block_id (blk s b2) then (r1 @ [a2], r2 @ [b2])
             else (r1, r2)))))))"

fun walk_down :: "nat \<Rightarrow> fork_database \<Rightarrow> nat option \<Rightarrow> nat \<Rightarrow> nat option" where
  "walk_down k s w n =
     (case w of None \<Rightarrow> None
      | Some a \<Rightarrow>
          if num_of s a > n then
            (case k of 0 \<Rightarrow> None | Suc j \<Rightarrow> walk_down j s (lock s (prev (items s ! a))) n)
          else Some a)"

definition walk_main_branch_to_num :: "nat \<Rightarrow> fork_database \<Rightarrow> nat option res" where
  "walk_main_branch_to_num n s =
     (case head s of None \<Rightarrow> Inl Undefined
      | Some h \<Rightarrow>
          Inr (if n > num_of s h then None else walk_down (num_of s h) s (Some h) n))"

definition fetch_block_on_main_branch_by_number :: "nat \<Rightarrow> fork_database \<Rightarrow> nat option res" where
  "fetch_block_on_main_branch_by_number n s =
     (case head s of None \<Rightarrow> Inr None
      | Some h \<Rightarrow>
          if n > num_of s h then Inr None
          else
            (case fetch_block_by_number n s of
               [a] \<Rightarrow> Inr (Some a)
             | [] \<Rightarrow> Inr None
             | _ \<Rightarrow> walk_main_branch_to_num n s))"

fun collect_down :: "nat \<Rightarrow> fork_database \<Rightarrow> nat option \<Rightarrow> nat \<Rightarrow> nat list" where
  "collect_down k s w n =
     (case w of None \<Rightarrow> []
      | Some a \<Rightarrow>
          if num_of s a \<ge> n then
            a # (case k of 0 \<Rightarrow> [] | Suc j \<Rightarrow> collect_down j s (lock s (prev (items s ! a))) n)
          else [])"

definition fetch_block_range_on_main_branch_by_number ::
  "nat \<Rightarrow> nat \<Rightarrow> fork_database \<Rightarrow> nat list res" where
  "fetch_block_range_on_main_branch_by_number first_block_num count s =
     (case head s of None \<Rightarrow> Inr []
      | Some h \<Rightarrow>
        if num_of s h < first_block_num then Inr []
        else
          let last_desired_block_num = u32_sub (u32 (first_block_num + count)) 1;
              last_block_num = min last_desired_block_num (num_of s h)
          in
          bind_r
            (case fetch_block_by_number last_block_num s of
               [] \<Rightarrow> Inr None
             | [a] \<Rightarrow> Inr (Some a)
             | _ \<Rightarrow> walk_main_branch_to_num last_block_num s)
          (\<lambda>item. Inr (rev (collect_down last_block_num s item first_block_num))))"

text \<open>The loop of the synopsis, on 32-bit numbers; \<open>ids\<close> is \<^verbatim>\<open>block_ids_on_this_fork\<close>. An index
  outside the vector is undefined.\<close>

fun synopsis_loop :: "nat \<Rightarrow> nat list \<Rightarrow> nat \<Rightarrow> nat \<Rightarrow> nat \<Rightarrow> nat \<Rightarrow> nat list \<Rightarrow> nat list res" where
  "synopsis_loop 0 ids lib low true_high ref_num acc = Inl Undefined"
| "synopsis_loop (Suc k) ids lib low true_high ref_num acc =
     (if low < lib \<or> length ids < low - lib + 1 then Inl Undefined
      else
        let acc' = acc @ [ids ! (length ids - (low - lib) - 1)];
            low' = u32 (low + u32 (u32_sub true_high low + 2) div 2)
        in if low' \<le> ref_num then synopsis_loop k ids lib low' true_high ref_num acc'
           else Inr acc')"

datatype synopsis = Synopsis "nat list" | Need_block_log nat

definition get_blockchain_synopsis :: "nat \<Rightarrow> nat \<Rightarrow> fork_database \<Rightarrow> synopsis res" where
  "get_blockchain_synopsis reference_point after s =
     (case head s of None \<Rightarrow> Inr (Synopsis [])
      | Some h \<Rightarrow>
        bind_r (get_oldest_block_num s) (\<lambda>lib.
        let ref = (if reference_point = 0 then block_id (blk s h) else reference_point);
            ref_num = num_from_id ref
        in
        if ref_num < lib then Inr (Need_block_log ref_num)
        else
          (case find_id s (index s) ref of
             None \<Rightarrow> Inl (Fc_exn ''Unable to construct a useful synopsis'')
           | Some a \<Rightarrow>
               let low = (if lib \<noteq> 0 then lib else 1);
                   ids = map (\<lambda>c. block_id (blk s c)) (collect_down (num_of s a) s (Some a) 0);
                   true_high = u32 (ref_num + after)
               in
               bind_r (synopsis_loop (ref_num + 1 - low + 1) ids lib low true_high ref_num [])
                 (\<lambda>r. Inr (Synopsis r)))))"

section \<open>Specification\<close>

text \<open>A valid block has the number after that of its parent. In a well-formed state the pointers are
  in the store and lead to the parent, equal ids are equal blocks, ids are unique in both containers
  the head is a linked block, and a block that was linked waits no more. The head is highest when no linked block has a larger number. A
  state is settled up to the ids \<open>E\<close> when a block still waiting for a linked parent, other than those
  in \<open>E\<close>, is below the window.\<close>

definition block_ok :: "block \<Rightarrow> bool" where
  "block_ok b \<longleftrightarrow> get_block_num b = num_from_id (previous b) + 1"

definition ids :: "fork_database \<Rightarrow> nat list \<Rightarrow> nat set" where
  "ids s as = (\<lambda>a. block_id (blk s a)) ` set as"

definition fork_wf :: "fork_database \<Rightarrow> bool" where
  "fork_wf s \<longleftrightarrow>
     (\<forall>a \<in> set (index s) \<union> set (unlinked_index s) \<union> set_option (head s). a < length (items s)) \<and>
     (\<forall>a < length (items s). block_ok (blk s a) \<and>
        (\<forall>p. prev (items s ! a) = Some p \<longrightarrow>
           p < length (items s) \<and> block_id (blk s p) = previous (blk s a))) \<and>
     (\<forall>a < length (items s). \<forall>b < length (items s).
        block_id (blk s a) = block_id (blk s b) \<longrightarrow> blk s a = blk s b) \<and>
     distinct (map (\<lambda>a. block_id (blk s a)) (index s)) \<and>
     distinct (map (\<lambda>a. block_id (blk s a)) (unlinked_index s)) \<and>
     (\<forall>h. head s = Some h \<longrightarrow> block_id (blk s h) \<in> ids s (index s)) \<and>
     set (index s) \<inter> set (unlinked_index s) = {} \<and>
     (\<forall>a < length (items s). \<forall>p. prev (items s ! a) = Some p \<longrightarrow> p \<notin> set (unlinked_index s))"

definition head_highest :: "fork_database \<Rightarrow> bool" where
  "head_highest s \<longleftrightarrow> (\<forall>a \<in> set (index s). \<exists>h. head s = Some h \<and> num_of s a \<le> num_of s h)"

definition settled :: "nat set \<Rightarrow> fork_database \<Rightarrow> bool" where
  "settled E s \<longleftrightarrow>
     (\<forall>t \<in> set (unlinked_index s). previous (blk s t) \<in> ids s (index s) \<longrightarrow>
        previous (blk s t) \<in> E \<or> too_old s (num_of s t))"

text \<open>The states that the operations reach, the ids that are connected to a first block through
  given blocks, and paths along the parents. A block may be added when it is valid and its id names no other
  block.\<close>

text \<open>A block can be allocated when it is valid and its id names no other block.\<close>

definition new_block_ok :: "block \<Rightarrow> fork_database \<Rightarrow> bool" where
  "new_block_ok b s \<longleftrightarrow> block_ok b \<and>
     (\<forall>a < length (items s). block_id (blk s a) = block_id b \<longrightarrow> blk s a = b)"

inductive fork_reachable :: "fork_database \<Rightarrow> bool" where
  fork_empty: "fork_reachable empty_fork_db"
| fork_reset: "fork_reachable s \<Longrightarrow> fork_reachable (reset s)"
| fork_start: "fork_reachable s \<Longrightarrow> new_block_ok b s \<Longrightarrow> fork_reachable (start_block b s)"
| fork_push: "fork_reachable s \<Longrightarrow> new_block_ok b s \<Longrightarrow> fork_reachable (fst (push_block b s))"
| fork_pop: "fork_reachable s \<Longrightarrow> pop_block s = Inr s' \<Longrightarrow> fork_reachable s'"
| fork_max_size: "fork_reachable s \<Longrightarrow> 0 < n \<Longrightarrow> fork_reachable (set_max_size n s)"
| fork_remove: "fork_reachable s \<Longrightarrow> fork_reachable (remove_block i s)"
| fork_set_head: "fork_reachable s \<Longrightarrow> a \<in> set (index s) \<Longrightarrow> fork_reachable (set_head_item (Some a) s)"

inductive_set linked_ids :: "block \<Rightarrow> block set \<Rightarrow> nat set" for b0 B where
  root: "block_id b0 \<in> linked_ids b0 B"
| child: "b \<in> B \<Longrightarrow> previous b \<in> linked_ids b0 B \<Longrightarrow> block_id b \<in> linked_ids b0 B"

definition push_all :: "block list \<Rightarrow> fork_database \<Rightarrow> fork_database" where
  "push_all bs s = fold (\<lambda>b r. fst (push_block b r)) bs s"

text \<open>All blocks are valid, their ids identify them and their numbers fit into one window.\<close>

definition one_window :: "nat \<Rightarrow> block set \<Rightarrow> bool" where
  "one_window n B \<longleftrightarrow> (\<forall>b \<in> B. block_ok b) \<and> inj_on block_id B \<and>
     (\<forall>b \<in> B. \<forall>c \<in> B. get_block_num c < get_block_num b + n)"

fun branch_path :: "fork_database \<Rightarrow> nat \<Rightarrow> nat list \<Rightarrow> nat \<Rightarrow> bool" where
  "branch_path s i [] c = (i = c)"
| "branch_path s i (a # as) c \<longleftrightarrow>
     a < length (items s) \<and> block_id (blk s a) = i \<and> branch_path s (previous (blk s a)) as c"

definition apart :: "fork_database \<Rightarrow> nat list \<Rightarrow> nat list \<Rightarrow> bool" where
  "apart s as bs \<longleftrightarrow> (\<forall>a \<in> set as. \<forall>b \<in> set bs. block_id (blk s a) \<noteq> block_id (blk s b))"

text \<open>Blocks of examples: the number, a tag for the rest of the id, the tag of the parent.\<close>

definition example_id :: "nat \<Rightarrow> nat \<Rightarrow> nat" where
  "example_id n x = n * 2 ^ 128 + x"

definition example_block :: "nat \<Rightarrow> nat \<Rightarrow> nat \<Rightarrow> block" where
  "example_block n x p =
     \<lparr>block_id = example_id n x, previous = example_id (n - 1) p, witness = ''w'', timestamp = 3 * n\<rparr>"

end
