(* ===== verification/Fork_Linking.thy ===== *)
theory Fork_Linking
  imports Fork_Database
begin

text \<open>
  Linking blocks into the fork database: every operation keeps the state well-formed, the outcome of
  a push on every branch, and the delivery of blocks in any order.
\<close>

text \<open>The state while the blocks of \<open>B\<close> are delivered, of which \<open>P\<close> already were.\<close>

definition delivered :: "block \<Rightarrow> block set \<Rightarrow> block set \<Rightarrow> fork_database \<Rightarrow> bool" where
  "delivered b0 B P s \<longleftrightarrow> fork_wf s \<and> head s \<noteq> None \<and> block_id b0 \<in> ids s (index s) \<and>
     (\<forall>x < length (items s). blk s x \<in> insert b0 B \<and> \<not> invalid (items s ! x)) \<and>
     ids s (index s) \<subseteq> linked_ids b0 B \<and> one_window (max_size s) (insert b0 B) \<and> P \<subseteq> B \<and> blk s ` set (unlinked_index s) \<subseteq> B \<and>
     (\<forall>b \<in> P. block_id b \<in> ids s (index s) \<union> ids s (unlinked_index s)) \<and>
     (\<forall>b \<in> P. previous b \<notin> ids s (index s) \<longrightarrow> block_id b \<in> ids s (unlinked_index s))"

section \<open>Linking a block\<close>

lemma find_id_facts:
  "find_id s as i = None \<longleftrightarrow> i \<notin> ids s as"
  "find_id s as i = Some a \<Longrightarrow> a \<in> set as \<and> block_id (blk s a) = i"
  by (auto simp: find_id_def ids_def find_None_iff find_Some_iff)

lemma insert_item_facts:
  "ids s (insert_item s a as) = insert (block_id (blk s a)) (ids s as)"
  "set (insert_item s a as) \<subseteq> insert a (set as)" "set as \<subseteq> set (insert_item s a as)"
  "distinct (map (\<lambda>a. block_id (blk s a)) as) \<Longrightarrow>
   distinct (map (\<lambda>a. block_id (blk s a)) (insert_item s a as))"
  by (auto simp: insert_item_def find_id_facts ids_def)

lemma ids_cong: "blk s' = blk s \<Longrightarrow> ids s' = ids s"
  by (auto simp: ids_def fun_eq_iff)

lemma attach_parent_Inr:
  assumes "attach_parent a s = Inr s'"
  shows "blk s' = blk s" "length (items s') = length (items s)" "unlinked_index s' = unlinked_index s"
    "max_size s' = max_size s" "index s' = index s" "head s' = head s"
    "invalid (items s' ! x) = invalid (items s ! x)"
    "head s = None \<or> previous (blk s a) = 0 \<or>
      (\<exists>p \<in> set (index s). block_id (blk s p) = previous (blk s a) \<and> \<not> invalid (items s ! p))"
    "prev (items s' ! x) = Some q \<Longrightarrow> prev (items s ! x) = Some q \<or>
      x = a \<and> q \<in> set (index s) \<and> block_id (blk s q) = previous (blk s a)"
proof -
  let ?upd = "\<lambda>p. s\<lparr>items := (items s)[a := (items s ! a)\<lparr>prev := Some p\<rparr>]\<rparr>"
  have nth: "(items s)[a := (items s ! a)\<lparr>prev := Some p\<rparr>] ! x =
      (if x = a \<and> a < length (items s) then (items s ! a)\<lparr>prev := Some p\<rparr> else items s ! x)" for p x
    by (cases "a < length (items s)") (auto simp: nth_list_update list_update_beyond)
  have u: "full_block (items (?upd p) ! x) = full_block (items s ! x)"
    "invalid (items (?upd p) ! x) = invalid (items s ! x)" for p x
    by (simp_all add: nth)
  have u3: "prev (items s ! x) = Some q \<or> x = a \<and> q = p" if "prev (items (?upd p) ! x) = Some q" for p x q
    using that by (simp add: nth split: if_splits)
  have ub: "blk (?upd p) = blk s" for p using u(1) by (simp add: blk_def fun_eq_iff)
  consider "s' = s" "head s = None \<or> previous (blk s a) = 0"
    | p where "s' = ?upd p" "find_id s (index s) (previous (blk s a)) = Some p"
      "\<not> invalid (items s ! p)"
    using assms unfolding attach_parent_def
    by (cases "find_id s (index s) (previous (blk s a))") (auto split: if_splits)
  note c = this
  show "blk s' = blk s" "length (items s') = length (items s)" "unlinked_index s' = unlinked_index s"
    "max_size s' = max_size s" "index s' = index s" "head s' = head s"
    "invalid (items s' ! x) = invalid (items s ! x)"
    "head s = None \<or> previous (blk s a) = 0 \<or>
      (\<exists>p \<in> set (index s). block_id (blk s p) = previous (blk s a) \<and> \<not> invalid (items s ! p))"
    using c u(2) ub find_id_facts(2) [of s "index s" "previous (blk s a)"] by (cases; auto; fail)+
  assume q: "prev (items s' ! x) = Some q"
  show "prev (items s ! x) = Some q \<or>
      x = a \<and> q \<in> set (index s) \<and> block_id (blk s q) = previous (blk s a)"
    using c
  proof cases
    case 1
    then show ?thesis using q by simp
  next
    case (2 p)
    then show ?thesis using u3 [of p x q] q find_id_facts(2) [OF 2(2)] by auto
  qed
qed

lemma link_block_Inr:
  assumes "link_block a s = Inr s'"
  shows "blk s' = blk s" "length (items s') = length (items s)" "unlinked_index s' = unlinked_index s"
    "max_size s' = max_size s" "index s' = insert_item s a (index s)"
    "head s' = (case head s of None \<Rightarrow> Some a | Some h \<Rightarrow> if num_of s a > num_of s h then Some a else Some h)"
    "invalid (items s' ! x) = invalid (items s ! x)" "\<not> too_old s (num_of s a)"
    "head s = None \<or> previous (blk s a) = 0 \<or>
      (\<exists>p \<in> set (index s). block_id (blk s p) = previous (blk s a) \<and> \<not> invalid (items s ! p))"
    "prev (items s' ! x) = Some q \<Longrightarrow> prev (items s ! x) = Some q \<or>
      x = a \<and> q \<in> set (index s) \<and> block_id (blk s q) = previous (blk s a)"
proof -
  obtain s1 where s1: "attach_parent a s = Inr s1" and s': "s' = put_item a s1"
    and old: "\<not> too_old s (num_of s a)"
    using assms by (auto simp: link_block_def bind_r_eq_Inr split: if_splits)
  note f = attach_parent_Inr [OF s1]
  have bput: "blk (put_item a s1) = blk s1" by (simp add: blk_def fun_eq_iff put_item_def)
  have ins: "insert_item s1 = insert_item s"
    using f(1) by (simp add: insert_item_def find_id_def fun_eq_iff)
  show "blk s' = blk s" "length (items s') = length (items s)" "unlinked_index s' = unlinked_index s"
    "max_size s' = max_size s" "index s' = insert_item s a (index s)"
    "head s' = (case head s of None \<Rightarrow> Some a | Some h \<Rightarrow> if num_of s a > num_of s h then Some a else Some h)"
    "invalid (items s' ! x) = invalid (items s ! x)"
    using f(1-7) ins by (simp_all add: s' bput) (simp_all add: put_item_def cong: option.case_cong)
  show "\<not> too_old s (num_of s a)" by (rule old)
  show "head s = None \<or> previous (blk s a) = 0 \<or>
      (\<exists>p \<in> set (index s). block_id (blk s p) = previous (blk s a) \<and> \<not> invalid (items s ! p))"
    by (rule f(8))
  show "prev (items s' ! x) = Some q \<Longrightarrow> prev (items s ! x) = Some q \<or>
      x = a \<and> q \<in> set (index s) \<and> block_id (blk s q) = previous (blk s a)"
    using f(9) by (simp add: s' put_item_def)
qed

lemma unqueue_sel [simp]:
  "items (unqueue t s) = items s" "index (unqueue t s) = index s" "head (unqueue t s) = head s"
  "max_size (unqueue t s) = max_size s" "unlinked_index (unqueue t s) = remove1 t (unlinked_index s)"
  "blk (unqueue t s) = blk s" "ids (unqueue t s) = ids s"
  by (simp_all add: unqueue_def blk_def ids_def fun_eq_iff)

lemma too_old_unqueue [simp]: "too_old (unqueue t s) n = too_old s n"
  by (simp add: too_old_def cong: option.case_cong)

lemma waiting_childD:
  "waiting_child a s = Some t \<Longrightarrow> t \<in> set (unlinked_index s) \<and> previous (blk s t) = block_id (blk s a)"
  "waiting_child a s = None \<longleftrightarrow> (\<forall>t \<in> set (unlinked_index s). previous (blk s t) \<noteq> block_id (blk s a))"
  by (auto simp: waiting_child_def find_None_iff find_Some_iff)

text \<open>What every single step of the recursion keeps, the recursion keeps.\<close>

lemma push_next_inv:
  assumes "I s"
    and "\<And>t s. I s \<Longrightarrow> t \<in> set (unlinked_index s) \<Longrightarrow> I (unqueue t s)"
    and "\<And>t s s'. I s \<Longrightarrow> t \<in> set (unlinked_index s) \<Longrightarrow> link_block t (unqueue t s) = Inr s' \<Longrightarrow> I s'"
  shows "I (push_next n a s)"
  using assms(1)
proof (induction n arbitrary: a s)
  case (Suc n)
  show ?case
  proof (cases "waiting_child a s")
    case (Some t)
    note t = waiting_childD(1) [OF Some]
    have "I (case link_block t (unqueue t s) of Inl _ \<Rightarrow> unqueue t s | Inr s2 \<Rightarrow> push_next n t s2)"
      using Suc t assms(2,3) by (auto split: sum.splits)
    then show ?thesis using Suc.IH Some by (simp add: Let_def)
  qed (use Suc in simp)
qed simp

lemma fork_wfD:
  assumes "fork_wf s"
  shows "a \<in> set (index s) \<Longrightarrow> a < length (items s)" "a \<in> set (unlinked_index s) \<Longrightarrow> a < length (items s)"
    "head s = Some a \<Longrightarrow> a < length (items s)" "a < length (items s) \<Longrightarrow> block_ok (blk s a)"
    "a < length (items s) \<Longrightarrow> prev (items s ! a) = Some p \<Longrightarrow>
       p < length (items s) \<and> block_id (blk s p) = previous (blk s a)"
    "a < length (items s) \<Longrightarrow> b < length (items s) \<Longrightarrow> block_id (blk s a) = block_id (blk s b) \<Longrightarrow> blk s a = blk s b"
    "distinct (map (\<lambda>a. block_id (blk s a)) (index s))"
    "distinct (map (\<lambda>a. block_id (blk s a)) (unlinked_index s))"
    "head s = Some a \<Longrightarrow> block_id (blk s a) \<in> ids s (index s)"
    "a \<in> set (index s) \<Longrightarrow> a \<notin> set (unlinked_index s)"
    "a < length (items s) \<Longrightarrow> prev (items s ! a) = Some p \<Longrightarrow> p \<notin> set (unlinked_index s)"
  using assms unfolding fork_wf_def by (blast | simp)+

lemma unqueue_wf:
  assumes "fork_wf s"
  shows "fork_wf (unqueue t s)"
proof -
  have sub: "set (remove1 t (unlinked_index s)) \<subseteq> set (unlinked_index s)"
    by (rule set_remove1_subset)
  then have "distinct (map (\<lambda>a. block_id (blk s a)) (remove1 t (unlinked_index s)))"
    using fork_wfD(8) [OF assms] by (auto simp: distinct_map intro: inj_on_subset)
  then show ?thesis
    using assms sub unfolding fork_wf_def unqueue_sel by blast
qed

lemma link_block_wf:
  assumes "fork_wf s" "a < length (items s)" "a \<notin> set (unlinked_index s)" "link_block a s = Inr s'"
  shows "fork_wf s'"
proof -
  note l = link_block_Inr [OF assms(4)] and w = fork_wfD [OF assms(1)]
  have i: "ids s' = ids s" using l(1) by (rule ids_cong)
  show ?thesis
    unfolding fork_wf_def l(1,2,3) i
  proof (intro conjI)
    show "\<forall>a\<in>set (index s') \<union> set (unlinked_index s) \<union> set_option (head s'). a < length (items s)"
      using l(5,6) w(1,2,3) assms(2) insert_item_facts(2) [of s a "index s"]
      by (auto split: option.splits if_splits)
    show "\<forall>x < length (items s). block_ok (blk s x) \<and>
        (\<forall>p. prev (items s' ! x) = Some p \<longrightarrow> p < length (items s) \<and> block_id (blk s p) = previous (blk s x))"
      using w(1,4,5) l(10) by blast
    show "\<forall>a < length (items s). \<forall>b < length (items s). block_id (blk s a) = block_id (blk s b) \<longrightarrow> blk s a = blk s b"
      using w(6) by blast
    show "distinct (map (\<lambda>a. block_id (blk s a)) (index s'))"
      unfolding l(5) using w(7) by (rule insert_item_facts(4))
    show "distinct (map (\<lambda>a. block_id (blk s a)) (unlinked_index s))" by (rule w(8))
    show "\<forall>h. head s' = Some h \<longrightarrow> block_id (blk s h) \<in> ids s (index s')"
      using l(6) w(9) unfolding l(5) insert_item_facts(1) by (auto split: option.splits if_splits)
    show "set (index s') \<inter> set (unlinked_index s) = {}"
      using l(5) w(10) assms(3) insert_item_facts(2) [of s a "index s"] by auto
    show "\<forall>x < length (items s). \<forall>p. prev (items s' ! x) = Some p \<longrightarrow> p \<notin> set (unlinked_index s)"
      using w(10,11) l(10) by blast
  qed
qed

lemma push_next_wf:
  assumes "fork_wf s"
  shows "fork_wf (push_next n a s)"
  using assms
proof (rule push_next_inv)
  show "fork_wf s'" if "fork_wf s" "t \<in> set (unlinked_index s)" "link_block t (unqueue t s) = Inr s'" for t s s'
    using link_block_wf [OF unqueue_wf [OF that(1)] _ _ that(3)] fork_wfD(2) [OF that(1,2)]
      fork_wfD(8) [OF that(1)] by (simp add: distinct_map)
qed (rule unqueue_wf)

lemma push_next_frame:
  "blk (push_next n a s) = blk s" "length (items (push_next n a s)) = length (items s)"
  "max_size (push_next n a s) = max_size s" "invalid (items (push_next n a s) ! x) = invalid (items s ! x)"
proof -
  let ?I = "\<lambda>r. blk r = blk s \<and> length (items r) = length (items s) \<and> max_size r = max_size s \<and>
    invalid (items r ! x) = invalid (items s ! x)"
  have "?I (push_next n a s)"
  proof (rule push_next_inv [where I = ?I])
    show "?I s'" if "?I r" "link_block t (unqueue t r) = Inr s'" for t r s'
      using that(1) link_block_Inr(1,2,4,7) [OF that(2)] by simp
  qed simp_all
  then show "blk (push_next n a s) = blk s" "length (items (push_next n a s)) = length (items s)"
    "max_size (push_next n a s) = max_size s" "invalid (items (push_next n a s) ! x) = invalid (items s ! x)"
    by simp_all
qed

lemma link_block_highest:
  assumes "head_highest s" "link_block a s = Inr s'"
  shows "head_highest s'"
proof -
  note l = link_block_Inr [OF assms(2)]
  show ?thesis
    unfolding head_highest_def l(1)
  proof
    fix x
    assume "x \<in> set (index s')"
    then have "x = a \<or> x \<in> set (index s)" using l(5) insert_item_facts(2) by auto
    then show "\<exists>h. head s' = Some h \<and> num_of s x \<le> num_of s h"
      using assms(1) l(6) by (cases "head s") (force simp: head_highest_def)+
  qed
qed

lemma unqueue_highest [simp]: "head_highest (unqueue t s) = head_highest s"
  by (simp add: head_highest_def)

lemma push_next_highest:
  assumes "head_highest s"
  shows "head_highest (push_next n a s)"
  using assms
proof (rule push_next_inv)
  show "head_highest s'" if "head_highest s" "link_block t (unqueue t s) = Inr s'" for t s s'
    using that link_block_highest [of "unqueue t s"] by simp
qed simp


lemma too_old_mono:
  assumes "too_old s n" "link_block a s = Inr s'"
  shows "too_old s' n"
  using assms(1) link_block_Inr(1,4,6) [OF assms(2)] by (auto simp: too_old_def split: option.splits)

lemma link_block_settled:
  assumes "settled E s" "link_block a s = Inr s'"
  shows "settled (insert (block_id (blk s a)) E) s'"
proof -
  note l = link_block_Inr [OF assms(2)]
  have "ids s' = ids s" using l(1) by (rule ids_cong)
  then show ?thesis
    using assms(1) too_old_mono [OF _ assms(2)]
    by (auto simp: settled_def l(1,3,5) insert_item_facts(1))
qed

lemma unqueue_settled:
  assumes "settled E s"
  shows "settled E (unqueue t s)"
proof -
  have "set (remove1 t (unlinked_index s)) \<subseteq> set (unlinked_index s)" by (rule set_remove1_subset)
  then show ?thesis using assms by (auto simp: settled_def)
qed

lemma push_next_unlinked: "length (unlinked_index (push_next n a s)) \<le> length (unlinked_index s)"
proof (rule push_next_inv [where I = "\<lambda>r. length (unlinked_index r) \<le> length (unlinked_index s)"])
  show "length (unlinked_index s') \<le> length (unlinked_index s)"
    if "length (unlinked_index r) \<le> length (unlinked_index s)" "t \<in> set (unlinked_index r)"
      "link_block t (unqueue t r) = Inr s'" for t r s'
    using that(1,2) link_block_Inr(3) [OF that(3)] by (simp add: length_remove1)
qed (simp_all add: length_remove1)

text \<open>The recursion runs until nothing waits for the new blocks: the bound on the rounds suffices.\<close>

lemma push_next_settles:
  assumes "length (unlinked_index s) \<le> n" "settled (insert (block_id (blk s a)) E) s"
  shows "settled E (push_next n a s)"
  using assms
proof (induction n arbitrary: a s E)
  case 0
  then show ?case by (simp add: settled_def)
next
  case (Suc n)
  show ?case
  proof (cases "waiting_child a s")
    case None
    then have "push_next (Suc n) a s = s" by simp
    moreover have "\<forall>t \<in> set (unlinked_index s). previous (blk s t) \<noteq> block_id (blk s a)"
      using None by (simp only: waiting_childD(2))
    ultimately show ?thesis using Suc.prems(2) unfolding settled_def by auto
  next
    case (Some t)
    note t = waiting_childD(1) [OF Some]
    let ?s1 = "unqueue t s"
    have len: "length (unlinked_index ?s1) \<le> n"
      using Suc.prems(1) t by (simp add: length_remove1)
    have 1: "settled (insert (block_id (blk s a)) E) ?s1"
      using Suc.prems(2) by (rule unqueue_settled)
    show ?thesis
    proof (cases "link_block t ?s1")
      case (Inl e)
      then show ?thesis using Some Suc.IH [OF len, of a E] 1 by (simp add: Let_def)
    next
      case (Inr s2)
      note l = link_block_Inr [OF Inr]
      have "settled (insert (block_id (blk s2 t)) (insert (block_id (blk s a)) E)) s2"
        using link_block_settled [OF 1 Inr] l(1) by simp
      then have 2: "settled (insert (block_id (blk s a)) E) (push_next n t s2)"
        using len l(3) by - (rule Suc.IH, simp_all)
      have "length (unlinked_index (push_next n t s2)) \<le> n"
        using push_next_unlinked [of n t s2] len l(3) by simp
      then have "settled E (push_next n a (push_next n t s2))"
        using 2 push_next_frame(1) [of n t s2] l(1) by - (rule Suc.IH, simp_all)
      then show ?thesis using Some Inr by (simp add: Let_def)
    qed
  qed
qed

lemma allocate_sel:
  assumes "allocate b s = (a, s1)"
  shows "a = length (items s)" "items s1 = items s @ [new_item b]" "index s1 = index s"
    "unlinked_index s1 = unlinked_index s" "head s1 = head s" "max_size s1 = max_size s"
    "blk s1 a = b" "x < length (items s) \<Longrightarrow> blk s1 x = blk s x"
  using assms by (auto simp: allocate_def blk_def nth_append new_item_def)

lemma ids_cong_on: "(\<And>a. a \<in> set as \<Longrightarrow> blk s' a = blk s a) \<Longrightarrow> ids s' as = ids s as"
  by (auto simp: ids_def)

lemma allocate_ids:
  assumes "allocate b s = (a, s1)" "fork_wf s"
  shows "ids s1 (index s) = ids s (index s)" "ids s1 (unlinked_index s) = ids s (unlinked_index s)"
  using allocate_sel(8) [OF assms(1)] fork_wfD(1,2) [OF assms(2)] by (auto intro!: ids_cong_on)

lemma map_ids_cong:
  assumes "\<And>a. a \<in> set as \<Longrightarrow> blk s' a = blk s a"
  shows "map (\<lambda>a. block_id (blk s' a)) as = map (\<lambda>a. block_id (blk s a)) as"
  using assms by simp

lemma allocate_wf:
  assumes "allocate b s = (a, s1)" "fork_wf s" "new_block_ok b s"
  shows "fork_wf s1"
proof -
  note al = allocate_sel [OF assms(1)] and w = fork_wfD [OF assms(2)] and i = allocate_ids [OF assms(1,2)]
  have b: "block_ok b" "\<And>x. x < length (items s) \<Longrightarrow> block_id (blk s x) = block_id b \<Longrightarrow> blk s x = b"
    using assms(3) by (auto simp: new_block_ok_def)
  have it: "x < length (items s) \<Longrightarrow> items s1 ! x = items s ! x" "items s1 ! length (items s) = new_item b" for x
    by (simp_all add: al(2) nth_append)
  have lt: "x < length (items s1) \<longleftrightarrow> x = a \<or> x < length (items s)" for x
    by (auto simp: al(1,2))
  have pr: "prev (items s1 ! x) = Some p \<Longrightarrow> x < length (items s1) \<Longrightarrow>
      x < length (items s) \<and> prev (items s ! x) = Some p" for x p
    using it by (auto simp: lt al(1) new_item_def)
  show ?thesis
    unfolding fork_wf_def al(3-5) i
  proof (intro conjI)
    show "\<forall>a\<in>set (index s) \<union> set (unlinked_index s) \<union> set_option (head s). a < length (items s1)"
      using w(1-3) by (auto simp: lt)
    show "\<forall>x<length (items s1). block_ok (blk s1 x) \<and>
       (\<forall>p. prev (items s1 ! x) = Some p \<longrightarrow> p < length (items s1) \<and> block_id (blk s1 p) = previous (blk s1 x))"
    proof (intro allI impI conjI)
      fix x assume x: "x < length (items s1)"
      show "block_ok (blk s1 x)" using x b(1) w(4) al(7,8) by (auto simp: lt)
      fix p assume "prev (items s1 ! x) = Some p"
      then have *: "x < length (items s)" "prev (items s ! x) = Some p" using pr x by auto
      show "p < length (items s1)" "block_id (blk s1 p) = previous (blk s1 x)"
        using w(5) [OF *] al(8) *(1) by (auto simp: lt)
    qed
    show "\<forall>x<length (items s1). \<forall>y<length (items s1). block_id (blk s1 x) = block_id (blk s1 y) \<longrightarrow> blk s1 x = blk s1 y"
    proof (intro allI impI)
      fix x y
      assume xy: "x < length (items s1)" "y < length (items s1)" and e: "block_id (blk s1 x) = block_id (blk s1 y)"
      show "blk s1 x = blk s1 y"
      proof (cases "x < length (items s)"; cases "y < length (items s)")
        assume "x < length (items s)" "y < length (items s)"
        then show ?thesis using w(6) [of x y] e al(8) by simp
      next
        assume *: "x < length (items s)" "\<not> y < length (items s)"
        then have "y = a" using xy(2) lt by blast
        then show ?thesis using b(2) [of x] * e al(7,8) by simp
      next
        assume *: "\<not> x < length (items s)" "y < length (items s)"
        then have "x = a" using xy(1) lt by blast
        then show ?thesis using b(2) [of y] * e al(7,8) by simp
      next
        assume "\<not> x < length (items s)" "\<not> y < length (items s)"
        then have "x = a" "y = a" using xy lt by blast+
        then show ?thesis by simp
      qed
    qed
    show "distinct (map (\<lambda>a. block_id (blk s1 a)) (index s))"
      using w(1,7) al(8) by (simp cong: map_cong)
    show "distinct (map (\<lambda>a. block_id (blk s1 a)) (unlinked_index s))"
      using w(2,8) al(8) by (simp cong: map_cong)
    show "\<forall>h. head s = Some h \<longrightarrow> block_id (blk s1 h) \<in> ids s (index s)"
      using w(3,9) al(8) by auto
    show "set (index s) \<inter> set (unlinked_index s) = {}" using w(10) by auto
    show "\<forall>x<length (items s1). \<forall>p. prev (items s1 ! x) = Some p \<longrightarrow> p \<notin> set (unlinked_index s)"
      using pr w(11) by blast
  qed
qed

lemma push_item_Inr:
  "push_item a s = Inr s' \<longleftrightarrow>
     (\<exists>s1. link_block a s = Inr s1 \<and> s' = push_next (length (unlinked_index s1)) a s1)"
  "push_item a s = Inl e \<longleftrightarrow> link_block a s = Inl e"
  by (cases "link_block a s"; auto simp: push_item_def)+

lemma enqueue_wf:
  assumes "fork_wf s" "a < length (items s)" "a \<notin> set (index s)" "\<And>x. x < length (items s) \<Longrightarrow> prev (items s ! x) \<noteq> Some a"
  shows "fork_wf (s\<lparr>unlinked_index := insert_item s a (unlinked_index s)\<rparr>)" (is "fork_wf ?s")
proof -
  have b: "blk ?s = blk s" "ids ?s = ids s" by (simp_all add: blk_def ids_def fun_eq_iff)
  note w = fork_wfD [OF assms(1)] and u = insert_item_facts(2) [of s a "unlinked_index s"]
  show ?thesis
    unfolding fork_wf_def b
  proof (intro conjI)
    show "\<forall>x\<in>set (index ?s) \<union> set (unlinked_index ?s) \<union> set_option (head ?s). x < length (items ?s)"
      using w(1-3) assms(2) u by auto
    show "set (index ?s) \<inter> set (unlinked_index ?s) = {}" using w(10) assms(3) u by auto
    show "\<forall>x<length (items ?s). \<forall>p. prev (items ?s ! x) = Some p \<longrightarrow> p \<notin> set (unlinked_index ?s)"
      using w(11) assms(4) u by fastforce
    show "distinct (map (\<lambda>a. block_id (blk s a)) (unlinked_index ?s))"
      using insert_item_facts(4) [OF w(8), of a] by simp
  qed (simp_all, (use assms(1) in \<open>unfold fork_wf_def, blast\<close>)+)
qed

lemma push_block_wf:
  assumes "fork_wf s" "new_block_ok b s"
  shows "fork_wf (fst (push_block b s))"
proof -
  obtain a s1 where al: "allocate b s = (a, s1)" by (cases "allocate b s")
  note sel = allocate_sel [OF al] and w = fork_wfD [OF assms(1)]
  have w1: "fork_wf s1" by (rule allocate_wf [OF al assms])
  have a: "a < length (items s1)" "a \<notin> set (unlinked_index s1)" "a \<notin> set (index s1)"
    using sel(1-4) w(1,2) by auto
  have p: "prev (items s1 ! x) \<noteq> Some a" if "x < length (items s1)" for x
    using that w(5) [of x a] sel(1,2) by (auto simp: nth_append new_item_def split: if_splits)
  show ?thesis
  proof (cases "push_item a s1")
    case (Inl e)
    then show ?thesis using w1 enqueue_wf [OF w1 a(1,3)] p by (simp add: push_block_def al)
  next
    case (Inr s2)
    then obtain s' where "link_block a s1 = Inr s'" "s2 = push_next (length (unlinked_index s')) a s'"
      by (auto simp: push_item_Inr(1))
    then have "fork_wf s2" using link_block_wf [OF w1 a(1,2)] push_next_wf by simp
    then show ?thesis using Inr by (simp add: push_block_def al)
  qed
qed

lemma shrink_wf:
  assumes "fork_wf s" "items s' = items s" "index s' = filter P (index s)"
    "unlinked_index s' = filter Q (unlinked_index s)"
    "\<And>h. head s' = Some h \<Longrightarrow> h < length (items s) \<and> block_id (blk s h) \<in> ids s (index s')"
  shows "fork_wf s'"
proof -
  have b: "blk s' = blk s" "ids s' = ids s" using assms(2) by (simp_all add: blk_def ids_def fun_eq_iff)
  note w = fork_wfD [OF assms(1)]
  show ?thesis
    unfolding fork_wf_def b assms(2,4)
  proof (intro conjI)
    show "\<forall>x\<in>set (index s') \<union> set (filter Q (unlinked_index s)) \<union> set_option (head s'). x < length (items s)"
      using w(1,2) assms(3,5) by auto
    show "distinct (map (\<lambda>a. block_id (blk s a)) (index s'))"
      "distinct (map (\<lambda>a. block_id (blk s a)) (filter Q (unlinked_index s)))"
      using w(7,8) assms(3) by (auto simp: distinct_map inj_on_def)
    show "set (index s') \<inter> set (filter Q (unlinked_index s)) = {}" using w(10) assms(3) by auto
    show "\<forall>h. head s' = Some h \<longrightarrow> block_id (blk s h) \<in> ids s (index s')" using assms(5) by blast
    show "\<forall>x<length (items s). \<forall>p. prev (items s ! x) = Some p \<longrightarrow> p \<notin> set (filter Q (unlinked_index s))"
      using w(11) by simp
  qed (use assms(1) in \<open>unfold fork_wf_def, blast\<close>)+
qed

lemma lock_parent:
  assumes "fork_wf s" "a < length (items s)" "lock s (prev (items s ! a)) = Some p"
  shows "p < length (items s)" "block_id (blk s p) = previous (blk s a)" "block_id (blk s p) \<in> ids s (index s)"
proof -
  have pr: "prev (items s ! a) = Some p" and al: "p \<in> set (index s) \<or> p \<in> set (unlinked_index s) \<or> head s = Some p"
    using assms(3) by (auto simp: lock_def split: option.splits if_splits)
  show "p < length (items s)" "block_id (blk s p) = previous (blk s a)"
    using fork_wfD(5) [OF assms(1,2) pr] by auto
  show "block_id (blk s p) \<in> ids s (index s)"
    using al fork_wfD(9,11) [OF assms(1)] assms(2) pr by (auto simp: ids_def)
qed

lemma block_ok_ne: "block_ok b \<Longrightarrow> previous b \<noteq> block_id b" "block_ok b \<Longrightarrow> 0 < get_block_num b"
  by (auto simp: block_ok_def get_block_num_def)

lemma pop_block_wf:
  assumes "fork_wf s" "pop_block s = Inr s'"
  shows "fork_wf s'"
proof -
  obtain h p where h: "head s = Some h" "lock s (prev (items s ! h)) = Some p" "s' = s\<lparr>head := Some p\<rparr>"
    using assms(2) by (auto simp: pop_block_def split: option.splits)
  show ?thesis
    using lock_parent [OF assms(1) fork_wfD(3) [OF assms(1) h(1)] h(2)]
    by (intro shrink_wf [OF assms(1), where P = "\<lambda>_. True" and Q = "\<lambda>_. True"]) (simp_all add: h(3))
qed

lemma set_max_size_wf:
  assumes "fork_wf s" "0 < n"
  shows "fork_wf (set_max_size n s)"
proof (cases "head s")
  case None
  then show ?thesis
    by (intro shrink_wf [OF assms(1), where P = "\<lambda>_. True" and Q = "\<lambda>_. True"]) (simp_all add: set_max_size_def)
next
  case (Some h)
  note w = fork_wfD [OF assms(1)]
  obtain x where x: "x \<in> set (index s)" "block_id (blk s x) = block_id (blk s h)"
    using w(9) [OF Some] by (auto simp: ids_def)
  then have "blk s x = blk s h" using w(6) w(1) w(3) [OF Some] by blast
  then have "\<not> num_of s x \<le> num_of s h - n"
    using block_ok_ne(2) [OF w(4) [OF w(3) [OF Some]]] assms(2) by simp
  then show ?thesis
    using x w(3) [OF Some]
    by (intro shrink_wf [OF assms(1), where P = "\<lambda>a. \<not> num_of s a \<le> num_of s h - n"
          and Q = "\<lambda>a. \<not> num_of s a \<le> num_of s h - n"])
      (auto simp: set_max_size_def Some ids_def intro!: image_eqI [where x = x])
qed

lemma remove_block_wf:
  assumes "fork_wf s"
  shows "fork_wf (remove_block i s)" (is "fork_wf ?s")
proof -
  note w = fork_wfD [OF assms]
  have ids: "ids s (index ?s) = ids s (index s) - {i}"
    by (auto simp: remove_block_def ids_def Let_def)
  have hd: "h < length (items s) \<and> block_id (blk s h) \<in> ids s (index s) - {i}" if h: "head ?s = Some h" for h
  proof (cases "\<exists>g. head s = Some g \<and> block_id (blk s g) = i")
    case True
    then obtain g where g: "head s = Some g" "block_id (blk s g) = i" by blast
    then have "lock s (prev (items s ! g)) = Some h" using h by (simp add: remove_block_def)
    then show ?thesis
      using lock_parent [OF assms w(3) [OF g(1)]] block_ok_ne(1) [OF w(4) [OF w(3) [OF g(1)]]] g(2) by auto
  next
    case False
    then have "head s = Some h" "block_id (blk s h) \<noteq> i"
      using h by (auto simp: remove_block_def Let_def split: option.splits if_splits)
    then show ?thesis using w(3,9) by auto
  qed
  have sel: "items ?s = items s" "index ?s = filter (\<lambda>a. block_id (blk s a) \<noteq> i) (index s)"
    "unlinked_index ?s = filter (\<lambda>_. True) (unlinked_index s)"
    by (simp_all add: remove_block_def Let_def split: option.split)
  show ?thesis
    using shrink_wf [OF assms sel] hd ids by blast
qed

lemma start_block_wf:
  assumes "fork_wf s" "new_block_ok b s"
  shows "fork_wf (start_block b s)"
proof -
  obtain a s1 where al: "allocate b s = (a, s1)" by (cases "allocate b s")
  note w1 = allocate_wf [OF al assms] and sel = allocate_sel [OF al]
  let ?s = "s1\<lparr>index := insert_item s1 a (index s1), head := Some a\<rparr>"
  have b: "blk ?s = blk s1" "ids ?s = ids s1" by (simp_all add: blk_def ids_def fun_eq_iff)
  have a: "a < length (items s1)" "a \<notin> set (unlinked_index s1)"
    using sel(1,2,4) fork_wfD(2) [OF assms(1)] by auto
  note w = fork_wfD [OF w1] and u = insert_item_facts(2) [of s1 a "index s1"]
  have "fork_wf ?s"
    unfolding fork_wf_def b
  proof (intro conjI)
    show "\<forall>x\<in>set (index ?s) \<union> set (unlinked_index ?s) \<union> set_option (head ?s). x < length (items ?s)"
      using w(1-3) a(1) u by auto
    show "set (index ?s) \<inter> set (unlinked_index ?s) = {}" using w(10) a(2) u by auto
    show "distinct (map (\<lambda>a. block_id (blk s1 a)) (index ?s))"
      using insert_item_facts(4) [OF w(7), of a] by simp
    show "\<forall>h. head ?s = Some h \<longrightarrow> block_id (blk s1 h) \<in> ids s1 (index ?s)"
      using insert_item_facts(1) [of s1 a "index s1"] by simp
  qed (simp_all, (use w1 in \<open>unfold fork_wf_def, blast\<close>)+)
  then show ?thesis by (simp add: start_block_def al)
qed

lemma reset_wf: "fork_wf s \<Longrightarrow> fork_wf (reset s)"
  by (rule shrink_wf [where P = "\<lambda>_. False" and Q = "\<lambda>_. True"]) (simp_all add: reset_def)

lemma set_head_wf:
  assumes "fork_wf s" "a \<in> set (index s)"
  shows "fork_wf (set_head_item (Some a) s)"
  using assms(2) fork_wfD(1) [OF assms]
  by (intro shrink_wf [OF assms(1), where P = "\<lambda>_. True" and Q = "\<lambda>_. True"])
    (auto simp: set_head_item_def ids_def)

lemma fork_reachable_wf:
  assumes "fork_reachable s"
  shows "fork_wf s"
  using assms
proof induction
  case fork_empty
  show ?case by (simp add: fork_wf_def empty_fork_db_def ids_def)
qed (auto intro: reset_wf start_block_wf push_block_wf pop_block_wf set_max_size_wf remove_block_wf set_head_wf)

lemma link_block_Inl:
  assumes "link_block a s = Inl e"
  shows "too_old s (num_of s a) \<and> e = Unlinkable_exn \<or>
    \<not> too_old s (num_of s a) \<and> head s \<noteq> None \<and> previous (blk s a) \<noteq> 0 \<and>
    (previous (blk s a) \<notin> ids s (index s) \<and> e = Unlinkable_exn \<or>
     (\<exists>p. find_id s (index s) (previous (blk s a)) = Some p \<and> invalid (items s ! p) \<and> e = Assert_exn ''invalid''))"
  using assms find_id_facts(1) [of s "index s" "previous (blk s a)"]
  by (cases "find_id s (index s) (previous (blk s a))")
    (auto simp: link_block_def attach_parent_def split: if_splits)

lemma push_next_mono: "ids s (index s) \<subseteq> ids s (index (push_next n a s))"
proof -
  let ?I = "\<lambda>r. blk r = blk s \<and> ids s (index s) \<subseteq> ids s (index r)"
  have "?I (push_next n a s)"
  proof (rule push_next_inv [where I = ?I])
    show "?I s'" if r: "?I r" "link_block t (unqueue t r) = Inr s'" for t r s'
    proof -
      note l = link_block_Inr(1,5) [OF r(2)]
      have "ids r = ids s" "ids s' = ids s" using r(1) l(1) by (auto intro!: ids_cong)
      then show ?thesis using r(1) l insert_item_facts(1) [of "unqueue t r" t "index r"] by auto
    qed
  qed simp_all
  then show ?thesis by blast
qed

lemma push_next_inv_linked:
  assumes "I s" "block_id (blk s a) \<in> ids s (index s)"
    and "\<And>t s. I s \<Longrightarrow> t \<in> set (unlinked_index s) \<Longrightarrow> previous (blk s t) \<in> ids s (index s) \<Longrightarrow>
      (case link_block t (unqueue t s) of Inl _ \<Rightarrow> I (unqueue t s) | Inr s' \<Rightarrow> I s')"
  shows "I (push_next n a s)"
  using assms(1,2)
proof (induction n arbitrary: a s)
  case (Suc n)
  show ?case
  proof (cases "waiting_child a s")
    case (Some t)
    note t = waiting_childD(1) [OF Some]
    have st: "case link_block t (unqueue t s) of Inl _ \<Rightarrow> I (unqueue t s) | Inr s' \<Rightarrow> I s'"
      using assms(3) [OF Suc.prems(1)] t Suc.prems(2) by simp
    show ?thesis
    proof (cases "link_block t (unqueue t s)")
      case (Inl e)
      then show ?thesis using st Some Suc.prems(2) Suc.IH [of "unqueue t s" a] by (simp add: Let_def)
    next
      case (Inr s2)
      note l = link_block_Inr(1,5) [OF Inr]
      have i: "ids s2 = ids s" by (rule ids_cong) (simp add: l)
      have in2: "block_id (blk s2 t) \<in> ids s2 (index s2)" "ids s (index s) \<subseteq> ids s2 (index s2)"
        using insert_item_facts(1) [of "unqueue t s" t "index s"] by (auto simp: l i)
      let ?r = "push_next n t s2"
      have "I ?r" using st Inr in2(1) by (intro Suc.IH) simp_all
      moreover have "block_id (blk ?r a) \<in> ids ?r (index ?r)"
        using push_next_mono [of s2 n t] push_next_frame(1) [of n t s2] in2(2) Suc.prems(2) l(1)
          ids_cong [OF push_next_frame(1) [of n t s2]] by auto
      ultimately have "I (push_next n a ?r)" by (rule Suc.IH)
      then show ?thesis using Some Inr by (simp add: Let_def)
    qed
  qed (use Suc in simp)
qed simp

lemma deliveredD:
  assumes "delivered b0 B P s"
  shows "fork_wf s" "head s \<noteq> None" "block_id b0 \<in> ids s (index s)"
    "x < length (items s) \<Longrightarrow> blk s x \<in> insert b0 B" "x < length (items s) \<Longrightarrow> \<not> invalid (items s ! x)"
    "ids s (index s) \<subseteq> linked_ids b0 B" "one_window (max_size s) (insert b0 B)"
    "b \<in> P \<Longrightarrow> block_id b \<in> ids s (index s) \<union> ids s (unlinked_index s)"
    "b \<in> P \<Longrightarrow> previous b \<notin> ids s (index s) \<Longrightarrow> block_id b \<in> ids s (unlinked_index s)"
    "P \<subseteq> B" "x \<in> set (unlinked_index s) \<Longrightarrow> blk s x \<in> B"
  using assms unfolding delivered_def by blast+

lemma delivered_window:
  assumes "delivered b0 B P s" "blk s x \<in> insert b0 B"
  shows "\<not> too_old s (num_of s x)"
proof -
  obtain h where h: "head s = Some h" using deliveredD(2) [OF assms(1)] by auto
  then have "blk s h \<in> insert b0 B" using deliveredD(4) [OF assms(1)] fork_wfD(3) [OF deliveredD(1) [OF assms(1)]] by blast
  then have "num_of s h < num_of s x + max_size s" "block_ok (blk s x)"
    using deliveredD(7) [OF assms(1)] assms(2) by (auto simp: one_window_def)
  then show ?thesis using block_ok_ne(2) by (force simp: too_old_def h)
qed

lemma ids_remove1:
  assumes "distinct (map (\<lambda>a. block_id (blk s a)) as)" "t \<in> set as"
  shows "ids s (remove1 t as) = ids s as - {block_id (blk s t)}"
  using assms by (auto simp: ids_def distinct_map inj_on_def)

lemma delivered_step:
  assumes "delivered b0 B P s" "t \<in> set (unlinked_index s)" "previous (blk s t) \<in> ids s (index s)"
  shows "\<exists>s'. link_block t (unqueue t s) = Inr s' \<and> delivered b0 B P s'"
proof -
  let ?u = "unqueue t s"
  note d = deliveredD [OF assms(1)] and w = fork_wfD [OF deliveredD(1) [OF assms(1)]]
  have tl: "t < length (items s)" using w(2) assms(2) by blast
  have "link_block t ?u \<noteq> Inl e" for e
    using link_block_Inl [of t ?u e] delivered_window [OF assms(1) d(4) [OF tl]] assms(3) d(5) w(1)
      find_id_facts(2) [of ?u "index s"] by auto
  then obtain s' where s': "link_block t ?u = Inr s'" by (cases "link_block t ?u") auto
  note l = link_block_Inr [OF s', simplified]
  have i: "ids s' = ids s" using l(1) by (rule ids_cong)
  have ix: "ids s (index s') = insert (block_id (blk s t)) (ids s (index s))"
    using insert_item_facts(1) [of ?u t "index s"] by (simp add: l(5))
  have un: "ids s (remove1 t (unlinked_index s)) = ids s (unlinked_index s) - {block_id (blk s t)}"
    by (rule ids_remove1 [OF w(8) assms(2)])
  have tn: "t \<notin> set (unlinked_index ?u)" using w(8) by (simp add: distinct_map)
  have tin: "block_id (blk s t) \<in> linked_ids b0 B"
    using d(4) [OF tl] assms(3) d(6) by (auto intro: linked_ids.intros)
  have inj: "inj_on block_id (insert b0 B)" using d(7) by (simp add: one_window_def)
  have "delivered b0 B P s'"
    unfolding delivered_def i l(1-4) ix un
  proof (intro conjI ballI allI impI)
    show "fork_wf s'" using link_block_wf [OF unqueue_wf [OF d(1)] _ tn s'] tl by simp
    show "head s' \<noteq> None" using l(6) by (auto split: option.splits if_splits)
    show "block_id b0 \<in> insert (block_id (blk s t)) (ids s (index s))" using d(3) by simp
    show "blk s x \<in> insert b0 B" "\<not> invalid (items s' ! x)" if "x < length (items s)" for x
      using that d(4,5) l(7) by auto
    show "insert (block_id (blk s t)) (ids s (index s)) \<subseteq> linked_ids b0 B" using d(6) tin by simp
    show "one_window (max_size s) (insert b0 B)" by (rule d(7))
    show "P \<subseteq> B" by (rule d(10))
    show "blk s ` set (remove1 t (unlinked_index s)) \<subseteq> B"
      using d(11) set_remove1_subset [of t "unlinked_index s"] by blast
    show "block_id b \<in> insert (block_id (blk s t)) (ids s (index s)) \<union>
        (ids s (unlinked_index s) - {block_id (blk s t)})" if "b \<in> P" for b
      using d(8) [OF that] by blast
    show "block_id b \<in> ids s (unlinked_index s) - {block_id (blk s t)}"
      if "b \<in> P" "previous b \<notin> insert (block_id (blk s t)) (ids s (index s))" for b
    proof -
      have "block_id b \<in> ids s (unlinked_index s)" using d(9) that by blast
      moreover have "block_id b \<noteq> block_id (blk s t)"
        using inj_onD [OF inj, of b "blk s t"] d(4) [OF tl] d(10) that assms(3) by auto
      ultimately show ?thesis by simp
    qed
  qed
  then show ?thesis using s' by blast
qed

lemma allocate_settled:
  assumes "allocate b s = (a, s1)" "fork_wf s"
  shows "too_old s1 = too_old s" "settled E s1 = settled E s" "head_highest s1 = head_highest s"
proof -
  note sel = allocate_sel [OF assms(1)] and w = fork_wfD [OF assms(2)] and i = allocate_ids [OF assms]
  show t: "too_old s1 = too_old s"
    using sel(5,6,8) w(3) by (auto simp: too_old_def fun_eq_iff split: option.splits)
  show "settled E s1 = settled E s"
    unfolding settled_def t sel(3,4) i using w(2) sel(8) by auto
  show "head_highest s1 = head_highest s"
    unfolding head_highest_def sel(3,5) using w(1,3) sel(8) by (auto; metis)
qed

lemma enqueue_settled:
  assumes "settled {} s" "link_block a s = Inl Unlinkable_exn"
  shows "settled {} (s\<lparr>unlinked_index := insert_item s a (unlinked_index s)\<rparr>)" (is "settled {} ?s")
proof -
  have b: "blk ?s = blk s" "ids ?s = ids s" "too_old ?s = too_old s"
    by (auto simp: blk_def ids_def too_old_def fun_eq_iff split: option.splits)
  have "previous (blk s a) \<in> ids s (index s) \<longrightarrow> too_old s (num_of s a)"
    using link_block_Inl [OF assms(2)] by auto
  then show ?thesis
    using assms(1) insert_item_facts(2) [of s a "unlinked_index s"] by (auto simp: settled_def b)
qed

lemma push_block_settled:
  assumes "fork_wf s" "settled {} s"
  shows "settled {} (fst (push_block b s))"
proof -
  obtain a s1 where al: "allocate b s = (a, s1)" by (cases "allocate b s")
  have s1: "settled {} s1" using assms allocate_settled(2) [OF al] by blast
  show ?thesis
  proof (cases "link_block a s1")
    case (Inl e)
    then have "push_item a s1 = Inl e" by (simp add: push_item_Inr(2))
    then show ?thesis using s1 enqueue_settled [OF s1] Inl by (auto simp: push_block_def al)
  next
    case (Inr s2)
    then have "push_item a s1 = Inr (push_next (length (unlinked_index s2)) a s2)" by (simp add: push_item_Inr(1))
    moreover have "settled (insert (block_id (blk s2 a)) {}) s2"
      using link_block_settled [OF s1 Inr] link_block_Inr(1) [OF Inr] by simp
    ultimately show ?thesis using push_next_settles [of s2 "length (unlinked_index s2)" a "{}"] by (simp add: push_block_def al)
  qed
qed

lemma push_block_highest:
  assumes "fork_wf s" "head_highest s"
  shows "head_highest (fst (push_block b s))"
proof -
  obtain a s1 where al: "allocate b s = (a, s1)" by (cases "allocate b s")
  have s1: "head_highest s1" using assms allocate_settled(3) [OF al] by blast
  show ?thesis
  proof (cases "link_block a s1")
    case (Inl e)
    then have "push_item a s1 = Inl e" by (simp add: push_item_Inr(2))
    moreover have "head_highest (s1\<lparr>unlinked_index := u\<rparr>) = head_highest s1" for u
      by (simp add: head_highest_def blk_def)
    ultimately show ?thesis using s1 by (auto simp: push_block_def al)
  next
    case (Inr s2)
    then have "push_item a s1 = Inr (push_next (length (unlinked_index s2)) a s2)" by (simp add: push_item_Inr(1))
    then show ?thesis using push_next_highest [OF link_block_highest [OF s1 Inr]] by (simp add: push_block_def al)
  qed
qed

lemma push_block_eq:
  assumes "allocate b s = (a, s1)"
  shows "push_block b s =
    (case link_block a s1 of
       Inl e \<Rightarrow> (if e = Unlinkable_exn then s1\<lparr>unlinked_index := insert_item s1 a (unlinked_index s1)\<rparr> else s1, Inl e)
     | Inr s2 \<Rightarrow> (push_next (length (unlinked_index s2)) a s2, Inr (head (push_next (length (unlinked_index s2)) a s2))))"
  by (cases "link_block a s1") (simp_all add: push_block_def push_item_def assms)

lemma delivered_allocate:
  assumes "delivered b0 B P s" "b \<in> B" "allocate b s = (a, s1)"
  shows "delivered b0 B P s1"
proof -
  note d = deliveredD [OF assms(1)] and sel = allocate_sel [OF assms(3)]
  note i = allocate_ids [OF assms(3) d(1)]
  have w1: "one_window (max_size s) (insert b0 B)" by (rule d(7))
  have "new_block_ok b s"
    using w1 assms(2) d(4) inj_onD [of block_id "insert b0 B" _ b]
    by (simp add: new_block_ok_def one_window_def)
  then have "fork_wf s1" using allocate_wf [OF assms(3) d(1)] by blast
  moreover have "blk s1 x \<in> insert b0 B \<and> \<not> invalid (items s1 ! x)" if "x < length (items s1)" for x
    using that assms(2) d(4,5) sel(7,8) by (auto simp: sel(1,2) nth_append new_item_def less_Suc_eq)
  moreover have "blk s1 ` set (unlinked_index s) \<subseteq> B"
    using d(11) fork_wfD(2) [OF d(1)] sel(8) by auto
  ultimately show ?thesis
    using assms(1) unfolding delivered_def sel(3-6) i by blast
qed

lemma delivered_enqueue:
  assumes "delivered b0 B P s" "fork_wf (s\<lparr>unlinked_index := insert_item s a (unlinked_index s)\<rparr>)"
    "blk s a \<in> B"
  shows "delivered b0 B (insert (blk s a) P) (s\<lparr>unlinked_index := insert_item s a (unlinked_index s)\<rparr>)"
    (is "delivered b0 B _ ?s")
proof -
  have b: "blk ?s = blk s" "ids ?s = ids s" by (simp_all add: blk_def ids_def fun_eq_iff)
  have "ids s (unlinked_index ?s) = insert (block_id (blk s a)) (ids s (unlinked_index s))"
    by (simp add: insert_item_facts(1))
  moreover have "blk s ` set (unlinked_index ?s) \<subseteq> B"
    using assms(3) deliveredD(11) [OF assms(1)] insert_item_facts(2) [of s a "unlinked_index s"] by auto
  ultimately show ?thesis
    using assms unfolding delivered_def b by auto
qed

lemma delivered_link:
  assumes "delivered b0 B P s" "link_block a s = Inr s'" "previous (blk s a) \<in> ids s (index s)"
    "a < length (items s)" "a \<notin> set (unlinked_index s)" "blk s a \<in> B"
  shows "delivered b0 B (insert (blk s a) P) s'"
proof -
  note d = deliveredD [OF assms(1)] and l = link_block_Inr [OF assms(2)]
  have i: "ids s' = ids s" using l(1) by (rule ids_cong)
  have ix: "ids s (index s') = insert (block_id (blk s a)) (ids s (index s))"
    using insert_item_facts(1) [of s a "index s"] by (simp add: l(5))
  have ain: "block_id (blk s a) \<in> linked_ids b0 B"
    using assms(3,6) d(6) by (auto intro: linked_ids.intros)
  have hd: "head s' \<noteq> None" using l(6) by (auto split: option.splits if_splits)
  have wf: "fork_wf s'" by (rule link_block_wf [OF d(1) assms(4,5,2)])
  show ?thesis
    unfolding delivered_def i l(1-4) ix
    using wf hd d(3-11) ain l(7) assms(3,6) by auto
qed

lemma delivered_push:
  assumes "delivered b0 B P s" "b \<in> B" "previous b \<noteq> 0"
  shows "delivered b0 B (insert b P) (fst (push_block b s))"
proof -
  obtain a s1 where al: "allocate b s = (a, s1)" by (cases "allocate b s")
  note sel = allocate_sel [OF al]
  have d1: "delivered b0 B P s1" by (rule delivered_allocate [OF assms(1,2) al])
  note d = deliveredD [OF d1] and w = fork_wfD [OF deliveredD(1) [OF assms(1)]]
  have a: "a < length (items s1)" "a \<notin> set (unlinked_index s1)" "a \<notin> set (index s1)"
    using sel(1-4) w(1,2) by auto
  have new: "prev (items s1 ! x) \<noteq> Some a" if "x < length (items s1)" for x
    using that w(5) [of x a] sel(1,2) by (auto simp: nth_append new_item_def split: if_splits)
  have in_s: "blk s1 a \<in> insert b0 B" using assms(2) sel(7) by simp
  show ?thesis
  proof (cases "link_block a s1")
    case (Inl e)
    have "e = Unlinkable_exn"
      using link_block_Inl [OF Inl] find_id_facts(2) [of s1 "index s1"] d(5) fork_wfD(1) [OF d(1)] by blast
    then show ?thesis
      using delivered_enqueue [OF d1 enqueue_wf [OF d(1) a(1,3) new]] sel(7) assms(2)
      by (simp add: push_block_eq [OF al] Inl)
  next
    case (Inr s2)
    have par: "previous (blk s1 a) \<in> ids s1 (index s1)"
      using link_block_Inr(9) [OF Inr] d(2) sel(7) assms(3) by (force simp: ids_def)
    have d2: "delivered b0 B (insert b P) s2"
      using delivered_link [OF d1 Inr par a(1,2)] sel(7) assms(2) by simp
    have "block_id (blk s2 a) \<in> ids s2 (index s2)"
      using insert_item_facts(1) [of s1 a "index s1"] link_block_Inr(1,5) [OF Inr]
        ids_cong [OF link_block_Inr(1) [OF Inr]] by simp
    with d2 have "delivered b0 B (insert b P) (push_next (length (unlinked_index s2)) a s2)"
    proof (rule push_next_inv_linked)
      show "case link_block t (unqueue t r) of Inl _ \<Rightarrow> delivered b0 B (insert b P) (unqueue t r)
          | Inr s' \<Rightarrow> delivered b0 B (insert b P) s'"
        if "delivered b0 B (insert b P) r" "t \<in> set (unlinked_index r)" "previous (blk r t) \<in> ids r (index r)" for t r
        using delivered_step [OF that] by auto
    qed
    then show ?thesis by (simp add: push_block_eq [OF al] Inr)
  qed
qed

lemma delivered_push_all:
  assumes "delivered b0 B P s" "settled {} s" "head_highest s" "set bs \<subseteq> B" "\<And>b. b \<in> set bs \<Longrightarrow> previous b \<noteq> 0"
  shows "delivered b0 B (P \<union> set bs) (push_all bs s) \<and> settled {} (push_all bs s) \<and> head_highest (push_all bs s)"
  using assms
proof (induction bs arbitrary: s P)
  case (Cons b bs)
  let ?s = "fst (push_block b s)"
  have "delivered b0 B (insert b P) ?s" using Cons.prems by (intro delivered_push) simp_all
  moreover have "settled {} ?s" "head_highest ?s"
    using Cons.prems(2,3) deliveredD(1) [OF Cons.prems(1)] push_block_settled push_block_highest by auto
  ultimately show ?case using Cons.IH [of "insert b P" ?s] Cons.prems(4,5) by (simp add: push_all_def)
qed (simp add: push_all_def)

lemma delivered_start:
  assumes "one_window 1024 (insert b0 B)"
  shows "delivered b0 B {} (start_block b0 empty_fork_db)" "settled {} (start_block b0 empty_fork_db)"
    "head_highest (start_block b0 empty_fork_db)"
proof -
  have ok: "block_ok b0" using assms by (simp add: one_window_def)
  have "new_block_ok b0 empty_fork_db" using ok by (simp add: new_block_ok_def empty_fork_db_def)
  then have wf: "fork_wf (start_block b0 empty_fork_db)"
    by (intro start_block_wf fork_reachable_wf fork_empty)
  let ?s = "start_block b0 empty_fork_db"
  have sel: "items ?s = [new_item b0]" "index ?s = [0]" "unlinked_index ?s = []" "head ?s = Some 0" "max_size ?s = 1024"
    by (simp_all add: start_block_def allocate_def empty_fork_db_def insert_item_def find_id_def)
  show "delivered b0 B {} ?s"
    using wf assms by (auto simp: delivered_def sel ids_def blk_def new_item_def intro: linked_ids.root)
  show "settled {} ?s" "head_highest ?s" by (simp_all add: settled_def head_highest_def sel)
qed

lemma delivery_complete:
  assumes "one_window 1024 (insert b0 (set bs))" "\<forall>b \<in> set bs. previous b \<noteq> 0"
  defines "s \<equiv> push_all bs (start_block b0 empty_fork_db)"
  shows "ids s (index s) = linked_ids b0 (set bs) \<and>
    ids s (unlinked_index s) = block_id ` {b \<in> set bs. previous b \<notin> linked_ids b0 (set bs)} \<and>
    (\<exists>h. head s = Some h \<and> block_id (blk s h) \<in> linked_ids b0 (set bs) \<and>
      (\<forall>i \<in> linked_ids b0 (set bs). num_from_id i \<le> num_of s h))"
proof -
  let ?L = "linked_ids b0 (set bs)"
  have all: "delivered b0 (set bs) (set bs) s" "settled {} s" "head_highest s"
    using delivered_push_all [OF delivered_start [OF assms(1)] subset_refl] assms(2) by (auto simp: s_def)
  note d = deliveredD [OF all(1)] and w = fork_wfD [OF deliveredD(1) [OF all(1)]]
  have inj: "inj_on block_id (insert b0 (set bs))" using assms(1) by (simp add: one_window_def)
  have wait: "previous (blk s t) \<notin> ids s (index s)" if t: "t \<in> set (unlinked_index s)" for t
    using all(2) t delivered_window [OF all(1) d(4) [OF w(2) [OF t]]] by (auto simp: settled_def)
  have "i \<in> ids s (index s)" if "i \<in> ?L" for i
    using that
  proof induction
    case (child b)
    show ?case
    proof (rule ccontr)
      assume "block_id b \<notin> ids s (index s)"
      then obtain t where t: "t \<in> set (unlinked_index s)" "block_id (blk s t) = block_id b"
        using d(8) [OF child(1)] by (auto simp: ids_def)
      then have "blk s t = b" using inj_onD [OF inj] d(4) w(2) child(1) by blast
      then show False using wait [OF t(1)] child.IH by simp
    qed
  qed (rule d(3))
  then have L: "ids s (index s) = ?L" using d(6) by blast
  have "block_id (blk s t) \<in> block_id ` {b \<in> set bs. previous b \<notin> ?L}" if t: "t \<in> set (unlinked_index s)" for t
    using d(11) [OF t] wait [OF t] L by blast
  then have U: "ids s (unlinked_index s) = block_id ` {b \<in> set bs. previous b \<notin> ?L}"
    using d(9) L by (auto simp: ids_def)
  obtain h where h: "head s = Some h" using d(2) by auto
  have "num_from_id i \<le> num_of s h" if "i \<in> ?L" for i
    using all(3) h that unfolding L [symmetric] by (auto simp: head_highest_def ids_def get_block_num_def)
  then show ?thesis using L U h w(9) [OF h] by auto
qed

lemma index_unique:
  assumes "fork_wf s" "p \<in> set (index s)" "q \<in> set (index s)" "block_id (blk s p) = block_id (blk s q)"
  shows "p = q"
  using fork_wfD(7) [OF assms(1)] assms(2-4) by (auto simp: distinct_map inj_on_def)

lemma push_block_refused:
  assumes "fork_wf s" "allocate b s = (a, s1)" "link_block a s1 = Inl e"
  shows "too_old s (get_block_num b) \<and> e = Unlinkable_exn \<or>
    \<not> too_old s (get_block_num b) \<and> head s \<noteq> None \<and> previous b \<noteq> 0 \<and>
    (previous b \<notin> ids s (index s) \<and> e = Unlinkable_exn \<or>
     previous b \<in> ids s (index s) \<and> e = Assert_exn ''invalid'' \<and>
       (\<exists>p \<in> set (index s). block_id (blk s p) = previous b \<and> invalid (items s ! p)))"
proof -
  note sel = allocate_sel [OF assms(2)] and w = fork_wfD [OF assms(1)]
  have f: "\<exists>p \<in> set (index s). block_id (blk s p) = previous b \<and> invalid (items s ! p)"
    if "find_id s1 (index s1) (previous b) = Some p" "invalid (items s1 ! p)" for p
    using find_id_facts(2) [OF that(1)] that(2) w(1) sel(2,3,8) by (auto simp: nth_append intro!: bexI [where x = p])
  then have g: "\<exists>p. find_id s1 (index s1) (previous b) = Some p \<and> invalid (items s1 ! p) \<Longrightarrow>
      previous b \<in> ids s (index s)" by (force simp: ids_def)
  show ?thesis
    using link_block_Inl [OF assms(3)] f g
    unfolding sel(3,5,7) allocate_settled(1) [OF assms(2,1)] allocate_ids(1) [OF assms(2,1)] by blast
qed

lemma push_block_accepted:
  assumes "fork_wf s" "allocate b s = (a, s1)" "link_block a s1 = Inr s2" "fork_wf s1"
  shows "\<not> too_old s (get_block_num b)"
    "head s = None \<or> previous b = 0 \<or> previous b \<in> ids s (index s) \<and>
     \<not> (\<exists>p \<in> set (index s). block_id (blk s p) = previous b \<and> invalid (items s ! p))"
    "ids s2 (index s2) = insert (block_id b) (ids s (index s))"
proof -
  note sel = allocate_sel [OF assms(2)] and w = fork_wfD [OF assms(1)] and l = link_block_Inr [OF assms(3)]
  show "\<not> too_old s (get_block_num b)"
    using l(8) allocate_settled(1) [OF assms(2,1)] sel(7) by simp
  have "p = q" if "p \<in> set (index s)" "q \<in> set (index s)" "block_id (blk s1 p) = previous b" "block_id (blk s q) = previous b" for p q
    using index_unique [OF assms(1) that(1,2)] that w(1) sel(8) by simp
  moreover have "previous b \<in> ids s (index s)" if "p \<in> set (index s)" "block_id (blk s1 p) = previous b" for p
    using that allocate_ids(1) [OF assms(2,1)] by (force simp: ids_def)
  moreover have "invalid (items s1 ! p) = invalid (items s ! p)" if "p \<in> set (index s)" for p
    using w(1) [OF that] by (simp add: sel(2) nth_append)
  ultimately show "head s = None \<or> previous b = 0 \<or> previous b \<in> ids s (index s) \<and>
     \<not> (\<exists>p \<in> set (index s). block_id (blk s p) = previous b \<and> invalid (items s ! p))"
    using l(9) unfolding sel(3,5,7) by blast
  show "ids s2 (index s2) = insert (block_id b) (ids s (index s))"
    using insert_item_facts(1) [of s1 a "index s1"] ids_cong [OF l(1)] allocate_ids(1) [OF assms(2,1)]
    by (simp add: l(5) sel(3,7))
qed

lemma push_block_result:
  assumes "fork_wf s" "new_block_ok b s" "push_block b s = (s', r)"
  shows "if too_old s (get_block_num b) \<or> head s \<noteq> None \<and> previous b \<noteq> 0 \<and> previous b \<notin> ids s (index s)
     then r = Inl Unlinkable_exn \<and> index s' = index s \<and> head s' = head s \<and>
       ids s' (unlinked_index s') = insert (block_id b) (ids s (unlinked_index s))
     else if head s \<noteq> None \<and> previous b \<noteq> 0 \<and>
       (\<exists>p \<in> set (index s). block_id (blk s p) = previous b \<and> invalid (items s ! p))
     then r = Inl (Assert_exn ''invalid'') \<and> index s' = index s \<and> head s' = head s \<and>
       unlinked_index s' = unlinked_index s
     else r = Inr (head s') \<and> insert (block_id b) (ids s (index s)) \<subseteq> ids s' (index s')"
proof -
  obtain a s1 where al: "allocate b s = (a, s1)" by (cases "allocate b s")
  note sel = allocate_sel [OF al] and eq = push_block_eq [OF al]
  show ?thesis
  proof (cases "link_block a s1")
    case (Inl e)
    let ?q = "s1\<lparr>unlinked_index := insert_item s1 a (unlinked_index s1)\<rparr>"
    have "ids ?q (unlinked_index ?q) = insert (block_id b) (ids s (unlinked_index s))"
      using insert_item_facts(1) [of s1 a "unlinked_index s1"] allocate_ids(2) [OF al assms(1)] sel(4,7)
        ids_cong [of ?q s1] by (simp add: blk_def fun_eq_iff)
    moreover have "r = Inl e" "s' = (if e = Unlinkable_exn then ?q else s1)"
      using assms(3) by (simp_all add: eq Inl split: if_splits)
    ultimately show ?thesis
      using push_block_refused [OF assms(1) al Inl] sel(3-5) by auto
  next
    case (Inr s2)
    note acc = push_block_accepted [OF assms(1) al Inr allocate_wf [OF al assms(1,2)]]
    have s': "r = Inr (head s')" "s' = push_next (length (unlinked_index s2)) a s2"
      using assms(3) by (auto simp: eq Inr)
    have "ids s2 (index s2) \<subseteq> ids s' (index s')"
      using push_next_mono [of s2] ids_cong [OF push_next_frame(1)] s'(2) by simp
    then show ?thesis using acc s'(1) by auto
  qed
qed

lemmas fork_eval = new_block_ok_def block_ok_def get_block_num_def example_block_def example_id_def num_from_id_def
  empty_fork_db_def start_block_def allocate_def insert_item_def find_id_def blk_def new_item_def ids_def too_old_def

section \<open>Properties\<close>

text \<open>
  C15: Every state that the operations reach from an empty fork database is well-formed: the pointers
  lead to the parents, ids are unique in both containers, and the head is a linked block.
\<close>

theorem fork_database_well_formed:
  assumes "fork_reachable s"
  shows "fork_wf s"
  by (rule fork_reachable_wf [OF assms])

theorem fork_database_well_formed_witness:
  "fork_wf (set_max_size 2 (fst (push_block (example_block 2 1 0) (start_block (example_block 1 0 7) empty_fork_db))))"
proof -
  have "new_block_ok (example_block 1 0 7) empty_fork_db"
    "new_block_ok (example_block 2 1 0) (start_block (example_block 1 0 7) empty_fork_db)"
    by (simp_all add: fork_eval)
  then have "fork_reachable (set_max_size 2 (fst (push_block (example_block 2 1 0) (start_block (example_block 1 0 7) empty_fork_db))))"
    by (simp add: fork_max_size fork_push fork_start fork_empty)
  then show ?thesis by (rule fork_database_well_formed)
qed

text \<open>
  C12: What \<^verbatim>\<open>push_block\<close> does in a well-formed state. A block below the window or without a known
  parent is cached and reported as unlinkable, the tree and the head stay. A child of an invalid block
  fails and nothing is kept. Every other block is linked and the head is returned. In each case the state stays
  well-formed, the head stays a block with the largest number and no linkable block is left waiting.
\<close>

theorem push_block_outcome:
  assumes "fork_wf s" "head_highest s" "settled {} s" "new_block_ok b s"
  shows "case push_block b s of (s', r) \<Rightarrow>
    fork_wf s' \<and> head_highest s' \<and> settled {} s' \<and>
    (if too_old s (get_block_num b) \<or> head s \<noteq> None \<and> previous b \<noteq> 0 \<and> previous b \<notin> ids s (index s)
     then r = Inl Unlinkable_exn \<and> index s' = index s \<and> head s' = head s \<and>
       ids s' (unlinked_index s') = insert (block_id b) (ids s (unlinked_index s))
     else if head s \<noteq> None \<and> previous b \<noteq> 0 \<and>
       (\<exists>p \<in> set (index s). block_id (blk s p) = previous b \<and> invalid (items s ! p))
     then r = Inl (Assert_exn ''invalid'') \<and> index s' = index s \<and> head s' = head s \<and>
       unlinked_index s' = unlinked_index s
     else r = Inr (head s') \<and> insert (block_id b) (ids s (index s)) \<subseteq> ids s' (index s'))"
proof (cases "push_block b s")
  case (Pair s' r)
  have "fork_wf s'" "head_highest s'" "settled {} s'"
    using push_block_wf [OF assms(1,4)] push_block_highest [OF assms(1,2), of b]
      push_block_settled [OF assms(1,3), of b] Pair by simp_all
  then show ?thesis
    unfolding Pair prod.case using push_block_result [OF assms(1,4) Pair] by blast
qed

theorem push_block_outcome_witness:
  "let s = start_block (example_block 1 0 7) empty_fork_db; b = example_block 3 1 1 in
   new_block_ok b s \<and> \<not> too_old s (get_block_num b) \<and> previous b \<notin> ids s (index s) \<and>
   snd (push_block b s) = Inl Unlinkable_exn \<and> settled {} (fst (push_block b s))"
proof -
  let ?s = "start_block (example_block 1 0 7) empty_fork_db" and ?b = "example_block 3 1 1"
  have "fork_wf ?s \<and> head_highest ?s \<and> settled {} ?s \<and> new_block_ok ?b ?s \<and>
    previous ?b \<notin> ids ?s (index ?s) \<and> previous ?b \<noteq> 0 \<and> head ?s \<noteq> None \<and> \<not> too_old ?s (get_block_num ?b)"
    by (simp add: fork_eval fork_wf_def head_highest_def settled_def)
  then show ?thesis using push_block_outcome [of ?s ?b] by (auto simp: Let_def split: prod.splits)
qed

text \<open>
  C11: Blocks that fit into one window may arrive in any order. After all of them were pushed the tree
  holds exactly the blocks that are connected to the first one, only blocks without a connection
  wait, and the head is a connected block with the largest number.
\<close>

theorem delivery_in_any_order:
  assumes "one_window 1024 (insert b0 (set bs))" "\<forall>b \<in> set bs. previous b \<noteq> 0"
  shows "let s = push_all bs (start_block b0 empty_fork_db) in
    ids s (index s) = linked_ids b0 (set bs) \<and>
    ids s (unlinked_index s) = block_id ` {b \<in> set bs. previous b \<notin> linked_ids b0 (set bs)} \<and>
    (\<exists>h. head s = Some h \<and> block_id (blk s h) \<in> linked_ids b0 (set bs) \<and>
      (\<forall>i \<in> linked_ids b0 (set bs). num_from_id i \<le> num_of s h))"
  using delivery_complete [OF assms] by (simp add: Let_def)

theorem delivery_in_any_order_witness:
  "let bs = [example_block 3 1 1, example_block 2 1 0]; s = push_all bs (start_block (example_block 1 0 7) empty_fork_db) in
    ids s (index s) = linked_ids (example_block 1 0 7) (set bs)"
proof -
  let ?bs = "[example_block 3 1 1, example_block 2 1 0]" and ?b0 = "example_block 1 0 7"
  have w: "one_window 1024 (insert ?b0 (set ?bs))" "\<forall>b \<in> set ?bs. previous b \<noteq> 0"
    by (simp_all add: fork_eval one_window_def)
  show ?thesis using delivery_in_any_order [OF w] by (simp only: Let_def)
qed

end
