(* ===== verification/Fork_Branches.thy ===== *)
theory Fork_Branches
  imports Fork_Linking
begin

text \<open>
  The branches of the fork database: the walk from two blocks back to their common ancestor.
\<close>

definition higher :: "fork_database \<Rightarrow> nat list \<Rightarrow> nat \<Rightarrow> bool" where
  "higher s as n \<longleftrightarrow> (\<forall>a \<in> set as. n < num_of s a)"

definition rooted :: "block \<Rightarrow> fork_database \<Rightarrow> bool" where
  "rooted b0 s \<longleftrightarrow> (\<forall>a \<in> set (index s). get_block_num b0 \<le> num_of s a \<and>
     (blk s a = b0 \<or> (\<exists>p \<in> set (index s). prev (items s ! a) = Some p \<and> block_id (blk s p) = previous (blk s a))))"

definition delivered_rooted :: "block \<Rightarrow> block set \<Rightarrow> block set \<Rightarrow> fork_database \<Rightarrow> bool" where
  "delivered_rooted b0 B P s \<longleftrightarrow> delivered b0 B P s \<and> rooted b0 s"

lemma branch_path_snoc:
  "branch_path s i (as @ [a]) c \<longleftrightarrow>
     a < length (items s) \<and> branch_path s i as (block_id (blk s a)) \<and> previous (blk s a) = c"
  by (induction as arbitrary: i) auto

lemma parent_num:
  assumes "fork_wf s" "a < length (items s)" "lock s (prev (items s ! a)) = Some p"
  shows "num_of s a = Suc (num_of s p)"
  using fork_wfD(4) [OF assms(1,2)] lock_parent(2) [OF assms] by (simp add: block_ok_def get_block_num_def)

declare branch_down.simps [simp del] branch_both.simps [simp del]

lemma branch_down_spec:
  assumes "fork_wf s" "a < length (items s)" "num_of s a \<le> k" "branch_path s i acc (block_id (blk s a))"
    "higher s acc (num_of s a)"
  shows "(case branch_down k s a n acc of
      Inl e \<Rightarrow> e = Assert_exn ''Can't lock''
    | Inr (c, as) \<Rightarrow> c < length (items s) \<and> num_of s c = min n (num_of s a) \<and>
        branch_path s i as (block_id (blk s c)) \<and> higher s as (num_of s c))"
  using assms(2-)
proof (induction k arbitrary: a acc)
  case 0
  then show ?case using block_ok_ne(2) [OF fork_wfD(4) [OF assms(1) 0(1)]] by simp
next
  case (Suc k)
  show ?case
  proof (cases "num_of s a > n")
    case True
    show ?thesis
    proof (cases "lock s (prev (items s ! a))")
      case (Some p)
      note lp = lock_parent [OF assms(1) Suc.prems(1) Some] and pn = parent_num [OF assms(1) Suc.prems(1) Some]
      have "higher s (acc @ [a]) (num_of s p)" using Suc.prems(4) pn by (auto simp: higher_def)
      then have "case branch_down k s p n (acc @ [a]) of
          Inl e \<Rightarrow> e = Assert_exn ''Can't lock''
        | Inr (c, as) \<Rightarrow> c < length (items s) \<and> num_of s c = min n (num_of s p) \<and>
            branch_path s i as (block_id (blk s c)) \<and> higher s as (num_of s c)"
        using Suc.prems lp pn by (intro Suc.IH) (simp_all add: branch_path_snoc)
      moreover have "min n (num_of s p) = min n (num_of s a)" using True pn by simp
      moreover have "branch_down (Suc k) s a n acc = branch_down k s p n (acc @ [a])"
        using True Some by (simp add: branch_down.simps [of "Suc k" s a])
      ultimately show ?thesis by (simp only:)
    qed (simp add: True branch_down.simps [of "Suc k" s a])
  next
    case False
    then show ?thesis using Suc.prems by (simp add: branch_down.simps [of "Suc k" s a])
  qed
qed

lemma higher_apart:
  assumes "higher s as n" "num_of s b \<le> n"
  shows "\<forall>a \<in> set as. block_id (blk s a) \<noteq> block_id (blk s b)"
  using assms by (force simp: higher_def get_block_num_def)

lemma branch_both_spec:
  assumes "fork_wf s" "a < length (items s)" "b < length (items s)" "num_of s a = num_of s b" "num_of s a \<le> k"
    "branch_path s i as (block_id (blk s a))" "branch_path s j bs (block_id (blk s b))"
    "higher s as (num_of s a)" "higher s bs (num_of s b)" "apart s as bs"
  shows "(case branch_both k s a b as bs of
      Inl e \<Rightarrow> e = Assert_exn ''first_branch'' \<or> e = Assert_exn ''second_branch''
    | Inr (c, d, as', bs') \<Rightarrow> c < length (items s) \<and> d < length (items s) \<and>
        previous (blk s c) = previous (blk s d) \<and> num_of s c = num_of s d \<and>
        branch_path s i as' (block_id (blk s c)) \<and> branch_path s j bs' (block_id (blk s d)) \<and>
        higher s as' (num_of s c) \<and> higher s bs' (num_of s d) \<and> apart s as' bs')"
  using assms(2-)
proof (induction k arbitrary: a b as bs)
  case 0
  then show ?case using block_ok_ne(2) [OF fork_wfD(4) [OF assms(1) 0(1)]] by simp
next
  case (Suc k)
  show ?case
  proof (cases "previous (blk s a) = previous (blk s b)")
    case False
    show ?thesis
    proof (cases "lock s (prev (items s ! a))"; cases "lock s (prev (items s ! b))")
      fix p q
      assume p: "lock s (prev (items s ! a)) = Some p" and q: "lock s (prev (items s ! b)) = Some q"
      note lp = lock_parent [OF assms(1) Suc.prems(1) p] and pn = parent_num [OF assms(1) Suc.prems(1) p]
      note lq = lock_parent [OF assms(1) Suc.prems(2) q] and qn = parent_num [OF assms(1) Suc.prems(2) q]
      have ab: "block_id (blk s a) \<noteq> block_id (blk s b)"
        using False fork_wfD(6) [OF assms(1) Suc.prems(1,2)] by auto
      have h: "higher s (as @ [a]) (num_of s p)" "higher s (bs @ [b]) (num_of s q)"
        using Suc.prems(7,8) pn qn by (auto simp: higher_def)
      have ap: "apart s (as @ [a]) (bs @ [b])"
        using Suc.prems(9) ab higher_apart [OF Suc.prems(7), of b] higher_apart [OF Suc.prems(8), of a] Suc.prems(3)
        by (fastforce simp: apart_def)
      have "case branch_both k s p q (as @ [a]) (bs @ [b]) of
          Inl e \<Rightarrow> e = Assert_exn ''first_branch'' \<or> e = Assert_exn ''second_branch''
        | Inr (c, d, as', bs') \<Rightarrow> c < length (items s) \<and> d < length (items s) \<and>
            previous (blk s c) = previous (blk s d) \<and> num_of s c = num_of s d \<and>
            branch_path s i as' (block_id (blk s c)) \<and> branch_path s j bs' (block_id (blk s d)) \<and>
            higher s as' (num_of s c) \<and> higher s bs' (num_of s d) \<and> apart s as' bs'"
        using Suc.prems lp lq pn qn h ap by (intro Suc.IH) (simp_all add: branch_path_snoc)
      then show ?thesis using False p q by (simp add: branch_both.simps [of "Suc k" s a b])
    qed (use False in \<open>simp_all add: branch_both.simps [of "Suc k" s a b]\<close>)
  next
    case True
    then show ?thesis using Suc.prems by (simp add: branch_both.simps [of "Suc k" s a b])
  qed
qed

lemma attach_parent_prev:
  assumes "attach_parent a s = Inr s'" "head s \<noteq> None" "previous (blk s a) \<noteq> 0" "a < length (items s)"
  shows "\<exists>p \<in> set (index s). prev (items s' ! a) = Some p \<and> block_id (blk s p) = previous (blk s a)"
  using assms find_id_facts(2) [of s "index s" "previous (blk s a)"]
  by (auto simp: attach_parent_def split: option.splits if_splits)

lemma attach_parent_other: "attach_parent a s = Inr s' \<Longrightarrow> x \<noteq> a \<Longrightarrow> items s' ! x = items s ! x"
  by (auto simp: attach_parent_def split: option.splits if_splits)

lemma link_block_rooted:
  assumes "fork_wf s" "rooted b0 s" "link_block a s = Inr s'" "head s \<noteq> None" "previous (blk s a) \<noteq> 0"
    "a < length (items s)" "a \<notin> set (index s)"
  shows "rooted b0 s'"
proof -
  obtain s1 where s1: "attach_parent a s = Inr s1" and s': "s' = put_item a s1"
    using assms(3) by (auto simp: link_block_def bind_r_eq_Inr split: if_splits)
  have it: "items s' = items s1" by (simp add: s' put_item_def)
  note l = link_block_Inr [OF assms(3)]
  obtain p where p: "p \<in> set (index s)" "prev (items s' ! a) = Some p" "block_id (blk s p) = previous (blk s a)"
    using attach_parent_prev [OF s1 assms(4-6)] it by auto
  have num: "num_of s a = Suc (num_of s p)"
    using fork_wfD(4) [OF assms(1,6)] p(3) by (simp add: block_ok_def get_block_num_def)
  have ix: "set (index s') \<subseteq> insert a (set (index s))" "set (index s) \<subseteq> set (index s')"
    using insert_item_facts(2,3) by (simp_all add: l(5))
  show ?thesis
    unfolding rooted_def l(1)
  proof
    fix x assume "x \<in> set (index s')"
    then consider "x = a" | "x \<in> set (index s)" "x \<noteq> a" using ix(1) assms(7) by blast
    then show "get_block_num b0 \<le> num_of s x \<and>
      (blk s x = b0 \<or> (\<exists>p\<in>set (index s'). prev (items s' ! x) = Some p \<and> block_id (blk s p) = previous (blk s x)))"
    proof cases
      case 1
      then show ?thesis using p num ix(2) assms(2) by (auto simp: rooted_def intro: le_SucI)
    next
      case 2
      then show ?thesis using attach_parent_other [OF s1 2(2)] it ix(2) assms(2) by (fastforce simp: rooted_def)
    qed
  qed
qed

lemma rooted_cong:
  assumes "index s' = index s" "\<And>a. a \<in> set (index s) \<Longrightarrow> items s' ! a = items s ! a"
  shows "rooted b0 s' = rooted b0 s"
proof -
  have "blk s' a = blk s a" if "a \<in> set (index s)" for a using assms(2) [OF that] by (simp add: blk_def)
  then show ?thesis using assms by (auto simp: rooted_def; metis)
qed

lemma rooted_push:
  assumes "delivered b0 B P s" "rooted b0 s" "\<forall>c \<in> B. previous c \<noteq> 0" "b \<in> B"
  shows "rooted b0 (fst (push_block b s))"
proof -
  obtain a s1 where al: "allocate b s = (a, s1)" by (cases "allocate b s")
  note sel = allocate_sel [OF al] and w = fork_wfD [OF deliveredD(1) [OF assms(1)]]
  have d1: "delivered b0 B P s1" by (rule delivered_allocate [OF assms(1,4) al])
  have "rooted b0 s1 = rooted b0 s"
    using w(1) by (intro rooted_cong) (simp_all add: sel(2,3) nth_append)
  then have r1: "rooted b0 s1" using assms(2) by simp
  have a: "a < length (items s1)" "a \<notin> set (unlinked_index s1)" "a \<notin> set (index s1)"
    using sel(1-4) w(1,2) by auto
  show ?thesis
  proof (cases "link_block a s1")
    case (Inl e)
    have "rooted b0 (s1\<lparr>unlinked_index := u\<rparr>) = rooted b0 s1" for u by (rule rooted_cong) simp_all
    then show ?thesis using r1 by (simp add: push_block_eq [OF al] Inl)
  next
    case (Inr s2)
    have p0: "previous (blk s1 a) \<noteq> 0" using assms(3,4) sel(7) by simp
    have r2: "rooted b0 s2"
      by (rule link_block_rooted [OF deliveredD(1) [OF d1] r1 Inr deliveredD(2) [OF d1] p0 a(1,3)])
    have par: "previous (blk s1 a) \<in> ids s1 (index s1)"
      using link_block_Inr(9) [OF Inr] deliveredD(2) [OF d1] p0 by (force simp: ids_def)
    have "delivered b0 B (insert b P) s2"
      using delivered_link [OF d1 Inr par a(1,2)] sel(7) assms(4) by simp
    then have "delivered_rooted b0 B (insert b P) s2" using r2 by (simp add: delivered_rooted_def)
    moreover have "block_id (blk s2 a) \<in> ids s2 (index s2)"
      using insert_item_facts(1) [of s1 a "index s1"] link_block_Inr(1,5) [OF Inr]
        ids_cong [OF link_block_Inr(1) [OF Inr]] by simp
    ultimately have "delivered_rooted b0 B (insert b P) (push_next (length (unlinked_index s2)) a s2)"
    proof (rule push_next_inv_linked)
      fix t r
      assume dr: "delivered_rooted b0 B (insert b P) r" and t: "t \<in> set (unlinked_index r)"
        and pt: "previous (blk r t) \<in> ids r (index r)"
      have d: "delivered b0 B (insert b P) r" and rr: "rooted b0 r" using dr by (simp_all add: delivered_rooted_def)
      note wr = fork_wfD [OF deliveredD(1) [OF d]]
      obtain s' where s': "link_block t (unqueue t r) = Inr s'" "delivered b0 B (insert b P) s'"
        using delivered_step [OF d t pt] by blast
      have ru: "rooted b0 (unqueue t r)" using rr rooted_cong [of "unqueue t r" r] by simp
      have "rooted b0 s'"
        using deliveredD(2,11) [OF d] wr(2,10) t assms(3)
        by (intro link_block_rooted [OF unqueue_wf [OF deliveredD(1) [OF d]] ru s'(1)]) auto
      then show "case link_block t (unqueue t r) of Inl _ \<Rightarrow> delivered_rooted b0 B (insert b P) (unqueue t r)
          | Inr s' \<Rightarrow> delivered_rooted b0 B (insert b P) s'"
        using s' by (simp add: delivered_rooted_def)
    qed
    then show ?thesis by (simp add: push_block_eq [OF al] Inr delivered_rooted_def)
  qed
qed

lemma delivered_rooted_all:
  assumes "one_window 1024 (insert b0 (set bs))" "\<forall>b \<in> set bs. previous b \<noteq> 0"
  shows "delivered b0 (set bs) (set bs) (push_all bs (start_block b0 empty_fork_db))"
    "rooted b0 (push_all bs (start_block b0 empty_fork_db))"
proof -
  have gen: "delivered b0 B (P \<union> set cs) (push_all cs s) \<and> rooted b0 (push_all cs s)"
    if "delivered b0 B P s" "rooted b0 s" "set cs \<subseteq> B" "\<forall>b \<in> B. previous b \<noteq> 0" for B P cs s
    using that
  proof (induction cs arbitrary: s P)
    case (Cons b cs)
    have b: "b \<in> B" using Cons.prems(3) by simp
    then have "delivered b0 B (insert b P) (fst (push_block b s))" "rooted b0 (fst (push_block b s))"
      using delivered_push [OF Cons.prems(1) b] rooted_push [OF Cons.prems(1,2,4) b] Cons.prems(4) by auto
    then show ?case using Cons.IH [of "insert b P" "fst (push_block b s)"] Cons.prems(3,4) by (simp add: push_all_def)
  qed (simp add: push_all_def)
  have "rooted b0 (start_block b0 empty_fork_db)"
    by (simp add: rooted_def start_block_def allocate_def empty_fork_db_def insert_item_def find_id_def blk_def new_item_def)
  then show "delivered b0 (set bs) (set bs) (push_all bs (start_block b0 empty_fork_db))"
    "rooted b0 (push_all bs (start_block b0 empty_fork_db))"
    using gen [OF delivered_start(1) [OF assms(1)]] assms(2) by auto
qed

lemma rooted_lock:
  assumes "rooted b0 s" "a \<in> set (index s)" "blk s a \<noteq> b0"
  obtains p where "p \<in> set (index s)" "lock s (prev (items s ! a)) = Some p"
  using assms by (force simp: rooted_def lock_def)

lemma branch_down_returns:
  assumes "fork_wf s" "rooted b0 s" "a \<in> set (index s)" "get_block_num b0 \<le> n" "num_of s a \<le> k"
  shows "\<exists>c as. branch_down k s a n acc = Inr (c, as) \<and> c \<in> set (index s)"
  using assms(3,5)
proof (induction k arbitrary: a acc)
  case 0
  then show ?case using block_ok_ne(2) [OF fork_wfD(4) [OF assms(1) fork_wfD(1) [OF assms(1) 0(1)]]] by simp
next
  case (Suc k)
  show ?case
  proof (cases "num_of s a > n")
    case True
    then have "blk s a \<noteq> b0" using assms(4) by auto
    then obtain p where p: "p \<in> set (index s)" "lock s (prev (items s ! a)) = Some p"
      by (rule rooted_lock [OF assms(2) Suc.prems(1)])
    then have "num_of s p \<le> k"
      using parent_num [OF assms(1) fork_wfD(1) [OF assms(1) Suc.prems(1)] p(2)] Suc.prems(2) by simp
    then show ?thesis using Suc.IH [OF p(1)] p(2) True by (simp add: branch_down.simps [of "Suc k" s a])
  qed (use Suc.prems in \<open>simp add: branch_down.simps [of "Suc k" s a]\<close>)
qed

lemma branch_both_returns:
  assumes "fork_wf s" "rooted b0 s" "a \<in> set (index s)" "b \<in> set (index s)" "num_of s a = num_of s b" "num_of s a \<le> k"
  shows "\<exists>r. branch_both k s a b as bs = Inr r"
  using assms(3-)
proof (induction k arbitrary: a b as bs)
  case 0
  then show ?case using block_ok_ne(2) [OF fork_wfD(4) [OF assms(1) fork_wfD(1) [OF assms(1) 0(1)]]] by simp
next
  case (Suc k)
  note lt = fork_wfD(1) [OF assms(1)]
  have root: "blk s y \<noteq> b0" if xy: "x \<in> set (index s)" "y \<in> set (index s)" "num_of s x = num_of s y"
    "previous (blk s x) \<noteq> previous (blk s y)" for x y
  proof
    assume y: "blk s y = b0"
    then have x: "blk s x \<noteq> b0" using xy(4) by auto
    obtain p where p: "p \<in> set (index s)" "lock s (prev (items s ! x)) = Some p"
      using rooted_lock [OF assms(2) xy(1) x] by blast
    then have "num_of s x = Suc (num_of s p)" "get_block_num b0 \<le> num_of s p"
      using parent_num [OF assms(1) lt [OF xy(1)] p(2)] assms(2) by (auto simp: rooted_def)
    then show False using xy(3) y by simp
  qed
  show ?case
  proof (cases "previous (blk s a) = previous (blk s b)")
    case False
    have nb: "blk s a \<noteq> b0" "blk s b \<noteq> b0"
      using root [OF Suc.prems(2,1)] root [OF Suc.prems(1,2)] Suc.prems(3) False by simp_all
    obtain p where p: "p \<in> set (index s)" "lock s (prev (items s ! a)) = Some p"
      by (rule rooted_lock [OF assms(2) Suc.prems(1) nb(1)])
    obtain q where q: "q \<in> set (index s)" "lock s (prev (items s ! b)) = Some q"
      by (rule rooted_lock [OF assms(2) Suc.prems(2) nb(2)])
    note pn = parent_num [OF assms(1) lt [OF Suc.prems(1)] p(2)] and qn = parent_num [OF assms(1) lt [OF Suc.prems(2)] q(2)]
    show ?thesis
      using Suc.IH [OF p(1) q(1)] pn qn p(2) q(2) Suc.prems(3,4) False by (simp add: branch_both.simps [of "Suc k" s a b])
  qed (simp add: branch_both.simps [of "Suc k" s a b])
qed

lemma fetch_branch_returns:
  assumes "fork_wf s" "rooted b0 s" "first \<in> ids s (index s)" "second \<in> ids s (index s)"
  shows "\<exists>as bs. fetch_branch_from first second s = Inr (as, bs)"
proof -
  obtain a b where ab: "find_id s (index s) first = Some a" "find_id s (index s) second = Some b"
    using assms(3,4) find_id_facts(1) by (metis option.exhaust)
  have i: "a \<in> set (index s)" "b \<in> set (index s)" using find_id_facts(2) ab by blast+
  have lt: "\<And>x. x \<in> set (index s) \<Longrightarrow> x < length (items s)" by (rule fork_wfD(1) [OF assms(1)])
  have low: "\<And>x. x \<in> set (index s) \<Longrightarrow> get_block_num b0 \<le> num_of s x" using assms(2) by (simp add: rooted_def)
  have h0: "higher s [] n" for n by (simp add: higher_def)
  obtain a1 as1 where r1: "branch_down (num_of s a) s a (num_of s b) [] = Inr (a1, as1)" "a1 \<in> set (index s)"
    using branch_down_returns [OF assms(1,2) i(1) low [OF i(2)] order_refl] by blast
  obtain b1 bs1 where r2: "branch_down (num_of s b) s b (num_of s a1) [] = Inr (b1, bs1)" "b1 \<in> set (index s)"
    using branch_down_returns [OF assms(1,2) i(2) low [OF r1(2)] order_refl] by blast
  have "num_of s a1 = num_of s b1"
    using branch_down_spec [OF assms(1) lt [OF i(1)] order_refl _ h0, of "block_id (blk s a)" "num_of s b"]
      branch_down_spec [OF assms(1) lt [OF i(2)] order_refl _ h0, of "block_id (blk s b)" "num_of s a1"] r1 r2 by auto
  then obtain r where "branch_both (num_of s a1) s a1 b1 as1 bs1 = Inr r"
    using branch_both_returns [OF assms(1,2) r1(2) r2(2)] by blast
  then show ?thesis using r1 r2 by (cases r) (auto simp: fetch_branch_from_def ab)
qed

lemma branch_down_stop: "num_of s a \<le> n \<Longrightarrow> branch_down k s a n acc = Inr (a, acc)"
  by (subst branch_down.simps) simp

lemma fetch_branch_spec:
  assumes "fork_wf s" "fetch_branch_from first second s = Inr (as, bs)"
  shows "\<exists>c. branch_path s first as c \<and> branch_path s second bs c \<and> apart s as bs"
proof -
  obtain a b a1 as1 b1 bs1 c d as2 bs2 where
    ab: "find_id s (index s) first = Some a" "find_id s (index s) second = Some b"
    and r1: "branch_down (num_of s a) s a (num_of s b) [] = Inr (a1, as1)"
    and r2: "branch_down (num_of s b) s b (num_of s a1) [] = Inr (b1, bs1)"
    and r3: "branch_both (num_of s a1) s a1 b1 as1 bs1 = Inr (c, d, as2, bs2)"
    and r: "(as, bs) = (if block_id (blk s c) \<noteq> block_id (blk s d) then (as2 @ [c], bs2 @ [d]) else (as2, bs2))"
    using assms(2) by (auto simp: fetch_branch_from_def bind_r_eq_Inr split: option.splits)
  have f: "a < length (items s)" "b < length (items s)" "block_id (blk s a) = first" "block_id (blk s b) = second"
    using find_id_facts(2) [OF ab(1)] find_id_facts(2) [OF ab(2)] fork_wfD(1) [OF assms(1)] by auto
  have h0: "higher s [] n" for n by (simp add: higher_def)
  have a1: "a1 < length (items s)" "num_of s a1 = min (num_of s b) (num_of s a)"
    "branch_path s first as1 (block_id (blk s a1))" "higher s as1 (num_of s a1)"
    using branch_down_spec [OF assms(1) f(1) order_refl _ h0, of first "num_of s b"] f(3) r1 by auto
  have b1: "b1 < length (items s)" "num_of s b1 = min (num_of s a1) (num_of s b)"
    "branch_path s second bs1 (block_id (blk s b1))" "higher s bs1 (num_of s b1)"
    using branch_down_spec [OF assms(1) f(2) order_refl _ h0, of second "num_of s a1"] f(4) r2 by auto
  have "as1 = [] \<or> bs1 = []"
  proof (cases "num_of s b < num_of s a")
    case True
    then have "num_of s b \<le> num_of s a1" using a1(2) by linarith
    then show ?thesis using r2 by (simp add: branch_down_stop)
  next
    case False
    then have "num_of s a \<le> num_of s b" by linarith
    then show ?thesis using r1 by (simp add: branch_down_stop)
  qed
  then have ap: "apart s as1 bs1" by (auto simp: apart_def)
  have eq: "num_of s a1 = num_of s b1" using a1(2) b1(2) by simp
  have c: "c < length (items s)" "d < length (items s)" "previous (blk s c) = previous (blk s d)"
    "num_of s c = num_of s d" "branch_path s first as2 (block_id (blk s c))"
    "branch_path s second bs2 (block_id (blk s d))" "higher s as2 (num_of s c)" "higher s bs2 (num_of s d)"
    "apart s as2 bs2"
    using branch_both_spec [OF assms(1) a1(1) b1(1) eq order_refl a1(3) b1(3) a1(4) b1(4) ap] r3 by auto
  show ?thesis
  proof (cases "block_id (blk s c) = block_id (blk s d)")
    case True
    then show ?thesis using r c by auto
  next
    case False
    have "apart s (as2 @ [c]) (bs2 @ [d])"
      using c(9) False higher_apart [OF c(7), of d] higher_apart [OF c(8), of c] c(4) by (fastforce simp: apart_def)
    then show ?thesis using r False c by (auto simp: branch_path_snoc)
  qed
qed

section \<open>Properties\<close>



end
