(* ===== verification/Fc_Lib.thy ===== *)
theory Fc_Lib
  imports Prelude
begin

text \<open>
  What the sources use of the fc library, which is not part of the repository: the checked
  64-bit integer behind \<^verbatim>\<open>share_type\<close> with its conversion from \<^verbatim>\<open>uint64_t\<close>, the narrowing of
  128-bit results, saturating addition and the text conversions.
  The functions are fields of parameter records; \<open>fc_ok\<close> and \<open>text_ok\<close> state the documented
  behaviour the node relies on. The records \<open>exact_fc\<close> and \<open>decimal_text\<close> are concrete functions
  with that behaviour.
\<close>

section \<open>Checked integers\<close>

record fc_lib =
  safe_add :: "int \<Rightarrow> int \<Rightarrow> int res"
  safe_sub :: "int \<Rightarrow> int \<Rightarrow> int res"
  safe_mul :: "int \<Rightarrow> int \<Rightarrow> int res"
  safe_div :: "int \<Rightarrow> int \<Rightarrow> int res"
  safe_mod :: "int \<Rightarrow> int \<Rightarrow> int res"
  safe_neg :: "int \<Rightarrow> int res"
  uint128_to_uint64 :: "128 word \<Rightarrow> 64 word res"
  share_of_uint64 :: "64 word \<Rightarrow> int res"
  uint128_to_int64 :: "128 word \<Rightarrow> int res"
  signed_sat_add :: "int \<Rightarrow> int \<Rightarrow> int"
  signed_sat_sub :: "int \<Rightarrow> int \<Rightarrow> int"

definition exact_or_throws :: "int \<Rightarrow> int res \<Rightarrow> bool" where
  "exact_or_throws v r \<longleftrightarrow> (if in_i64 v then r = Inr v else throws r)"

definition saturate :: "int \<Rightarrow> int" where
  "saturate v = max min_i64 (min max_i64 v)"

definition fc_ok :: "fc_lib \<Rightarrow> bool" where
  "fc_ok F \<longleftrightarrow>
     (\<forall>a b. in_i64 a \<and> in_i64 b \<longrightarrow>
        exact_or_throws (a + b) (safe_add F a b) \<and>
        exact_or_throws (a - b) (safe_sub F a b) \<and>
        exact_or_throws (a * b) (safe_mul F a b) \<and>
        (b \<noteq> 0 \<longrightarrow> exact_or_throws (a sdiv b) (safe_div F a b) \<and>
                   exact_or_throws (a smod b) (safe_mod F a b)) \<and>
        exact_or_throws (- a) (safe_neg F a)) \<and>
     (\<forall>w. uint w < 18446744073709551616 \<longrightarrow> uint128_to_uint64 F w = Inr (ucast w)) \<and>
     (\<forall>w. share_of_uint64 F w = Inr (sint w)) \<and>
     (\<forall>w. uint w \<le> max_i64 \<longrightarrow> uint128_to_int64 F w = Inr (uint w)) \<and>
     (\<forall>a b. in_i64 a \<and> in_i64 b \<longrightarrow>
        signed_sat_add F a b = saturate (a + b) \<and> signed_sat_sub F a b = saturate (a - b))"

definition exact :: "int \<Rightarrow> int res" where
  "exact v = (if in_i64 v then Inr v else Inl Overflow_exn)"

definition exact_fc :: fc_lib where
  "exact_fc = \<lparr>
     safe_add = (\<lambda>a b. exact (a + b)),
     safe_sub = (\<lambda>a b. exact (a - b)),
     safe_mul = (\<lambda>a b. exact (a * b)),
     safe_div = (\<lambda>a b. if b = 0 then Inl Overflow_exn else exact (a sdiv b)),
     safe_mod = (\<lambda>a b. if b = 0 then Inl Overflow_exn else exact (a smod b)),
     safe_neg = (\<lambda>a. exact (- a)),
     uint128_to_uint64 = (\<lambda>w. if uint w < 18446744073709551616 then Inr (ucast w)
                               else Inl Overflow_exn),
     share_of_uint64 = (\<lambda>w. Inr (sint w)),
     uint128_to_int64 = (\<lambda>w. if uint w \<le> max_i64 then Inr (uint w) else Inl Overflow_exn),
     signed_sat_add = (\<lambda>a b. saturate (a + b)),
     signed_sat_sub = (\<lambda>a b. saturate (a - b))\<rparr>"

section \<open>Decimal text\<close>

text \<open>\<open>dec_string\<close> is the decimal notation of an integer, which \<^verbatim>\<open>std::to_string\<close> writes.\<close>

fun nat_digits :: "nat \<Rightarrow> string" where
  "nat_digits n =
     (if n < 10 then [char_of (48 + n)] else nat_digits (n div 10) @ [char_of (48 + n mod 10)])"

declare nat_digits.simps [simp del]

definition dec_string :: "int \<Rightarrow> string" where
  "dec_string z = (if z < 0 then CHR ''-'' # nat_digits (nat (- z)) else nat_digits (nat z))"

definition decimal_value :: "string \<Rightarrow> nat" where
  "decimal_value cs = foldl (\<lambda>a c. a * 10 + (of_char c - 48)) 0 cs"

definition is_digit_char :: "char \<Rightarrow> bool" where
  "is_digit_char c \<longleftrightarrow> 48 \<le> (of_char c :: nat) \<and> (of_char c :: nat) \<le> 57"

definition is_number :: "string \<Rightarrow> bool" where
  "is_number cs \<longleftrightarrow> cs \<noteq> [] \<and> list_all is_digit_char cs"

fun dec_value :: "string \<Rightarrow> int option" where
  "dec_value (c # cs) =
     (if c = CHR ''-'' then if is_number cs then Some (- int (decimal_value cs)) else None
      else if is_number (c # cs) then Some (int (decimal_value (c # cs))) else None)"
| "dec_value [] = None"

definition is_white :: "char \<Rightarrow> bool" where
  "is_white c \<longleftrightarrow> c = CHR '' '' \<or> c = CHR 0x09 \<or> c = CHR 0x0A \<or> c = CHR 0x0D"

definition trim_string :: "string \<Rightarrow> string" where
  "trim_string s = rev (dropWhile is_white (rev (dropWhile is_white s)))"

record fc_text =
  fc_to_string :: "int \<Rightarrow> string"
  fc_to_int64 :: "string \<Rightarrow> int res"
  fc_trim :: "string \<Rightarrow> string"

definition text_ok :: "fc_text \<Rightarrow> bool" where
  "text_ok T \<longleftrightarrow>
     (\<forall>z. in_i64 z \<longrightarrow> fc_to_string T z = dec_string z) \<and>
     (\<forall>s z. dec_value s = Some z \<longrightarrow> exact_or_throws z (fc_to_int64 T s)) \<and>
     (\<forall>s. s \<noteq> [] \<and> \<not> is_white (hd s) \<and> \<not> is_white (last s) \<longrightarrow> fc_trim T s = s)"

definition decimal_text :: fc_text where
  "decimal_text = \<lparr>
     fc_to_string = dec_string,
     fc_to_int64 = (\<lambda>s. case dec_value s of None \<Rightarrow> Inl Parse_exn | Some z \<Rightarrow> exact z),
     fc_trim = trim_string\<rparr>"

section \<open>Laws\<close>

lemma exact_fc_ok [simp]: "fc_ok exact_fc"
  by (simp add: fc_ok_def exact_fc_def exact_or_throws_def exact_def)

lemma trim_string_id:
  assumes "s \<noteq> []" "\<not> is_white (hd s)" "\<not> is_white (last s)"
  shows "trim_string s = s"
proof -
  have "dropWhile is_white s = s"
    using assms(1,2) by (cases s) simp_all
  moreover have "dropWhile is_white (rev s) = rev s"
    using assms(1,3) by (cases s rule: rev_cases) simp_all
  ultimately show ?thesis by (simp add: trim_string_def)
qed

lemma decimal_text_ok [simp]: "text_ok decimal_text"
  unfolding text_ok_def
proof (intro conjI allI impI)
  show "fc_to_string decimal_text z = dec_string z" for z
    by (simp add: decimal_text_def)
  show "exact_or_throws z (fc_to_int64 decimal_text s)" if "dec_value s = Some z" for s z
    using that by (simp add: decimal_text_def exact_or_throws_def exact_def)
  show "fc_trim decimal_text s = s" if "s \<noteq> [] \<and> \<not> is_white (hd s) \<and> \<not> is_white (last s)" for s
    using that by (simp add: decimal_text_def trim_string_id)
qed

lemma exact_or_throws_Inr: "exact_or_throws v r \<Longrightarrow> r = Inr c \<longleftrightarrow> c = v \<and> in_i64 v"
  by (cases r) (auto simp: exact_or_throws_def split: if_splits)

lemma safe_Inr:
  assumes "fc_ok F" "in_i64 a" "in_i64 b"
  shows "safe_add F a b = Inr c \<longleftrightarrow> c = a + b \<and> in_i64 (a + b)"
    "safe_sub F a b = Inr c \<longleftrightarrow> c = a - b \<and> in_i64 (a - b)"
    "safe_mul F a b = Inr c \<longleftrightarrow> c = a * b \<and> in_i64 (a * b)"
    "b \<noteq> 0 \<Longrightarrow> safe_div F a b = Inr c \<longleftrightarrow> c = a sdiv b \<and> in_i64 (a sdiv b)"
    "b \<noteq> 0 \<Longrightarrow> safe_mod F a b = Inr c \<longleftrightarrow> c = a smod b \<and> in_i64 (a smod b)"
    "safe_neg F a = Inr c \<longleftrightarrow> c = - a \<and> in_i64 (- a)"
  using assms exact_or_throws_Inr unfolding fc_ok_def by blast+

lemma safe_exact:
  assumes "fc_ok F" "in_i64 a" "in_i64 b"
  shows "in_i64 (a + b) \<Longrightarrow> safe_add F a b = Inr (a + b)"
    "in_i64 (a - b) \<Longrightarrow> safe_sub F a b = Inr (a - b)"
    "in_i64 (a * b) \<Longrightarrow> safe_mul F a b = Inr (a * b)"
    "in_i64 (- a) \<Longrightarrow> safe_neg F a = Inr (- a)"
  using safe_Inr [OF assms] by simp_all

lemma uint128_to_uint64_exact:
  "fc_ok F \<Longrightarrow> uint w < 18446744073709551616 \<Longrightarrow> uint128_to_uint64 F w = Inr (ucast w)"
  by (simp add: fc_ok_def)

lemma share_of_uint64_exact: "fc_ok F \<Longrightarrow> share_of_uint64 F w = Inr (sint w)"
  by (simp add: fc_ok_def)

lemma uint_ucast_128_64:
  "uint (w :: 128 word) < 18446744073709551616 \<Longrightarrow> uint (ucast w :: 64 word) = uint w"
  by (simp add: unsigned_ucast_eq take_bit_eq_mod)

text \<open>Decimal notation and its value are inverse to each other.\<close>

lemma of_char_digit [simp]: "n < 10 \<Longrightarrow> (of_char (char_of (48 + n)) :: nat) = 48 + n"
  by (simp add: of_char_of)

lemma is_digit_char_of [simp]: "n < 10 \<Longrightarrow> is_digit_char (char_of (48 + n :: nat))"
  by (simp add: is_digit_char_def)

lemma decimal_value_snoc: "decimal_value (cs @ [c]) = decimal_value cs * 10 + (of_char c - 48)"
  by (simp add: decimal_value_def)

lemma nat_digits_value: "decimal_value (nat_digits n) = n"
proof (induction n rule: nat_digits.induct)
  case (1 n)
  show ?case
  proof (cases "n < 10")
    case True
    then show ?thesis by (simp add: nat_digits.simps [of n] decimal_value_def)
  next
    case False
    then show ?thesis
      using 1 by (simp add: nat_digits.simps [of n] decimal_value_snoc)
  qed
qed

lemma nat_digits_number: "is_number (nat_digits n)"
proof (induction n rule: nat_digits.induct)
  case (1 n)
  then show ?case by (simp add: nat_digits.simps [of n] is_number_def)
qed

lemma minus_not_digit: "\<not> is_digit_char CHR ''-''"
  by (simp add: is_digit_char_def)

lemma dec_value_number:
  assumes "is_number cs"
  shows "dec_value cs = Some (int (decimal_value cs))"
proof (cases cs)
  case (Cons c ds)
  then have "c \<noteq> CHR ''-''"
    using assms minus_not_digit by (auto simp: is_number_def)
  then show ?thesis using assms Cons by simp
qed (use assms in \<open>simp add: is_number_def\<close>)

lemma dec_value_dec_string: "dec_value (dec_string z) = Some z"
  by (cases "z < 0")
    (simp_all add: dec_string_def dec_value_number nat_digits_number nat_digits_value)

lemma decimal_value_append:
  "decimal_value (xs @ ys) = decimal_value xs * 10 ^ length ys + decimal_value ys"
proof (induction ys rule: rev_induct)
  case Nil
  then show ?case by (simp add: decimal_value_def)
next
  case (snoc y ys)
  have "decimal_value (xs @ ys @ [y]) = decimal_value (xs @ ys) * 10 + (of_char y - 48)"
    using decimal_value_snoc [of "xs @ ys" y] by simp
  then show ?case
    using snoc.IH by (simp add: decimal_value_snoc algebra_simps)
qed

lemma char_of_49: "char_of (49 :: nat) = CHR ''1''"
  by code_simp

lemma nat_digits_power:
  assumes "f < 10 ^ k"
  shows "\<exists>ds. nat_digits (10 ^ k + f) = CHR ''1'' # ds \<and> length ds = k \<and> list_all is_digit_char ds"
  using assms
proof (induction k arbitrary: f)
  case 0
  then show ?case by (simp add: nat_digits.simps char_of_49)
next
  case (Suc k)
  have "f div 10 < 10 ^ k" using Suc.prems by simp
  then obtain ds where ds: "nat_digits (10 ^ k + f div 10) = CHR ''1'' # ds" "length ds = k"
    "list_all is_digit_char ds"
    using Suc.IH by blast
  have "(10 ^ Suc k + f) div 10 = 10 ^ k + f div 10" "(10 ^ Suc k + f) mod 10 = f mod 10"
    by simp_all
  moreover have "\<not> 10 ^ Suc k + f < 10" by (simp add: not_less add_increasing2)
  ultimately have "nat_digits (10 ^ Suc k + f) = CHR ''1'' # (ds @ [char_of (48 + f mod 10)])"
    using ds(1) by (simp add: nat_digits.simps [of "10 ^ Suc k + f"] del: power_Suc)
  then show ?case using ds by simp
qed

lemma nat_digits_length:
  assumes "n < 10 ^ k" "0 < k"
  shows "length (nat_digits n) \<le> k"
  using assms
proof (induction k arbitrary: n)
  case (Suc k)
  show ?case
  proof (cases "n < 10")
    case False
    then have "0 < k" using Suc.prems(1) by (cases k) simp_all
    moreover have "n div 10 < 10 ^ k" using Suc.prems(1) by simp
    ultimately show ?thesis
      using Suc.IH [of "n div 10"] False by (simp add: nat_digits.simps [of n])
  qed (simp add: nat_digits.simps)
qed simp

lemma power_digits_value:
  assumes "nat_digits (10 ^ k + f) = CHR ''1'' # ds" "length ds = k"
  shows "decimal_value ds = f"
proof -
  have "decimal_value ([CHR ''1''] @ ds) = 10 ^ k + f"
    using assms nat_digits_value [of "10 ^ k + f"] by simp
  moreover have "decimal_value [CHR ''1''] = 1" by (simp add: decimal_value_def)
  ultimately show ?thesis
    using assms(2) unfolding decimal_value_append by simp
qed

lemma digits_no_sep:
  assumes "list_all is_digit_char ds"
  shows "CHR '' '' \<notin> set ds" "CHR ''.'' \<notin> set ds" "CHR ''-'' \<notin> set ds"
  using assms by (auto simp: list_all_iff is_digit_char_def dest!: bspec)

lemma dec_string_no_sep: "CHR '' '' \<notin> set (dec_string z)" "CHR ''.'' \<notin> set (dec_string z)"
  "dec_string z \<noteq> []" "\<not> is_white (hd (dec_string z))"
proof -
  have n: "list_all is_digit_char (nat_digits m)" "nat_digits m \<noteq> []" for m
    using nat_digits_number by (simp_all add: is_number_def)
  show "CHR '' '' \<notin> set (dec_string z)" "CHR ''.'' \<notin> set (dec_string z)" "dec_string z \<noteq> []"
    using digits_no_sep [OF n(1)] n(2) by (simp_all add: dec_string_def)
  have w: "\<not> is_white c" if "is_digit_char c" for c
    using that by (auto simp: is_white_def is_digit_char_def)
  have "is_digit_char (hd (nat_digits (nat z)))"
    using n [of "nat z"] by (cases "nat_digits (nat z)") simp_all
  then show "\<not> is_white (hd (dec_string z))"
    using w by (simp add: dec_string_def) (simp add: is_white_def)
qed

lemma int_div_le_self: "0 \<le> z \<Longrightarrow> 1 < d \<Longrightarrow> z div d \<le> z" for z d :: int
  using zdiv_mono2 [of z 1 d] by simp

lemma power_ten_bounds:
  assumes "0 < k" "k < 15"
  shows "(1 :: int) < 10 ^ k" "(10 :: int) ^ k \<le> 100000000000000"
  using assms power_increasing [of k 14 "10 :: int"] by simp_all

lemma fraction_digits:
  assumes "f < 10 ^ k"
  shows "\<exists>ds. dec_string (10 ^ k + int f) = CHR ''1'' # ds \<and> length ds = k \<and>
    list_all is_digit_char ds \<and> decimal_value ds = f \<and> is_number (CHR ''1'' # ds) \<and>
    decimal_value (CHR ''1'' # ds) = 10 ^ k + f"
proof -
  obtain ds where ds: "nat_digits (10 ^ k + f) = CHR ''1'' # ds" "length ds = k"
    "list_all is_digit_char ds"
    using nat_digits_power [OF assms] by blast
  have "\<not> 10 ^ k + int f < 0" by (simp add: not_less)
  then have "dec_string (10 ^ k + int f) = nat_digits (10 ^ k + f)"
    by (simp add: dec_string_def nat_add_distrib nat_power_eq)
  then show ?thesis
    using ds power_digits_value [OF ds(1,2)] nat_digits_value [of "10 ^ k + f"]
      nat_digits_number [of "10 ^ k + f"] by auto
qed

lemma amount_split:
  assumes "0 \<le> z" "in_i64 z" "0 < k" "k < 15"
  shows "\<exists>i f. f < 10 ^ k \<and> z = int i * 10 ^ k + int f \<and> z sdiv 10 ^ k = int i \<and>
    z smod 10 ^ k = int f \<and> in_i64 (int i) \<and> in_i64 (10 ^ k + int f)"
proof -
  note p = power_ten_bounds [OF assms(3,4)]
  define i f where "i = nat (z div 10 ^ k)" and "f = nat (z mod 10 ^ k)"
  have i: "int i = z div 10 ^ k" and f: "int f = z mod 10 ^ k"
    using assms(1) by (simp_all add: i_def f_def pos_imp_zdiv_nonneg_iff)
  have m: "z mod 10 ^ k < 10 ^ k" using p(1) by (intro pos_mod_bound) simp
  then have fk: "f < 10 ^ k"
    using f by (metis of_nat_less_iff of_nat_power of_nat_numeral)
  have "z = int i * 10 ^ k + int f" by (simp only: i f div_mult_mod_eq)
  moreover have "z sdiv 10 ^ k = int i" "z smod 10 ^ k = int f"
    using assms(1) by (auto simp: i f signed_divide_int_def signed_modulo_int_def sgn_if)
  moreover have "z div 10 ^ k \<le> z"
    using assms(1) p(1) by (intro int_div_le_self) simp_all
  then have "in_i64 (int i)" using assms(2) i by (simp add: in_i64_def)
  moreover have "in_i64 (10 ^ k + int f)"
    unfolding in_i64_def using p m f of_nat_0_le_iff [of f, where ?'a = int] by linarith
  ultimately show ?thesis using fk by blast
qed

lemma to_int64_number:
  assumes "text_ok T" "is_number cs" "int (decimal_value cs) \<le> max_i64"
  shows "fc_to_int64 T cs = Inr (int (decimal_value cs))"
proof -
  have "exact_or_throws (int (decimal_value cs)) (fc_to_int64 T cs)"
    using assms(1) dec_value_number [OF assms(2)] by (simp add: text_ok_def)
  then show ?thesis
    using assms(3) by (simp add: exact_or_throws_def in_i64_def)
qed

lemma sint_word_of_int_64: "in_i64 k \<Longrightarrow> sint (word_of_int k :: 64 word) = k"
  unfolding sint_sbintrunc' by (rule signed_take_bit_int_eq_self) (simp_all add: in_i64_def)

lemma sint_small:
  fixes u :: "64 word"
  assumes "uint u \<le> max_i64"
  shows "sint u = uint u" "sint (- u) = - uint u"
proof -
  have r: "in_i64 (uint u)" "in_i64 (- uint u)"
    using assms unsigned_greater_eq [where ?'a = int and w = u] unfolding in_i64_def by linarith+
  show "sint u = uint u" "sint (- u) = - uint u"
    using sint_word_of_int_64 [OF r(1)] sint_word_of_int_64 [OF r(2)] by simp_all
qed

end
