(* ===== verification/Asset_Symbol.thy ===== *)
theory Asset_Symbol
  imports Fc_Lib
begin

text \<open>
  The asset symbol (\<^verbatim>\<open>protocol/asset_symbol.hpp\<close> and the first half of \<^verbatim>\<open>protocol/asset.cpp\<close>): its
  32-bit encoding, the numeric asset identifier (NAI) with its Damm check digit, the pairing of
  liquid and vesting symbols, the legacy and NAI wire formats and the legacy symbol names.
\<close>

section \<open>Constants and representation\<close>

definition SMT_MAX_NAI :: "32 word" where "SMT_MAX_NAI = 99999999"
definition SMT_MIN_NAI :: "32 word" where "SMT_MIN_NAI = 1"
definition HIVE_NAI_HBD :: "32 word" where "HIVE_NAI_HBD = 1"
definition HIVE_NAI_HIVE :: "32 word" where "HIVE_NAI_HIVE = 2"
definition HIVE_NAI_VESTS :: "32 word" where "HIVE_NAI_VESTS = 3"
definition HIVE_PRECISION_HBD :: "8 word" where "HIVE_PRECISION_HBD = 3"
definition HIVE_PRECISION_HIVE :: "8 word" where "HIVE_PRECISION_HIVE = 3"
definition HIVE_PRECISION_VESTS :: "8 word" where "HIVE_PRECISION_VESTS = 6"
definition HIVE_ASSET_MAX_DECIMALS :: "8 word" where "HIVE_ASSET_MAX_DECIMALS = 12"

definition HIVE_ASSET_NUM_HBD :: "32 word" where
  "HIVE_ASSET_NUM_HBD = push_bit 5 (SMT_MAX_NAI + HIVE_NAI_HBD) OR ucast HIVE_PRECISION_HBD"
definition HIVE_ASSET_NUM_HIVE :: "32 word" where
  "HIVE_ASSET_NUM_HIVE = push_bit 5 (SMT_MAX_NAI + HIVE_NAI_HIVE) OR ucast HIVE_PRECISION_HIVE"
definition HIVE_ASSET_NUM_VESTS :: "32 word" where
  "HIVE_ASSET_NUM_VESTS = push_bit 5 (SMT_MAX_NAI + HIVE_NAI_VESTS) OR ucast HIVE_PRECISION_VESTS"

definition SMT_ASSET_NUM_PRECISION_MASK :: "32 word" where "SMT_ASSET_NUM_PRECISION_MASK = 15"
definition SMT_ASSET_NUM_CONTROL_MASK :: "32 word" where "SMT_ASSET_NUM_CONTROL_MASK = 16"
definition SMT_ASSET_NUM_VESTING_MASK :: "32 word" where "SMT_ASSET_NUM_VESTING_MASK = 32"

lemmas nai_consts = SMT_MAX_NAI_def SMT_MIN_NAI_def HIVE_NAI_HBD_def HIVE_NAI_HIVE_def
  HIVE_NAI_VESTS_def HIVE_PRECISION_HBD_def HIVE_PRECISION_HIVE_def HIVE_PRECISION_VESTS_def
  HIVE_ASSET_MAX_DECIMALS_def SMT_ASSET_NUM_PRECISION_MASK_def SMT_ASSET_NUM_CONTROL_MASK_def
  SMT_ASSET_NUM_VESTING_MASK_def

record asset_symbol_type =
  asset_num :: "32 word"

definition from_asset_num :: "32 word \<Rightarrow> asset_symbol_type" where
  "from_asset_num n = \<lparr>asset_num = n\<rparr>"

definition HBD_SYMBOL :: asset_symbol_type where "HBD_SYMBOL = from_asset_num HIVE_ASSET_NUM_HBD"
definition HIVE_SYMBOL :: asset_symbol_type where "HIVE_SYMBOL = from_asset_num HIVE_ASSET_NUM_HIVE"
definition VESTS_SYMBOL :: asset_symbol_type where
  "VESTS_SYMBOL = from_asset_num HIVE_ASSET_NUM_VESTS"

datatype asset_symbol_space = legacy_space | smt_nai_space

definition space :: "asset_symbol_type \<Rightarrow> asset_symbol_space" where
  "space s =
     (if asset_num s = HIVE_ASSET_NUM_HIVE \<or> asset_num s = HIVE_ASSET_NUM_HBD \<or>
         asset_num s = HIVE_ASSET_NUM_VESTS
      then legacy_space else smt_nai_space)"

definition decimals :: "asset_symbol_type \<Rightarrow> 8 word" where
  "decimals s = ucast (asset_num s AND SMT_ASSET_NUM_PRECISION_MASK)"

definition get_stripped_precision_smt_num :: "asset_symbol_type \<Rightarrow> 32 word" where
  "get_stripped_precision_smt_num s = asset_num s AND NOT SMT_ASSET_NUM_PRECISION_MASK"

definition validate_nai_space :: "asset_symbol_space \<Rightarrow> unit res" where
  "validate_nai_space sp = check_r (sp = smt_nai_space) ''Invalid asset symbol space''"

definition validate :: "asset_symbol_type \<Rightarrow> unit res" where
  "validate s =
     (if asset_num s = HIVE_ASSET_NUM_HIVE \<or> asset_num s = HIVE_ASSET_NUM_HBD \<or>
         asset_num s = HIVE_ASSET_NUM_VESTS
      then Inr ()
      else
        (let nai_data_digits = drop_bit 5 (asset_num s);
             nai_1bit = asset_num s AND SMT_ASSET_NUM_CONTROL_MASK;
             nai_decimal_places = asset_num s AND SMT_ASSET_NUM_PRECISION_MASK
         in check_r (nai_data_digits \<ge> SMT_MIN_NAI \<and> nai_data_digits \<le> SMT_MAX_NAI \<and>
                     nai_1bit = SMT_ASSET_NUM_CONTROL_MASK \<and>
                     nai_decimal_places \<le> ucast HIVE_ASSET_MAX_DECIMALS)
                    ''Cannot determine space for asset''))"

section \<open>NAI with its Damm check digit\<close>

definition damm_table :: "nat list" where
  "damm_table =
    [ 0, 30, 10, 70, 50, 90, 80, 60, 40, 20,
     70,  0, 90, 20, 10, 50, 40, 80, 60, 30,
     40, 20,  0, 60, 80, 70, 10, 30, 50, 90,
     10, 70, 50,  0, 90, 80, 30, 40, 20, 60,
     60, 10, 20, 30,  0, 40, 50, 90, 70, 80,
     30, 60, 70, 40, 20,  0, 90, 50, 80, 10,
     50, 80, 60, 90, 70, 20,  0, 10, 30, 40,
     80, 90, 40, 50, 30, 60, 20,  0, 10, 70,
     90, 40, 30, 80, 60, 10, 70, 20,  0, 50,
     20, 50, 80, 10, 40, 30, 60, 70, 90,  0]"

definition damm_checksum_8digit :: "32 word \<Rightarrow> 32 word res" where
  "damm_checksum_8digit value =
     (if \<not> value < 100000000 then Inl (Assert_exn ''Cannot process value greater than or equal to'')
      else
        (let q0 = value div 10; d0 = value mod 10;
             q1 = q0 div 10; d1 = q0 mod 10;
             q2 = q1 div 10; d2 = q1 mod 10;
             q3 = q2 div 10; d3 = q2 mod 10;
             q4 = q3 div 10; d4 = q3 mod 10;
             q5 = q4 div 10; d5 = q4 mod 10;
             d6 = q5 mod 10; d7 = q5 div 10;
             x = damm_table ! unat d7;
             x = damm_table ! (x + unat d6);
             x = damm_table ! (x + unat d5);
             x = damm_table ! (x + unat d4);
             x = damm_table ! (x + unat d3);
             x = damm_table ! (x + unat d2);
             x = damm_table ! (x + unat d1);
             x = damm_table ! (x + unat d0)
         in Inr (of_nat (x div 10))))"

definition asset_num_from_nai :: "32 word \<Rightarrow> 8 word \<Rightarrow> 32 word res" where
  "asset_num_from_nai nai decimal_places =
     (let nai_check_digit = nai mod 10;
          nai_data_digits = nai div 10
      in
      if \<not> (nai_data_digits \<ge> SMT_MIN_NAI \<and> nai_data_digits \<le> SMT_MAX_NAI)
      then Inl (Assert_exn ''NAI out of range'')
      else bind_r (damm_checksum_8digit nai_data_digits) (\<lambda>calculated_check_digit.
      if nai_check_digit \<noteq> calculated_check_digit then Inl (Assert_exn ''Invalid check digit'')
      else if nai_data_digits = HIVE_NAI_HIVE then
        bind_r (check_r (decimal_places = HIVE_PRECISION_HIVE)
                  ''Invalid decimal places in HIVE asset'') (\<lambda>_. Inr HIVE_ASSET_NUM_HIVE)
      else if nai_data_digits = HIVE_NAI_HBD then
        bind_r (check_r (decimal_places = HIVE_PRECISION_HBD)
                  ''Invalid decimal places in HBD asset'') (\<lambda>_. Inr HIVE_ASSET_NUM_HBD)
      else if nai_data_digits = HIVE_NAI_VESTS then
        bind_r (check_r (decimal_places = HIVE_PRECISION_VESTS)
                  ''Invalid decimal places in VESTS asset'') (\<lambda>_. Inr HIVE_ASSET_NUM_VESTS)
      else
        bind_r (check_r (decimal_places \<le> HIVE_ASSET_MAX_DECIMALS)
                  ''Invalid decimal places in unknown asset'')
          (\<lambda>_. Inr (push_bit 5 nai_data_digits OR SMT_ASSET_NUM_CONTROL_MASK OR
                    ucast decimal_places))))"

definition from_nai :: "32 word \<Rightarrow> 8 word \<Rightarrow> asset_symbol_type res" where
  "from_nai nai decimal_places =
     bind_r (asset_num_from_nai nai decimal_places) (\<lambda>n. Inr (from_asset_num n))"

definition to_nai :: "asset_symbol_type \<Rightarrow> 32 word res" where
  "to_nai s =
     bind_r
       (if asset_num s = HIVE_ASSET_NUM_HIVE then Inr HIVE_NAI_HIVE
        else if asset_num s = HIVE_ASSET_NUM_HBD then Inr HIVE_NAI_HBD
        else if asset_num s = HIVE_ASSET_NUM_VESTS then Inr HIVE_NAI_VESTS
        else bind_r (validate_nai_space (space s)) (\<lambda>_. Inr (drop_bit 5 (asset_num s))))
     (\<lambda>nai_data_digits.
     bind_r (damm_checksum_8digit nai_data_digits) (\<lambda>nai_check_digit.
     Inr (nai_data_digits * 10 + nai_check_digit)))"

section \<open>Vesting variants\<close>

definition is_vesting :: "asset_symbol_type \<Rightarrow> bool res" where
  "is_vesting s =
     (if space s = legacy_space then
        if asset_num s = HIVE_ASSET_NUM_VESTS then Inr True
        else bind_r (check_r (asset_num s = HIVE_ASSET_NUM_HIVE \<or> asset_num s = HIVE_ASSET_NUM_HBD)
                      ''Unknown asset symbol'') (\<lambda>_. Inr False)
      else bind_r (validate_nai_space (space s))
             (\<lambda>_. Inr (asset_num s AND SMT_ASSET_NUM_VESTING_MASK \<noteq> 0)))"

definition get_paired_symbol :: "asset_symbol_type \<Rightarrow> asset_symbol_type res" where
  "get_paired_symbol s =
     (if space s = legacy_space then
        if asset_num s = HIVE_ASSET_NUM_HIVE then Inr (from_asset_num HIVE_ASSET_NUM_VESTS)
        else if asset_num s = HIVE_ASSET_NUM_HBD then Inr s
        else bind_r (check_r (asset_num s = HIVE_ASSET_NUM_VESTS)
                      ''Unknown asset symbol, should be VESTS'')
               (\<lambda>_. Inr (from_asset_num HIVE_ASSET_NUM_HIVE))
      else bind_r (validate_nai_space (space s))
             (\<lambda>_. Inr (from_asset_num (asset_num s XOR SMT_ASSET_NUM_VESTING_MASK))))"

section \<open>Text form\<close>

text \<open>\<^verbatim>\<open>to_nai_string\<close> fills an 11 character buffer from the right; the last digit written takes
  all that is left of the number.\<close>

definition digit_char :: "32 word \<Rightarrow> char" where
  "digit_char d = char_of (unat (d + 48))"

definition to_nai_string :: "asset_symbol_type \<Rightarrow> string res" where
  "to_nai_string s =
     bind_r (to_nai s) (\<lambda>x.
       (let b10 = digit_char (x mod 10); x = x div 10;
            b9 = digit_char (x mod 10); x = x div 10;
            b8 = digit_char (x mod 10); x = x div 10;
            b7 = digit_char (x mod 10); x = x div 10;
            b6 = digit_char (x mod 10); x = x div 10;
            b5 = digit_char (x mod 10); x = x div 10;
            b4 = digit_char (x mod 10); x = x div 10;
            b3 = digit_char (x mod 10); x = x div 10;
            b2 = digit_char x
        in Inr [CHR ''@'', CHR ''@'', b2, b3, b4, b5, b6, b7, b8, b9, b10]))"

text \<open>\<^verbatim>\<open>boost::lexical_cast<uint32_t>\<close> is a parameter; \<open>None\<close> stands for a null pointer.\<close>

definition from_nai_string ::
  "(string \<Rightarrow> 32 word res) \<Rightarrow> string option \<Rightarrow> 8 word \<Rightarrow> asset_symbol_type res" where
  "from_nai_string lexical_cast_u32 p decimal_places =
     (case p of None \<Rightarrow> Inl (Assert_exn ''NAI string cannot be a null'')
      | Some str \<Rightarrow>
        if length str \<noteq> 11 then Inl (Assert_exn ''Incorrect NAI string length'')
        else if \<not> (str ! 0 = CHR ''@'' \<and> str ! 1 = CHR ''@'')
        then Inl (Assert_exn ''Invalid NAI string prefix'')
        else bind_r (lexical_cast_u32 (drop 2 str)) (\<lambda>nai. from_nai nai decimal_places))"

text \<open>Legacy symbol names. The main-net build has \<^verbatim>\<open>PIXA\<close>, \<^verbatim>\<open>PXS\<close> and \<^verbatim>\<open>VESTS\<close>; the names are
  compared as 64-bit integers, one character per byte.\<close>

definition VESTS_SYMBOL_U64 :: "64 word" where
  "VESTS_SYMBOL_U64 = 0x56 OR push_bit 8 0x45 OR push_bit 16 0x53 OR push_bit 24 0x54 OR push_bit 32 0x53"
definition HIVE_SYMBOL_U64 :: "64 word" where
  "HIVE_SYMBOL_U64 = 0x50 OR push_bit 8 0x49 OR push_bit 16 0x58 OR push_bit 24 0x41"
definition HBD_SYMBOL_U64 :: "64 word" where
  "HBD_SYMBOL_U64 = 0x50 OR push_bit 8 0x58 OR push_bit 16 0x53"

fun skip_space :: "string \<Rightarrow> string" where
  "skip_space [] = []"
| "skip_space (c # cs) =
     (if c = CHR '' '' \<or> c = CHR 0x09 \<or> c = CHR 0x0A \<or> c = CHR 0x0D then skip_space cs
      else c # cs)"

definition is_upper_char :: "char \<Rightarrow> bool" where
  "is_upper_char c \<longleftrightarrow> 65 \<le> (of_char c :: nat) \<and> (of_char c :: nat) \<le> 90"

text \<open>The inner loop over \<^verbatim>\<open>[A-Z]\<close>: the accumulated name and the rest of the string.\<close>

fun read_name :: "string \<Rightarrow> nat \<Rightarrow> 64 word \<Rightarrow> (64 word \<times> string) res" where
  "read_name [] shift name_u64 = Inr (name_u64, [])"
| "read_name (c # cs) shift name_u64 =
     (if is_upper_char c then
        if \<not> shift < 64 then Inl (Assert_exn ''Cannot parse asset symbol'')
        else read_name cs (shift + 8) (name_u64 OR push_bit shift (of_char c))
      else Inr (name_u64, c # cs))"

definition string_to_asset_num :: "string \<Rightarrow> 8 word \<Rightarrow> 32 word res" where
  "string_to_asset_num p dec =
     (let p = skip_space p in
      case p of [] \<Rightarrow> Inl (Assert_exn ''Cannot parse asset symbol'')
      | c # _ \<Rightarrow>
        if \<not> is_upper_char c then Inl (Assert_exn ''Cannot parse asset symbol'')
        else bind_r (read_name p 0 0) (\<lambda>(name_u64, rest).
          bind_r
           (if name_u64 = HIVE_SYMBOL_U64 then
              bind_r (check_r (dec = 3) ''Incorrect decimal places for HIVE asset'')
                (\<lambda>_. Inr HIVE_ASSET_NUM_HIVE)
            else if name_u64 = HBD_SYMBOL_U64 then
              bind_r (check_r (dec = 3) ''Incorrect decimal places for HBD asset'')
                (\<lambda>_. Inr HIVE_ASSET_NUM_HBD)
            else if name_u64 = VESTS_SYMBOL_U64 then
              bind_r (check_r (dec = 6) ''Incorrect decimal places for VESTS asset'')
                (\<lambda>_. Inr HIVE_ASSET_NUM_VESTS)
            else Inl (Assert_exn ''Cannot parse asset symbol''))
          (\<lambda>n. bind_r (check_r (skip_space rest = []) ''Cannot parse asset symbol'')
            (\<lambda>_. Inr n))))"

definition asset_num_to_string :: "asset_symbol_type \<Rightarrow> string" where
  "asset_num_to_string s =
     (if asset_num s = HIVE_ASSET_NUM_HIVE then ''PIXA''
      else if asset_num s = HIVE_ASSET_NUM_HBD then ''PXS''
      else if asset_num s = HIVE_ASSET_NUM_VESTS then ''VESTS''
      else ''UNKN'')"

section \<open>Wire format\<close>

text \<open>
  The integer serializer \<^verbatim>\<open>fc::raw::pack\<close> and the stream's \<^verbatim>\<open>read\<close> belong to the fc library: they
  are the fields of a parameter. \<open>raw_ok\<close> states what they do on a byte stream: \<^verbatim>\<open>pack\<close> appends
  the little-endian bytes of the integer, \<^verbatim>\<open>read\<close> hands out the next bytes.
\<close>

record raw_lib =
  raw_pack_u32 :: "byte list \<Rightarrow> 32 word \<Rightarrow> byte list"
  raw_pack_u64 :: "byte list \<Rightarrow> 64 word \<Rightarrow> byte list"
  raw_read :: "byte list \<Rightarrow> nat \<Rightarrow> (byte list \<times> byte list) res"

definition raw_ok :: "raw_lib \<Rightarrow> bool" where
  "raw_ok R \<longleftrightarrow>
     (\<forall>s w. raw_pack_u32 R s w = s @ le_bytes 4 (unat w)) \<and>
     (\<forall>s w. raw_pack_u64 R s w = s @ le_bytes 8 (unat w)) \<and>
     (\<forall>s n. n \<le> length s \<longrightarrow> raw_read R s n = Inr (take n s, drop n s)) \<and>
     (\<forall>s n. length s < n \<longrightarrow> throws (raw_read R s n))"

definition VESTS_SYMBOL_SER :: "64 word" where
  "VESTS_SYMBOL_SER = 6 OR push_bit 8 VESTS_SYMBOL_U64"
definition OBSOLETE_SYMBOL_SER :: "64 word" where
  "OBSOLETE_SYMBOL_SER = 3 OR push_bit 8 HIVE_SYMBOL_U64"
definition OBD_SYMBOL_SER :: "64 word" where
  "OBD_SYMBOL_SER = 3 OR push_bit 8 HBD_SYMBOL_U64"

text \<open>\<open>legacy\<close>: the serialization mode controller's current pack type is the legacy one.\<close>

definition pack_symbol ::
  "raw_lib \<Rightarrow> bool \<Rightarrow> byte list \<Rightarrow> asset_symbol_type \<Rightarrow> byte list res" where
  "pack_symbol R legacy s sy =
     bind_r (check_r (space sy = legacy_space \<or> space sy = smt_nai_space)
               ''Cannot serialize unknown asset symbol'') (\<lambda>_.
     if space sy = legacy_space \<and> legacy then
       if asset_num sy = HIVE_ASSET_NUM_HIVE then Inr (raw_pack_u64 R s OBSOLETE_SYMBOL_SER)
       else if asset_num sy = HIVE_ASSET_NUM_HBD then Inr (raw_pack_u64 R s OBD_SYMBOL_SER)
       else bind_r (check_r (asset_num sy = HIVE_ASSET_NUM_VESTS)
                     ''Cannot serialize unknown asset symbol'')
              (\<lambda>_. Inr (raw_pack_u64 R s VESTS_SYMBOL_SER))
     else Inr (raw_pack_u32 R s (asset_num sy)))"

definition unpack_legacy ::
  "raw_lib \<Rightarrow> byte list \<Rightarrow> byte list \<Rightarrow> 64 word \<Rightarrow> 32 word \<Rightarrow> (32 word \<times> byte list) res" where
  "unpack_legacy R s low expected num =
     bind_r (raw_read R s 4) (\<lambda>(high, s').
     bind_r (check_r (of_nat (le_nat (low @ high)) = expected) ''invalid asset bits'')
       (\<lambda>_. Inr (num, s')))"

definition unpack_symbol :: "raw_lib \<Rightarrow> byte list \<Rightarrow> (asset_symbol_type \<times> byte list) res" where
  "unpack_symbol R s =
     bind_r (raw_read R s 4) (\<lambda>(low, s1).
     let ser = (of_nat (le_nat low) :: 64 word) in
     bind_r
       (if ser = OBSOLETE_SYMBOL_SER AND 0xFFFFFFFF then
          unpack_legacy R s1 low OBSOLETE_SYMBOL_SER HIVE_ASSET_NUM_HIVE
        else if ser = OBD_SYMBOL_SER AND 0xFFFFFFFF then
          unpack_legacy R s1 low OBD_SYMBOL_SER HIVE_ASSET_NUM_HBD
        else if ser = VESTS_SYMBOL_SER AND 0xFFFFFFFF then
          unpack_legacy R s1 low VESTS_SYMBOL_SER HIVE_ASSET_NUM_VESTS
        else Inr (ucast ser, s1))
     (\<lambda>(n, s2).
     bind_r (validate (from_asset_num n)) (\<lambda>_. Inr (from_asset_num n, s2))))"

section \<open>Specification vocabulary\<close>

text \<open>
  The checksum as a fold of one table step over the eight decimal digits; the symbols whose
  data digits are reserved for the three core assets; what \<^verbatim>\<open>boost::lexical_cast<uint32_t>\<close> does on a
  string of decimal digits.
\<close>

definition damm_step :: "nat \<Rightarrow> nat \<Rightarrow> nat" where
  "damm_step x d = damm_table ! (x + d)"

definition damm_states :: "nat list" where
  "damm_states = [0, 10, 20, 30, 40, 50, 60, 70, 80, 90]"

definition nai_digits :: "32 word \<Rightarrow> nat list" where
  "nai_digits v =
     [unat v div 10000000 mod 10, unat v div 1000000 mod 10, unat v div 100000 mod 10,
      unat v div 10000 mod 10, unat v div 1000 mod 10, unat v div 100 mod 10,
      unat v div 10 mod 10, unat v mod 10]"

definition damm_fold :: "nat list \<Rightarrow> nat \<Rightarrow> nat" where
  "damm_fold ds x = fold (\<lambda>d x. damm_step x d) ds x"

definition nai_reserved :: "asset_symbol_type \<Rightarrow> bool" where
  "nai_reserved s \<longleftrightarrow> space s = smt_nai_space \<and> drop_bit 5 (asset_num s) \<le> 3"

definition lexical_cast_ok :: "(string \<Rightarrow> 32 word res) \<Rightarrow> bool" where
  "lexical_cast_ok lc \<longleftrightarrow>
     (\<forall>cs. cs \<noteq> [] \<and> list_all is_digit_char cs \<and> decimal_value cs < 4294967296 \<longrightarrow>
        lc cs = Inr (of_nat (decimal_value cs)))"

text \<open>Concrete library functions that meet \<open>raw_ok\<close> and \<open>lexical_cast_ok\<close>.\<close>

definition stream_raw :: raw_lib where
  "stream_raw = \<lparr>
     raw_pack_u32 = (\<lambda>s w. s @ le_bytes 4 (unat w)),
     raw_pack_u64 = (\<lambda>s w. s @ le_bytes 8 (unat w)),
     raw_read = (\<lambda>s n. if n \<le> length s then Inr (take n s, drop n s) else Inl Out_of_range)\<rparr>"

definition decimal_cast :: "string \<Rightarrow> 32 word res" where
  "decimal_cast cs =
     (if cs \<noteq> [] \<and> list_all is_digit_char cs \<and> decimal_value cs < 4294967296
      then Inr (of_nat (decimal_value cs)) else Inl Parse_exn)"

section \<open>Evaluated constants\<close>

lemma stream_raw_ok [simp]: "raw_ok stream_raw"
  by (simp add: raw_ok_def stream_raw_def throws_def)

lemma decimal_cast_ok [simp]: "lexical_cast_ok decimal_cast"
  by (simp add: lexical_cast_ok_def decimal_cast_def)


lemma asset_nums:
  "HIVE_ASSET_NUM_HBD = 3200000003"
  "HIVE_ASSET_NUM_HIVE = 3200000035"
  "HIVE_ASSET_NUM_VESTS = 3200000070"
  by (simp_all add: HIVE_ASSET_NUM_HBD_def HIVE_ASSET_NUM_HIVE_def HIVE_ASSET_NUM_VESTS_def
      nai_consts)

lemma asset_num_from_asset_num [simp]: "asset_num (from_asset_num n) = n"
  by (simp add: from_asset_num_def)

lemma from_asset_num_asset_num [simp]: "from_asset_num (asset_num s) = s"
  by (simp add: from_asset_num_def)

lemma symbol_neq [simp]:
  "HBD_SYMBOL \<noteq> HIVE_SYMBOL" "HIVE_SYMBOL \<noteq> HBD_SYMBOL" "HBD_SYMBOL \<noteq> VESTS_SYMBOL"
  "VESTS_SYMBOL \<noteq> HBD_SYMBOL" "HIVE_SYMBOL \<noteq> VESTS_SYMBOL" "VESTS_SYMBOL \<noteq> HIVE_SYMBOL"
  by (simp_all add: HBD_SYMBOL_def HIVE_SYMBOL_def VESTS_SYMBOL_def from_asset_num_def asset_nums)

lemma ser_values:
  "OBSOLETE_SYMBOL_SER = 0x4158495003" "OBD_SYMBOL_SER = 0x53585003"
  "VESTS_SYMBOL_SER = 0x535453455606"
  by (simp_all add: OBSOLETE_SYMBOL_SER_def OBD_SYMBOL_SER_def VESTS_SYMBOL_SER_def
      HIVE_SYMBOL_U64_def HBD_SYMBOL_U64_def VESTS_SYMBOL_U64_def)

section \<open>The check digit\<close>

lemma damm_closed:
  "list_all (\<lambda>x. list_all (\<lambda>d. List.member damm_states (damm_step x d)) [0..<10]) damm_states"
  by code_simp

lemma damm_inj_digit:
  "list_all (\<lambda>x. list_all (\<lambda>d. list_all (\<lambda>e. damm_step x d = damm_step x e \<longrightarrow> d = e) [0..<10]) [0..<10]) damm_states"
  by code_simp

lemma damm_inj_state:
  "list_all (\<lambda>d. list_all (\<lambda>x. list_all (\<lambda>y. damm_step x d = damm_step y d \<longrightarrow> x = y) damm_states) damm_states) [0..<10]"
  by code_simp

lemma damm_antisym:
  "list_all (\<lambda>x. list_all (\<lambda>d. list_all (\<lambda>e.
     damm_step (damm_step x d) e = damm_step (damm_step x e) d \<longrightarrow> d = e) [0..<10]) [0..<10]) damm_states"
  by code_simp


lemma upt_10_set: "d \<in> set [0..<10] \<longleftrightarrow> d < (10 :: nat)"
  by simp

lemma damm_step_closed: "x \<in> set damm_states \<Longrightarrow> d < 10 \<Longrightarrow> damm_step x d \<in> set damm_states"
  using damm_closed by (simp add: list_all_iff del: set_upt add: upt_10_set)

lemma damm_step_inj_digit:
  "x \<in> set damm_states \<Longrightarrow> d < 10 \<Longrightarrow> e < 10 \<Longrightarrow> damm_step x d = damm_step x e \<Longrightarrow> d = e"
  using damm_inj_digit by (simp add: list_all_iff)

lemma damm_step_inj_state:
  "x \<in> set damm_states \<Longrightarrow> y \<in> set damm_states \<Longrightarrow> d < 10 \<Longrightarrow> damm_step x d = damm_step y d \<Longrightarrow> x = y"
  using damm_inj_state by (simp add: list_all_iff)

lemma damm_step_antisym:
  "x \<in> set damm_states \<Longrightarrow> d < 10 \<Longrightarrow> e < 10 \<Longrightarrow>
   damm_step (damm_step x d) e = damm_step (damm_step x e) d \<Longrightarrow> d = e"
  using damm_antisym by (simp add: list_all_iff)

lemma damm_fold_simps [simp]:
  "damm_fold [] x = x"
  "damm_fold (d # ds) x = damm_fold ds (damm_step x d)"
  "damm_fold (ds @ es) x = damm_fold es (damm_fold ds x)"
  by (simp_all add: damm_fold_def)

lemma damm_fold_closed:
  "x \<in> set damm_states \<Longrightarrow> \<forall>d \<in> set ds. d < 10 \<Longrightarrow> damm_fold ds x \<in> set damm_states"
  by (induction ds arbitrary: x) (simp_all add: damm_step_closed)

lemma damm_fold_inj:
  "\<forall>d \<in> set ds. d < 10 \<Longrightarrow> x \<in> set damm_states \<Longrightarrow> y \<in> set damm_states \<Longrightarrow>
   damm_fold ds x = damm_fold ds y \<Longrightarrow> x = y"
proof (induction ds arbitrary: x y)
  case Nil
  then show ?case by simp
next
  case (Cons d ds)
  have d: "d < 10" and ds: "\<forall>d \<in> set ds. d < 10" using Cons.prems(1) by simp_all
  have "damm_fold ds (damm_step x d) = damm_fold ds (damm_step y d)"
    using Cons.prems(4) by simp
  then have "damm_step x d = damm_step y d"
    by (rule Cons.IH [OF ds damm_step_closed [OF Cons.prems(2) d] damm_step_closed [OF Cons.prems(3) d]])
  then show ?case by (rule damm_step_inj_state [OF Cons.prems(2,3) d])
qed

lemma damm_state_div_10: "x \<in> set damm_states \<Longrightarrow> y \<in> set damm_states \<Longrightarrow> x div 10 = y div 10 \<Longrightarrow> x = y"
  by (auto simp: damm_states_def)

lemma damm_state_bound: "x \<in> set damm_states \<Longrightarrow> x div 10 < 10"
  by (auto simp: damm_states_def)

lemma nai_digits_lt [simp]: "\<forall>d \<in> set (nai_digits v). d < 10"
  by (simp add: nai_digits_def)

lemma zero_state [simp]: "0 \<in> set damm_states"
  by (simp add: damm_states_def)

lemma unat_less_1e8: "(v :: 32 word) < 100000000 \<longleftrightarrow> unat v < 100000000"
  by (simp add: word_less_nat_alt)

lemma div_powers_of_ten:
  fixes n :: nat
  shows "n div 100 = n div 10 div 10" "n div 1000 = n div 10 div 10 div 10"
    "n div 10000 = n div 10 div 10 div 10 div 10"
    "n div 100000 = n div 10 div 10 div 10 div 10 div 10"
    "n div 1000000 = n div 10 div 10 div 10 div 10 div 10 div 10"
    "n div 10000000 = n div 10 div 10 div 10 div 10 div 10 div 10 div 10"
  by (simp_all flip: div_mult2_eq)

lemma nai_digits_chain:
  assumes "v < 100000000"
  shows "nai_digits v =
    (let n = unat v; q0 = n div 10; q1 = q0 div 10; q2 = q1 div 10; q3 = q2 div 10;
         q4 = q3 div 10; q5 = q4 div 10
     in [q5 div 10, q5 mod 10, q4 mod 10, q3 mod 10, q2 mod 10, q1 mod 10, q0 mod 10, n mod 10])"
proof -
  have "unat v < 10 * 10000000" using assms by (simp add: unat_less_1e8)
  then have top: "unat v div 10000000 mod 10 = unat v div 10000000"
    by (intro mod_less less_mult_imp_div_less)
  show ?thesis
    unfolding nai_digits_def Let_def top unfolding div_powers_of_ten ..
qed

lemma damm_checksum_eq:
  assumes "v < 100000000"
  shows "damm_checksum_8digit v = Inr (of_nat (damm_fold (nai_digits v) 0 div 10))"
proof -
  have u: "unat (10 :: 32 word) = 10" by simp
  show ?thesis
    unfolding nai_digits_chain [OF assms] damm_checksum_8digit_def Let_def damm_fold_simps
      damm_step_def unat_div unat_mod u
    using assms by (simp only: if_False not_True_eq_False simp_thms add_0)
qed

lemma damm_fold_nai_state: "damm_fold (nai_digits v) 0 \<in> set damm_states"
  by (rule damm_fold_closed) simp_all

lemma damm_checksum_digit:
  assumes "damm_checksum_8digit v = Inr c"
  shows "v < 100000000" "c < 10"
proof -
  show v: "v < 100000000"
    using assms by (auto simp: damm_checksum_8digit_def Let_def split: if_splits)
  have "damm_fold (nai_digits v) 0 div 10 < 10"
    by (rule damm_state_bound [OF damm_fold_nai_state])
  then show "c < 10"
    using assms damm_checksum_eq [OF v]
    by (auto simp: word_less_nat_alt unat_of_nat)
qed

lemma damm_checksum_inj:
  assumes "damm_checksum_8digit v = Inr c" "damm_checksum_8digit w = Inr c"
  shows "damm_fold (nai_digits v) 0 = damm_fold (nai_digits w) 0"
proof -
  let ?a = "damm_fold (nai_digits v) 0" and ?b = "damm_fold (nai_digits w) 0"
  have "of_nat (?a div 10) = (of_nat (?b div 10) :: 32 word)"
    using assms damm_checksum_eq damm_checksum_digit(1) by (metis Inr_inject)
  moreover have "?a div 10 < 10" "?b div 10 < 10"
    by (rule damm_state_bound [OF damm_fold_nai_state])+
  ultimately have "?a div 10 = ?b div 10"
    by (simp add: of_nat_inverse word_of_nat_eq_iff take_bit_nat_eq_self_iff take_bit_nat_eq_self)
  then show ?thesis
    by (rule damm_state_div_10 [OF damm_fold_nai_state damm_fold_nai_state])
qed

lemma damm_detects_single_digit:
  assumes "damm_checksum_8digit v = Inr a" "damm_checksum_8digit w = Inr b"
    and "nai_digits v = us @ d # vs" "nai_digits w = us @ e # vs" "d \<noteq> e"
  shows "a \<noteq> b"
proof
  assume "a = b"
  then have eq: "damm_fold (nai_digits v) 0 = damm_fold (nai_digits w) 0"
    using damm_checksum_inj assms(1,2) by blast
  have lt: "\<forall>d \<in> set us. d < 10" "\<forall>d \<in> set vs. d < 10" "d < 10" "e < 10"
    using nai_digits_lt [of v] nai_digits_lt [of w] assms(3,4) by simp_all
  let ?x = "damm_fold us 0"
  have x: "?x \<in> set damm_states" by (rule damm_fold_closed) (simp_all add: lt)
  have "damm_fold vs (damm_step ?x d) = damm_fold vs (damm_step ?x e)"
    using eq unfolding assms(3,4) damm_fold_simps .
  then have "damm_step ?x d = damm_step ?x e"
    by (rule damm_fold_inj [OF lt(2) damm_step_closed [OF x lt(3)] damm_step_closed [OF x lt(4)]])
  then show False
    using damm_step_inj_digit [OF x lt(3,4)] assms(5) by simp
qed

lemma damm_detects_transposition:
  assumes "damm_checksum_8digit v = Inr a" "damm_checksum_8digit w = Inr b"
    and "nai_digits v = us @ d # e # vs" "nai_digits w = us @ e # d # vs" "d \<noteq> e"
  shows "a \<noteq> b"
proof
  assume "a = b"
  then have eq: "damm_fold (nai_digits v) 0 = damm_fold (nai_digits w) 0"
    using damm_checksum_inj assms(1,2) by blast
  have lt: "\<forall>d \<in> set us. d < 10" "\<forall>d \<in> set vs. d < 10" "d < 10" "e < 10"
    using nai_digits_lt [of v] assms(3) by simp_all
  let ?x = "damm_fold us 0"
  have x: "?x \<in> set damm_states" by (rule damm_fold_closed) (simp_all add: lt)
  have "damm_fold vs (damm_step (damm_step ?x d) e) = damm_fold vs (damm_step (damm_step ?x e) d)"
    using eq unfolding assms(3,4) damm_fold_simps .
  then have "damm_step (damm_step ?x d) e = damm_step (damm_step ?x e) d"
    by (rule damm_fold_inj [OF lt(2) damm_step_closed [OF damm_step_closed [OF x lt(3)] lt(4)]
          damm_step_closed [OF damm_step_closed [OF x lt(4)] lt(3)]])
  then show False
    using damm_step_antisym [OF x lt(3,4)] assms(5) by simp
qed

text \<open>
  C31: the NAI check digit detects the two common typing errors. Two eight-digit numbers that
  differ in exactly one digit, or by the exchange of two adjacent different digits, never get
  the same check digit from \<^verbatim>\<open>damm_checksum_8digit\<close>.
\<close>

theorem damm_detects_typing_errors:
  assumes "damm_checksum_8digit v = Inr a" "damm_checksum_8digit w = Inr b" "d \<noteq> e"
    and "nai_digits v = us @ d # vs \<and> nai_digits w = us @ e # vs \<or>
      nai_digits v = us @ d # e # vs \<and> nai_digits w = us @ e # d # vs"
  shows "a \<noteq> b"
  using damm_detects_single_digit [OF assms(1,2)] damm_detects_transposition [OF assms(1,2)]
    assms(3,4) by blast

lemma damm_examples:
  "damm_checksum_8digit 12345678 = Inr 6" "damm_checksum_8digit 12354678 = Inr 5"
  by code_simp+

theorem damm_detects_typing_errors_witness:
  "damm_checksum_8digit 12345678 = Inr 6 \<and> damm_checksum_8digit 12354678 = Inr 5 \<and>
   (6 :: 32 word) \<noteq> 5"
  using damm_examples
    damm_detects_typing_errors [of 12345678 6 12354678 5 4 5 "[1, 2, 3]" "[6, 7, 8]"]
  by (simp add: nai_digits_def)

section \<open>NAI round trip\<close>

lemma mask_4: "(15 :: 'a :: len word) = mask 4" by (simp add: mask_eq_exp_minus_1)
lemma bit_16_iff: "bit (16 :: int) k \<longleftrightarrow> k = 4"
proof -
  have "bit (2 ^ 4 :: int) k \<longleftrightarrow> k = 4"
    unfolding bit_exp_iff by auto
  then show ?thesis by simp
qed

lemma bit_32_iff: "bit (32 :: int) k \<longleftrightarrow> k = 5"
proof -
  have "bit (2 ^ 5 :: int) k \<longleftrightarrow> k = 5"
    unfolding bit_exp_iff by auto
  then show ?thesis by simp
qed

lemma symbol_split:
  fixes n :: "32 word"
  shows "push_bit 5 (drop_bit 5 n) OR (n AND 16) OR (n AND 15) = n"
  unfolding mask_4
proof (rule bit_word_eqI)
  fix k
  show "bit (push_bit 5 (drop_bit 5 n) OR (n AND 16) OR (n AND mask 4)) k \<longleftrightarrow> bit n k"
    if "k < LENGTH(32)"
    using that by (cases "5 \<le> k") (auto simp: bit_simps bit_16_iff)
qed

lemma decimals_val: "ucast (decimals s) = asset_num s AND 15"
  unfolding decimals_def SMT_ASSET_NUM_PRECISION_MASK_def mask_4
  by (rule bit_word_eqI) (auto simp: bit_simps)

lemma ucast_le_12: "d \<le> (12 :: 8 word) \<longleftrightarrow> (ucast d :: 32 word) \<le> 12"
proof -
  have "take_bit 32 (unat d) = unat d"
    using unsigned_less [where ?'a = nat and w = d] by (simp add: take_bit_nat_eq_self_iff)
  then show ?thesis by (simp add: word_le_nat_alt unsigned_ucast_eq)
qed

lemma nai_pack:
  fixes d c :: "32 word"
  assumes "d \<le> 99999999" "c < 10"
  shows "(d * 10 + c) div 10 = d" "(d * 10 + c) mod 10 = c"
proof -
  have "unat d \<le> 99999999" "unat c < 10"
    using assms by (simp_all add: word_le_nat_alt word_less_nat_alt)
  then have u: "unat (d * 10 + c) = unat d * 10 + unat c"
    by (simp add: unat_word_ariths)
  show "(d * 10 + c) div 10 = d" "(d * 10 + c) mod 10 = c"
    using \<open>unat c < 10\<close> by (simp_all add: word_unat_eq_iff unat_div unat_mod u)
qed

lemma validate_smt:
  assumes "validate s = Inr ()" "space s = smt_nai_space"
  shows "1 \<le> drop_bit 5 (asset_num s)" "drop_bit 5 (asset_num s) \<le> 99999999"
    "asset_num s AND 16 = 16" "asset_num s AND 15 \<le> 12"
  using assms by (auto simp: validate_def space_def nai_consts Let_def split: if_splits)

lemma damm_total: "d \<le> 99999999 \<Longrightarrow> \<exists>c < 10. damm_checksum_8digit d = Inr c"
  using damm_checksum_eq [of d] damm_checksum_digit(2) [of d]
  by (auto simp: word_less_nat_alt word_le_nat_alt)

lemma nai_roundtrip_core:
  "bind_r (to_nai HIVE_SYMBOL) (\<lambda>n. from_nai n (decimals HIVE_SYMBOL)) = Inr HIVE_SYMBOL"
  "bind_r (to_nai HBD_SYMBOL) (\<lambda>n. from_nai n (decimals HBD_SYMBOL)) = Inr HBD_SYMBOL"
  "bind_r (to_nai VESTS_SYMBOL) (\<lambda>n. from_nai n (decimals VESTS_SYMBOL)) = Inr VESTS_SYMBOL"
  by code_simp+

lemma nai_roundtrip:
  assumes "validate s = Inr ()" "\<not> nai_reserved s"
  shows "bind_r (to_nai s) (\<lambda>n. from_nai n (decimals s)) = Inr s"
proof (cases "space s = legacy_space")
  case True
  then consider "asset_num s = HIVE_ASSET_NUM_HIVE" | "asset_num s = HIVE_ASSET_NUM_HBD"
    | "asset_num s = HIVE_ASSET_NUM_VESTS"
    by (auto simp: space_def split: if_splits)
  then show ?thesis
  proof cases
    case 1
    then have "s = HIVE_SYMBOL" by (simp add: HIVE_SYMBOL_def from_asset_num_def)
    then show ?thesis by (simp only: nai_roundtrip_core)
  next
    case 2
    then have "s = HBD_SYMBOL" by (simp add: HBD_SYMBOL_def from_asset_num_def)
    then show ?thesis by (simp only: nai_roundtrip_core)
  next
    case 3
    then have "s = VESTS_SYMBOL" by (simp add: VESTS_SYMBOL_def from_asset_num_def)
    then show ?thesis by (simp only: nai_roundtrip_core)
  qed
next
  case False
  then have sp: "space s = smt_nai_space" by (cases "space s") simp_all
  let ?d = "drop_bit 5 (asset_num s)"
  note v = validate_smt [OF assms(1) sp]
  obtain c where c: "c < 10" "damm_checksum_8digit ?d = Inr c"
    using damm_total [OF v(2)] by blast
  have to: "to_nai s = Inr (?d * 10 + c)"
    using sp c by (auto simp: to_nai_def validate_nai_space_def space_def split: if_splits)
  have nr: "?d \<noteq> 1" "?d \<noteq> 2" "?d \<noteq> 3"
    using assms(2) sp by (auto simp: nai_reserved_def)
  have dec: "decimals s \<le> 12"
    using v(4) by (simp add: ucast_le_12 decimals_val)
  have "asset_num_from_nai (?d * 10 + c) (decimals s) =
      Inr (push_bit 5 ?d OR 16 OR (asset_num s AND 15))"
    using v c nr dec by (simp add: asset_num_from_nai_def nai_pack nai_consts Let_def decimals_val)
  also have "push_bit 5 ?d OR 16 OR (asset_num s AND 15) = asset_num s"
    using symbol_split [of "asset_num s"] v(3) by simp
  finally show ?thesis by (simp add: to from_nai_def)
qed


section \<open>Pairing\<close>

lemma xor_32_bits:
  fixes n :: "32 word"
  shows "(n XOR 32) AND 16 = n AND 16" "(n XOR 32) AND 15 = n AND 15"
    "(n XOR 32) AND 32 = 0 \<longleftrightarrow> n AND 32 \<noteq> 0" "(n XOR 32) XOR 32 = n"
proof -
  show "(n XOR 32) AND 16 = n AND 16"
    by (rule bit_word_eqI) (auto simp: bit_simps bit_16_iff bit_32_iff)
  show "(n XOR 32) AND 15 = n AND 15"
    unfolding mask_4 by (rule bit_word_eqI) (auto simp: bit_simps bit_32_iff)
  show "(n XOR 32) XOR 32 = n"
    by (simp add: xor.assoc)
  have "n AND 32 = 0 \<longleftrightarrow> \<not> bit n 5" for n :: "32 word"
    using and_exp_eq_0_iff_not_bit [of n 5] by simp
  then show "(n XOR 32) AND 32 = 0 \<longleftrightarrow> n AND 32 \<noteq> 0"
    by (simp add: bit_simps bit_32_iff)
qed

lemma smt_space_control:
  assumes "asset_num s AND 16 = 16"
  shows "space s = smt_nai_space"
proof -
  have "asset_num s \<noteq> 3200000003" "asset_num s \<noteq> 3200000035" "asset_num s \<noteq> 3200000070"
    using assms by auto
  then show ?thesis by (simp add: space_def asset_nums)
qed

lemma symbol_eq_iff:
  "s = HIVE_SYMBOL \<longleftrightarrow> asset_num s = HIVE_ASSET_NUM_HIVE"
  "s = HBD_SYMBOL \<longleftrightarrow> asset_num s = HIVE_ASSET_NUM_HBD"
  "s = VESTS_SYMBOL \<longleftrightarrow> asset_num s = HIVE_ASSET_NUM_VESTS"
  by (cases s; simp add: HIVE_SYMBOL_def HBD_SYMBOL_def VESTS_SYMBOL_def from_asset_num_def)+

lemma space_cases:
  obtains "s = HIVE_SYMBOL" | "s = HBD_SYMBOL" | "s = VESTS_SYMBOL" | "space s = smt_nai_space"
  unfolding symbol_eq_iff space_def by metis

lemma core_space [simp]:
  "space HIVE_SYMBOL = legacy_space" "space HBD_SYMBOL = legacy_space"
  "space VESTS_SYMBOL = legacy_space"
  by (simp_all add: space_def HIVE_SYMBOL_def HBD_SYMBOL_def VESTS_SYMBOL_def)

lemma core_asset_num [simp]:
  "asset_num HIVE_SYMBOL = HIVE_ASSET_NUM_HIVE" "asset_num HBD_SYMBOL = HIVE_ASSET_NUM_HBD"
  "asset_num VESTS_SYMBOL = HIVE_ASSET_NUM_VESTS"
  by (simp_all add: HIVE_SYMBOL_def HBD_SYMBOL_def VESTS_SYMBOL_def)

lemma get_paired_smt:
  assumes "validate s = Inr ()" "space s = smt_nai_space"
  shows "get_paired_symbol s = Inr (from_asset_num (asset_num s XOR 32))"
    and "space (from_asset_num (asset_num s XOR 32)) = smt_nai_space"
proof -
  show "get_paired_symbol s = Inr (from_asset_num (asset_num s XOR 32))"
    using assms(2) by (simp add: get_paired_symbol_def validate_nai_space_def nai_consts)
  show "space (from_asset_num (asset_num s XOR 32)) = smt_nai_space"
    using validate_smt(3) [OF assms] by (intro smt_space_control) (simp add: xor_32_bits)
qed

lemma is_vesting_smt:
  "space s = smt_nai_space \<Longrightarrow> is_vesting s = Inr (asset_num s AND 32 \<noteq> 0)"
  by (simp add: is_vesting_def validate_nai_space_def nai_consts)

lemma core_paired:
  "get_paired_symbol HIVE_SYMBOL = Inr VESTS_SYMBOL"
  "get_paired_symbol VESTS_SYMBOL = Inr HIVE_SYMBOL"
  "get_paired_symbol HBD_SYMBOL = Inr HBD_SYMBOL"
  "is_vesting HIVE_SYMBOL = Inr False" "is_vesting VESTS_SYMBOL = Inr True"
  by (simp_all add: get_paired_symbol_def is_vesting_def asset_nums symbol_eq_iff)



section \<open>Wire round trip\<close>

lemma ser_low_halves:
  "OBSOLETE_SYMBOL_SER AND 0xFFFFFFFF = 0x58495003" "OBD_SYMBOL_SER AND 0xFFFFFFFF = 0x53585003"
  "VESTS_SYMBOL_SER AND 0xFFFFFFFF = 0x53455606"
  by (simp_all add: ser_values)

lemma of_nat_unat_64: "of_nat (unat (a :: 32 word)) = (ucast a :: 64 word)"
  by simp

lemma ucast_ucast_64_32: "ucast (ucast (a :: 32 word) :: 64 word) = a"
  by (rule bit_word_eqI) (auto simp: bit_simps)

lemma valid_not_legacy_prefix:
  assumes "validate sy = Inr ()"
  shows "ucast (asset_num sy) \<noteq> (0x58495003 :: 64 word)"
    "ucast (asset_num sy) \<noteq> (0x53585003 :: 64 word)"
    "ucast (asset_num sy) \<noteq> (0x53455606 :: 64 word)"
proof -
  have "asset_num sy AND 16 = 16 \<or> asset_num sy \<in> {3200000003, 3200000035, 3200000070}"
  proof (cases sy rule: space_cases)
    case 4
    then show ?thesis using validate_smt(3) [OF assms] by simp
  qed (simp_all add: asset_nums)
  then have *: "asset_num sy \<noteq> 0x58495003 \<and> asset_num sy \<noteq> 0x53585003 \<and> asset_num sy \<noteq> 0x53455606"
    by auto
  have "asset_num sy = ucast c" if "ucast (asset_num sy) = c" for c :: "64 word"
    using that ucast_ucast_64_32 by metis
  from this [of "0x58495003"] this [of "0x53585003"] this [of "0x53455606"] *
  show "ucast (asset_num sy) \<noteq> (0x58495003 :: 64 word)"
    "ucast (asset_num sy) \<noteq> (0x53585003 :: 64 word)"
    "ucast (asset_num sy) \<noteq> (0x53455606 :: 64 word)"
    by auto
qed

lemma raw_read_app:
  assumes "raw_ok R" "length xs = n"
  shows "raw_read R (xs @ rest) n = Inr (xs, rest)"
  using assms by (auto simp: raw_ok_def)

lemma le_bytes_8_split: "le_bytes 8 x = le_bytes 4 x @ drop 4 (le_bytes 8 x)"
  by (metis append_take_drop_id take_le_bytes numeral_le_iff semiring_norm(68,71) zero_le)

lemma unpack_legacy_ser:
  assumes "raw_ok R"
  shows "unpack_legacy R (drop 4 (le_bytes 8 (unat ser)) @ rest) (le_bytes 4 (unat ser)) ser n =
    Inr (n, rest)"
  using raw_read_app [OF assms, of "drop 4 (le_bytes 8 (unat ser))" 4]
  by (simp add: unpack_legacy_def le_nat_8 flip: le_bytes_8_split)

lemma validate_core [simp]:
  "validate HIVE_SYMBOL = Inr ()" "validate HBD_SYMBOL = Inr ()" "validate VESTS_SYMBOL = Inr ()"
  by (simp_all add: validate_def)

lemma unpack_symbol_legacy:
  assumes "raw_ok R"
  shows "unpack_symbol R (le_bytes 8 (unat OBSOLETE_SYMBOL_SER) @ rest) = Inr (HIVE_SYMBOL, rest)"
    and "unpack_symbol R (le_bytes 8 (unat OBD_SYMBOL_SER) @ rest) = Inr (HBD_SYMBOL, rest)"
    and "unpack_symbol R (le_bytes 8 (unat VESTS_SYMBOL_SER) @ rest) = Inr (VESTS_SYMBOL, rest)"
proof -
  have rd: "raw_read R (le_bytes 8 (unat ser) @ rest) 4 =
      Inr (le_bytes 4 (unat ser), drop 4 (le_bytes 8 (unat ser)) @ rest)" for ser :: "64 word"
    by (subst le_bytes_8_split) (simp add: raw_read_app [OF assms])
  have low: "le_nat (le_bytes 4 (unat OBSOLETE_SYMBOL_SER)) = 0x58495003"
    "le_nat (le_bytes 4 (unat OBD_SYMBOL_SER)) = 0x53585003"
    "le_nat (le_bytes 4 (unat VESTS_SYMBOL_SER)) = 0x53455606"
    by (simp_all add: le_nat_le_bytes ser_values)
  note facts = unpack_symbol_def rd low ser_low_halves unpack_legacy_ser [OF assms] Let_def
  show "unpack_symbol R (le_bytes 8 (unat OBSOLETE_SYMBOL_SER) @ rest) = Inr (HIVE_SYMBOL, rest)"
    by (simp add: facts flip: HIVE_SYMBOL_def)
  show "unpack_symbol R (le_bytes 8 (unat OBD_SYMBOL_SER) @ rest) = Inr (HBD_SYMBOL, rest)"
    by (simp add: facts flip: HBD_SYMBOL_def)
  show "unpack_symbol R (le_bytes 8 (unat VESTS_SYMBOL_SER) @ rest) = Inr (VESTS_SYMBOL, rest)"
    by (simp add: facts flip: VESTS_SYMBOL_def)
qed

text \<open>
  C24: the wire form of a symbol can be read back. In both serialization modes, what
  \<^verbatim>\<open>pack\<close> writes for a validated symbol is what \<^verbatim>\<open>unpack\<close> reads, whatever follows it in the
  stream: the four-byte form is never mistaken for the eight-byte legacy form or back.
\<close>

theorem symbol_wire_roundtrip:
  assumes "raw_ok R" "validate sy = Inr ()"
  shows "bind_r (pack_symbol R legacy [] sy) (\<lambda>bs. unpack_symbol R (bs @ rest)) = Inr (sy, rest)"
proof (cases "legacy \<and> space sy = legacy_space")
  case True
  then show ?thesis
    using assms(1) unpack_symbol_legacy [OF assms(1), of rest]
    by (cases sy rule: space_cases) (simp_all add: pack_symbol_def raw_ok_def asset_nums)
next
  case False
  have p: "pack_symbol R legacy [] sy = Inr (le_bytes 4 (unat (asset_num sy)))"
    using False assms(1) by (cases "space sy") (auto simp: pack_symbol_def raw_ok_def)
  have "unpack_symbol R (le_bytes 4 (unat (asset_num sy)) @ rest) = Inr (sy, rest)"
    using raw_read_app [OF assms(1), of "le_bytes 4 (unat (asset_num sy))" 4]
      valid_not_legacy_prefix [OF assms(2)] assms(2)
    by (simp add: unpack_symbol_def ser_low_halves le_nat_4 of_nat_unat_64 ucast_ucast_64_32 Let_def)
  then show ?thesis by (simp add: p)
qed


theorem symbol_wire_roundtrip_witness:
  "bind_r (pack_symbol stream_raw True [] HBD_SYMBOL) (\<lambda>bs. unpack_symbol stream_raw (bs @ [7])) =
     Inr (HBD_SYMBOL, [7]) \<and>
   bind_r (pack_symbol stream_raw False [] (from_asset_num 0x91))
     (\<lambda>bs. unpack_symbol stream_raw (bs @ [7])) = Inr (from_asset_num 0x91, [7])"
proof -
  have "validate (from_asset_num 0x91) = Inr ()" by code_simp
  then show ?thesis
    using symbol_wire_roundtrip [OF stream_raw_ok] validate_core(2) by blast
qed

section \<open>Symbol names\<close>

lemma core_names:
  "string_to_asset_num (asset_num_to_string HIVE_SYMBOL) (decimals HIVE_SYMBOL) = Inr (asset_num HIVE_SYMBOL)"
  "string_to_asset_num (asset_num_to_string HBD_SYMBOL) (decimals HBD_SYMBOL) = Inr (asset_num HBD_SYMBOL)"
  "string_to_asset_num (asset_num_to_string VESTS_SYMBOL) (decimals VESTS_SYMBOL) = Inr (asset_num VESTS_SYMBOL)"
  by code_simp+

lemma string_to_asset_num_core:
  assumes "string_to_asset_num p dec = Inr n"
  shows "from_asset_num n \<in> {HIVE_SYMBOL, HBD_SYMBOL, VESTS_SYMBOL}"
    and "decimals (from_asset_num n) = dec"
  using assms
  by (auto simp: string_to_asset_num_def decimals_def asset_nums nai_consts HIVE_SYMBOL_def
      HBD_SYMBOL_def VESTS_SYMBOL_def res_simps Let_def split: if_splits list.splits)



section \<open>NAI strings\<close>

lemma of_char_digit_char:
  assumes "unat d < 10"
  shows "of_char (digit_char d) = unat d + (48 :: nat)"
proof -
  have "unat (d + 48) = unat d + 48"
    using assms by (simp add: unat_word_ariths)
  then show ?thesis using assms by (simp add: digit_char_def of_char_of)
qed

lemma digit_char_facts [simp]:
  "of_char (digit_char (x mod 10)) = unat x mod 10 + (48 :: nat)"
  "is_digit_char (digit_char (x mod 10))"
proof -
  have "unat (x mod 10) = unat x mod 10" by (simp add: unat_mod)
  then show 1: "of_char (digit_char (x mod 10)) = unat x mod 10 + (48 :: nat)"
    by (subst of_char_digit_char) simp_all
  have "unat x mod 10 < 10" by simp
  then show "is_digit_char (digit_char (x mod 10))"
    by (simp add: is_digit_char_def 1)
qed

lemma to_nai_bound:
  assumes "to_nai s = Inr n"
  shows "unat n < 1000000000"
proof -
  obtain d c where d: "damm_checksum_8digit d = Inr c" "n = d * 10 + c"
    using assms by (auto simp: to_nai_def res_simps)
  have "unat d < 100000000" "unat c < 10"
    using damm_checksum_digit [OF d(1)] by (simp_all add: word_less_nat_alt)
  then show ?thesis
    using d(2) by (simp add: unat_word_ariths)
qed

lemma decimal_value_step:
  "y = x div 10 \<Longrightarrow> decimal_value cs = unat y \<Longrightarrow> decimal_value (cs @ [digit_char (x mod 10)]) = unat x"
  by (simp add: decimal_value_def unat_div)

lemma to_nai_string_eq:
  assumes "to_nai s = Inr n"
  shows "\<exists>ds. to_nai_string s = Inr (CHR ''@'' # CHR ''@'' # ds) \<and> length ds = 9 \<and>
    list_all is_digit_char ds \<and> decimal_value ds = unat n"
proof -
  define q1 q2 q3 q4 q5 q6 q7 q8 where "q1 = n div 10" and "q2 = q1 div 10" and "q3 = q2 div 10"
    and "q4 = q3 div 10" and "q5 = q4 div 10" and "q6 = q5 div 10" and "q7 = q6 div 10" and "q8 = q7 div 10"
  note q = q1_def q2_def q3_def q4_def q5_def q6_def q7_def q8_def
  have u10: "unat (10 :: 32 word) = 10" by simp
  have "unat n div 100000000 < 10"
    using to_nai_bound [OF assms] by (intro less_mult_imp_div_less) simp
  then have q8: "unat q8 < 10"
    unfolding q unat_div u10 by (simp flip: div_mult2_eq)
  let ?ds = "((((((([digit_char q8] @ [digit_char (q7 mod 10)]) @ [digit_char (q6 mod 10)]) @
    [digit_char (q5 mod 10)]) @ [digit_char (q4 mod 10)]) @ [digit_char (q3 mod 10)]) @
    [digit_char (q2 mod 10)]) @ [digit_char (q1 mod 10)]) @ [digit_char (n mod 10)]"
  have base: "decimal_value [digit_char q8] = unat q8"
    using q8 by (simp add: decimal_value_def of_char_digit_char)
  note s = decimal_value_step
  have "decimal_value ?ds = unat n"
    by (rule s [OF q1_def s [OF q2_def s [OF q3_def s [OF q4_def s [OF q5_def s [OF q6_def
          s [OF q7_def s [OF q8_def base]]]]]]]])
  moreover have "is_digit_char (digit_char q8)"
    using q8 by (simp add: is_digit_char_def of_char_digit_char)
  then have "list_all is_digit_char ?ds" by simp
  moreover have "to_nai_string s = Inr (CHR ''@'' # CHR ''@'' # ?ds)"
    using assms by (simp add: to_nai_string_def Let_def flip: q)
  moreover have "length ?ds = 9" by simp
  ultimately show ?thesis by blast
qed

text \<open>
  C22: the text form of a symbol can be read back. For every validated symbol outside the
  reserved data digits, parsing the NAI string with the symbol's precision returns the symbol,
  given a decimal cast that reads digit strings.
\<close>

theorem nai_string_roundtrip:
  assumes "lexical_cast_ok lc" "validate s = Inr ()" "\<not> nai_reserved s"
  shows "bind_r (to_nai_string s) (\<lambda>str. from_nai_string lc (Some str) (decimals s)) = Inr s"
proof -
  obtain n where n: "to_nai s = Inr n" "from_nai n (decimals s) = Inr s"
    using nai_roundtrip [OF assms(2,3)] by (auto simp: res_simps)
  then obtain ds where ds: "to_nai_string s = Inr (CHR ''@'' # CHR ''@'' # ds)" "length ds = 9"
    "list_all is_digit_char ds" "decimal_value ds = unat n"
    using to_nai_string_eq by blast
  have "ds \<noteq> []" "decimal_value ds < 4294967296"
    using ds(2,4) to_nai_bound [OF n(1)] by auto
  then have "lc ds = Inr n"
    using assms(1) ds(3,4) by (simp add: lexical_cast_ok_def)
  then show ?thesis
    using ds n by (simp add: from_nai_string_def)
qed

theorem nai_string_roundtrip_witness:
  "bind_r (to_nai_string (from_asset_num 0x91))
     (\<lambda>str. from_nai_string decimal_cast (Some str) (decimals (from_asset_num 0x91))) =
     Inr (from_asset_num 0x91)"
proof -
  have "validate (from_asset_num 0x91) = Inr ()" by code_simp
  moreover have "\<not> nai_reserved (from_asset_num 0x91)" by code_simp
  ultimately show ?thesis
    using nai_string_roundtrip [OF decimal_cast_ok] by blast
qed

lemma word_1_to_3:
  fixes d :: "32 word"
  assumes "1 \<le> d" "d \<le> 3"
  shows "d \<in> {1, 2, 3}"
proof -
  have "unat d = 1 \<or> unat d = 2 \<or> unat d = 3"
    using assms by (auto simp: word_le_nat_alt)
  then show ?thesis by (auto simp: word_unat_eq_iff)
qed

lemma damm_small:
  "damm_checksum_8digit 1 = Inr 3" "damm_checksum_8digit 2 = Inr 1" "damm_checksum_8digit 3 = Inr 7"
  by code_simp+

lemma core_nai:
  "to_nai HBD_SYMBOL = Inr 13" "to_nai HIVE_SYMBOL = Inr 21" "to_nai VESTS_SYMBOL = Inr 37"
  by code_simp+



end
