(* ===== verification/Asset.thy ===== *)
theory Asset
  imports Complex_Main Asset_Symbol
begin

text \<open>
  Amounts and prices (\<^verbatim>\<open>protocol/asset.hpp\<close>, the rest of \<^verbatim>\<open>protocol/asset.cpp\<close> and the asset checks
  of \<^verbatim>\<open>protocol/validation.hpp\<close>). An amount is an \<^verbatim>\<open>int64_t\<close> behind the checked integer of fc;
  products of a price are 128-bit words. A template parameter naming a symbol is an argument of
  the operations that use it.
\<close>

section \<open>Assets\<close>

record asset =
  amount :: int
  symbol :: asset_symbol_type

definition mk_asset :: "int \<Rightarrow> asset_symbol_type \<Rightarrow> asset" where
  "mk_asset a s = \<lparr>amount = a, symbol = s\<rparr>"

definition default_asset :: asset where
  "default_asset = mk_asset 0 HIVE_SYMBOL"

definition asset_plus_assign :: "fc_lib \<Rightarrow> asset \<Rightarrow> asset \<Rightarrow> asset res" where
  "asset_plus_assign F a b =
     (if symbol a \<noteq> symbol b then Inl (Assert_exn ''asset symbol mismatch +='')
      else bind_r (safe_add F (amount a) (amount b)) (\<lambda>v. Inr (a\<lparr>amount := v\<rparr>)))"

definition asset_minus_assign :: "fc_lib \<Rightarrow> asset \<Rightarrow> asset \<Rightarrow> asset res" where
  "asset_minus_assign F a b =
     (if symbol a \<noteq> symbol b then Inl (Assert_exn ''asset symbol mismatch -='')
      else bind_r (safe_sub F (amount a) (amount b)) (\<lambda>v. Inr (a\<lparr>amount := v\<rparr>)))"

definition asset_uminus :: "fc_lib \<Rightarrow> asset \<Rightarrow> asset res" where
  "asset_uminus F a = bind_r (safe_neg F (amount a)) (\<lambda>v. Inr (mk_asset v (symbol a)))"

definition asset_eq :: "asset \<Rightarrow> asset \<Rightarrow> bool" where
  "asset_eq a b \<longleftrightarrow> symbol a = symbol b \<and> amount a = amount b"

definition asset_lt :: "asset \<Rightarrow> asset \<Rightarrow> bool res" where
  "asset_lt a b = (if symbol a \<noteq> symbol b then Inl (Assert_exn ''asset symbol mismatch <'')
                   else Inr (amount a < amount b))"

definition asset_le :: "asset \<Rightarrow> asset \<Rightarrow> bool res" where
  "asset_le a b = (if symbol a \<noteq> symbol b then Inl (Assert_exn ''asset symbol mismatch <='')
                   else Inr (amount a \<le> amount b))"

definition asset_ne :: "asset \<Rightarrow> asset \<Rightarrow> bool res" where
  "asset_ne a b = (if symbol a \<noteq> symbol b then Inl (Assert_exn ''asset symbol mismatch !='')
                   else Inr (amount a \<noteq> amount b))"

definition asset_gt :: "asset \<Rightarrow> asset \<Rightarrow> bool res" where
  "asset_gt a b = (if symbol a \<noteq> symbol b then Inl (Assert_exn ''asset symbol mismatch >'')
                   else Inr (amount a > amount b))"

definition asset_ge :: "asset \<Rightarrow> asset \<Rightarrow> bool res" where
  "asset_ge a b = (if symbol a \<noteq> symbol b then Inl (Assert_exn ''asset symbol mismatch >='')
                   else Inr (amount a \<ge> amount b))"

definition asset_minus :: "fc_lib \<Rightarrow> asset \<Rightarrow> asset \<Rightarrow> asset res" where
  "asset_minus F a b =
     (if symbol a \<noteq> symbol b then Inl (Assert_exn ''asset symbol mismatch -'')
      else bind_r (safe_sub F (amount a) (amount b)) (\<lambda>v. Inr (mk_asset v (symbol a))))"

definition asset_plus :: "fc_lib \<Rightarrow> asset \<Rightarrow> asset \<Rightarrow> asset res" where
  "asset_plus F a b =
     (if symbol a \<noteq> symbol b then Inl (Assert_exn ''asset symbol mismatch +'')
      else bind_r (safe_add F (amount a) (amount b)) (\<lambda>v. Inr (mk_asset v (symbol a))))"

section \<open>Checks on assets\<close>

definition is_asset_type :: "asset \<Rightarrow> asset_symbol_type \<Rightarrow> bool" where
  "is_asset_type a s \<longleftrightarrow> symbol a = s"

definition validate_asset_type :: "asset \<Rightarrow> asset_symbol_type \<Rightarrow> unit res" where
  "validate_asset_type a s =
     check_r (is_asset_type a s) ''Asset symbol does not match expected symbol''"

definition validate_asset_type_one_of :: "asset \<Rightarrow> asset_symbol_type list \<Rightarrow> unit res" where
  "validate_asset_type_one_of a ss =
     check_r (symbol a \<in> set ss) ''Asset symbol does not match expected symbol''"

definition validate_asset_greater_than_zero :: "asset \<Rightarrow> unit res" where
  "validate_asset_greater_than_zero a =
     check_r (amount a > 0) ''Asset amount must be greater than zero''"

definition validate_asset_not_negative :: "asset \<Rightarrow> unit res" where
  "validate_asset_not_negative a = check_r (amount a \<ge> 0) ''Asset amount cannot be negative''"

definition validate_asset_is_not_vesting :: "asset \<Rightarrow> unit res" where
  "validate_asset_is_not_vesting a =
     bind_r (is_vesting (symbol a)) (\<lambda>v. check_r (\<not> v) ''Asset cannot be of VESTS type'')"

section \<open>Prices\<close>

definition HIVE_100_PERCENT :: int where "HIVE_100_PERCENT = 10000"
definition HIVE_MAX_SATOSHIS :: int where "HIVE_MAX_SATOSHIS = 4611686018427387903"

record price =
  base :: asset
  quote :: asset

definition price_validate :: "price \<Rightarrow> unit res" where
  "price_validate p =
     bind_r (validate_asset_greater_than_zero (base p)) (\<lambda>_.
     bind_r (validate_asset_greater_than_zero (quote p)) (\<lambda>_.
     check_r (symbol (base p) \<noteq> symbol (quote p)) ''Base and quote symbols cannot be the same''))"

definition mk_price :: "asset \<Rightarrow> asset \<Rightarrow> price res" where
  "mk_price b q =
     bind_r (price_validate \<lparr>base = b, quote = q\<rparr>) (\<lambda>_. Inr \<lparr>base = b, quote = q\<rparr>)"

definition default_price :: price where
  "default_price = \<lparr>base = default_asset, quote = default_asset\<rparr>"

definition max_satoshis :: int where "max_satoshis = HIVE_MAX_SATOSHIS"

definition price_max :: "asset_symbol_type \<Rightarrow> asset_symbol_type \<Rightarrow> price res" where
  "price_max b q = mk_price (mk_asset max_satoshis b) (mk_asset 1 q)"

definition price_min :: "asset_symbol_type \<Rightarrow> asset_symbol_type \<Rightarrow> price res" where
  "price_min b q = mk_price (mk_asset 1 b) (mk_asset max_satoshis q)"

definition price_invert :: "price \<Rightarrow> price res" where
  "price_invert p = mk_price (quote p) (base p)"

text \<open>
  The six comparison operators come from one macro: prices of different symbol pairs compare by
  the pair, lexicographically, and prices of the same pair by cross multiplication in 128 bits.
\<close>

definition BQ :: "price \<Rightarrow> 32 word \<times> 32 word" where
  "BQ p = (asset_num (symbol (base p)), asset_num (symbol (quote p)))"

definition tie_less :: "32 word \<times> 32 word \<Rightarrow> 32 word \<times> 32 word \<Rightarrow> bool" where
  "tie_less x y \<longleftrightarrow> fst x < fst y \<or> (\<not> fst y < fst x \<and> snd x < snd y)"

definition amult :: "price \<Rightarrow> price \<Rightarrow> 128 word" where
  "amult a b = of_int (amount (quote b)) * of_int (amount (base a))"

definition bmult :: "price \<Rightarrow> price \<Rightarrow> 128 word" where
  "bmult a b = of_int (amount (quote a)) * of_int (amount (base b))"

definition price_eq :: "price \<Rightarrow> price \<Rightarrow> bool" where
  "price_eq a b = (if BQ a \<noteq> BQ b then BQ a = BQ b else amult a b = bmult a b)"

definition price_ne :: "price \<Rightarrow> price \<Rightarrow> bool" where
  "price_ne a b = (if BQ a \<noteq> BQ b then BQ a \<noteq> BQ b else amult a b \<noteq> bmult a b)"

definition price_lt :: "price \<Rightarrow> price \<Rightarrow> bool" where
  "price_lt a b = (if BQ a \<noteq> BQ b then tie_less (BQ a) (BQ b) else amult a b < bmult a b)"

definition price_le :: "price \<Rightarrow> price \<Rightarrow> bool" where
  "price_le a b =
     (if BQ a \<noteq> BQ b then \<not> tie_less (BQ b) (BQ a) else amult a b \<le> bmult a b)"

definition price_gt :: "price \<Rightarrow> price \<Rightarrow> bool" where
  "price_gt a b = (if BQ a \<noteq> BQ b then tie_less (BQ b) (BQ a) else amult a b > bmult a b)"

definition price_ge :: "price \<Rightarrow> price \<Rightarrow> bool" where
  "price_ge a b =
     (if BQ a \<noteq> BQ b then \<not> tie_less (BQ a) (BQ b) else amult a b \<ge> bmult a b)"

definition price_is_null :: "price \<Rightarrow> bool" where
  "price_is_null p = price_eq p default_price"

text \<open>
  Multiplication. The sign is set aside, the magnitude multiplied and divided in 128 bits and
  narrowed to 64. Negating the least \<^verbatim>\<open>int64_t\<close> and dividing by zero are undefined in C++.
\<close>

definition magnitude :: "int \<Rightarrow> 128 word res" where
  "magnitude a = (if a = min_i64 then Inl Undefined else Inr (of_int (if a < 0 then - a else a)))"

definition div_128 :: "128 word \<Rightarrow> 128 word \<Rightarrow> 128 word res" where
  "div_128 x y = (if y = 0 then Inl Undefined else Inr (x div y))"

definition signed_share :: "fc_lib \<Rightarrow> bool \<Rightarrow> 128 word \<Rightarrow> int res" where
  "signed_share F is_negative w =
     bind_r (uint128_to_uint64 F w) (\<lambda>u. share_of_uint64 F (if is_negative then - u else u))"

definition asset_times_price :: "fc_lib \<Rightarrow> asset \<Rightarrow> price \<Rightarrow> asset res" where
  "asset_times_price F a b =
     (let is_negative = amount a < 0 in
      bind_r (magnitude (amount a)) (\<lambda>result.
      if symbol a = symbol (base b) then
        bind_r (div_128 (result * of_int (amount (quote b))) (of_int (amount (base b)))) (\<lambda>r.
        bind_r (signed_share F is_negative r) (\<lambda>v. Inr (mk_asset v (symbol (quote b)))))
      else
        bind_r (check_r (symbol a = symbol (quote b)) ''invalid asset * price'') (\<lambda>_.
        bind_r (div_128 (result * of_int (amount (base b))) (of_int (amount (quote b)))) (\<lambda>r.
        bind_r (signed_share F is_negative r) (\<lambda>v. Inr (mk_asset v (symbol (base b))))))))"

definition multiply_with_fee ::
  "fc_lib \<Rightarrow> asset \<Rightarrow> price \<Rightarrow> 16 word \<Rightarrow> asset_symbol_type \<Rightarrow> asset res" where
  "multiply_with_fee F a p fee apply_fee_to =
     (let is_negative = amount a < 0;
          full = (of_int HIVE_100_PERCENT :: 16 word)
      in
      bind_r (magnitude (amount a)) (\<lambda>result.
      bind_r (if apply_fee_to = symbol (base p) then Inr (full + fee, full)
              else bind_r (check_r (apply_fee_to = symbol (quote p)) ''Invalid fee symbol'')
                     (\<lambda>_. Inr (full, full + fee))) (\<lambda>(scale_b, scale_q).
      if symbol a = symbol (base p) then
        bind_r (div_128 (result * of_int (amount (quote p)) * ucast scale_q)
                        (of_int (amount (base p)) * ucast scale_b)) (\<lambda>r.
        bind_r (signed_share F is_negative r) (\<lambda>v. Inr (mk_asset v (symbol (quote p)))))
      else
        bind_r (check_r (symbol a = symbol (quote p)) ''invalid asset * price'') (\<lambda>_.
        bind_r (div_128 (result * of_int (amount (base p)) * ucast scale_b)
                        (of_int (amount (quote p)) * ucast scale_q)) (\<lambda>r.
        bind_r (signed_share F is_negative r) (\<lambda>v. Inr (mk_asset v (symbol (base p)))))))))"

section \<open>Assets and prices of a fixed symbol\<close>

record tiny_asset =
  tamount :: int

type_synonym HBD_asset = tiny_asset
type_synonym HIVE_asset = tiny_asset
type_synonym VEST_asset = tiny_asset

definition tiny :: "int \<Rightarrow> tiny_asset" where
  "tiny a = \<lparr>tamount = a\<rparr>"

definition tiny_get_symbol :: "32 word \<Rightarrow> asset_symbol_type" where
  "tiny_get_symbol SYMBOL = from_asset_num SYMBOL"

definition tiny_to_asset :: "32 word \<Rightarrow> tiny_asset \<Rightarrow> asset" where
  "tiny_to_asset SYMBOL a = mk_asset (tamount a) (tiny_get_symbol SYMBOL)"

definition tiny_is_compatible :: "32 word \<Rightarrow> asset \<Rightarrow> bool" where
  "tiny_is_compatible SYMBOL a \<longleftrightarrow> asset_num (symbol a) = SYMBOL"

definition tiny_check :: "32 word \<Rightarrow> asset \<Rightarrow> unit res" where
  "tiny_check SYMBOL a =
     check_r (asset_num (symbol a) = SYMBOL) ''asset symbol mismatch in tiny_asset''"

definition tiny_of_asset :: "32 word \<Rightarrow> asset \<Rightarrow> tiny_asset res" where
  "tiny_of_asset SYMBOL a = bind_r (tiny_check SYMBOL a) (\<lambda>_. Inr (tiny (amount a)))"

definition tiny_plus :: "fc_lib \<Rightarrow> tiny_asset \<Rightarrow> tiny_asset \<Rightarrow> tiny_asset res" where
  "tiny_plus F a b = bind_r (safe_add F (tamount a) (tamount b)) (\<lambda>v. Inr (tiny v))"

definition tiny_minus :: "fc_lib \<Rightarrow> tiny_asset \<Rightarrow> tiny_asset \<Rightarrow> tiny_asset res" where
  "tiny_minus F a b = bind_r (safe_sub F (tamount a) (tamount b)) (\<lambda>v. Inr (tiny v))"

definition tiny_uminus :: "fc_lib \<Rightarrow> tiny_asset \<Rightarrow> tiny_asset res" where
  "tiny_uminus F a = bind_r (safe_neg F (tamount a)) (\<lambda>v. Inr (tiny v))"

definition tiny_times :: "fc_lib \<Rightarrow> tiny_asset \<Rightarrow> int \<Rightarrow> tiny_asset res" where
  "tiny_times F a x = bind_r (safe_mul F (tamount a) x) (\<lambda>v. Inr (tiny v))"

definition tiny_divide :: "fc_lib \<Rightarrow> tiny_asset \<Rightarrow> int \<Rightarrow> tiny_asset res" where
  "tiny_divide F a x = bind_r (safe_div F (tamount a) x) (\<lambda>v. Inr (tiny v))"

definition tiny_modulo :: "fc_lib \<Rightarrow> tiny_asset \<Rightarrow> int \<Rightarrow> tiny_asset res" where
  "tiny_modulo F a x = bind_r (safe_mod F (tamount a) x) (\<lambda>v. Inr (tiny v))"

record tiny_price =
  tbase :: tiny_asset
  tquote :: tiny_asset

definition tiny_price_validate :: "tiny_price \<Rightarrow> unit res" where
  "tiny_price_validate p =
     bind_r (check_r (tamount (tbase p) > 0) ''tiny_price base amount must be > 0'') (\<lambda>_.
     check_r (tamount (tquote p) > 0) ''tiny_price quote amount must be > 0'')"

definition mk_tiny_price :: "tiny_asset \<Rightarrow> tiny_asset \<Rightarrow> tiny_price res" where
  "mk_tiny_price b q =
     bind_r (tiny_price_validate \<lparr>tbase = b, tquote = q\<rparr>) (\<lambda>_. Inr \<lparr>tbase = b, tquote = q\<rparr>)"

definition tiny_price_is_compatible :: "32 word \<Rightarrow> 32 word \<Rightarrow> price \<Rightarrow> bool" where
  "tiny_price_is_compatible B Q p \<longleftrightarrow>
     tiny_is_compatible B (base p) \<and> tiny_is_compatible Q (quote p)"

definition tiny_price_is_assignable :: "32 word \<Rightarrow> 32 word \<Rightarrow> price \<Rightarrow> bool" where
  "tiny_price_is_assignable B Q p \<longleftrightarrow>
     tiny_price_is_compatible B Q p \<or>
     (tiny_is_compatible B (quote p) \<and> tiny_is_compatible Q (base p))"

definition tiny_price_of_price :: "32 word \<Rightarrow> 32 word \<Rightarrow> price \<Rightarrow> tiny_price res" where
  "tiny_price_of_price B Q p =
     (if tiny_price_is_compatible B Q p then
        bind_r (tiny_of_asset B (base p)) (\<lambda>b.
        bind_r (tiny_of_asset Q (quote p)) (\<lambda>q. mk_tiny_price b q))
      else
        bind_r (tiny_of_asset B (quote p)) (\<lambda>b.
        bind_r (tiny_of_asset Q (base p)) (\<lambda>q. mk_tiny_price b q)))"

definition tiny_price_to_price :: "32 word \<Rightarrow> 32 word \<Rightarrow> tiny_price \<Rightarrow> price res" where
  "tiny_price_to_price B Q p = mk_price (tiny_to_asset B (tbase p)) (tiny_to_asset Q (tquote p))"

definition tiny_price_max :: "tiny_price res" where
  "tiny_price_max = mk_tiny_price (tiny max_satoshis) (tiny 1)"

definition tiny_price_min :: "tiny_price res" where
  "tiny_price_min = mk_tiny_price (tiny 1) (tiny max_satoshis)"

definition tiny_price_is_null :: "tiny_price \<Rightarrow> bool" where
  "tiny_price_is_null p \<longleftrightarrow> tamount (tbase p) = 0 \<or> tamount (tquote p) = 0"

definition tiny_price_eq :: "tiny_price \<Rightarrow> tiny_price \<Rightarrow> bool" where
  "tiny_price_eq a b \<longleftrightarrow>
     (of_int (tamount (tquote b)) * of_int (tamount (tbase a)) :: 128 word) =
     of_int (tamount (tquote a)) * of_int (tamount (tbase b))"

definition tiny_price_lt :: "tiny_price \<Rightarrow> tiny_price \<Rightarrow> bool" where
  "tiny_price_lt a b \<longleftrightarrow>
     (of_int (tamount (tquote b)) * of_int (tamount (tbase a)) :: 128 word) <
     of_int (tamount (tquote a)) * of_int (tamount (tbase b))"

definition tiny_price_ne :: "tiny_price \<Rightarrow> tiny_price \<Rightarrow> bool" where
  "tiny_price_ne a b \<longleftrightarrow> \<not> tiny_price_eq a b"

definition tiny_price_le :: "tiny_price \<Rightarrow> tiny_price \<Rightarrow> bool" where
  "tiny_price_le a b \<longleftrightarrow> \<not> tiny_price_lt b a"

definition tiny_price_gt :: "tiny_price \<Rightarrow> tiny_price \<Rightarrow> bool" where
  "tiny_price_gt a b \<longleftrightarrow> tiny_price_lt b a"

definition tiny_price_ge :: "tiny_price \<Rightarrow> tiny_price \<Rightarrow> bool" where
  "tiny_price_ge a b \<longleftrightarrow> \<not> tiny_price_lt a b"

definition tiny_quote_times_price :: "fc_lib \<Rightarrow> tiny_asset \<Rightarrow> tiny_price \<Rightarrow> tiny_asset res" where
  "tiny_quote_times_price F a p =
     (if \<not> tamount (tquote p) > 0 then Inl (Assert_exn ''tiny_price quote amount must be > 0'')
      else
        bind_r (magnitude (tamount a)) (\<lambda>result.
        bind_r (div_128 (result * of_int (tamount (tbase p))) (of_int (tamount (tquote p)))) (\<lambda>r.
        bind_r (signed_share F (tamount a < 0) r) (\<lambda>v. Inr (tiny v)))))"

definition tiny_base_times_price :: "fc_lib \<Rightarrow> tiny_asset \<Rightarrow> tiny_price \<Rightarrow> tiny_asset res" where
  "tiny_base_times_price F a p =
     (if \<not> tamount (tbase p) > 0 then Inl (Assert_exn ''tiny_price base amount must be > 0'')
      else
        bind_r (magnitude (tamount a)) (\<lambda>result.
        bind_r (div_128 (result * of_int (tamount (tquote p))) (of_int (tamount (tbase p)))) (\<lambda>r.
        bind_r (signed_share F (tamount a < 0) r) (\<lambda>v. Inr (tiny v)))))"

text \<open>The template argument that says to which side the fee applies is a Boolean.\<close>

definition tiny_quote_multiply_with_fee ::
  "fc_lib \<Rightarrow> bool \<Rightarrow> tiny_asset \<Rightarrow> tiny_price \<Rightarrow> 16 word \<Rightarrow> tiny_asset res" where
  "tiny_quote_multiply_with_fee F fee_to_base a p fee =
     bind_r (magnitude (tamount a)) (\<lambda>result.
     bind_r
       (if fee_to_base then
          div_128 (result * of_int (tamount (tbase p)) * of_int (HIVE_100_PERCENT + uint fee))
                  (of_int (tamount (tquote p)) * of_int HIVE_100_PERCENT)
        else
          div_128 (result * of_int (tamount (tbase p)) * of_int HIVE_100_PERCENT)
                  (of_int (tamount (tquote p)) * of_int (HIVE_100_PERCENT + uint fee))) (\<lambda>r.
     bind_r (signed_share F (tamount a < 0) r) (\<lambda>v. Inr (tiny v))))"

definition tiny_base_multiply_with_fee ::
  "fc_lib \<Rightarrow> bool \<Rightarrow> tiny_asset \<Rightarrow> tiny_price \<Rightarrow> 16 word \<Rightarrow> tiny_asset res" where
  "tiny_base_multiply_with_fee F fee_to_base a p fee =
     bind_r (magnitude (tamount a)) (\<lambda>result.
     bind_r
       (if fee_to_base then
          div_128 (result * of_int (tamount (tquote p)) * of_int HIVE_100_PERCENT)
                  (of_int (tamount (tbase p)) * of_int (HIVE_100_PERCENT + uint fee))
        else
          div_128 (result * of_int (tamount (tquote p)) * of_int (HIVE_100_PERCENT + uint fee))
                  (of_int (tamount (tbase p)) * of_int HIVE_100_PERCENT)) (\<lambda>r.
     bind_r (signed_share F (tamount a < 0) r) (\<lambda>v. Inr (tiny v))))"

section \<open>Legacy text form\<close>

text \<open>\<^verbatim>\<open>precision\<close> indexes a table of the powers of ten up to \<^verbatim>\<open>10^14\<close>.\<close>

definition precision :: "asset_symbol_type \<Rightarrow> int res" where
  "precision s = (if unat (decimals s) < 15 then Inr (10 ^ unat (decimals s)) else Inl Undefined)"

definition legacy_asset_to_string :: "fc_text \<Rightarrow> asset \<Rightarrow> string res" where
  "legacy_asset_to_string T a =
     bind_r (precision (symbol a)) (\<lambda>prec.
     let result = fc_to_string T (amount a sdiv prec);
         result = (if prec > 1
                   then result @ ''.'' @ drop 1 (fc_to_string T (prec + amount a smod prec))
                   else result)
     in Inr (result @ '' '' @ asset_num_to_string (symbol a)))"

fun find_char :: "char \<Rightarrow> string \<Rightarrow> nat option" where
  "find_char c [] = None"
| "find_char c (x # xs) = (if x = c then Some 0 else map_option Suc (find_char c xs))"

text \<open>
  The addition that \<^verbatim>\<open>from_string\<close> guards against overflow is done in \<^verbatim>\<open>int64_t\<close>; the guard reads
  the wrapped sum.
\<close>

definition legacy_asset_from_string :: "fc_text \<Rightarrow> string \<Rightarrow> asset res" where
  "legacy_asset_from_string T from =
     (let s = fc_trim T from in
      case find_char CHR '' '' s of
        None \<Rightarrow> Inl (Assert_exn ''Space not found'')
      | Some space_pos \<Rightarrow>
        let str_symbol = drop (space_pos + 1) s in
        (case find_char CHR ''.'' s of
           Some dot_pos \<Rightarrow>
             if \<not> space_pos > dot_pos then Inl (Assert_exn ''Space is before dot'')
             else
               let intpart = take dot_pos s;
                   fractpart = CHR ''1'' # take (space_pos - dot_pos - 1) (drop (dot_pos + 1) s);
                   decs = (of_nat (length fractpart - 1) :: 8 word)
               in
               bind_r (string_to_asset_num str_symbol decs) (\<lambda>num.
               bind_r (precision (from_asset_num num)) (\<lambda>prec.
               let intpart = intpart @ drop 1 (dec_string prec) in
               bind_r (fc_to_int64 T intpart) (\<lambda>amt.
               bind_r (fc_to_int64 T fractpart) (\<lambda>fract.
               let new_value = fract - prec;
                   chk = wrap64 (amt + new_value);
                   overflow_a = amt > 0 \<and> new_value > 0 \<and> chk < 0;
                   overflow_b = amt < 0 \<and> new_value < 0 \<and> chk > 0
               in
               if overflow_a \<or> overflow_b then Inl Parse_exn
               else Inr (mk_asset (wrap64 (amt + new_value)) (from_asset_num num))))))
         | None \<Rightarrow>
             bind_r (fc_to_int64 T (take space_pos s)) (\<lambda>amt.
             bind_r (string_to_asset_num str_symbol 0) (\<lambda>num.
             Inr (mk_asset amt (from_asset_num num))))))"

section \<open>Specification vocabulary\<close>

text \<open>A well-formed price passed \<^verbatim>\<open>validate\<close> and holds two \<^verbatim>\<open>int64_t\<close> amounts. Its value is a
  rational number; prices are ordered by symbol pair, then by value.\<close>

definition price_wf :: "price \<Rightarrow> bool" where
  "price_wf p \<longleftrightarrow> price_validate p = Inr () \<and> in_i64 (amount (base p)) \<and> in_i64 (amount (quote p))"

definition price_value :: "price \<Rightarrow> rat" where
  "price_value p = Fract (amount (base p)) (amount (quote p))"

definition price_before :: "price \<Rightarrow> price \<Rightarrow> bool" where
  "price_before a b \<longleftrightarrow>
     tie_less (BQ a) (BQ b) \<or> (BQ a = BQ b \<and> price_value a < price_value b)"

definition price_of_tiny :: "32 word \<Rightarrow> 32 word \<Rightarrow> tiny_price \<Rightarrow> price" where
  "price_of_tiny B Q p = \<lparr>base = tiny_to_asset B (tbase p), quote = tiny_to_asset Q (tquote p)\<rparr>"

definition example_price :: price where
  "example_price = \<lparr>base = mk_asset 250 HBD_SYMBOL, quote = mk_asset 1000 HIVE_SYMBOL\<rparr>"

section \<open>Comparisons and products\<close>

lemma price_validate_iff:
  "price_validate p = Inr u \<longleftrightarrow>
     amount (base p) > 0 \<and> amount (quote p) > 0 \<and> symbol (base p) \<noteq> symbol (quote p)"
  by (auto simp: price_validate_def validate_asset_greater_than_zero_def res_simps)

lemma price_wf_iff:
  "price_wf p \<longleftrightarrow>
     0 < amount (base p) \<and> amount (base p) \<le> max_i64 \<and>
     0 < amount (quote p) \<and> amount (quote p) \<le> max_i64 \<and> symbol (base p) \<noteq> symbol (quote p)"
  by (auto simp: price_wf_def price_validate_iff in_i64_def)

lemma uint_i64_product:
  assumes "0 \<le> a" "a \<le> max_i64" "0 \<le> b" "b \<le> max_i64"
  shows "uint (of_int a * of_int b :: 128 word) = a * b"
proof -
  have "a * b < 340282366920938463463374607431768211456"
    using assms by (intro i64_mult_bound) (simp_all add: in_i64_def)
  then show ?thesis
    using assms by (simp add: uint_mult_128 uint_of_int_128)
qed

lemma cross_products:
  assumes "price_wf a" "price_wf b"
  shows "uint (amult a b) = amount (quote b) * amount (base a)"
    "uint (bmult a b) = amount (quote a) * amount (base b)"
  using assms by (simp_all add: amult_def bmult_def uint_i64_product price_wf_iff)

lemma price_value_less:
  assumes "price_wf a" "price_wf b"
  shows "price_value a < price_value b \<longleftrightarrow> amult a b < bmult a b"
    "price_value a = price_value b \<longleftrightarrow> amult a b = bmult a b"
proof -
  have p: "0 < amount (quote a)" "0 < amount (quote b)"
    using assms by (simp_all add: price_wf_iff)
  then have pp: "0 < amount (quote a) * amount (quote b)" by simp
  have "price_value a < price_value b \<longleftrightarrow>
      amount (base a) * amount (quote b) < amount (base b) * amount (quote a)"
  proof -
    have "price_value a < price_value b \<longleftrightarrow>
      (amount (base a) * amount (quote b)) * (amount (quote a) * amount (quote b)) <
      (amount (base b) * amount (quote a)) * (amount (quote a) * amount (quote b))"
      using p by (simp add: price_value_def algebra_simps)
    then show ?thesis using pp by (simp only: mult_less_cancel_right_pos)
  qed
  then show "price_value a < price_value b \<longleftrightarrow> amult a b < bmult a b"
    by (simp add: word_less_def cross_products assms mult.commute)
  have "price_value a = price_value b \<longleftrightarrow>
      amount (base a) * amount (quote b) = amount (base b) * amount (quote a)"
    using p by (simp add: price_value_def eq_rat)
  then show "price_value a = price_value b \<longleftrightarrow> amult a b = bmult a b"
    by (simp add: word_uint_eq_iff cross_products assms mult.commute)
qed

lemma mult_swap: "amult b a = bmult a b" "bmult b a = amult a b"
  by (simp_all add: amult_def bmult_def)

lemma tie_less_linear: "x \<noteq> y \<Longrightarrow> tie_less x y \<longleftrightarrow> \<not> tie_less y x"
  by (cases x; cases y) (auto simp: tie_less_def)

lemma tie_less_irrefl [simp]: "\<not> tie_less x x"
  by (simp add: tie_less_def)

text \<open>
  C25: the six price comparisons are exact. On validated prices the 128-bit cross products never
  wrap, and each operator decides the order that compares the symbol pairs lexicographically
  and prices of one pair by their rational value.
\<close>

theorem price_comparisons_exact:
  assumes "price_wf a" "price_wf b"
  shows "(price_lt a b \<longleftrightarrow> price_before a b) \<and> (price_gt a b \<longleftrightarrow> price_before b a) \<and>
    (price_le a b \<longleftrightarrow> \<not> price_before b a) \<and> (price_ge a b \<longleftrightarrow> \<not> price_before a b) \<and>
    (price_eq a b \<longleftrightarrow> BQ a = BQ b \<and> price_value a = price_value b) \<and>
    (price_ne a b \<longleftrightarrow> \<not> price_eq a b)"
  using price_value_less [OF assms] price_value_less(1) [OF assms(2,1)] mult_swap [of b a]
    tie_less_linear [of "BQ a" "BQ b"]
  by (cases "BQ a = BQ b")
    (auto simp: price_lt_def price_gt_def price_le_def price_ge_def price_eq_def price_ne_def
      price_before_def)

lemma example_price_wf [simp]: "price_wf example_price"
  by (simp add: price_wf_iff example_price_def mk_asset_def)

theorem price_comparisons_exact_witness:
  "(price_lt example_price example_price \<longleftrightarrow> price_before example_price example_price) \<and>
   (price_le example_price example_price \<longleftrightarrow> \<not> price_before example_price example_price)"
  using price_comparisons_exact [OF example_price_wf example_price_wf] by blast

lemma signed_share_exact:
  assumes "fc_ok F" "uint w \<le> max_i64"
  shows "signed_share F neg w = Inr (if neg then - uint w else uint w)"
proof -
  have u: "uint (ucast w :: 64 word) = uint w"
    using assms(2) by (intro uint_ucast_128_64) simp
  then show ?thesis
    using assms sint_small [of "ucast w"]
    by (simp add: signed_share_def uint128_to_uint64_exact share_of_uint64_exact)
qed

lemma magnitude_abs: "in_i64 a \<Longrightarrow> a \<noteq> min_i64 \<Longrightarrow> magnitude a = Inr (of_int \<bar>a\<bar>)"
  by (simp add: magnitude_def)

lemma sdiv_pos:
  fixes n c d :: int
  assumes "0 < c" "0 < d"
  shows "n * c sdiv d = (if n < 0 then - (\<bar>n\<bar> * c div d) else n * c div d)"
  using assms by (cases "n = 0") (auto simp: signed_divide_int_def sgn_mult abs_mult)

text \<open>One conversion step of \<open>asset_times_price\<close>, in either direction.\<close>

lemma convert_exact:
  assumes "fc_ok F" "in_i64 a" "a \<noteq> min_i64"
    and "0 < num" "num \<le> max_i64" "0 < den" "den \<le> max_i64" "\<bar>a\<bar> * num div den \<le> max_i64"
  shows "bind_r (div_128 (of_int \<bar>a\<bar> * of_int num) (of_int den)) (signed_share F (a < 0)) =
    Inr (a * num sdiv den)"
proof -
  have r: "\<bar>a\<bar> \<le> max_i64"
    using assms(2,3) by (simp add: in_i64_def abs_if)
  let ?n = "of_int \<bar>a\<bar> * of_int num :: 128 word" and ?d = "of_int den :: 128 word"
  have n: "uint ?n = \<bar>a\<bar> * num"
    using r assms(4,5) by (intro uint_i64_product) simp_all
  have d: "uint ?d = den"
    using assms(6,7) by (intro uint_of_int_128) simp_all
  then have "?d \<noteq> 0" using assms(6) by auto
  moreover define q where "q = ?n div ?d"
  ultimately have "div_128 ?n ?d = Inr q" by (simp add: div_128_def)
  moreover have "uint q = \<bar>a\<bar> * num div den"
    unfolding q_def by (simp only: uint_div n d)
  then have "signed_share F (a < 0) q = Inr (a * num sdiv den)"
    using assms(8) by (simp add: signed_share_exact [OF assms(1)] sdiv_pos assms(4,6))
  ultimately show ?thesis by simp
qed

lemma asset_times_price_base:
  assumes "fc_ok F" "price_wf p" "in_i64 (amount a)" "amount a \<noteq> min_i64"
    and "symbol a = symbol (base p)"
    and "\<bar>amount a\<bar> * amount (quote p) div amount (base p) \<le> max_i64"
  shows "asset_times_price F a p =
    Inr (mk_asset (amount a * amount (quote p) sdiv amount (base p)) (symbol (quote p)))"
  using convert_exact [OF assms(1,3,4), of "amount (quote p)" "amount (base p)"] assms
  by (simp add: asset_times_price_def magnitude_abs price_wf_iff flip: bind_r_assoc)

lemma asset_times_price_quote:
  assumes "fc_ok F" "price_wf p" "in_i64 (amount a)" "amount a \<noteq> min_i64"
    and "symbol a = symbol (quote p)"
    and "\<bar>amount a\<bar> * amount (base p) div amount (quote p) \<le> max_i64"
  shows "asset_times_price F a p =
    Inr (mk_asset (amount a * amount (base p) sdiv amount (quote p)) (symbol (base p)))"
  using convert_exact [OF assms(1,3,4), of "amount (base p)" "amount (quote p)"] assms
  by (auto simp: asset_times_price_def magnitude_abs price_wf_iff simp flip: bind_r_assoc)

lemma asset_times_price_other:
  assumes "in_i64 (amount a)" "amount a \<noteq> min_i64" "symbol a \<noteq> symbol (base p)" "symbol a \<noteq> symbol (quote p)"
  shows "throws (asset_times_price F a p)"
  using assms by (simp add: asset_times_price_def magnitude_abs)

lemma mul_div_back:
  fixes x m n :: int
  assumes "0 \<le> x" "0 < m" "0 < n"
  shows "0 \<le> (x * m div n) * n div m" "(x * m div n) * n div m \<le> x"
    "n dvd x * m \<Longrightarrow> (x * m div n) * n div m = x"
proof -
  have "(x * m div n) * n \<le> x * m"
    using assms(3) by (metis mult.commute minus_mod_eq_mult_div pos_mod_sign diff_le_eq le_add_same_cancel1)
  then have "(x * m div n) * n div m \<le> x * m div m"
    using assms(2) by (rule zdiv_mono1)
  then show "(x * m div n) * n div m \<le> x" using assms(2) by simp
  show "0 \<le> (x * m div n) * n div m"
    using assms by (simp add: pos_imp_zdiv_nonneg_iff)
  show "(x * m div n) * n div m = x" if "n dvd x * m"
    using that assms(2) by simp
qed

text \<open>
  C21: multiplying an amount by a price. For a validated price the product truncates the exact
  quotient toward zero and carries the other symbol of the pair, in both directions and for
  both signs, whenever the magnitude of the result fits in \<^verbatim>\<open>int64_t\<close>; an amount of a third
  symbol is refused.
\<close>

theorem asset_times_price_exact:
  assumes "fc_ok F" "price_wf p" "in_i64 (amount a)" "amount a \<noteq> min_i64"
  shows "(symbol a = symbol (base p) \<and>
      \<bar>amount a\<bar> * amount (quote p) div amount (base p) \<le> max_i64 \<longrightarrow>
      asset_times_price F a p =
        Inr (mk_asset (amount a * amount (quote p) sdiv amount (base p)) (symbol (quote p)))) \<and>
    (symbol a = symbol (quote p) \<and>
      \<bar>amount a\<bar> * amount (base p) div amount (quote p) \<le> max_i64 \<longrightarrow>
      asset_times_price F a p =
        Inr (mk_asset (amount a * amount (base p) sdiv amount (quote p)) (symbol (base p)))) \<and>
    (symbol a \<notin> {symbol (base p), symbol (quote p)} \<longrightarrow> throws (asset_times_price F a p))"
  using asset_times_price_base [OF assms] asset_times_price_quote [OF assms]
    asset_times_price_other [OF assms(3,4)] by blast

theorem asset_times_price_exact_witness:
  "asset_times_price exact_fc (mk_asset (- 7) HIVE_SYMBOL) example_price =
     Inr (mk_asset (- 1) HBD_SYMBOL)"
  using asset_times_price_exact [OF exact_fc_ok example_price_wf, of "mk_asset (- 7) HIVE_SYMBOL"]
  by (simp add: example_price_def mk_asset_def in_i64_def signed_divide_int_def)



lemma scale_no_wrap:
  fixes fee :: "16 word"
  assumes "uint fee \<le> 55535"
  shows "(ucast (10000 + fee) :: 128 word) = of_int (10000 + uint fee)"
proof -
  have "uint (10000 + fee) = 10000 + uint fee"
    using assms by (simp add: uint_word_ariths)
  then show ?thesis by (simp only: ucast_eq)
qed

text \<open>
  C36: the template versions of \<^verbatim>\<open>multiply_with_fee\<close> that the node uses compute what the
  documented general version computes, in both directions and for a fee on either side, as long
  as the fee does not wrap the 16-bit scale of the general version.
\<close>

theorem multiply_with_fee_template:
  assumes "B \<noteq> Q" "uint fee \<le> 55535"
  shows "multiply_with_fee F (tiny_to_asset Q a) (price_of_tiny B Q p) fee
      (from_asset_num (if fee_to_base then B else Q)) =
      map_sum id (tiny_to_asset B) (tiny_quote_multiply_with_fee F fee_to_base a p fee) \<and>
    multiply_with_fee F (tiny_to_asset B a) (price_of_tiny B Q p) fee
      (from_asset_num (if fee_to_base then B else Q)) =
      map_sum id (tiny_to_asset Q) (tiny_base_multiply_with_fee F fee_to_base a p fee)"
proof -
  have ne: "from_asset_num B \<noteq> from_asset_num Q" "from_asset_num Q \<noteq> from_asset_num B"
    using assms(1) by (metis asset_num_from_asset_num)+
  have full: "(ucast (10000 :: 16 word) :: 128 word) = 10000" by simp
  show ?thesis
    by (cases fee_to_base; cases "magnitude (tamount a)")
      (simp_all add: multiply_with_fee_def tiny_quote_multiply_with_fee_def
        tiny_base_multiply_with_fee_def tiny_to_asset_def tiny_get_symbol_def mk_asset_def
        price_of_tiny_def HIVE_100_PERCENT_def scale_no_wrap [OF assms(2)] full ne tiny_def Let_def
        bind_r_def split: sum.splits)
qed

theorem multiply_with_fee_template_witness:
  "multiply_with_fee exact_fc (tiny_to_asset HIVE_ASSET_NUM_HIVE (tiny 100))
     (price_of_tiny HIVE_ASSET_NUM_HBD HIVE_ASSET_NUM_HIVE \<lparr>tbase = tiny 1, tquote = tiny 3\<rparr>) 500
     (from_asset_num HIVE_ASSET_NUM_HIVE) =
   map_sum id (tiny_to_asset HIVE_ASSET_NUM_HBD)
     (tiny_quote_multiply_with_fee exact_fc False (tiny 100) \<lparr>tbase = tiny 1, tquote = tiny 3\<rparr> 500)"
  using multiply_with_fee_template [of HIVE_ASSET_NUM_HBD HIVE_ASSET_NUM_HIVE 500 exact_fc "tiny 100"
      "\<lparr>tbase = tiny 1, tquote = tiny 3\<rparr>" False]
  by (simp add: asset_nums)

lemma tiny_fee_exact:
  assumes "fc_ok F" "0 \<le> a" "a \<le> max_i64" "0 < num" "num \<le> max_i64" "0 < den" "den \<le> max_i64"
    and "0 < s" "0 < t" "t \<le> 75535" "s \<le> 75535"
    and "a * num * s < 340282366920938463463374607431768211456"
    and "a * num * s div (den * t) \<le> max_i64"
  shows "bind_r (div_128 (of_int a * of_int num * of_int s) (of_int den * of_int t))
      (signed_share F False) = Inr (a * num * s div (den * t))"
proof -
  let ?n = "of_int a * of_int num * of_int s :: 128 word" and ?d = "of_int den * of_int t :: 128 word"
  have "uint (of_int a * of_int num :: 128 word) = a * num"
    using assms by (intro uint_i64_product) simp_all
  moreover have "uint (of_int s :: 128 word) = s"
    using assms by (intro uint_of_int_128) simp_all
  ultimately have n: "uint ?n = a * num * s"
    using assms(12) by (simp add: uint_mult_128)
  have d: "uint ?d = den * t"
    using assms by (intro uint_i64_product) simp_all
  moreover have "0 < den * t" using assms by simp
  ultimately have "?d \<noteq> 0" by (metis unsigned_0 less_irrefl)
  moreover define q where "q = ?n div ?d"
  ultimately have "div_128 ?n ?d = Inr q" by (simp add: div_128_def)
  moreover have "uint q = a * num * s div (den * t)"
    unfolding q_def by (simp only: uint_div n d)
  then have "signed_share F False q = Inr (a * num * s div (den * t))"
    using assms(13) by (simp add: signed_share_exact [OF assms(1)])
  ultimately show ?thesis by simp
qed

lemma scaled_div_mono:
  fixes x n s t :: int
  assumes "0 \<le> x" "0 < n" "0 < t" "t \<le> s"
  shows "x div n \<le> x * s div (n * t)" "x * t div (n * s) \<le> x div n"
proof -
  have "x div n = x * t div (n * t)" using assms by simp
  also have "\<dots> \<le> x * s div (n * t)"
    using assms by (intro zdiv_mono1 mult_left_mono) simp_all
  finally show "x div n \<le> x * s div (n * t)" .
  have "x * t div (n * s) \<le> x * t div (n * t)"
    using assms by (intro zdiv_mono2 mult_left_mono) simp_all
  also have "\<dots> = x div n" using assms by simp
  finally show "x * t div (n * s) \<le> x div n" .
qed

text \<open>
  C35: the fee of a collateralized conversion works against the converter. With the fee on the
  HIVE side of an HBD price, the amount of HIVE charged for HBD is the exact scaled quotient and
  never less than without the fee, and the amount of HBD given for HIVE never more.
\<close>

theorem collateral_fee_bounds:
  assumes "fc_ok F" "0 \<le> tamount a" "in_i64 (tamount a)"
    and "0 < tamount (tbase p)" "in_i64 (tamount (tbase p))"
    and "0 < tamount (tquote p)" "in_i64 (tamount (tquote p))"
    and "tamount a * tamount (tquote p) * (10000 + uint fee) < 340282366920938463463374607431768211456"
    and "tamount a * tamount (tbase p) * 10000 < 340282366920938463463374607431768211456"
    and "tamount a * tamount (tquote p) * (10000 + uint fee) div (tamount (tbase p) * 10000) \<le> max_i64"
    and "tamount a * tamount (tbase p) div tamount (tquote p) \<le> max_i64"
  shows "\<exists>r s. tiny_base_multiply_with_fee F False a p fee = Inr (tiny r) \<and>
    r = tamount a * tamount (tquote p) * (10000 + uint fee) div (tamount (tbase p) * 10000) \<and>
    tamount a * tamount (tquote p) div tamount (tbase p) \<le> r \<and>
    tiny_quote_multiply_with_fee F False a p fee = Inr (tiny s) \<and>
    s = tamount a * tamount (tbase p) * 10000 div (tamount (tquote p) * (10000 + uint fee)) \<and>
    s \<le> tamount a * tamount (tbase p) div tamount (tquote p)"
proof -
  let ?a = "tamount a" and ?b = "tamount (tbase p)" and ?q = "tamount (tquote p)"
    and ?f = "10000 + uint fee"
  have f: "0 \<le> uint fee" "uint fee < 65536"
    using unsigned_greater_eq [where ?'a = int and w = fee] unsigned_less [where ?'a = int and w = fee]
    by simp_all
  have mag: "magnitude ?a = Inr (of_int ?a)"
    using assms(2,3) by (simp add: magnitude_def)
  have le: "?a \<le> max_i64" "?b \<le> max_i64" "?q \<le> max_i64"
    using assms by (simp_all add: in_i64_def)
  have m1: "?a * ?q div ?b \<le> ?a * ?q * ?f div (?b * 10000)"
    using assms f by (intro scaled_div_mono) simp_all
  have m2: "?a * ?b * 10000 div (?q * ?f) \<le> ?a * ?b div ?q"
    using assms f by (intro scaled_div_mono) simp_all
  have 1: "tiny_base_multiply_with_fee F False a p fee = Inr (tiny (?a * ?q * ?f div (?b * 10000)))"
    using tiny_fee_exact [OF assms(1,2) le(1) assms(6) le(3) assms(4) le(2), of ?f 10000] assms f
    by (simp add: tiny_base_multiply_with_fee_def mag HIVE_100_PERCENT_def flip: bind_r_assoc)
  have 2: "tiny_quote_multiply_with_fee F False a p fee = Inr (tiny (?a * ?b * 10000 div (?q * ?f)))"
    using tiny_fee_exact [OF assms(1,2) le(1) assms(4) le(2) assms(6) le(3), of 10000 ?f] assms f m2
    by (simp add: tiny_quote_multiply_with_fee_def mag HIVE_100_PERCENT_def flip: bind_r_assoc)
  show ?thesis
    using 1 2 m1 m2 by blast
qed

theorem collateral_fee_bounds_witness:
  "\<exists>r s. tiny_base_multiply_with_fee exact_fc False (tiny 1000) \<lparr>tbase = tiny 1, tquote = tiny 3\<rparr> 500 =
      Inr (tiny r) \<and> r = 3150 \<and>
    tiny_quote_multiply_with_fee exact_fc False (tiny 1000) \<lparr>tbase = tiny 1, tquote = tiny 3\<rparr> 500 =
      Inr (tiny s) \<and> s = 317 \<and> s \<le> 333"
  using collateral_fee_bounds [OF exact_fc_ok, of "tiny 1000" "\<lparr>tbase = tiny 1, tquote = tiny 3\<rparr>" 500]
  by (simp add: tiny_def in_i64_def)

lemma find_char_app: "c \<notin> set xs \<Longrightarrow> find_char c (xs @ c # ys) = Some (length xs)"
  by (induction xs) auto

lemma core_symbol_text:
  assumes "space sy = legacy_space"
  shows "\<exists>k. 0 < k \<and> k < 15 \<and> decimals sy = of_nat k \<and> unat (decimals sy) = k \<and>
    precision sy = Inr (10 ^ k)"
    "string_to_asset_num (asset_num_to_string sy) (decimals sy) = Inr (asset_num sy)"
    "asset_num_to_string sy \<noteq> []" "\<not> is_white (last (asset_num_to_string sy))"
    "CHR ''.'' \<notin> set (asset_num_to_string sy)"
proof -
  have d: "decimals HIVE_SYMBOL = 3" "decimals HBD_SYMBOL = 3" "decimals VESTS_SYMBOL = 6"
    by code_simp+
  show "\<exists>k. 0 < k \<and> k < 15 \<and> decimals sy = of_nat k \<and> unat (decimals sy) = k \<and>
    precision sy = Inr (10 ^ k)"
    using assms by (cases sy rule: space_cases) (simp_all add: precision_def d)
  show "string_to_asset_num (asset_num_to_string sy) (decimals sy) = Inr (asset_num sy)"
    using assms by (cases sy rule: space_cases) (simp_all only: core_names, simp)
  show "asset_num_to_string sy \<noteq> []" "\<not> is_white (last (asset_num_to_string sy))"
    "CHR ''.'' \<notin> set (asset_num_to_string sy)"
    by (simp_all add: asset_num_to_string_def is_white_def)
qed

text \<open>What \<^verbatim>\<open>from_string\<close> does on a text with one dot before the first space.\<close>

lemma from_string_dotted:
  assumes "text_ok T" and s: "s = ip @ ''.'' @ fd @ '' '' @ name"
    and "CHR '' '' \<notin> set ip" "CHR ''.'' \<notin> set ip" "ip \<noteq> []" "\<not> is_white (hd ip)"
    and "CHR '' '' \<notin> set fd" "name \<noteq> []" "\<not> is_white (last name)"
  shows "legacy_asset_from_string T s =
     bind_r (string_to_asset_num name (of_nat (length fd))) (\<lambda>num.
     bind_r (precision (from_asset_num num)) (\<lambda>prec.
     bind_r (fc_to_int64 T (ip @ drop 1 (dec_string prec))) (\<lambda>amt.
     bind_r (fc_to_int64 T (CHR ''1'' # fd)) (\<lambda>fract.
     let new_value = fract - prec; chk = wrap64 (amt + new_value) in
     if amt > 0 \<and> new_value > 0 \<and> chk < 0 \<or> amt < 0 \<and> new_value < 0 \<and> chk > 0
     then Inl Parse_exn else Inr (mk_asset chk (from_asset_num num))))))"
proof -
  have "fc_trim T s = s"
    using assms by (simp add: text_ok_def)
  moreover have "find_char CHR '' '' s = Some (length (ip @ ''.'' @ fd))"
    using find_char_app [of "CHR '' ''" "ip @ ''.'' @ fd" name] assms by simp
  moreover have "find_char CHR ''.'' s = Some (length ip)"
    using find_char_app [of "CHR ''.''" ip "fd @ '' '' @ name"] assms by simp
  ultimately show ?thesis
    by (simp add: legacy_asset_from_string_def s Let_def)
qed

lemma to_string_dotted:
  assumes "text_ok T" "precision (symbol a) = Inr prec" "1 < prec"
    and "in_i64 (amount a sdiv prec)" "in_i64 (prec + amount a smod prec)"
  shows "legacy_asset_to_string T a = Inr (dec_string (amount a sdiv prec) @ ''.'' @
    drop 1 (dec_string (prec + amount a smod prec)) @ '' '' @ asset_num_to_string (symbol a))"
  using assms by (simp add: legacy_asset_to_string_def text_ok_def)

text \<open>
  C26: the legacy text form of a non-negative core amount can be read back: \<^verbatim>\<open>from_string\<close> of
  what \<^verbatim>\<open>to_string\<close> prints is the amount, up to the largest \<^verbatim>\<open>int64_t\<close>.
\<close>

theorem legacy_text_roundtrip:
  assumes "text_ok T" "space (symbol a) = legacy_space" "0 \<le> amount a" "in_i64 (amount a)"
  shows "bind_r (legacy_asset_to_string T a) (legacy_asset_from_string T) = Inr a"
proof -
  obtain k where k: "0 < k" "k < 15" "decimals (symbol a) = of_nat k" "precision (symbol a) = Inr (10 ^ k)"
    using core_symbol_text(1) [OF assms(2)] by blast
  obtain i f where f: "f < 10 ^ k" and am: "amount a = int i * 10 ^ k + int f"
    and q: "amount a sdiv 10 ^ k = int i" "amount a smod 10 ^ k = int f"
    and r: "in_i64 (int i)" "in_i64 (10 ^ k + int f)"
    using amount_split [OF assms(3,4) k(1,2)] by blast
  have le: "int i * 10 ^ k + int f \<le> max_i64"
    using am assms(4) by (simp add: in_i64_def)
  obtain ds where ds: "dec_string (10 ^ k + int f) = CHR ''1'' # ds" "length ds = k"
    "list_all is_digit_char ds" "is_number (CHR ''1'' # ds)" "decimal_value (CHR ''1'' # ds) = 10 ^ k + f"
    using fraction_digits [OF f] by blast
  obtain zs where zs: "dec_string (10 ^ k) = CHR ''1'' # zs" "length zs = k"
    "list_all is_digit_char zs" "decimal_value zs = 0"
    using fraction_digits [of 0 k] by auto
  have str: "legacy_asset_to_string T a = Inr (dec_string (int i) @ ''.'' @ ds @ '' '' @
      asset_num_to_string (symbol a))"
    using to_string_dotted [OF assms(1) k(4) power_ten_bounds(1) [OF k(1,2)]] r by (simp add: q ds(1))
  have istr: "dec_string (int i) = nat_digits i" by (simp add: dec_string_def)
  have ipn: "is_number (nat_digits i @ zs)"
    using nat_digits_number [of i] zs(3) by (simp add: is_number_def)
  have "decimal_value (nat_digits i @ zs) = i * 10 ^ k"
    using zs(2,4) by (simp add: decimal_value_append nat_digits_value)
  then have ip: "fc_to_int64 T (nat_digits i @ zs) = Inr (int i * 10 ^ k)"
    using to_int64_number [OF assms(1) ipn] le by simp
  have fd: "fc_to_int64 T (CHR ''1'' # ds) = Inr (10 ^ k + int f)"
    using to_int64_number [OF assms(1) ds(4)] r(2) ds(5) by (simp add: in_i64_def)
  have parse: "string_to_asset_num (asset_num_to_string (symbol a)) (of_nat (length ds)) =
      Inr (asset_num (symbol a))"
    using core_symbol_text(2) [OF assms(2)] unfolding k(3) ds(2) .
  have sum: "wrap64 (int i * 10 ^ k + int f) = amount a"
    unfolding am [symmetric] using assms(4) by (rule wrap64_id)
  have "mk_asset (amount a) (symbol a) = a" by (simp add: mk_asset_def)
  then show ?thesis
    unfolding str bind_r_simps
      from_string_dotted [OF assms(1) refl dec_string_no_sep digits_no_sep(1) [OF ds(3)]
        core_symbol_text(3,4) [OF assms(2)]]
    using assms(3) by (simp add: parse k(4) zs(1) istr ip fd sum)
qed

theorem legacy_text_roundtrip_witness:
  "bind_r (legacy_asset_to_string decimal_text (mk_asset 12345 HBD_SYMBOL))
     (legacy_asset_from_string decimal_text) = Inr (mk_asset 12345 HBD_SYMBOL)"
  using legacy_text_roundtrip [OF decimal_text_ok, of "mk_asset 12345 HBD_SYMBOL"]
  by (simp add: mk_asset_def core_space in_i64_def)

lemma string_to_asset_num_unique:
  assumes "string_to_asset_num p d = Inr n" "string_to_asset_num p d' = Inr n'"
  shows "d = d'"
proof -
  have "n = n'"
    using assms by (auto simp: string_to_asset_num_def res_simps Let_def split: if_splits list.splits)
  then show ?thesis
    using string_to_asset_num_core(2) [OF assms(1)] string_to_asset_num_core(2) [OF assms(2)] by simp
qed

text \<open>
  C40: negative amounts do not survive the legacy text form. The fraction of a negative amount
  that is not a whole number of units is printed with too few digits, so that \<^verbatim>\<open>from_string\<close>
  refuses what \<^verbatim>\<open>to_string\<close> printed.
\<close>

theorem legacy_text_negative:
  assumes "text_ok T" "space (symbol a) = legacy_space" "amount a < 0" "in_i64 (amount a)"
    and "precision (symbol a) = Inr prec" "\<not> prec dvd amount a"
  shows "\<exists>s. legacy_asset_to_string T a = Inr s \<and> throws (legacy_asset_from_string T s)"
proof -
  obtain k where k: "0 < k" "k < 15" "decimals (symbol a) = of_nat k" "unat (decimals (symbol a)) = k"
    "precision (symbol a) = Inr (10 ^ k)"
    using core_symbol_text(1) [OF assms(2)] by blast
  then have prec: "prec = 10 ^ k" using assms(5) by simp
  have p: "1 < prec" "prec \<le> 100000000000000"
    unfolding prec by (rule power_ten_bounds [OF k(1,2)])+
  let ?r = "prec + amount a smod prec"
  have r: "0 < ?r" "?r < prec"
  proof -
    have m: "0 \<le> - amount a mod prec" "- amount a mod prec < prec" "- amount a mod prec \<noteq> 0"
      using p(1) assms(6) by (simp_all add: dvd_eq_mod_eq_0 [symmetric])
    then show "0 < ?r" "?r < prec"
      using assms(3) p(1) by (simp_all add: signed_modulo_int_def less_le)
  qed
  have "0 \<le> - amount a div prec" "- amount a div prec \<le> - amount a"
    using assms(3) p(1) by (simp_all add: pos_imp_zdiv_nonneg_iff int_div_le_self)
  then have "in_i64 (amount a sdiv prec)"
    using assms(3,4) p(1) by (simp add: in_i64_def signed_divide_int_def)
  moreover have "in_i64 ?r" using r p by (simp add: in_i64_def)
  ultimately have str: "legacy_asset_to_string T a = Inr (dec_string (amount a sdiv prec) @ ''.'' @
    drop 1 (dec_string ?r) @ '' '' @ asset_num_to_string (symbol a))"
    using to_string_dotted [OF assms(1,5) p(1)] by blast
  let ?fd = "drop 1 (dec_string ?r)"
  have "nat ?r < 10 ^ k" using r prec by (simp add: nat_less_iff)
  then have len: "length ?fd < k"
    using nat_digits_length [of "nat ?r" k] k(1) r(1) by (simp add: dec_string_def)
  have sp: "CHR '' '' \<notin> set ?fd"
    using dec_string_no_sep(1) [of ?r] by (meson in_set_dropD)
  have "throws (string_to_asset_num (asset_num_to_string (symbol a)) (of_nat (length ?fd)))"
  proof (rule ccontr)
    assume "\<not> ?thesis"
    then have "(of_nat (length ?fd) :: 8 word) = decimals (symbol a)"
      using string_to_asset_num_unique core_symbol_text(2) [OF assms(2)]
      by (auto simp: not_throws_iff)
    then have "unat (of_nat (length ?fd) :: 8 word) = k" using k(4) by simp
    then show False using len k(2) by (simp add: unat_of_nat)
  qed
  then have "throws (legacy_asset_from_string T (dec_string (amount a sdiv prec) @ ''.'' @ ?fd @
      '' '' @ asset_num_to_string (symbol a)))"
    using from_string_dotted [OF assms(1) refl dec_string_no_sep sp]
      core_symbol_text(3,4) [OF assms(2)]
    by (cases "string_to_asset_num (asset_num_to_string (symbol a)) (of_nat (length ?fd))") simp_all
  then show ?thesis using str by blast
qed

theorem legacy_text_negative_witness:
  "\<exists>s. legacy_asset_to_string decimal_text (mk_asset (- 5) HBD_SYMBOL) = Inr s \<and>
     throws (legacy_asset_from_string decimal_text s)"
proof -
  have "precision HBD_SYMBOL = Inr 1000" by code_simp
  then show ?thesis
    using legacy_text_negative [OF decimal_text_ok, of "mk_asset (- 5) HBD_SYMBOL" 1000]
    by (simp add: mk_asset_def core_space in_i64_def)
qed

end
