(* ===== verification/Manabar.thy ===== *)
theory Manabar
  imports Asset
begin

text \<open>
  Regenerating manabars (\<^verbatim>\<open>chain/util/manabar.hpp\<close>). Mana is an \<^verbatim>\<open>int64_t\<close>, times are \<^verbatim>\<open>uint32_t\<close>
  seconds. The voting and downvote bars cap the elapsed time before they multiply, the bar of the
  resource credits does not.
\<close>

section \<open>Model\<close>

record manabar_params =
  max_mana :: int
  regen_time :: "32 word"

definition manabar_params_validate :: "manabar_params \<Rightarrow> unit res" where
  "manabar_params_validate p = check_r (max_mana p \<ge> 0) ''max_mana >= 0''"

record manabar =
  current_mana :: int
  last_update_time :: "32 word"

definition regenerate_mana ::
  "fc_lib \<Rightarrow> bool \<Rightarrow> manabar_params \<Rightarrow> 32 word \<Rightarrow> manabar \<Rightarrow> manabar res" where
  "regenerate_mana F skip_cap_regen params now m =
     bind_r (manabar_params_validate params) (\<lambda>_.
     bind_r (check_r (now \<ge> last_update_time m) ''now >= last_update_time'') (\<lambda>_.
     let dt = now - last_update_time m in
     if current_mana m \<ge> max_mana params then
       Inr (m\<lparr>current_mana := max_mana params, last_update_time := now\<rparr>)
     else if dt = 0 then Inr m
     else
       let dt' = (if \<not> skip_cap_regen \<and> dt > regen_time params then regen_time params else dt);
           max_mana_dt = (of_int (if max_mana params \<ge> 0 then max_mana params else 0) :: 128 word) * ucast dt'
       in
       bind_r (div_128 max_mana_dt (ucast (regen_time params))) (\<lambda>q.
       bind_r (uint128_to_uint64 F q) (\<lambda>u_regen.
       bind_r (check_r (uint u_regen \<le> max_i64) ''u_regen'') (\<lambda>_.
       let new_current_mana = signed_sat_add F (current_mana m) (sint u_regen) in
       Inr (m\<lparr>current_mana := (if new_current_mana > max_mana params then max_mana params else new_current_mana),
              last_update_time := now\<rparr>))))))"

definition has_mana :: "int \<Rightarrow> manabar \<Rightarrow> bool" where
  "has_mana mana_needed m \<longleftrightarrow> mana_needed \<le> 0 \<or> current_mana m \<ge> mana_needed"

definition has_mana_unsigned :: "64 word \<Rightarrow> manabar \<Rightarrow> bool res" where
  "has_mana_unsigned mana_needed m =
     bind_r (check_r (uint mana_needed \<le> max_i64) ''mana_needed'') (\<lambda>_. Inr (has_mana (sint mana_needed) m))"

definition use_mana :: "fc_lib \<Rightarrow> int \<Rightarrow> int \<Rightarrow> manabar \<Rightarrow> manabar" where
  "use_mana F mana_used min_mana m =
     (let c = signed_sat_sub F (current_mana m) mana_used in
      m\<lparr>current_mana := (if c < min_mana then min_mana else c)\<rparr>)"

definition use_mana_unsigned :: "fc_lib \<Rightarrow> 64 word \<Rightarrow> int \<Rightarrow> manabar \<Rightarrow> manabar res" where
  "use_mana_unsigned F mana_used min_mana m =
     bind_r (check_r (uint mana_used \<le> max_i64) ''mana_used'') (\<lambda>_. Inr (use_mana F (sint mana_used) min_mana m))"

definition HIVE_VOTING_MANA_REGENERATION_SECONDS :: "32 word" where
  "HIVE_VOTING_MANA_REGENERATION_SECONDS = 432000"

definition HIVE_HF_21_STALL_BLOCK :: "32 word" where
  "HIVE_HF_21_STALL_BLOCK = 35922615"

text \<open>Signed products and negations that leave \<^verbatim>\<open>int64_t\<close> are undefined.\<close>

definition i64 :: "int \<Rightarrow> int res" where
  "i64 x = (if in_i64 x then Inr x else Inl Undefined)"

definition downvote_max_mana :: "fc_lib \<Rightarrow> 32 word \<Rightarrow> 16 word \<Rightarrow> int \<Rightarrow> int res" where
  "downvote_max_mana F head_block_number downvote_pool_percent effective_vests =
     (if head_block_number > HIVE_HF_21_STALL_BLOCK then
        bind_r (div_128 (of_int effective_vests * ucast downvote_pool_percent) (of_int HIVE_100_PERCENT)) (\<lambda>q.
        uint128_to_int64 F q)
      else
        bind_r (i64 (effective_vests * uint downvote_pool_percent)) (\<lambda>v.
        Inr (v sdiv HIVE_100_PERCENT)))"

definition update_manabar ::
  "fc_lib \<Rightarrow> 32 word \<Rightarrow> 32 word \<Rightarrow> 16 word \<Rightarrow> int \<Rightarrow> int \<Rightarrow> manabar \<times> manabar \<Rightarrow> (manabar \<times> manabar) res" where
  "update_manabar F head_block_number head_block_time downvote_pool_percent effective_vests new_mana bars =
     (case bars of (voting_manabar, downvote_manabar) \<Rightarrow>
        bind_r (regenerate_mana F False
          \<lparr>max_mana = effective_vests, regen_time = HIVE_VOTING_MANA_REGENERATION_SECONDS\<rparr> head_block_time voting_manabar)
          (\<lambda>v1.
        bind_r (i64 (- new_mana)) (\<lambda>used.
        let v2 = use_mana F used 0 v1 in
        if downvote_pool_percent = 0 then Inr (v2, downvote_manabar)
        else
          bind_r (downvote_max_mana F head_block_number downvote_pool_percent effective_vests) (\<lambda>mm.
          bind_r (regenerate_mana F False
            \<lparr>max_mana = mm, regen_time = HIVE_VOTING_MANA_REGENERATION_SECONDS\<rparr> head_block_time downvote_manabar)
            (\<lambda>d1.
          bind_r (i64 (- new_mana * uint downvote_pool_percent)) (\<lambda>scaled.
          Inr (v2, use_mana F (scaled sdiv HIVE_100_PERCENT) 0 d1)))))))"

section \<open>Lemmas\<close>

lemma saturate_id: "in_i64 v \<Longrightarrow> saturate v = v"
  by (simp add: saturate_def in_i64_def)

lemma sat_exact:
  assumes "fc_ok F" "in_i64 a" "in_i64 b"
  shows "signed_sat_add F a b = saturate (a + b)" "signed_sat_sub F a b = saturate (a - b)"
  using assms by (simp_all add: fc_ok_def)

lemma word32_bound: "uint (w :: 32 word) < 4294967296" "0 \<le> uint w"
  using unsigned_less [where ?'a = int and w = w] by simp_all

lemma uint_word32_diff: "(a :: 32 word) \<le> b \<Longrightarrow> uint (b - a) = uint b - uint a"
  by (simp add: uint_minus_simple_alt word_le_def [symmetric])

lemma uint_ucast_32_128: "uint (ucast (w :: 32 word) :: 128 word) = uint w"
proof -
  have "uint w < 2 ^ 128" using word32_bound(1) [of w] by simp
  then show ?thesis by (simp add: unsigned_ucast_eq take_bit_int_eq_self)
qed

text \<open>The quotient in \<^verbatim>\<open>uint128_t\<close> does not wrap.\<close>

lemma regen_quotient:
  assumes "0 \<le> mm" "mm \<le> max_i64" "0 < uint rt"
  shows "div_128 (of_int mm * ucast (dt :: 32 word)) (ucast (rt :: 32 word)) =
      Inr (of_int mm * ucast dt div ucast rt)"
    "uint (of_int mm * ucast dt div ucast rt :: 128 word) = mm * uint dt div uint rt"
proof -
  have "mm * uint dt \<le> max_i64 * 4294967296"
    using assms word32_bound [of dt] by (intro mult_mono) simp_all
  then have "uint (of_int mm * ucast dt :: 128 word) = mm * uint dt"
    using assms(1,2) by (subst uint_mult_128) (simp_all add: uint_ucast_32_128 uint_of_int_128)
  then show "uint (of_int mm * ucast dt div ucast rt :: 128 word) = mm * uint dt div uint rt"
    by (simp add: uint_div uint_ucast_32_128)
  have "uint (ucast rt :: 128 word) \<noteq> 0" using assms(3) by (simp add: uint_ucast_32_128)
  then have "(ucast rt :: 128 word) \<noteq> 0" by (metis unsigned_0)
  then show "div_128 (of_int mm * ucast dt) (ucast rt) = Inr (of_int mm * ucast dt div ucast rt)"
    by (simp add: div_128_def)
qed

text \<open>The value of a regeneration, with the elapsed time capped or not.\<close>

definition regenerated :: "bool \<Rightarrow> manabar_params \<Rightarrow> 32 word \<Rightarrow> manabar \<Rightarrow> int" where
  "regenerated skip p now m =
     max_mana p * (if skip then uint now - uint (last_update_time m)
                   else min (uint (regen_time p)) (uint now - uint (last_update_time m))) div uint (regen_time p)"

lemma regenerate_mana_eq:
  assumes "fc_ok F" "0 \<le> max_mana p" "max_mana p \<le> max_i64" "0 < uint (regen_time p)"
    "last_update_time m \<le> now" "in_i64 (current_mana m)" "regenerated skip p now m \<le> max_i64"
  shows "regenerate_mana F skip p now m =
    Inr (m\<lparr>current_mana := min (max_mana p) (current_mana m + regenerated skip p now m), last_update_time := now\<rparr>)"
proof -
  let ?r = "regenerated skip p now m"
  have diff: "uint (now - last_update_time m) = uint now - uint (last_update_time m)"
    by (rule uint_word32_diff [OF assms(5)])
  have t0: "0 \<le> uint now - uint (last_update_time m)" using assms(5) by (simp add: word_le_def)
  have r0: "0 \<le> ?r" using assms(2,4) t0 by (simp add: regenerated_def pos_imp_zdiv_nonneg_iff)
  show ?thesis
  proof (cases "current_mana m \<ge> max_mana p")
    case True
    then show ?thesis using assms r0 by (simp add: regenerate_mana_def manabar_params_validate_def)
  next
    case full: False
    show ?thesis
    proof (cases "now = last_update_time m")
      case True
      then have "?r = 0" using assms(4) by (auto simp: regenerated_def)
      then show ?thesis using True full assms by (simp add: regenerate_mana_def manabar_params_validate_def)
    next
      case False
      define dt where "dt = (if \<not> skip \<and> now - last_update_time m > regen_time p then regen_time p
        else now - last_update_time m)"
      have dt: "max_mana p * uint dt div uint (regen_time p) = ?r"
        using diff by (auto simp: dt_def regenerated_def word_less_def min_def)
      let ?q = "of_int (max_mana p) * ucast dt div ucast (regen_time p) :: 128 word"
      note q = regen_quotient [OF assms(2,3,4), of dt]
      have uq: "uint ?q = ?r" using q(2) dt by simp
      have u64: "uint128_to_uint64 F ?q = Inr (ucast ?q)" "uint (ucast ?q :: 64 word) = ?r"
        using uint128_to_uint64_exact [OF assms(1), of ?q] uint_ucast_128_64 [of ?q] uq assms(7) by simp_all
      have s: "sint (ucast ?q :: 64 word) = ?r" using sint_small(1) [of "ucast ?q"] u64(2) assms(7) by simp
      have "(if saturate (current_mana m + ?r) > max_mana p then max_mana p else saturate (current_mana m + ?r)) =
          min (max_mana p) (current_mana m + ?r)"
        using r0 assms(3,6) by (auto simp: saturate_def in_i64_def)
      moreover have "in_i64 ?r" using r0 assms(7) by (simp add: in_i64_def)
      ultimately show ?thesis
        using False full assms(2,5) q(1) u64 s sat_exact(1) [OF assms(1,6), of ?r] assms(7)
        by (simp add: regenerate_mana_def manabar_params_validate_def Let_def dt_def [symmetric] split: if_splits)
    qed
  qed
qed

lemma regenerated_capped:
  assumes "0 \<le> max_mana p" "0 < uint (regen_time p)" "last_update_time m \<le> now"
  shows "0 \<le> regenerated False p now m" "regenerated False p now m \<le> max_mana p"
    "uint (regen_time p) \<le> uint now - uint (last_update_time m) \<Longrightarrow> regenerated False p now m = max_mana p"
proof -
  have t0: "0 \<le> uint now - uint (last_update_time m)" using assms(3) by (simp add: word_le_def)
  show "0 \<le> regenerated False p now m"
    using assms t0 by (simp add: regenerated_def pos_imp_zdiv_nonneg_iff)
  have "max_mana p * min (uint (regen_time p)) (uint now - uint (last_update_time m)) \<le> max_mana p * uint (regen_time p)"
    using assms(1) by (intro mult_left_mono) simp_all
  then show "regenerated False p now m \<le> max_mana p"
    using zdiv_mono1 [OF _ assms(2)] assms(2) by (force simp: regenerated_def)
  show "regenerated False p now m = max_mana p" if "uint (regen_time p) \<le> uint now - uint (last_update_time m)"
    using that assms(2) by (simp add: regenerated_def min_def)
qed

lemma regenerated_skip:
  assumes "0 \<le> max_mana p" "0 < uint (regen_time p)" "last_update_time m \<le> now"
  shows "regenerated False p now m \<le> regenerated True p now m"
    "uint now - uint (last_update_time m) \<le> uint (regen_time p) \<Longrightarrow> regenerated True p now m = regenerated False p now m"
proof -
  have "max_mana p * min (uint (regen_time p)) (uint now - uint (last_update_time m)) \<le>
      max_mana p * (uint now - uint (last_update_time m))"
    using assms(1) by (intro mult_left_mono) simp_all
  then show "regenerated False p now m \<le> regenerated True p now m"
    using zdiv_mono1 [OF _ assms(2)] by (simp add: regenerated_def)
  show "regenerated True p now m = regenerated False p now m"
    if "uint now - uint (last_update_time m) \<le> uint (regen_time p)"
    using that by (simp add: regenerated_def min_def)
qed

lemma use_mana_eq:
  assumes "fc_ok F" "in_i64 (current_mana m)" "0 \<le> u" "u \<le> current_mana m"
  shows "use_mana F u 0 m = m\<lparr>current_mana := current_mana m - u\<rparr>"
proof -
  have "in_i64 u" "in_i64 (current_mana m - u)" using assms(2-4) by (auto simp: in_i64_def)
  then show ?thesis using assms sat_exact(2) [OF assms(1,2), of u] by (simp add: use_mana_def saturate_id)
qed

section \<open>Properties\<close>

text \<open>
  C29: A capped regeneration adds the share of the maximum that belongs to the elapsed time, never
  exceeds the maximum, and refills a bar that is not negative completely after the regeneration time.
\<close>

theorem regenerate_mana_refills:
  assumes "fc_ok F" "0 \<le> max_mana p" "max_mana p \<le> max_i64" "0 < uint (regen_time p)"
    "last_update_time m \<le> now" "in_i64 (current_mana m)"
  shows "\<exists>m'. regenerate_mana F False p now m = Inr m' \<and> last_update_time m' = now \<and>
    current_mana m' = min (max_mana p) (current_mana m +
      max_mana p * min (uint (regen_time p)) (uint now - uint (last_update_time m)) div uint (regen_time p)) \<and>
    (uint (regen_time p) \<le> uint now - uint (last_update_time m) \<and> 0 \<le> current_mana m \<longrightarrow>
      current_mana m' = max_mana p)"
proof -
  note r = regenerated_capped [OF assms(2,4,5)]
  have "regenerated False p now m \<le> max_i64" using r(2) assms(3) by linarith
  then show ?thesis
    using regenerate_mana_eq [OF assms] r(3) by (auto simp: regenerated_def)
qed

theorem regenerate_mana_refills_witness:
  "\<exists>m'. regenerate_mana exact_fc False \<lparr>max_mana = 1000, regen_time = 432000\<rparr> 216000
      \<lparr>current_mana = 100, last_update_time = 0\<rparr> = Inr m' \<and> current_mana m' = 600"
  using regenerate_mana_refills [of exact_fc "\<lparr>max_mana = 1000, regen_time = 432000\<rparr>"
      "\<lparr>current_mana = 100, last_update_time = 0\<rparr>" 216000]
  by (auto simp: in_i64_def)

text \<open>
  C30: The uncapped regeneration, which the resource credits use, fails where the capped one refills
  the bar: once the elapsed share of the maximum is no \<^verbatim>\<open>int64_t\<close> any more, the assertion on
  \<^verbatim>\<open>u_regen\<close> throws.
\<close>

theorem uncapped_regeneration_throws:
  assumes "fc_ok F" "0 \<le> max_mana p" "max_mana p \<le> max_i64" "0 < uint (regen_time p)"
    "last_update_time m < now" "0 \<le> current_mana m" "current_mana m < max_mana p"
    "max_i64 < max_mana p * (uint now - uint (last_update_time m)) div uint (regen_time p)"
    "max_mana p * (uint now - uint (last_update_time m)) div uint (regen_time p) < 18446744073709551616"
  shows "throws (regenerate_mana F True p now m) \<and>
    regenerate_mana F False p now m = Inr (m\<lparr>current_mana := max_mana p, last_update_time := now\<rparr>)"
proof
  let ?dt = "now - last_update_time m"
  let ?q = "of_int (max_mana p) * ucast ?dt div ucast (regen_time p) :: 128 word"
  have le: "last_update_time m \<le> now" using assms(5) by simp
  have uq: "uint ?q = max_mana p * (uint now - uint (last_update_time m)) div uint (regen_time p)"
    using regen_quotient(2) [OF assms(2-4), of ?dt] uint_word32_diff [OF le] by simp
  then have "uint128_to_uint64 F ?q = Inr (ucast ?q)" "\<not> uint (ucast ?q :: 64 word) \<le> max_i64"
    using uint128_to_uint64_exact [OF assms(1), of ?q] uint_ucast_128_64 [of ?q] assms(8,9) by simp_all
  then show "throws (regenerate_mana F True p now m)"
    using assms(2,5,7) le regen_quotient(1) [OF assms(2-4), of ?dt]
    by (simp add: regenerate_mana_def manabar_params_validate_def Let_def)
  have "uint (regen_time p) \<le> uint now - uint (last_update_time m)"
  proof (rule ccontr)
    assume "\<not> ?thesis"
    then have "max_mana p * (uint now - uint (last_update_time m)) div uint (regen_time p) \<le> max_mana p"
      using zdiv_mono1 [OF mult_left_mono [OF _ assms(2)] assms(4), of _ "uint (regen_time p)"] assms(4) by simp
    then show False using assms(3,8) by linarith
  qed
  moreover have "in_i64 (current_mana m)" using assms(3,6,7) by (simp add: in_i64_def)
  ultimately show "regenerate_mana F False p now m = Inr (m\<lparr>current_mana := max_mana p, last_update_time := now\<rparr>)"
    using regenerate_mana_eq [OF assms(1-4) le, of False] regenerated_capped(3) [OF assms(2,4) le] assms(3,6) by simp
qed

theorem uncapped_regeneration_throws_witness:
  "throws (regenerate_mana exact_fc True \<lparr>max_mana = 1000000000000000000, regen_time = 432000\<rparr> 4320000
     \<lparr>current_mana = 0, last_update_time = 0\<rparr>)"
  using uncapped_regeneration_throws [of exact_fc "\<lparr>max_mana = 1000000000000000000, regen_time = 432000\<rparr>"
      "\<lparr>current_mana = 0, last_update_time = 0\<rparr>" 4320000]
  by simp

end
