(* ===== verification/Resource_Dynamics.thy ===== *)
theory Resource_Dynamics
  imports Manabar
begin

text \<open>
  Resource pools and the price of resources: the decay and the budget of a pool
  (\<^verbatim>\<open>chain/util/rd_dynamics.hpp\<close>, \<^verbatim>\<open>rd_setup.hpp\<close>, \<^verbatim>\<open>rd.cpp\<close>), the parameters of the price curve
  (\<^verbatim>\<open>chain/rc/rc_curve.cpp\<close>) and the cost of a usage (\<^verbatim>\<open>resource_credits::compute_cost\<close>).
  Unsigned integers are words; \<^verbatim>\<open>int64_t\<close> and \<^verbatim>\<open>int32_t\<close> values are integers, an overflow of signed
  arithmetic is undefined. \<^verbatim>\<open>find_msb\<close> of boost is a parameter.
\<close>

section \<open>Resource dynamics\<close>

record rd_decay_params =
  decay_per_time_unit :: "32 word"
  decay_per_time_unit_denom_shift :: "8 word"

record rd_dynamics_params =
  resource_unit :: "64 word"
  budget_per_time_unit :: int
  pool_eq :: "64 word"
  max_pool_size :: "64 word"
  decay_params :: rd_decay_params
  min_decay :: int

record rd_user_params =
  user_budget_per_time_unit :: int
  user_decay_per_time_unit :: "32 word"

record rd_system_params =
  system_resource_unit :: "64 word"
  system_decay_per_time_unit_denom_shift :: "32 word"

definition HIVE_RD_MIN_BUDGET :: int where "HIVE_RD_MIN_BUDGET = 1"
definition HIVE_RD_MAX_BUDGET :: int where "HIVE_RD_MAX_BUDGET = 268435455"
definition HIVE_RD_MIN_DECAY :: "32 word" where "HIVE_RD_MIN_DECAY = 64"
definition HIVE_RD_MAX_DECAY :: "32 word" where "HIVE_RD_MAX_DECAY = 4294967295"
definition HIVE_RD_DECAY_DENOM_SHIFT :: "32 word" where "HIVE_RD_DECAY_DENOM_SHIFT = 36"

definition rd_validate_user_params :: "rd_user_params \<Rightarrow> unit res" where
  "rd_validate_user_params p =
     bind_r (check_r (user_budget_per_time_unit p \<ge> HIVE_RD_MIN_BUDGET) ''budget >= min'') (\<lambda>_.
     bind_r (check_r (user_budget_per_time_unit p \<le> HIVE_RD_MAX_BUDGET) ''budget <= max'') (\<lambda>_.
     bind_r (check_r (user_decay_per_time_unit p \<ge> HIVE_RD_MIN_DECAY) ''decay >= min'') (\<lambda>_.
     check_r (user_decay_per_time_unit p \<le> HIVE_RD_MAX_DECAY) ''decay <= max'')))"

definition pool_decay :: "fc_lib \<Rightarrow> rd_decay_params \<Rightarrow> int \<Rightarrow> 32 word \<Rightarrow> int res" where
  "pool_decay F p current_pool dt =
     (let per_unit = (ucast (decay_per_time_unit p) * ucast dt :: 64 word);
          decay_amount = (ucast per_unit * of_int current_pool :: 128 word)
      in
      if unat (decay_per_time_unit_denom_shift p) \<ge> 128 then Inl Undefined
      else
        bind_r (uint128_to_uint64 F (drop_bit (unat (decay_per_time_unit_denom_shift p)) decay_amount)) (\<lambda>result.
        Inr (if result > of_int current_pool then current_pool else sint result)))"

definition rd_compute_pool_decay :: "fc_lib \<Rightarrow> rd_decay_params \<Rightarrow> int \<Rightarrow> 32 word \<Rightarrow> int res" where
  "rd_compute_pool_decay F p current_pool dt =
     (if current_pool < 0 then
        bind_r (i64 (- current_pool)) (\<lambda>c. bind_r (pool_decay F p c dt) (\<lambda>d. i64 (- d)))
      else pool_decay F p current_pool dt)"

definition rd_apply :: "fc_lib \<Rightarrow> rd_dynamics_params \<Rightarrow> int \<Rightarrow> int res" where
  "rd_apply F rd pool =
     bind_r (rd_compute_pool_decay F (decay_params rd) pool 1) (\<lambda>decay.
     bind_r (i64 (pool + budget_per_time_unit rd)) (\<lambda>p1.
     bind_r (i64 (p1 - max decay (min_decay rd))) (\<lambda>new_pool.
     Inr (max (min new_pool (sint (max_pool_size rd))) 0))))"

text \<open>The lambda \<^verbatim>\<open>check_pool_eq\<close>.\<close>

definition check_pool_eq :: "fc_lib \<Rightarrow> rd_dynamics_params \<Rightarrow> 64 word \<Rightarrow> bool res" where
  "check_pool_eq F dparams pool =
     bind_r (rd_compute_pool_decay F (decay_params dparams) (sint pool) 1) (\<lambda>decay.
     Inr (decay \<ge> budget_per_time_unit dparams))"

definition rd_setup_dynamics_params ::
  "fc_lib \<Rightarrow> rd_user_params \<Rightarrow> rd_system_params \<Rightarrow> rd_dynamics_params \<Rightarrow> rd_dynamics_params res" where
  "rd_setup_dynamics_params F user_params system_params dparams =
     (let d1 = dparams\<lparr>resource_unit := system_resource_unit system_params,
                       budget_per_time_unit := user_budget_per_time_unit user_params,
                       decay_params := \<lparr>decay_per_time_unit = user_decay_per_time_unit user_params,
                         decay_per_time_unit_denom_shift = ucast (system_decay_per_time_unit_denom_shift system_params)\<rparr>\<rparr>
      in
      bind_r (check_r (system_decay_per_time_unit_denom_shift system_params = HIVE_RD_DECAY_DENOM_SHIFT) ''denom shift'') (\<lambda>_.
      let t1 = push_bit (unat (system_decay_per_time_unit_denom_shift system_params))
                 (of_int (user_budget_per_time_unit user_params) :: 128 word);
          t2 = t1 + ucast (user_decay_per_time_unit user_params - 1)
      in
      bind_r (div_128 t2 (ucast (user_decay_per_time_unit user_params))) (\<lambda>temp.
      bind_r (uint128_to_uint64 F temp) (\<lambda>eq.
      let d2 = d1\<lparr>pool_eq := eq, max_pool_size := eq\<rparr> in
      bind_r (check_pool_eq F d2 (pool_eq d2)) (\<lambda>c1.
      bind_r (check_r c1 ''pool_eq too small'') (\<lambda>_.
      bind_r (check_pool_eq F d2 (pool_eq d2 - 1)) (\<lambda>c2.
      bind_r (check_r (\<not> c2) ''pool_eq not minimal'') (\<lambda>_.
      Inr d2))))))))"

section \<open>The price curve\<close>

record rc_price_curve_params =
  coeff_a :: "64 word"
  coeff_b :: "64 word"
  curve_shift :: "8 word"

record rc_curve_gen_params =
  inelasticity_threshold_num :: "64 word"
  inelasticity_threshold_denom :: "64 word"
  a_point_num :: "64 word"
  a_point_denom :: "64 word"
  u_point_num :: "64 word"
  u_point_denom :: "64 word"

definition default_rc_curve_gen_params :: rc_curve_gen_params where
  "default_rc_curve_gen_params =
     \<lparr>inelasticity_threshold_num = 1, inelasticity_threshold_denom = 128, a_point_num = 37,
      a_point_denom = 1000, u_point_num = 1, u_point_denom = 2\<rparr>"

definition rc_curve_gen_params_validate :: "rc_curve_gen_params \<Rightarrow> unit res" where
  "rc_curve_gen_params_validate p =
     bind_r (check_r (inelasticity_threshold_num p \<le> 65535) ''inelasticity_threshold_num'') (\<lambda>_.
     bind_r (check_r (inelasticity_threshold_denom p \<le> 65535) ''inelasticity_threshold_denom'') (\<lambda>_.
     bind_r (check_r (a_point_num p \<le> 65535) ''a_point_num'') (\<lambda>_.
     bind_r (check_r (a_point_denom p \<le> 65535) ''a_point_denom'') (\<lambda>_.
     bind_r (check_r (u_point_num p \<le> 65535) ''u_point_num'') (\<lambda>_.
     bind_r (check_r (u_point_denom p \<le> 65535) ''u_point_denom'') (\<lambda>_.
     bind_r (check_r (inelasticity_threshold_num p > 0) ''inelasticity_threshold_num > 0'') (\<lambda>_.
     bind_r (check_r (inelasticity_threshold_denom p > inelasticity_threshold_num p) ''inelasticity_threshold < 1'') (\<lambda>_.
     bind_r (check_r (a_point_num p > 0) ''a_point_num > 0'') (\<lambda>_.
     bind_r (check_r (a_point_denom p > a_point_num p) ''a_point < 1'') (\<lambda>_.
     bind_r (check_r (u_point_num p > 0) ''u_point_num > 0'') (\<lambda>_.
     check_r (u_point_denom p > u_point_num p) ''u_point < 1'')))))))))))"

text \<open>\<^verbatim>\<open>find_msb\<close> of a positive number is the position of its highest bit.\<close>

definition msb_ok :: "(64 word \<Rightarrow> nat) \<Rightarrow> bool" where
  "msb_ok find_msb \<longleftrightarrow> (\<forall>w. w \<noteq> 0 \<longrightarrow> 2 ^ find_msb w \<le> uint w \<and> uint w < 2 ^ Suc (find_msb w))"

fun bit_length :: "nat \<Rightarrow> nat" where
  "bit_length n = (if n < 2 then 0 else Suc (bit_length (n div 2)))"

declare bit_length.simps [simp del]

definition top_bit :: "64 word \<Rightarrow> nat" where
  "top_bit w = bit_length (unat w)"

definition generate_rc_curve_params ::
  "fc_lib \<Rightarrow> (64 word \<Rightarrow> nat) \<Rightarrow> rd_dynamics_params \<Rightarrow> rc_curve_gen_params \<Rightarrow> rc_price_curve_params res" where
  "generate_rc_curve_params F find_msb rd c =
     bind_r (check_r (decay_per_time_unit (decay_params rd) > 0) ''decay_per_time_unit > 0'') (\<lambda>_.
     let A_num = max (a_point_num c * (u_point_denom c - u_point_num c)) 1;
         A_denom = max (a_point_denom c * u_point_num c * ucast (decay_per_time_unit (decay_params rd))) 1;
         shift1 = 63 - find_msb A_num;
         A_1 = push_bit shift1 A_num div A_denom
     in
     if A_1 = 0 then Inl Undefined
     else
       let shift2 = 63 - find_msb A_1;
           shift = shift1 + shift2;
           denom_shift = unat (decay_per_time_unit_denom_shift (decay_params rd))
       in
       bind_r (check_r (shift \<ge> denom_shift) ''shift >= denom_shift'') (\<lambda>_.
       bind_r (div_128 (push_bit shift (ucast A_num)) (ucast A_denom)) (\<lambda>u128_A.
       bind_r (uint128_to_uint64 F u128_A) (\<lambda>a.
       bind_r (div_128 (ucast (pool_eq rd) * ucast (inelasticity_threshold_num c)) (ucast (inelasticity_threshold_denom c))) (\<lambda>u128_B.
       bind_r (uint128_to_uint64 F u128_B) (\<lambda>b.
       Inr \<lparr>coeff_a = a, coeff_b = b, curve_shift = of_nat (shift - denom_shift)\<rparr>))))))"

section \<open>The cost of a usage\<close>

definition positive_cost :: "fc_lib \<Rightarrow> rc_price_curve_params \<Rightarrow> int \<Rightarrow> int \<Rightarrow> int \<Rightarrow> int res" where
  "positive_cost F c current_pool resource_count rc_regen =
     (let n1 = (of_int rc_regen * ucast (coeff_a c) :: 128 word);
          num = (drop_bit (unat (curve_shift c)) n1 + 1) * of_int resource_count;
          denom = ucast (coeff_b c) + of_int (if current_pool > 0 then current_pool else 0)
      in
      if unat (curve_shift c) \<ge> 128 then Inl Undefined
      else
        bind_r (div_128 num denom) (\<lambda>num_denom.
        bind_r (uint128_to_uint64 F num_denom) (\<lambda>u. Inr (sint (u + 1)))))"

definition compute_resource_cost :: "fc_lib \<Rightarrow> rc_price_curve_params \<Rightarrow> int \<Rightarrow> int \<Rightarrow> int \<Rightarrow> int res" where
  "compute_resource_cost F c current_pool resource_count rc_regen =
     bind_r (check_r (rc_regen > 0) ''rc_regen > 0'') (\<lambda>_.
     if resource_count \<le> 0 then
       if resource_count < 0 then
         bind_r (i64 (- resource_count)) (\<lambda>n.
         bind_r (positive_cost F c current_pool n rc_regen) (\<lambda>v. i64 (- v)))
       else Inr 0
     else positive_cost F c current_pool resource_count rc_regen)"

section \<open>Specification\<close>

text \<open>The pool at which decay and budget balance, and the cost on the price curve without machine
  arithmetic.\<close>

definition balance_pool :: "int \<Rightarrow> int \<Rightarrow> int" where
  "balance_pool b d = (b * 68719476736 + (d - 1)) div d"

definition ideal_cost :: "rc_price_curve_params \<Rightarrow> int \<Rightarrow> int \<Rightarrow> int \<Rightarrow> int" where
  "ideal_cost c pool n r =
     (r * uint (coeff_a c) div 2 ^ unat (curve_shift c) + 1) * n div (uint (coeff_b c) + max pool 0) + 1"

text \<open>Parameters of examples.\<close>

definition example_dynamics :: rd_dynamics_params where
  "example_dynamics = \<lparr>resource_unit = 0, budget_per_time_unit = 0, pool_eq = 0, max_pool_size = 0,
     decay_params = \<lparr>decay_per_time_unit = 0, decay_per_time_unit_denom_shift = 0\<rparr>, min_decay = 0\<rparr>"

section \<open>Lemmas\<close>

lemma uint_drop_bit: "uint (drop_bit n w) = uint w div 2 ^ n" for w :: "'a::len word"
proof -
  have "take_bit LENGTH('a) (uint w) = uint w" by (simp add: take_bit_int_eq_self_iff)
  then show ?thesis unfolding unsigned_drop_bit_eq by (simp only: drop_bit_eq_div)
qed

lemma uint_ucast_64_128: "uint (ucast (w :: 64 word) :: 128 word) = uint w"
proof -
  have "uint w < 2 ^ 128" using unsigned_less [where ?'a = int and w = w] by simp
  then show ?thesis by (simp add: unsigned_ucast_eq take_bit_int_eq_self)
qed

lemma word64_bound: "uint (w :: 64 word) < 18446744073709551616" "0 \<le> uint w"
  using unsigned_less [where ?'a = int and w = w] by simp_all

lemma uint_ucast_32_64: "uint (ucast (w :: 32 word) :: 64 word) = uint w"
proof -
  have "uint w < 2 ^ 64" using word32_bound(1) [of w] by simp
  then show ?thesis by (simp add: unsigned_ucast_eq take_bit_int_eq_self)
qed

lemma uint_of_int_64: "0 \<le> x \<Longrightarrow> x < 18446744073709551616 \<Longrightarrow> uint (of_int x :: 64 word) = x"
  by (simp add: uint_word_of_int)

lemma u64_of_u128:
  assumes "fc_ok F" "uint w < 18446744073709551616"
  shows "\<exists>u. uint128_to_uint64 F w = Inr u \<and> uint u = uint w"
  using uint128_to_uint64_exact [OF assms] uint_ucast_128_64 [OF assms(2)] by blast

lemma pool_decay_eq:
  assumes "fc_ok F" "unat (decay_per_time_unit_denom_shift p) = 36" "0 \<le> pool" "pool \<le> max_i64"
  shows "pool_decay F p pool 1 = Inr (uint (decay_per_time_unit p) * pool div 68719476736)"
proof -
  let ?d = "uint (decay_per_time_unit p)"
  let ?w = "ucast (ucast (decay_per_time_unit p) * ucast (1 :: 32 word) :: 64 word) * of_int pool :: 128 word"
  have "?d * pool \<le> 4294967296 * max_i64"
    using assms(3,4) word32_bound [of "decay_per_time_unit p"] by (intro mult_mono) simp_all
  moreover have "?d * pool div 68719476736 \<le> pool"
  proof -
    have "?d * pool \<le> 68719476736 * pool"
      using assms(3) word32_bound [of "decay_per_time_unit p"] by (intro mult_right_mono) simp_all
    then show ?thesis using zdiv_mono1 [of "?d * pool" "68719476736 * pool" 68719476736] by simp
  qed
  ultimately have w: "uint ?w = ?d * pool" and le: "?d * pool div 68719476736 \<le> pool"
    using assms(3,4) by (simp_all add: uint_mult_128 uint_ucast_64_128 uint_ucast_32_64 uint_of_int_128)
  have dw: "uint (drop_bit 36 ?w) = ?d * pool div 68719476736" using w by (simp add: uint_drop_bit)
  then obtain u where u: "uint128_to_uint64 F (drop_bit 36 ?w) = Inr u" "uint u = ?d * pool div 68719476736"
    using u64_of_u128 [OF assms(1), of "drop_bit 36 ?w"] le assms(4) by auto
  have "\<not> u > of_int pool"
    using u(2) le assms(3,4) uint_of_int_64 [of pool] by (simp add: word_less_def)
  moreover have "sint u = uint u" using u(2) le assms(4) by (intro sint_small(1)) simp
  ultimately show ?thesis using u assms(2) by (simp add: pool_decay_def)
qed

lemma ceil_div:
  fixes b d :: int
  assumes "0 < d" "0 \<le> n"
  defines "x \<equiv> (n + (d - 1)) div d"
  shows "n \<le> d * x" "d * (x - 1) < n" "0 \<le> y \<Longrightarrow> n \<le> d * y \<longleftrightarrow> x \<le> y"
proof -
  have m: "d * x = n + (d - 1) - (n + (d - 1)) mod d" unfolding x_def by (simp add: minus_mod_eq_mult_div [symmetric])
  have r: "0 \<le> (n + (d - 1)) mod d" "(n + (d - 1)) mod d < d" using assms(1) by simp_all
  show 1: "n \<le> d * x" using m r by linarith
  show 2: "d * (x - 1) < n" using m r by (simp add: right_diff_distrib)
  show "n \<le> d * y \<longleftrightarrow> x \<le> y" if "0 \<le> y"
  proof
    assume "n \<le> d * y"
    then have "d * (x - 1) < d * y" using 2 by linarith
    then show "x \<le> y" using assms(1) by simp
  next
    assume "x \<le> y"
    then have "d * x \<le> d * y" using assms(1) by (intro mult_left_mono) simp_all
    then show "n \<le> d * y" using 1 by linarith
  qed
qed

lemma pos_le_div_iff:
  fixes b y k :: int
  assumes "0 < k"
  shows "b \<le> y div k \<longleftrightarrow> b * k \<le> y"
proof
  assume "b \<le> y div k"
  then have "b * k \<le> y div k * k" using assms by (intro mult_right_mono) simp_all
  also have "\<dots> \<le> y" using assms div_mult_mod_eq [of y k] pos_mod_sign [OF assms, of y] by linarith
  finally show "b * k \<le> y" .
next
  assume "b * k \<le> y"
  then show "b \<le> y div k" using zdiv_mono1 [OF _ assms, of "b * k" y] assms by simp
qed

lemmas le_div_iff = pos_le_div_iff [of 68719476736, simplified]

lemma balance_pool_bounds:
  assumes "1 \<le> b" "b \<le> 536870912" "64 \<le> d" "d < 4294967296"
  shows "1 \<le> balance_pool b d" "balance_pool b d \<le> 576460752303423488"
    "0 \<le> x \<Longrightarrow> b \<le> d * x div 68719476736 \<longleftrightarrow> balance_pool b d \<le> x"
    "d * balance_pool b d div 68719476736 = b"
proof -
  let ?n = "b * 68719476736"
  note c = ceil_div [of d ?n]
  have x: "?n \<le> d * balance_pool b d" "d * (balance_pool b d - 1) < ?n"
    using c(1,2) assms by (simp_all add: balance_pool_def)
  show 1: "1 \<le> balance_pool b d"
  proof (rule ccontr)
    assume "\<not> ?thesis"
    then have "d * balance_pool b d \<le> 0" using assms(3) by (simp add: mult_nonneg_nonpos)
    then show False using x(1) assms(1) by simp
  qed
  have "64 * (balance_pool b d - 1) \<le> d * (balance_pool b d - 1)" using assms(3) 1 by (intro mult_right_mono) simp_all
  then have "64 * (balance_pool b d - 1) < ?n" using x(2) by (rule le_less_trans)
  then show "balance_pool b d \<le> 576460752303423488" using assms(2) by simp
  show "b \<le> d * x div 68719476736 \<longleftrightarrow> balance_pool b d \<le> x" if "0 \<le> x"
  proof -
    have "b \<le> d * x div 68719476736 \<longleftrightarrow> ?n \<le> d * x" by (rule le_div_iff)
    then show ?thesis using c(3) [of x] assms that by (simp add: balance_pool_def)
  qed
  have "d * balance_pool b d < ?n + d" using x(2) by (simp add: right_diff_distrib)
  then have "d * balance_pool b d < (b + 1) * 68719476736" using assms(4) by simp
  moreover have "b * 68719476736 \<le> d * balance_pool b d" using x(1) by simp
  ultimately have "b \<le> d * balance_pool b d div 68719476736" "\<not> b + 1 \<le> d * balance_pool b d div 68719476736"
    unfolding le_div_iff by linarith+
  then show "d * balance_pool b d div 68719476736 = b" by linarith
qed

text \<open>A well-formed parameter set: what \<^verbatim>\<open>rd_setup_dynamics_params\<close> produces from valid user parameters.\<close>

lemma uint_push_bit_128:
  assumes "uint w * 2 ^ n < 340282366920938463463374607431768211456"
  shows "uint (push_bit n w :: 128 word) = uint w * 2 ^ n"
  unfolding unsigned_push_bit_eq push_bit_eq_mult [of n "uint w"]
  by (rule take_bit_int_eq_self) (use assms in simp_all)

lemma user_params_valid:
  "rd_validate_user_params u = Inr () \<longleftrightarrow>
     1 \<le> user_budget_per_time_unit u \<and> user_budget_per_time_unit u \<le> 268435455 \<and>
     64 \<le> uint (user_decay_per_time_unit u)"
  using word32_bound(1) [of "user_decay_per_time_unit u"]
  by (auto simp: rd_validate_user_params_def res_simps HIVE_RD_MIN_BUDGET_def HIVE_RD_MAX_BUDGET_def
      HIVE_RD_MIN_DECAY_def HIVE_RD_MAX_DECAY_def word_le_def)

lemma setup_quotient:
  assumes "1 \<le> b" "b \<le> 536870912" "64 \<le> uint d"
  shows "\<exists>q. div_128 (push_bit 36 (of_int b) + ucast (d - 1 :: 32 word)) (ucast d) = Inr q \<and>
    uint q = balance_pool b (uint d)"
proof -
  have d1: "uint (d - 1) = uint d - 1"
    using assms(3) uint_word32_diff [of 1 d] by (simp add: word_le_def)
  have p: "uint (push_bit 36 (of_int b) :: 128 word) = b * 68719476736"
    using assms(1,2) uint_push_bit_128 [of "of_int b" 36] by (simp add: uint_of_int_128)
  have s: "uint (push_bit 36 (of_int b) + ucast (d - 1) :: 128 word) = b * 68719476736 + (uint d - 1)"
    using assms word32_bound(1) [of d] p d1 by (subst uint_add_128) (simp_all add: uint_ucast_32_128)
  have "(ucast d :: 128 word) \<noteq> 0" using assms(3) uint_ucast_32_128 [of d] by auto
  then show ?thesis using s by (simp add: div_128_def uint_div uint_ucast_32_128 balance_pool_def)
qed

lemma check_pool_eq_iff:
  assumes "fc_ok F" "unat (decay_per_time_unit_denom_shift (decay_params d)) = 36" "uint w \<le> max_i64"
  shows "check_pool_eq F d w =
    Inr (budget_per_time_unit d \<le> uint (decay_per_time_unit (decay_params d)) * uint w div 68719476736)"
  using pool_decay_eq [OF assms(1,2), of "uint w"] assms(3)
  by (simp add: check_pool_eq_def rd_compute_pool_decay_def sint_small(1))

text \<open>The computation also covers budgets up to twice the largest valid one.\<close>

lemma rd_setup_bounded:
  assumes "fc_ok F" "1 \<le> user_budget_per_time_unit u" "user_budget_per_time_unit u \<le> 536870912"
    "64 \<le> uint (user_decay_per_time_unit u)" "system_decay_per_time_unit_denom_shift y = 36"
  shows "\<exists>w. uint w = balance_pool (user_budget_per_time_unit u) (uint (user_decay_per_time_unit u)) \<and>
    rd_setup_dynamics_params F u y d = Inr (d\<lparr>resource_unit := system_resource_unit y,
      budget_per_time_unit := user_budget_per_time_unit u,
      decay_params := \<lparr>decay_per_time_unit = user_decay_per_time_unit u, decay_per_time_unit_denom_shift = 36\<rparr>,
      pool_eq := w, max_pool_size := w\<rparr>)"
proof -
  let ?b = "user_budget_per_time_unit u" and ?d = "user_decay_per_time_unit u"
  note v = assms(2-4)
  note x = balance_pool_bounds [OF v word32_bound(1)]
  obtain q where q: "div_128 (push_bit 36 (of_int ?b) + ucast (?d - 1)) (ucast ?d) = Inr q" "uint q = balance_pool ?b (uint ?d)"
    using setup_quotient [OF v] by blast
  obtain w where w: "uint128_to_uint64 F q = Inr w" "uint w = balance_pool ?b (uint ?d)"
    using u64_of_u128 [OF assms(1), of q] q(2) x(2) by auto
  have w1: "uint (w - 1) = balance_pool ?b (uint ?d) - 1"
    using w(2) x(1) uint_minus_simple_alt [of 1 w] by (simp add: word_le_def)
  let ?e = "d\<lparr>resource_unit := system_resource_unit y, budget_per_time_unit := ?b,
      decay_params := \<lparr>decay_per_time_unit = ?d, decay_per_time_unit_denom_shift = 36\<rparr>, pool_eq := w, max_pool_size := w\<rparr>"
  have "check_pool_eq F ?e w = Inr True" "check_pool_eq F ?e (w - 1) = Inr False"
    using check_pool_eq_iff [OF assms(1), of ?e] x(1,2) x(3) [of "uint w"] x(3) [of "uint (w - 1)"] w(2) w1 by simp_all
  then have "rd_setup_dynamics_params F u y d = Inr ?e"
    using assms(5) q(1) w(1) by (simp add: rd_setup_dynamics_params_def HIVE_RD_DECAY_DENOM_SHIFT_def Let_def)
  then show ?thesis using w(2) by blast
qed

lemma rd_setup_eq:
  assumes "fc_ok F" "rd_validate_user_params u = Inr ()" "system_decay_per_time_unit_denom_shift y = 36"
  shows "\<exists>w. uint w = balance_pool (user_budget_per_time_unit u) (uint (user_decay_per_time_unit u)) \<and>
    rd_setup_dynamics_params F u y d = Inr (d\<lparr>resource_unit := system_resource_unit y,
      budget_per_time_unit := user_budget_per_time_unit u,
      decay_params := \<lparr>decay_per_time_unit = user_decay_per_time_unit u, decay_per_time_unit_denom_shift = 36\<rparr>,
      pool_eq := w, max_pool_size := w\<rparr>)"
  using rd_setup_bounded [OF assms(1) _ _ _ assms(3)] assms(2) by (simp add: user_params_valid)

lemma rd_apply_eq:
  assumes "fc_ok F" "unat (decay_per_time_unit_denom_shift (decay_params d)) = 36"
    "0 \<le> pool" "pool \<le> 576460752303423488" "0 \<le> budget_per_time_unit d" "budget_per_time_unit d \<le> 536870912" "min_decay d = 0"
  shows "rd_apply F d pool = Inr (max (min (pool + budget_per_time_unit d -
      uint (decay_per_time_unit (decay_params d)) * pool div 68719476736) (sint (max_pool_size d))) 0)"
proof -
  let ?c = "uint (decay_per_time_unit (decay_params d)) * pool div 68719476736"
  have "?c \<le> pool"
  proof -
    have "uint (decay_per_time_unit (decay_params d)) * pool \<le> 68719476736 * pool"
      using assms(3) word32_bound [of "decay_per_time_unit (decay_params d)"] by (intro mult_right_mono) simp_all
    then show ?thesis using zdiv_mono1 [of _ "68719476736 * pool" 68719476736] by simp
  qed
  moreover have "0 \<le> ?c" using assms(3) by (simp add: pos_imp_zdiv_nonneg_iff)
  ultimately show ?thesis
    using pool_decay_eq [OF assms(1,2,3)] assms
    by (simp add: rd_apply_def rd_compute_pool_decay_def i64_def in_i64_def)
qed

lemma msb_unique:
  assumes "msb_ok f" "w \<noteq> 0" "2 ^ n \<le> uint w" "uint w < 2 ^ Suc n"
  shows "f w = n"
proof -
  have f: "2 ^ f w \<le> uint w" "uint w < 2 ^ Suc (f w)" using assms(1,2) by (auto simp: msb_ok_def)
  have "(2 :: int) ^ f w < 2 ^ Suc n" "(2 :: int) ^ n < 2 ^ Suc (f w)" using f assms(3,4) by linarith+
  then show ?thesis by (simp only: power_strict_increasing_iff less_Suc_eq_le)
qed

lemma bit_length_bounds: "0 < n \<Longrightarrow> 2 ^ bit_length n \<le> n \<and> n < 2 ^ Suc (bit_length n)"
proof (induction n rule: bit_length.induct)
  case (1 n)
  show ?case
  proof (cases "n < 2")
    case True
    then show ?thesis using 1(2) by (simp add: bit_length.simps [of n])
  next
    case False
    then have "2 ^ bit_length (n div 2) \<le> n div 2" "n div 2 < 2 ^ Suc (bit_length (n div 2))"
      using 1(1) by auto
    moreover have "bit_length n = Suc (bit_length (n div 2))" using False by (simp add: bit_length.simps [of n])
    ultimately show ?thesis by (simp add: div_less_iff_less_mult)
  qed
qed

lemma top_bit_ok: "msb_ok top_bit"
proof -
  have "2 ^ top_bit w \<le> uint w \<and> uint w < 2 ^ Suc (top_bit w)" if "w \<noteq> 0" for w :: "64 word"
  proof -
    have "0 < unat w" using that by (simp add: unat_gt_0)
    note b = bit_length_bounds [OF this]
    have "int (2 ^ bit_length (unat w)) \<le> int (unat w)" "int (unat w) < int (2 ^ Suc (bit_length (unat w)))"
      using b by (simp_all only: of_nat_le_iff of_nat_less_iff)
    then show ?thesis by (simp add: top_bit_def)
  qed
  then show ?thesis by (simp add: msb_ok_def)
qed

lemma normalized_quotient:
  fixes n d a :: int
  assumes "0 < d" "0 \<le> n" "2 ^ m \<le> n div d" "n div d < 2 ^ Suc m" "m \<le> 63"
  shows "2 ^ 63 \<le> n * 2 ^ (63 - m) div d" "n * 2 ^ (63 - m) div d < 2 ^ 64"
proof -
  let ?k = "2 ^ (63 - m) :: int"
  have k: "0 < ?k" "2 ^ m * ?k = 2 ^ 63" using assms(5) by (simp_all add: power_add [symmetric])
  have "2 ^ m * ?k \<le> n div d * ?k" using assms(3) k(1) by (intro mult_right_mono) simp_all
  also have "n div d * ?k \<le> n * ?k div d"
  proof -
    have "n div d * d \<le> n" using assms(1) div_mult_mod_eq [of n d] pos_mod_sign [of d n] by linarith
    then have "n div d * d * ?k \<le> n * ?k" using k(1) by (intro mult_right_mono) simp_all
    then show ?thesis using assms(1) by (simp add: pos_le_div_iff mult.assoc mult.commute [of ?k])
  qed
  finally show "2 ^ 63 \<le> n * ?k div d" using k(2) by simp
  have "n < (n div d + 1) * d"
    unfolding distrib_right using assms(1) div_mult_mod_eq [of n d] pos_mod_bound [of d n] by linarith
  also have "\<dots> \<le> 2 ^ Suc m * d" using assms(1,4) by (intro mult_right_mono) simp_all
  finally have "n * ?k < 2 ^ Suc m * d * ?k" using k(1) by (intro mult_strict_right_mono) simp_all
  also have "2 ^ Suc m * d * ?k = 2 ^ 64 * d" using k(2) by (simp add: mult.assoc mult.left_commute)
  finally show "n * ?k div d < 2 ^ 64" using assms(1) by (simp add: not_le [symmetric] pos_le_div_iff)
qed

lemma default_curve_bounds:
  assumes "0 < d" "d < 4294967296"
  shows "2097152 \<le> 10664523917613334528 div (1000 * d :: int)" "10664523917613334528 div (1000 * d) < 18446744073709551616"
proof -
  have "2097152 * (1000 * d) \<le> 10664523917613334528" using assms(2) by simp
  then show "2097152 \<le> 10664523917613334528 div (1000 * d)" using assms(1) by (simp add: pos_le_div_iff)
  have "10664523917613334528 div (1000 * d) \<le> 10664523917613334528"
    using assms(1) int_div_le_self [of 10664523917613334528 "1000 * d"] by simp
  then show "10664523917613334528 div (1000 * d) < 18446744073709551616" by simp
qed

lemma uint_mult_64: "uint (a :: 64 word) * uint b < 18446744073709551616 \<Longrightarrow> uint (a * b) = uint a * uint b"
  by (simp add: uint_word_ariths)

lemma word_max_1: "0 < (w :: 64 word) \<Longrightarrow> max w 1 = w"
  by (simp add: max_def word_le_def word_less_def word_uint_eq_iff [of w])

lemma curve_exact:
  assumes "fc_ok F" "msb_ok f" "0 < decay_per_time_unit (decay_params rd)"
    "unat (decay_per_time_unit_denom_shift (decay_params rd)) \<le> 58"
  shows "\<exists>c s. generate_rc_curve_params F f rd default_rc_curve_gen_params = Inr c \<and> s \<le> 100 \<and>
    s = unat (curve_shift c) + unat (decay_per_time_unit_denom_shift (decay_params rd)) \<and>
    uint (coeff_a c) = 37 * 2 ^ s div (1000 * uint (decay_per_time_unit (decay_params rd))) \<and>
    2 ^ 63 \<le> uint (coeff_a c) \<and> uint (coeff_b c) = uint (pool_eq rd) div 128"
proof -
  let ?dw = "decay_per_time_unit (decay_params rd)"
  define d where "d = uint ?dw"
  have d: "0 < d" "d < 4294967296" using assms(3) word32_bound(1) [of ?dw] by (simp_all add: d_def word_less_def)
  define den where "den = (1000 * ucast ?dw :: 64 word)"
  have den: "uint den = 1000 * d"
    using d uint_mult_64 [of 1000 "ucast ?dw"] uint_ucast_32_64 [of ?dw] by (simp add: den_def d_def)
  then have mden: "max den 1 = den" using d by (intro word_max_1) (simp add: word_less_def)
  have n37: "f 37 = 5" using msb_unique [OF assms(2), of 37 5] by simp
  define A1 where "A1 = (10664523917613334528 :: 64 word) div den"
  have A1: "uint A1 = 10664523917613334528 div (1000 * d)" by (simp add: A1_def uint_div den)
  note bounds = default_curve_bounds [OF d]
  have A0: "A1 \<noteq> 0" using A1 bounds(1) by auto
  define m where "m = f A1"
  have m: "2 ^ m \<le> uint A1" "uint A1 < 2 ^ Suc m" using assms(2) A0 by (auto simp: msb_ok_def m_def)
  have m63: "m \<le> 63"
  proof -
    have "(2 :: int) ^ m < 2 ^ 64" using m(1) A1 bounds(2) by simp
    then show ?thesis by (simp only: power_strict_increasing_iff)
  qed
  have m21: "21 \<le> m"
  proof -
    have "(2 :: int) ^ 21 < 2 ^ Suc m" using m(2) A1 bounds(1) by simp
    then show ?thesis by (simp only: power_strict_increasing_iff less_Suc_eq_le)
  qed
  define s where "s = 58 + (63 - m)"
  have s: "s \<le> 100" "58 \<le> s" using m21 by (simp_all add: s_def)
  have ps: "(37 :: int) * 2 ^ s = 10664523917613334528 * 2 ^ (63 - m)" by (simp add: s_def power_add)
  have "(2 :: int) ^ s \<le> 2 ^ 100" using s(1) by (intro power_increasing) simp_all
  then have up: "uint (push_bit s (37 :: 128 word)) = 37 * 2 ^ s"
    using uint_push_bit_128 [of "37 :: 128 word" s] by (simp add: uint_ucast_64_128)
  have nq: "2 ^ 63 \<le> 37 * 2 ^ s div (1000 * d)" "37 * 2 ^ s div (1000 * d) < 2 ^ 64"
    unfolding ps using normalized_quotient [of "1000 * d" 10664523917613334528 m] m A1 m63 d by simp_all
  have dn0: "(ucast den :: 128 word) \<noteq> 0" using den d uint_ucast_64_128 [of den] by auto
  have qa: "uint (push_bit s (37 :: 128 word) div ucast den :: 128 word) = 37 * 2 ^ s div (1000 * d)"
    by (simp add: uint_div up uint_ucast_64_128 den)
  obtain a where a: "uint128_to_uint64 F (push_bit s (37 :: 128 word) div ucast den) = Inr a"
      "uint a = 37 * 2 ^ s div (1000 * d)"
    using u64_of_u128 [OF assms(1), of "push_bit s (37 :: 128 word) div ucast den"] qa nq(2) by auto
  have qb: "uint (ucast (pool_eq rd) div (128 :: 128 word) :: 128 word) = uint (pool_eq rd) div 128"
    by (simp add: uint_div uint_ucast_64_128)
  obtain b where b: "uint128_to_uint64 F (ucast (pool_eq rd) div (128 :: 128 word)) = Inr b"
      "uint b = uint (pool_eq rd) div 128"
    using u64_of_u128 [OF assms(1), of "ucast (pool_eq rd) div (128 :: 128 word)"] qb
      word64_bound [of "pool_eq rd"] by fastforce
  let ?k = "unat (decay_per_time_unit_denom_shift (decay_params rd))"
  have sk: "unat (of_nat (s - ?k) :: 8 word) = s - ?k" using s by (simp add: unat_of_nat)
  have eq: "generate_rc_curve_params F f rd default_rc_curve_gen_params =
      Inr \<lparr>coeff_a = a, coeff_b = b, curve_shift = of_nat (s - ?k)\<rparr>"
    using assms(3,4) n37 mden A0 s a(1) b(1) dn0
    by (simp add: generate_rc_curve_params_def default_rc_curve_gen_params_def Let_def den_def [symmetric]
        A1_def [symmetric] m_def [symmetric] s_def [symmetric] div_128_def del: of_nat_diff of_nat_add)
  show ?thesis
    using eq a(2) b(2) sk s assms(4) nq(1)
    by (intro exI [of _ "\<lparr>coeff_a = a, coeff_b = b, curve_shift = of_nat (s - ?k)\<rparr>"] exI [of _ s])
      (simp add: d_def)
qed

lemma positive_cost_eq:
  assumes "fc_ok F" "0 < r" "r \<le> max_i64" "0 < n" "n \<le> max_i64" "pool \<le> max_i64" "unat (curve_shift c) < 128"
    "0 < uint (coeff_b c) + max pool 0"
    "(r * uint (coeff_a c) div 2 ^ unat (curve_shift c) + 1) * n < 340282366920938463463374607431768211456"
    "ideal_cost c pool n r \<le> max_i64"
  shows "positive_cost F c pool n r = Inr (ideal_cost c pool n r)"
proof -
  let ?q = "r * uint (coeff_a c) div 2 ^ unat (curve_shift c)"
  let ?num = "(drop_bit (unat (curve_shift c)) (of_int r * ucast (coeff_a c)) + 1) * of_int n :: 128 word"
  let ?den = "ucast (coeff_b c) + of_int (if pool > 0 then pool else 0) :: 128 word"
  have "r * uint (coeff_a c) \<le> max_i64 * 18446744073709551615"
    using assms(2,3) word64_bound [of "coeff_a c"] by (intro mult_mono) simp_all
  then have ra: "uint (of_int r * ucast (coeff_a c) :: 128 word) = r * uint (coeff_a c)"
    and ra': "r * uint (coeff_a c) < 170141183460469231731687303715884105728"
    using assms(2,3) by (simp_all add: uint_mult_128 uint_ucast_64_128 uint_of_int_128)
  have q: "0 \<le> ?q" "?q \<le> r * uint (coeff_a c)"
    using assms(2) word64_bound(2) [of "coeff_a c"]
      zdiv_mono2 [of "r * uint (coeff_a c)" 1 "2 ^ unat (curve_shift c)"] by (simp_all add: pos_imp_zdiv_nonneg_iff)
  have q1: "uint (drop_bit (unat (curve_shift c)) (of_int r * ucast (coeff_a c)) + 1 :: 128 word) = ?q + 1"
    using q ra' by (subst uint_add_128) (simp_all add: uint_drop_bit ra)
  have num: "uint ?num = (?q + 1) * n"
    using assms(4,5,9) q1 by (subst uint_mult_128) (simp_all add: uint_of_int_128)
  have den: "uint ?den = uint (coeff_b c) + max pool 0"
    using assms(6) word64_bound [of "coeff_b c"] by (subst uint_add_128) (auto simp: uint_ucast_64_128 uint_of_int_128 max_def)
  have d0: "?den \<noteq> 0" using den assms(8) by (metis unsigned_0 less_irrefl)
  have "uint (?num div ?den) = ideal_cost c pool n r - 1" by (simp only: uint_div num den ideal_cost_def)
  then obtain u where u: "uint128_to_uint64 F (?num div ?den) = Inr u" "uint u = ideal_cost c pool n r - 1"
    using u64_of_u128 [OF assms(1), of "?num div ?den"] assms(10) by auto
  have "uint (u + 1) = ideal_cost c pool n r" using u(2) assms(10) word64_bound(2) [of u] by (simp add: uint_word_ariths)
  then have "sint (u + 1) = ideal_cost c pool n r" using sint_small(1) [of "u + 1"] assms(10) by simp
  then show ?thesis using u(1) d0 assms(7) by (simp add: positive_cost_def div_128_def Let_def)
qed

lemma ideal_cost_mono:
  assumes "0 < r" "0 < n" "n \<le> n'" "pool' \<le> pool" "0 < uint (coeff_b c) + max pool' 0"
  shows "0 < ideal_cost c pool n r" "ideal_cost c pool n r \<le> ideal_cost c pool' n' r"
proof -
  let ?q = "r * uint (coeff_a c) div 2 ^ unat (curve_shift c)"
  have q: "0 \<le> ?q" using assms(1) word64_bound(2) [of "coeff_a c"] by (simp add: pos_imp_zdiv_nonneg_iff)
  have d: "0 < uint (coeff_b c) + max pool 0" "uint (coeff_b c) + max pool' 0 \<le> uint (coeff_b c) + max pool 0"
    using assms(4,5) by simp_all
  show "0 < ideal_cost c pool n r"
    using q assms(2) d(1) pos_imp_zdiv_nonneg_iff [of _ "(?q + 1) * n"] by (simp add: ideal_cost_def add_nonneg_pos)
  have "(?q + 1) * n div (uint (coeff_b c) + max pool 0) \<le> (?q + 1) * n div (uint (coeff_b c) + max pool' 0)"
    using q assms(2,5) d(2) by (intro zdiv_mono2) simp_all
  also have "\<dots> \<le> (?q + 1) * n' div (uint (coeff_b c) + max pool' 0)"
    using q assms(3,5) by (intro zdiv_mono1 mult_left_mono) simp_all
  finally show "ideal_cost c pool n r \<le> ideal_cost c pool' n' r" by (simp add: ideal_cost_def)
qed

section \<open>Properties\<close>

text \<open>
  C16: The assertions at the end of \<^verbatim>\<open>rd_setup_dynamics_params\<close> never trigger for user parameters that pass
  the validation: the computed \<^verbatim>\<open>pool_eq\<close> is the smallest pool whose decay reaches the budget.
\<close>

theorem rd_setup_never_asserts:
  assumes "fc_ok F" "rd_validate_user_params u = Inr ()" "system_decay_per_time_unit_denom_shift y = HIVE_RD_DECAY_DENOM_SHIFT"
  shows "\<exists>d'. rd_setup_dynamics_params F u y d = Inr d' \<and> max_pool_size d' = pool_eq d' \<and> uint (pool_eq d') \<le> max_i64 \<and>
    (\<forall>pool. 0 \<le> pool \<and> pool \<le> max_i64 \<longrightarrow>
      (\<exists>decay. rd_compute_pool_decay F (decay_params d') pool 1 = Inr decay \<and>
        (budget_per_time_unit d' \<le> decay \<longleftrightarrow> uint (pool_eq d') \<le> pool)))"
proof -
  let ?b = "user_budget_per_time_unit u" and ?d = "user_decay_per_time_unit u"
  have v: "1 \<le> ?b" "?b \<le> 536870912" "64 \<le> uint ?d" using assms(2) by (simp_all add: user_params_valid)
  note x = balance_pool_bounds [OF v word32_bound(1)]
  obtain w where w: "uint w = balance_pool ?b (uint ?d)"
    "rd_setup_dynamics_params F u y d = Inr (d\<lparr>resource_unit := system_resource_unit y, budget_per_time_unit := ?b,
      decay_params := \<lparr>decay_per_time_unit = ?d, decay_per_time_unit_denom_shift = 36\<rparr>, pool_eq := w, max_pool_size := w\<rparr>)"
    using rd_setup_eq [OF assms(1,2)] assms(3) by (force simp: HIVE_RD_DECAY_DENOM_SHIFT_def)
  show ?thesis
    using w x(2,3) pool_decay_eq [OF assms(1), of "\<lparr>decay_per_time_unit = ?d, decay_per_time_unit_denom_shift = 36\<rparr>"]
    by (auto simp: rd_compute_pool_decay_def)
qed

theorem rd_setup_never_asserts_witness:
  "\<exists>d'. rd_setup_dynamics_params exact_fc \<lparr>user_budget_per_time_unit = 797, user_decay_per_time_unit = 347321\<rparr>
      \<lparr>system_resource_unit = 10000, system_decay_per_time_unit_denom_shift = 36\<rparr> example_dynamics = Inr d' \<and>
    max_pool_size d' = pool_eq d' \<and> uint (pool_eq d') \<le> max_i64"
proof -
  have "rd_validate_user_params \<lparr>user_budget_per_time_unit = 797, user_decay_per_time_unit = 347321\<rparr> = Inr ()"
    by (simp add: user_params_valid)
  from rd_setup_never_asserts [OF exact_fc_ok this, of "\<lparr>system_resource_unit = 10000, system_decay_per_time_unit_denom_shift = 36\<rparr>"]
  show ?thesis by (simp add: HIVE_RD_DECAY_DENOM_SHIFT_def) blast
qed



text \<open>
  C33: With the default curve parameters the price curve can be generated for every decay above zero:
  the coefficient \<^verbatim>\<open>coeff_a\<close> is the exact quotient \<open>37 * 2^s / (1000 * decay)\<close>, normalised to use the top
  bit of its 64 bits, and \<^verbatim>\<open>coeff_b\<close> is the 128th part of the equilibrium pool.
\<close>

theorem rc_curve_normalised:
  assumes "fc_ok F" "msb_ok f" "0 < decay_per_time_unit (decay_params rd)"
    "unat (decay_per_time_unit_denom_shift (decay_params rd)) \<le> 58"
  shows "\<exists>c s. generate_rc_curve_params F f rd default_rc_curve_gen_params = Inr c \<and> s \<le> 100 \<and>
    s = unat (curve_shift c) + unat (decay_per_time_unit_denom_shift (decay_params rd)) \<and>
    uint (coeff_a c) = 37 * 2 ^ s div (1000 * uint (decay_per_time_unit (decay_params rd))) \<and>
    2 ^ 63 \<le> uint (coeff_a c) \<and> uint (coeff_b c) = uint (pool_eq rd) div 128"
  by (rule curve_exact [OF assms])

theorem rc_curve_normalised_witness:
  "\<exists>c. generate_rc_curve_params exact_fc top_bit
      (example_dynamics\<lparr>decay_params := \<lparr>decay_per_time_unit = 347321, decay_per_time_unit_denom_shift = 36\<rparr>\<rparr>)
      default_rc_curve_gen_params = Inr c \<and> 2 ^ 63 \<le> uint (coeff_a c)"
  using rc_curve_normalised [OF exact_fc_ok top_bit_ok,
      of "example_dynamics\<lparr>decay_params := \<lparr>decay_per_time_unit = 347321, decay_per_time_unit_denom_shift = 36\<rparr>\<rparr>"]
  by auto

text \<open>
  C34: The cost of a usage is positive; using more, or using from an emptier pool, never costs less.
\<close>

theorem resource_cost_monotone:
  assumes "fc_ok F" "0 < r" "r \<le> max_i64" "0 < n" "n \<le> n'" "n' \<le> max_i64" "pool' \<le> pool" "pool \<le> max_i64"
    "unat (curve_shift c) < 128" "0 < uint (coeff_b c) + max pool' 0"
    "(r * uint (coeff_a c) div 2 ^ unat (curve_shift c) + 1) * n' < 340282366920938463463374607431768211456"
    "ideal_cost c pool' n' r \<le> max_i64"
  shows "\<exists>v v'. compute_resource_cost F c pool n r = Inr v \<and> compute_resource_cost F c pool' n' r = Inr v' \<and>
    0 < v \<and> v \<le> v'"
proof -
  note m = ideal_cost_mono [OF assms(2,4,5,7,10)]
  let ?q = "r * uint (coeff_a c) div 2 ^ unat (curve_shift c)"
  have "0 \<le> ?q" using assms(2) word64_bound(2) [of "coeff_a c"] by (simp add: pos_imp_zdiv_nonneg_iff)
  then have "(?q + 1) * n \<le> (?q + 1) * n'" using assms(5) by (intro mult_left_mono) simp_all
  then have "positive_cost F c pool n r = Inr (ideal_cost c pool n r)"
    using assms m(2) by (intro positive_cost_eq) simp_all
  moreover have "positive_cost F c pool' n' r = Inr (ideal_cost c pool' n' r)"
    using assms by (intro positive_cost_eq) simp_all
  ultimately show ?thesis using m assms(2,4,5) by (simp add: compute_resource_cost_def)
qed

theorem resource_cost_monotone_witness:
  "\<exists>v v'. compute_resource_cost exact_fc \<lparr>coeff_a = 12981647055416481792, coeff_b = 1690658, curve_shift = 49\<rparr> 50000000 10 1000000 = Inr v \<and>
    compute_resource_cost exact_fc \<lparr>coeff_a = 12981647055416481792, coeff_b = 1690658, curve_shift = 49\<rparr> 40000000 20 1000000 = Inr v' \<and>
    0 < v \<and> v \<le> v'"
  by (rule resource_cost_monotone) (simp_all add: ideal_cost_def)

end
