(* ===== verification/State_Exn.thy ===== *)
theory State_Exn
  imports Prelude
begin

text \<open>
  Stateful operations that may throw. An operation maps a state to an exception or to its result
  and the new state; a thrown exception carries no state, because every operation runs inside an
  undo session that restores the state it started from. The theory has the sequencing operations,
  the loops of the sources (an iterator over a range fixed at its start, without and with an early
  exit, and a loop that takes the first object of an index until it is exhausted), and the proof rules of partial
  (\<open>valid\<close>) and total (\<open>succeeds\<close>) correctness.
\<close>

section \<open>Operations\<close>

type_synonym ('s, 'a) op = "'s \<Rightarrow> ('a \<times> 's) res"

definition ret_s :: "'a \<Rightarrow> ('s, 'a) op" where
  "ret_s x = (\<lambda>s. Inr (x, s))"

definition throw_s :: "exn \<Rightarrow> ('s, 'a) op" where
  "throw_s e = (\<lambda>s. Inl e)"

definition bind_s :: "('s, 'a) op \<Rightarrow> ('a \<Rightarrow> ('s, 'b) op) \<Rightarrow> ('s, 'b) op" where
  "bind_s m f = (\<lambda>s. case m s of Inl e \<Rightarrow> Inl e | Inr (x, s') \<Rightarrow> f x s')"

definition lift_s :: "'a res \<Rightarrow> ('s, 'a) op" where
  "lift_s r = (\<lambda>s. bind_r r (\<lambda>x. Inr (x, s)))"

definition check_s :: "bool \<Rightarrow> string \<Rightarrow> ('s, unit) op" where
  "check_s c msg = lift_s (check_r c msg)"

definition get_s :: "('s \<Rightarrow> 'a) \<Rightarrow> ('s, 'a) op" where
  "get_s g = (\<lambda>s. Inr (g s, s))"

definition read_s :: "('s \<Rightarrow> 'a res) \<Rightarrow> ('s, 'a) op" where
  "read_s g = (\<lambda>s. bind_r (g s) (\<lambda>x. Inr (x, s)))"

definition update_s :: "('s \<Rightarrow> 's) \<Rightarrow> ('s, unit) op" where
  "update_s g = (\<lambda>s. Inr ((), g s))"

primrec foreach_s :: "'x list \<Rightarrow> ('x \<Rightarrow> ('s, unit) op) \<Rightarrow> ('s, unit) op" where
  "foreach_s [] body = ret_s ()"
| "foreach_s (x # xs) body = bind_s (body x) (\<lambda>_. foreach_s xs body)"

text \<open>\<open>for_s stop body xs a\<close> passes over a range with a result that the body extends; the loop is left
  when the result satisfies \<open>stop\<close>.\<close>

primrec for_s :: "('a \<Rightarrow> bool) \<Rightarrow> ('x \<Rightarrow> 'a \<Rightarrow> ('s, 'a) op) \<Rightarrow> 'x list \<Rightarrow> 'a \<Rightarrow> ('s, 'a) op" where
  "for_s stop body [] a = ret_s a"
| "for_s stop body (x # xs) a =
     (if stop a then ret_s a else bind_s (body x a) (for_s stop body xs))"

text \<open>\<open>while_s n first body a\<close> runs \<open>body\<close> on what \<open>first\<close> selects until it selects nothing; \<open>a\<close>
  is what the loop accumulates. The number \<open>n\<close> bounds the rounds; a loop that needs more has the
  value \<open>Undefined\<close>.\<close>

primrec while_s ::
  "nat \<Rightarrow> ('s \<Rightarrow> 'x option) \<Rightarrow> ('x \<Rightarrow> 'a \<Rightarrow> ('s, 'a) op) \<Rightarrow> 'a \<Rightarrow> ('s, 'a) op" where
  "while_s 0 first body a =
     (\<lambda>s. case first s of None \<Rightarrow> ret_s a s | Some x \<Rightarrow> throw_s Undefined s)"
| "while_s (Suc n) first body a =
     (\<lambda>s. case first s of None \<Rightarrow> ret_s a s
          | Some x \<Rightarrow> bind_s (body x a) (while_s n first body) s)"

lemma op_simps [simp]:
  "ret_s x s = Inr (x, s)"
  "throw_s e s = Inl e"
  "get_s g s = Inr (g s, s)"
  "update_s f s = Inr ((), f s)"
  "lift_s (Inr x) s = Inr (x, s)"
  "lift_s (Inl e) s = Inl e"
  by (simp_all add: ret_s_def throw_s_def get_s_def update_s_def lift_s_def)

lemma bind_s_simps [simp]:
  "m s = Inl e \<Longrightarrow> bind_s m f s = Inl e"
  "m s = Inr (x, s') \<Longrightarrow> bind_s m f s = f x s'"
  by (simp_all add: bind_s_def)

lemma check_s_simps [simp]:
  "check_s True msg s = Inr ((), s)"
  "check_s False msg s = Inl (Assert_exn msg)"
  by (simp_all add: check_s_def)

lemma bind_s_eq_Inr [res_simps]:
  "bind_s m f s = Inr y \<longleftrightarrow> (\<exists>x s'. m s = Inr (x, s') \<and> f x s' = Inr y)"
  by (cases "m s") (auto simp: bind_s_def)

lemma lift_s_eq_Inr [res_simps]: "lift_s r s = Inr (x, s') \<longleftrightarrow> r = Inr x \<and> s' = s"
  by (cases r) auto

lemma check_s_eq_Inr [res_simps]: "check_s c msg s = Inr (u, s') \<longleftrightarrow> c \<and> s' = s"
  by (cases c) auto

lemma read_s_eq_Inr [res_simps]: "read_s g s = Inr (x, s') \<longleftrightarrow> g s = Inr x \<and> s' = s"
  by (cases "g s") (auto simp: read_s_def)

section \<open>Partial correctness\<close>

definition valid :: "('s \<Rightarrow> bool) \<Rightarrow> ('s, 'a) op \<Rightarrow> ('a \<Rightarrow> 's \<Rightarrow> bool) \<Rightarrow> bool" where
  "valid P m Q \<longleftrightarrow> (\<forall>s x s'. P s \<longrightarrow> m s = Inr (x, s') \<longrightarrow> Q x s')"

named_theorems valid_rules \<open>syntax-directed rules of partial correctness\<close>

lemma validI: "(\<And>s x s'. P s \<Longrightarrow> m s = Inr (x, s') \<Longrightarrow> Q x s') \<Longrightarrow> valid P m Q"
  by (simp add: valid_def)

lemma validD: "valid P m Q \<Longrightarrow> m s = Inr (x, s') \<Longrightarrow> P s \<Longrightarrow> Q x s'"
  by (simp add: valid_def)

lemma valid_conseq: "valid P m Q \<Longrightarrow> (\<And>x s. Q x s \<Longrightarrow> Q' x s) \<Longrightarrow> valid P m Q'"
  by (simp add: valid_def)

lemma valid_pre: "valid P' m Q \<Longrightarrow> (\<And>s. P s \<Longrightarrow> P' s) \<Longrightarrow> valid P m Q"
  unfolding valid_def by blast

lemma valid_ret: "(\<And>s. P s \<Longrightarrow> Q x s) \<Longrightarrow> valid P (ret_s x) Q"
  by (simp add: valid_def)

lemma valid_throw [valid_rules]: "valid P (throw_s e) Q"
  by (simp add: valid_def)

lemma valid_bind: "valid P m R \<Longrightarrow> (\<And>x. valid (R x) (f x) Q) \<Longrightarrow> valid P (bind_s m f) Q"
  unfolding valid_def bind_s_eq_Inr by blast

lemma valid_bind_conj:
  "valid P m (\<lambda>x s. A x \<and> R x s) \<Longrightarrow> (\<And>x. A x \<Longrightarrow> valid (R x) (f x) Q) \<Longrightarrow> valid P (bind_s m f) Q"
  unfolding valid_def bind_s_eq_Inr by blast

lemma bind_ret_right: "bind_s m ret_s = m"
  by (rule ext) (simp add: bind_s_def split: sum.split)

lemma valid_tail: "valid P (bind_s m ret_s) Q \<Longrightarrow> valid P m Q"
  by (simp add: bind_ret_right)

lemma valid_if [valid_rules]:
  "(c \<Longrightarrow> valid P m Q) \<Longrightarrow> (\<not> c \<Longrightarrow> valid P n Q) \<Longrightarrow> valid P (if c then m else n) Q"
  by simp

lemma valid_bind_if [valid_rules]:
  "(c \<Longrightarrow> valid P (bind_s m f) Q) \<Longrightarrow> (\<not> c \<Longrightarrow> valid P (bind_s n f) Q) \<Longrightarrow>
   valid P (bind_s (if c then m else n) f) Q"
  by simp

lemma valid_bind_check [valid_rules]:
  "(c \<Longrightarrow> valid P (f ()) Q) \<Longrightarrow> valid P (bind_s (check_s c msg) f) Q"
  by (cases c) (auto simp: valid_def)

lemma valid_bind_lift [valid_rules]:
  "(\<And>x. r = Inr x \<Longrightarrow> valid P (f x) Q) \<Longrightarrow> valid P (bind_s (lift_s r) f) Q"
  unfolding valid_def bind_s_eq_Inr lift_s_eq_Inr by blast

lemma valid_bind_get [valid_rules]:
  "(\<And>x. valid P (f x) Q) \<Longrightarrow> valid P (bind_s (get_s g) f) Q"
  unfolding valid_def bind_s_eq_Inr get_s_def by blast

lemma valid_bind_read [valid_rules]:
  "(\<And>x. valid P (f x) Q) \<Longrightarrow> valid P (bind_s (read_s g) f) Q"
  unfolding valid_def bind_s_eq_Inr read_s_eq_Inr by blast

lemma valid_bind_ret [valid_rules]: "valid P (f x) Q \<Longrightarrow> valid P (bind_s (ret_s x) f) Q"
  by (simp add: valid_def)

lemma valid_bind_assoc [valid_rules]:
  "valid P (bind_s m (\<lambda>x. bind_s (f x) g)) Q \<Longrightarrow> valid P (bind_s (bind_s m f) g) Q"
  unfolding valid_def bind_s_eq_Inr by blast

lemma valid_case_option [valid_rules]:
  "(z = None \<Longrightarrow> valid P m Q) \<Longrightarrow> (\<And>x. z = Some x \<Longrightarrow> valid P (f x) Q) \<Longrightarrow>
   valid P (case z of None \<Rightarrow> m | Some x \<Rightarrow> f x) Q"
  by (simp split: option.split)

lemma valid_case_prod [valid_rules]:
  "(\<And>x y. z = (x, y) \<Longrightarrow> valid P (f x y) Q) \<Longrightarrow> valid P (case z of (x, y) \<Rightarrow> f x y) Q"
  by (cases z) simp

lemma valid_Let [valid_rules]: "(\<And>x. x = v \<Longrightarrow> valid P (f x) Q) \<Longrightarrow> valid P (Let v f) Q"
  by simp

lemma valid_bind_Let [valid_rules]:
  "(\<And>x. x = v \<Longrightarrow> valid P (bind_s (f x) m) Q) \<Longrightarrow> valid P (bind_s (Let v f) m) Q"
  by simp

lemma valid_bind_case_prod [valid_rules]:
  "(\<And>x y. z = (x, y) \<Longrightarrow> valid P (bind_s (f x y) m) Q) \<Longrightarrow>
   valid P (bind_s (case z of (x, y) \<Rightarrow> f x y) m) Q"
  by (cases z) simp

lemma valid_foreach:
  assumes "\<And>x. x \<in> set xs \<Longrightarrow> valid I (body x) (\<lambda>_. I)"
  shows "valid I (foreach_s xs body) (\<lambda>_. I)"
  using assms
proof (induction xs)
  case Nil
  show ?case unfolding foreach_s.simps by (rule valid_ret)
next
  case (Cons x xs)
  have "valid I (foreach_s xs body) (\<lambda>_. I)"
    using Cons.prems by (intro Cons.IH) simp
  then show ?case
    using Cons.prems by (auto intro: valid_bind)
qed

lemma valid_while:
  fixes a :: 'a
  assumes "\<And>x a. valid (\<lambda>s. I a s \<and> first s = Some x) (body x a) I"
  shows "valid (I a) (while_s n first body a) (\<lambda>a s. I a s \<and> first s = None)"
proof (induction n arbitrary: a)
  case 0
  show ?case by (auto simp: valid_def split: option.splits)
next
  case (Suc n)
  show ?case
  proof (rule validI)
    fix s s' and x :: 'a
    assume i: "I a s" and r: "while_s (Suc n) first body a s = Inr (x, s')"
    show "I x s' \<and> first s' = None"
    proof (cases "first s")
      case None
      then show ?thesis using i r by simp
    next
      case (Some y)
      then obtain b t where "body y a s = Inr (b, t)" "while_s n first body b t = Inr (x, s')"
        using r by (auto simp: bind_s_eq_Inr)
      then show ?thesis
        using assms [of a y] Suc.IH [of b] i Some unfolding valid_def by blast
    qed
  qed
qed

section \<open>Total correctness\<close>

definition succeeds :: "('s \<Rightarrow> bool) \<Rightarrow> ('s, 'a) op \<Rightarrow> ('a \<Rightarrow> 's \<Rightarrow> bool) \<Rightarrow> bool" where
  "succeeds P m Q \<longleftrightarrow> (\<forall>s. P s \<longrightarrow> (\<exists>x s'. m s = Inr (x, s') \<and> Q x s'))"

lemma succeedsD: "succeeds P m Q \<Longrightarrow> P s \<Longrightarrow> \<exists>x s'. m s = Inr (x, s') \<and> Q x s'"
  by (simp add: succeeds_def)

lemma succeeds_pre: "succeeds P' m Q \<Longrightarrow> (\<And>s. P s \<Longrightarrow> P' s) \<Longrightarrow> succeeds P m Q"
  unfolding succeeds_def by blast

lemma succeeds_bind:
  "succeeds P m R \<Longrightarrow> (\<And>x. succeeds (R x) (f x) Q) \<Longrightarrow> succeeds P (bind_s m f) Q"
  unfolding succeeds_def by (metis bind_s_simps(2))

text \<open>A loop ends within its bound when every round lowers a measure.\<close>

lemma succeeds_while:
  assumes "\<And>x a k. succeeds (\<lambda>s. I a s \<and> first s = Some x \<and> m s = Suc k) (body x a)
             (\<lambda>b s. I b s \<and> m s \<le> k)"
    and "\<And>a s x. I a s \<Longrightarrow> first s = Some x \<Longrightarrow> m s \<noteq> 0"
  shows "succeeds (\<lambda>s. I a s \<and> m s \<le> n) (while_s n first body a) (\<lambda>b s. I b s \<and> first s = None)"
proof (induction n arbitrary: a)
  case 0
  show ?case
    using assms(2) by (fastforce simp: succeeds_def split: option.split)
next
  case (Suc n)
  have "\<exists>b t. while_s (Suc n) first body a s = Inr (b, t) \<and> I b t \<and> first t = None"
    if i: "I a s" and l: "m s \<le> Suc n" for s
  proof (cases "first s")
    case None
    then show ?thesis using i by simp
  next
    case (Some y)
    obtain k where k: "m s = Suc k" using assms(2) [OF i Some] by (cases "m s") simp_all
    obtain b t where b: "body y a s = Inr (b, t)" "I b t" "m t \<le> k"
      using assms(1) [of a y k] i Some k unfolding succeeds_def by blast
    then have "m t \<le> n" using k l by simp
    then obtain c u where "while_s n first body b t = Inr (c, u)" "I c u" "first u = None"
      using Suc.IH [of b] b(2) unfolding succeeds_def by blast
    then show ?thesis using Some b(1) by simp
  qed
  then show ?case by (simp add: succeeds_def)
qed

section \<open>How an operation changes the state\<close>

text \<open>\<open>moves R m\<close>: whenever \<open>m\<close> succeeds, the states before and after it are related. For a reflexive and
  transitive relation it follows from the parts of the operation.\<close>

definition moves :: "('s \<Rightarrow> 's \<Rightarrow> bool) \<Rightarrow> ('s, 'a) op \<Rightarrow> bool" where
  "moves R m \<longleftrightarrow> (\<forall>s x s'. m s = Inr (x, s') \<longrightarrow> R s s')"

named_theorems moves_rules \<open>syntax-directed rules of the change of the state\<close>

lemma movesD: "moves R m \<Longrightarrow> m s = Inr (x, s') \<Longrightarrow> R s s'"
  by (simp add: moves_def)

lemma moves_weaken: "moves R m \<Longrightarrow> (\<And>s s'. R s s' \<Longrightarrow> Q s s') \<Longrightarrow> moves Q m"
  by (simp add: moves_def)

lemma moves_throw [moves_rules]: "moves R (throw_s e)"
  by (simp add: moves_def)

lemma moves_if [moves_rules]: "moves R m \<Longrightarrow> moves R n \<Longrightarrow> moves R (if c then m else n)"
  by simp

lemma moves_Let [moves_rules]: "(\<And>x. moves R (f x)) \<Longrightarrow> moves R (Let v f)"
  by simp

lemma moves_case_option [moves_rules]:
  "moves R m \<Longrightarrow> (\<And>x. moves R (f x)) \<Longrightarrow> moves R (case z of None \<Rightarrow> m | Some x \<Rightarrow> f x)"
  by (cases z) simp_all

lemma moves_case_prod [moves_rules]: "(\<And>x y. moves R (f x y)) \<Longrightarrow> moves R (case z of (x, y) \<Rightarrow> f x y)"
  by (cases z) simp

locale preorder_of_states =
  fixes R :: "'s \<Rightarrow> 's \<Rightarrow> bool"
  assumes related_refl: "R s s"
    and related_trans: "R s t \<Longrightarrow> R t u \<Longrightarrow> R s u"
begin

lemma moves_bind [moves_rules]: "moves R m \<Longrightarrow> (\<And>x. moves R (f x)) \<Longrightarrow> moves R (bind_s m f)"
  unfolding moves_def bind_s_eq_Inr by (blast intro: related_trans)

lemma moves_ret [moves_rules]: "moves R (ret_s x)"
  by (simp add: moves_def related_refl)

lemma moves_lift [moves_rules]: "moves R (lift_s r)"
  by (auto simp: moves_def lift_s_eq_Inr related_refl)

lemma moves_read [moves_rules]: "moves R (read_s g)"
  by (auto simp: moves_def read_s_eq_Inr related_refl)

lemma moves_get [moves_rules]: "moves R (get_s g)"
  by (auto simp: moves_def get_s_def related_refl)

lemma moves_check [moves_rules]: "moves R (check_s c msg)"
  by (auto simp: moves_def check_s_eq_Inr related_refl)

lemma moves_update: "(\<And>s. R s (u s)) \<Longrightarrow> moves R (update_s u)"
  by (auto simp: moves_def update_s_def)

lemma moves_foreach [moves_rules]: "(\<And>x. moves R (f x)) \<Longrightarrow> moves R (foreach_s xs f)"
  by (induction xs) (auto intro: moves_bind moves_ret)

lemma moves_while [moves_rules]: "(\<And>x a. moves R (body x a)) \<Longrightarrow> moves R (while_s n first body a)"
proof (induction n arbitrary: a)
  case 0
  show ?case by (auto simp: moves_def related_refl split: option.splits)
next
  case (Suc n)
  then have "moves R (bind_s (body x a) (while_s n first body))" for x
    by (intro moves_bind) auto
  then show ?case by (auto simp: moves_def related_refl split: option.splits)
qed

end

end
