(* ===== verification/Table.thy ===== *)
theory Table
  imports State_Exn
begin

text \<open>
  The visible content of a \<^verbatim>\<open>chainbase::generic_index\<close>: objects with the ids they were created
  under, in order of creation, and the id the next object gets. A C++ reference to an object is
  its id. An ordered index over the objects is the list of rows sorted by the comparison of
  that index. The undo history of the index is the subject of the theory \<open>Chainbase\<close>.
\<close>

section \<open>Rows\<close>

record 'a table =
  rows :: "(nat \<times> 'a) list"
  next_id :: nat

definition find_row :: "'a table \<Rightarrow> nat \<Rightarrow> 'a option" where
  "find_row t i = map_of (rows t) i"

definition put_row :: "nat \<Rightarrow> 'a \<Rightarrow> 'a table \<Rightarrow> 'a table" where
  "put_row i x t = t\<lparr>rows := map (\<lambda>(j, y). (j, if j = i then x else y)) (rows t)\<rparr>"

definition drop_row :: "nat \<Rightarrow> 'a table \<Rightarrow> 'a table" where
  "drop_row i t = t\<lparr>rows := filter (\<lambda>(j, y). j \<noteq> i) (rows t)\<rparr>"

definition add_row :: "'a \<Rightarrow> 'a table \<Rightarrow> 'a table" where
  "add_row x t = t\<lparr>rows := rows t @ [(next_id t, x)], next_id := Suc (next_id t)\<rparr>"

definition empty_table :: "'a table" where
  "empty_table = \<lparr>rows = [], next_id = 0\<rparr>"

definition find_by :: "('a \<Rightarrow> bool) \<Rightarrow> 'a table \<Rightarrow> nat option" where
  "find_by P t = map_option fst (List.find (\<lambda>(i, x). P x) (rows t))"

text \<open>\<open>index_rows before t\<close> are the rows in the order of an index; \<open>before\<close> is its comparison.\<close>

primrec insert_row :: "('r \<Rightarrow> 'r \<Rightarrow> bool) \<Rightarrow> 'r \<Rightarrow> 'r list \<Rightarrow> 'r list" where
  "insert_row before r [] = [r]"
| "insert_row before r (q # qs) =
     (if before q r then q # insert_row before r qs else r # q # qs)"

primrec sort_rows :: "('r \<Rightarrow> 'r \<Rightarrow> bool) \<Rightarrow> 'r list \<Rightarrow> 'r list" where
  "sort_rows before [] = []"
| "sort_rows before (r # rs) = insert_row before r (sort_rows before rs)"

definition index_rows ::
  "(nat \<times> 'a \<Rightarrow> nat \<times> 'a \<Rightarrow> bool) \<Rightarrow> 'a table \<Rightarrow> (nat \<times> 'a) list" where
  "index_rows before t = sort_rows before (rows t)"

text \<open>\<open>first_row before due t\<close> is the first row of the index, if there is one and it is \<open>due\<close>.\<close>

definition first_row ::
  "(nat \<times> 'a \<Rightarrow> nat \<times> 'a \<Rightarrow> bool) \<Rightarrow> ('a \<Rightarrow> bool) \<Rightarrow> 'a table \<Rightarrow> nat option" where
  "first_row before due t =
     (case index_rows before t of [] \<Rightarrow> None | (i, x) # _ \<Rightarrow> if due x then Some i else None)"

text \<open>
  Operations of the database on one of its tables, given by how it is read and replaced in the
  state: reading an object, \<^verbatim>\<open>modify\<close>, \<^verbatim>\<open>create\<close> and \<^verbatim>\<open>remove\<close>. A creation that violates a unique
  index throws; a removal runs the check of the object first. Using the id of an object that is
  gone is a dangling reference.
\<close>

definition get_row :: "('s \<Rightarrow> 'a table) \<Rightarrow> nat \<Rightarrow> ('s, 'a) op" where
  "get_row get i = read_s (\<lambda>s. case find_row (get s) i of None \<Rightarrow> Inl Undefined | Some x \<Rightarrow> Inr x)"

definition modify_row ::
  "('s \<Rightarrow> 'a table) \<Rightarrow> ('a table \<Rightarrow> 's \<Rightarrow> 's) \<Rightarrow> nat \<Rightarrow> ('a \<Rightarrow> ('b \<times> 'a) res) \<Rightarrow> ('s, 'b) op" where
  "modify_row get upd i f = (\<lambda>s.
     case find_row (get s) i of None \<Rightarrow> Inl Undefined
     | Some x \<Rightarrow> bind_r (f x) (\<lambda>(y, x'). Inr (y, upd (put_row i x' (get s)) s)))"

definition remove_row ::
  "('s \<Rightarrow> 'a table) \<Rightarrow> ('a table \<Rightarrow> 's \<Rightarrow> 's) \<Rightarrow> ('a \<Rightarrow> unit res) \<Rightarrow> nat \<Rightarrow> ('s, unit) op" where
  "remove_row get upd check_on_remove i = (\<lambda>s.
     case find_row (get s) i of None \<Rightarrow> Inl Undefined
     | Some x \<Rightarrow> bind_r (check_on_remove x) (\<lambda>_. Inr ((), upd (drop_row i (get s)) s)))"

definition create_row ::
  "('s \<Rightarrow> 'a table) \<Rightarrow> ('a table \<Rightarrow> 's \<Rightarrow> 's) \<Rightarrow> ('a \<Rightarrow> 'a \<Rightarrow> bool) \<Rightarrow> 'a \<Rightarrow> ('s, nat) op" where
  "create_row get upd clash x = (\<lambda>s.
     if list_ex (clash x \<circ> snd) (rows (get s)) then Inl Logic_error
     else Inr (next_id (get s), upd (add_row x (get s)) s))"

section \<open>Well-formed tables and totals\<close>

definition table_wf :: "'a table \<Rightarrow> bool" where
  "table_wf t \<longleftrightarrow> distinct (map fst (rows t)) \<and> list_all (\<lambda>(i, x). i < next_id t) (rows t)"

definition total :: "('a \<Rightarrow> int) \<Rightarrow> 'a table \<Rightarrow> int" where
  "total f t = sum_list (map (f \<circ> snd) (rows t))"

definition all_rows :: "('a \<Rightarrow> bool) \<Rightarrow> 'a table \<Rightarrow> bool" where
  "all_rows P t \<longleftrightarrow> list_all (P \<circ> snd) (rows t)"

definition table_size :: "'a table \<Rightarrow> nat" where
  "table_size t = length (rows t)"

lemma find_row_SomeD: "find_row t i = Some x \<Longrightarrow> (i, x) \<in> set (rows t)"
  by (simp add: find_row_def map_of_SomeD)

lemma find_row_eq: "table_wf t \<Longrightarrow> find_row t i = Some x \<longleftrightarrow> (i, x) \<in> set (rows t)"
  by (simp add: find_row_def table_wf_def)

lemma table_wf_put [simp]: "table_wf (put_row i x t) = table_wf t"
proof -
  have "map fst (map (\<lambda>(j, y). (j, if j = i then x else y)) rs) = map fst rs"
    and "list_all (\<lambda>(i, x). i < n) (map (\<lambda>(j, y). (j, if j = i then x else y)) rs) =
      list_all (\<lambda>(i, x). i < n) rs" for rs :: "(nat \<times> 'a) list" and n
    by (induction rs) auto
  then show ?thesis by (simp add: table_wf_def put_row_def del: map_map)
qed

lemma table_wf_drop [simp]: "table_wf t \<Longrightarrow> table_wf (drop_row i t)"
  by (auto simp: table_wf_def drop_row_def list_all_iff distinct_map intro: inj_on_subset)

lemma table_wf_add [simp]: "table_wf t \<Longrightarrow> table_wf (add_row x t)"
  by (auto simp: table_wf_def add_row_def list_all_iff)

lemma table_wf_empty [simp]: "table_wf empty_table"
  by (simp add: table_wf_def empty_table_def)

lemma total_put:
  assumes "table_wf t" "find_row t i = Some x"
  shows "total f (put_row i y t) = total f t - f x + f y"
proof -
  have other: "map (\<lambda>(j, z). (j, if j = i then y else z)) rs = rs" if "i \<notin> fst ` set rs" for rs
    using that by (induction rs) auto
  have "sum_list (map (f \<circ> snd) (map (\<lambda>(j, z). (j, if j = i then y else z)) rs)) =
      sum_list (map (f \<circ> snd) rs) - f x + f y"
    if "distinct (map fst rs)" "map_of rs i = Some x" for rs
    using that
  proof (induction rs)
    case (Cons r rs)
    obtain j z where r: "r = (j, z)" by (cases r)
    show ?case
    proof (cases "j = i")
      case True
      then show ?thesis
        using Cons.prems other [of rs] by (simp add: r)
    next
      case False
      then show ?thesis using Cons by (simp add: r)
    qed
  qed simp
  then show ?thesis
    using assms by (simp add: table_wf_def find_row_def total_def put_row_def)
qed

lemma total_drop:
  assumes "table_wf t" "find_row t i = Some x"
  shows "total f (drop_row i t) = total f t - f x"
proof -
  have other: "filter (\<lambda>(j, z). j \<noteq> i) rs = rs" if "i \<notin> fst ` set rs" for rs :: "(nat \<times> 'a) list"
    using that by (induction rs) auto
  have "sum_list (map (f \<circ> snd) (filter (\<lambda>(j, z). j \<noteq> i) rs)) = sum_list (map (f \<circ> snd) rs) - f x"
    if "distinct (map fst rs)" "map_of rs i = Some x" for rs
    using that
  proof (induction rs)
    case (Cons r rs)
    obtain j z where r: "r = (j, z)" by (cases r)
    show ?case
    proof (cases "j = i")
      case True
      then show ?thesis
        using Cons.prems other [of rs] by (simp add: r)
    next
      case False
      then show ?thesis using Cons by (simp add: r)
    qed
  qed simp
  then show ?thesis
    using assms by (simp add: table_wf_def find_row_def total_def drop_row_def)
qed

lemma total_add: "total f (add_row x t) = total f t + f x"
  by (simp add: total_def add_row_def)

lemma all_rows_find: "all_rows P t \<Longrightarrow> find_row t i = Some x \<Longrightarrow> P x"
  by (fastforce simp: all_rows_def list_all_iff dest: find_row_SomeD)

lemma all_rows_put [simp]: "all_rows P t \<Longrightarrow> P x \<Longrightarrow> all_rows P (put_row i x t)"
  by (auto simp: all_rows_def put_row_def list_all_iff)

lemma all_rows_drop [simp]: "all_rows P t \<Longrightarrow> all_rows P (drop_row i t)"
  by (auto simp: all_rows_def drop_row_def list_all_iff)

lemma all_rows_add [simp]: "all_rows P (add_row x t) \<longleftrightarrow> all_rows P t \<and> P x"
  by (auto simp: all_rows_def add_row_def list_all_iff)

lemma all_rows_empty [simp]: "all_rows P empty_table"
  by (simp add: all_rows_def empty_table_def)

lemma total_nonneg: "all_rows (\<lambda>x. 0 \<le> f x) t \<Longrightarrow> 0 \<le> total f t"
  unfolding total_def by (rule sum_list_nonneg) (auto simp: all_rows_def list_all_iff)

lemma find_row_put:
  "find_row (put_row i x t) j =
     (if j = i then map_option (\<lambda>_. x) (find_row t i) else find_row t j)"
proof -
  have "map_of (map (\<lambda>(j, y). (j, if j = i then x else y)) rs) j =
      (if j = i then map_option (\<lambda>_. x) (map_of rs i) else map_of rs j)" for rs :: "(nat \<times> 'a) list"
    by (induction rs) auto
  then show ?thesis by (simp add: find_row_def put_row_def)
qed

lemma find_row_drop: "find_row (drop_row i t) j = (if j = i then None else find_row t j)"
proof -
  have "map_of (filter (\<lambda>(j, y). j \<noteq> i) rs) j = (if j = i then None else map_of rs j)"
    for rs :: "(nat \<times> 'a) list"
    by (induction rs) auto
  then show ?thesis by (simp add: find_row_def drop_row_def)
qed

lemma find_row_add:
  assumes "table_wf t"
  shows "find_row (add_row x t) j = (if j = next_id t then Some x else find_row t j)"
proof -
  have "map_of (rows t) (next_id t) = None"
    using assms by (auto simp: table_wf_def list_all_iff map_of_eq_None_iff)
  then show ?thesis
    by (auto simp: find_row_def add_row_def map_add_def split: option.split)
qed

lemma table_size_put [simp]: "table_size (put_row i x t) = table_size t"
  by (simp add: table_size_def put_row_def)

lemma table_size_drop:
  assumes "find_row t i = Some x"
  shows "table_size (drop_row i t) < table_size t"
  unfolding table_size_def drop_row_def
  using find_row_SomeD [OF assms] by (auto intro!: length_filter_less)

section \<open>Indexes\<close>

lemma set_insert_row [simp]: "set (insert_row before r rs) = insert r (set rs)"
  by (induction rs) auto

lemma set_sort_rows [simp]: "set (sort_rows before rs) = set rs"
  by (induction rs) auto

lemma set_index_rows [simp]: "set (index_rows before t) = set (rows t)"
  by (simp add: index_rows_def)

lemma first_row_SomeD:
  assumes "table_wf t" "first_row before due t = Some i"
  obtains x where "find_row t i = Some x" "due x"
proof -
  obtain x rs where "index_rows before t = (i, x) # rs" "due x"
    using assms(2) by (auto simp: first_row_def split: list.splits if_splits)
  moreover from this have "(i, x) \<in> set (rows t)"
    using set_index_rows [of before t] by auto
  ultimately show ?thesis
    using that assms(1) by (simp add: find_row_eq)
qed

lemma find_by_SomeD:
  assumes "table_wf t" "find_by P t = Some i"
  obtains x where "find_row t i = Some x" "P x"
proof -
  obtain r where "List.find (\<lambda>(i, x). P x) (rows t) = Some r" "i = fst r"
    using assms(2) by (auto simp: find_by_def)
  then have "r \<in> set (rows t)" "P (snd r)" "r = (i, snd r)"
    by (auto simp: find_Some_iff in_set_conv_nth)
  then show ?thesis
    using that assms(1) by (metis find_row_eq)
qed

section \<open>The interface of an object table\<close>

text \<open>What the operations on objects rely on: reading, replacing, removing and creating an object
  change the total of a quantity by what the one object contributes.\<close>

locale object_table =
  fixes find :: "'t \<Rightarrow> nat \<Rightarrow> 'a option"
    and put :: "nat \<Rightarrow> 'a \<Rightarrow> 't \<Rightarrow> 't"
    and drop :: "nat \<Rightarrow> 't \<Rightarrow> 't"
    and add :: "'a \<Rightarrow> 't \<Rightarrow> 't"
    and wf :: "'t \<Rightarrow> bool"
    and sum :: "('a \<Rightarrow> int) \<Rightarrow> 't \<Rightarrow> int"
  assumes put_wf: "wf t \<Longrightarrow> wf (put i x t)"
    and drop_wf: "wf t \<Longrightarrow> wf (drop i t)"
    and add_wf: "wf t \<Longrightarrow> wf (add x t)"
    and put_sum: "wf t \<Longrightarrow> find t i = Some x \<Longrightarrow> sum f (put i y t) = sum f t - f x + f y"
    and drop_sum: "wf t \<Longrightarrow> find t i = Some x \<Longrightarrow> sum f (drop i t) = sum f t - f x"
    and add_sum: "wf t \<Longrightarrow> sum f (add x t) = sum f t + f x"
    and find_put: "find (put i x t) i = map_option (\<lambda>_. x) (find t i)"
begin

lemma put_same_sum:
  assumes "wf t" "find t i = Some x" "f y = f x"
  shows "sum f (put i y t) = sum f t"
  using put_sum [OF assms(1,2)] assms(3) by simp

lemma put_put_sum:
  assumes "wf t" "find t i = Some x"
  shows "sum f (put i z (put i y t)) = sum f (put i z t)"
  using put_sum [OF assms] put_sum [OF put_wf [OF assms(1)], of i y i y] assms find_put [of i y t]
  by simp

text \<open>Emptying an object into a temporary balance and removing it is removing it.\<close>

lemma put_drop_sum:
  assumes "wf t" "find t i = Some x" "f y = 0"
  shows "sum f (drop i (put i y t)) = sum f t - f x"
  using put_sum [OF assms(1,2)] drop_sum [OF put_wf [OF assms(1)], of i y i y] assms(2,3)
    find_put [of i y t] by simp

end

interpretation tab: object_table find_row put_row drop_row add_row table_wf total
  by unfold_locales (simp_all add: total_put total_drop total_add find_row_put)

lemma valid_get_row [valid_rules]:
  "(\<And>x. valid P (m x) Q) \<Longrightarrow> valid P (bind_s (get_row get i) m) Q"
  unfolding get_row_def by (rule valid_bind_read)

lemma moves_modify_row: "(\<And>s t. R s (upd t s)) \<Longrightarrow> moves R (modify_row get upd i f)"
  by (auto simp: moves_def modify_row_def bind_r_eq_Inr split: option.splits)

lemma moves_create_row: "(\<And>s t. R s (upd t s)) \<Longrightarrow> moves R (create_row get upd clash x)"
  by (auto simp: moves_def create_row_def split: if_splits)

lemma moves_remove_row: "(\<And>s t. R s (upd t s)) \<Longrightarrow> moves R (remove_row get upd check i)"
  by (auto simp: moves_def remove_row_def bind_r_eq_Inr split: option.splits)

context preorder_of_states
begin

lemma moves_get_row [moves_rules]: "moves R (get_row get i)"
  unfolding get_row_def by (rule moves_read)

end

section \<open>Sorted indexes\<close>

text \<open>\<open>ge\<close> is the order an index is sorted by, and \<open>before\<close> its comparison, which also breaks ties.\<close>

lemma sorted_insert_row:
  assumes "\<And>x y. x \<in> S \<Longrightarrow> y \<in> S \<Longrightarrow> before x y \<Longrightarrow> ge x y"
    "\<And>x y. x \<in> S \<Longrightarrow> y \<in> S \<Longrightarrow> \<not> before x y \<Longrightarrow> ge y x"
    "\<And>x y z. x \<in> S \<Longrightarrow> y \<in> S \<Longrightarrow> z \<in> S \<Longrightarrow> ge x y \<Longrightarrow> ge y z \<Longrightarrow> ge x z"
    and "r \<in> S" "set qs \<subseteq> S" "sorted_wrt ge qs"
  shows "sorted_wrt ge (insert_row before r qs)"
  using assms(4-)
proof (induction qs)
  case (Cons q qs)
  show ?case
  proof (cases "before q r")
    case True
    then show ?thesis using Cons assms(1) [of q r] by auto
  next
    case False
    then have "ge r q" using Cons.prems assms(2) by auto
    then show ?thesis using Cons.prems False assms(3) [of r q] by auto
  qed
qed simp

lemma sorted_sort_rows:
  assumes "\<And>x y. x \<in> S \<Longrightarrow> y \<in> S \<Longrightarrow> before x y \<Longrightarrow> ge x y"
    "\<And>x y. x \<in> S \<Longrightarrow> y \<in> S \<Longrightarrow> \<not> before x y \<Longrightarrow> ge y x"
    "\<And>x y z. x \<in> S \<Longrightarrow> y \<in> S \<Longrightarrow> z \<in> S \<Longrightarrow> ge x y \<Longrightarrow> ge y z \<Longrightarrow> ge x z"
    and "set rs \<subseteq> S"
  shows "sorted_wrt ge (sort_rows before rs)"
  using assms(4)
proof (induction rs)
  case (Cons r rs)
  then show ?case
    unfolding sort_rows.simps by (intro sorted_insert_row [OF assms(1-3)]) auto
qed simp

text \<open>A range of a sorted index that is given by two bounds.\<close>

lemma takeWhile_sorted:
  assumes "sorted_wrt ge ls" "\<And>x y. x \<in> set ls \<Longrightarrow> y \<in> set ls \<Longrightarrow> ge x y \<Longrightarrow> P y \<Longrightarrow> P x"
    "x \<in> set ls" "P x"
  shows "x \<in> set (takeWhile P ls)"
  using assms
proof (induction ls)
  case (Cons y ls)
  then show ?case by (cases "x = y") auto
qed simp

lemma dropWhile_sorted:
  assumes "sorted_wrt ge ls" "\<And>x y. x \<in> set ls \<Longrightarrow> y \<in> set ls \<Longrightarrow> ge x y \<Longrightarrow> P y \<Longrightarrow> P x"
    "x \<in> set (dropWhile P ls)"
  shows "\<not> P x"
  using assms
proof (induction ls)
  case (Cons y ls)
  then show ?case by (cases "P y") auto
qed simp

lemma range_of_index:
  assumes "sorted_wrt ge ls"
    "\<And>x y. x \<in> set ls \<Longrightarrow> y \<in> set ls \<Longrightarrow> ge x y \<Longrightarrow> P y \<Longrightarrow> P x"
    "\<And>x y. x \<in> set ls \<Longrightarrow> y \<in> set ls \<Longrightarrow> ge x y \<Longrightarrow> Q y \<Longrightarrow> Q x"
  shows "set (drop (length (takeWhile P ls)) (take (length (takeWhile Q ls)) ls)) = {x \<in> set ls. Q x \<and> \<not> P x}"
proof -
  have drp: "\<not> P x" if "x \<in> set (dropWhile P ls)" for x
    by (rule dropWhile_sorted [of ge ls P]) (use assms(1,2) that in blast)+
  have tak: "x \<in> set (takeWhile Q ls)" if "x \<in> set ls" "Q x" for x
    by (rule takeWhile_sorted [of ge ls Q]) (use assms(1,3) that in blast)+
  have q: "take (length (takeWhile Q ls)) ls = takeWhile Q ls" by (rule takeWhile_eq_take [symmetric])
  have p: "drop (length (takeWhile P ls)) (take k ls) = take (k - length (takeWhile P ls)) (dropWhile P ls)" for k
    by (simp add: drop_take dropWhile_eq_drop)
  have "x \<in> set (takeWhile Q ls) \<and> x \<in> set (dropWhile P ls)"
    if "x \<in> set (drop (length (takeWhile P ls)) (take (length (takeWhile Q ls)) ls))" for x
    using that in_set_dropD [OF that] in_set_takeD [of x _ "dropWhile P ls"] unfolding p by (simp add: q)
  then have "set (drop (length (takeWhile P ls)) (take (length (takeWhile Q ls)) ls)) \<subseteq> {x \<in> set ls. Q x \<and> \<not> P x}"
    using drp set_takeWhileD [of _ Q ls] by (simp add: subset_iff)
  moreover have "x \<in> set (drop (length (takeWhile P ls)) (take (length (takeWhile Q ls)) ls))"
    if x: "x \<in> set ls" "\<not> P x" "Q x" for x
  proof -
    have "x \<in> set (takeWhile Q ls)" using x(1,3) by (rule tak)
    then have "x \<in> set (take (length (takeWhile P ls)) (takeWhile Q ls)) \<or>
        x \<in> set (drop (length (takeWhile P ls)) (takeWhile Q ls))"
      by (metis Un_iff append_take_drop_id set_append)
    moreover have "set (take (length (takeWhile P ls)) (take k ls)) \<subseteq> set (takeWhile P ls)" for k
      unfolding take_take by (metis min.commute set_take_subset take_take takeWhile_eq_take)
    ultimately show ?thesis using x(2) q set_takeWhileD [of x P ls] by (metis subsetD)
  qed
  ultimately show ?thesis by blast
qed

end
