(* ===== verification/Balance.thy ===== *)
theory Balance
  imports Asset State_Exn
begin

text \<open>
  Balances (\<^verbatim>\<open>chain/util/balance.hpp\<close>): amounts that can only be moved, never copied. A balance of a
  dynamic symbol is an \<open>asset\<close>, one of a fixed symbol a \<open>tiny_asset\<close>; temporary balances have the
  same representation. A move gives the new destination and the new source. The destructor of a
  temporary balance throws unless the balance is empty; \<open>drop_temp\<close> and \<open>drop_tiny_temp\<close> are the
  end of its scope when no exception is in flight.
\<close>

section \<open>Moving funds\<close>

definition is_empty :: "asset \<Rightarrow> bool" where
  "is_empty b \<longleftrightarrow> amount b = 0"

definition is_valid :: "asset \<Rightarrow> bool" where
  "is_valid b \<longleftrightarrow> amount b \<ge> 0"

definition tiny_is_empty :: "tiny_asset \<Rightarrow> bool" where
  "tiny_is_empty b \<longleftrightarrow> tamount b = 0"

definition tiny_is_valid :: "tiny_asset \<Rightarrow> bool" where
  "tiny_is_valid b \<longleftrightarrow> tamount b \<ge> 0"

definition balance_transfer_from ::
  "fc_lib \<Rightarrow> asset \<Rightarrow> asset \<Rightarrow> asset \<Rightarrow> (asset \<times> asset) res" where
  "balance_transfer_from F this source delta =
     bind_r (asset_plus_assign F this delta) (\<lambda>funds.
     bind_r (asset_minus_assign F source delta) (\<lambda>source_funds.
     bind_r (check_r (is_valid funds \<and> is_valid source_funds) ''balance underflow'') (\<lambda>_.
     Inr (funds, source_funds))))"

definition balance_transfer_from_tiny ::
  "32 word \<Rightarrow> fc_lib \<Rightarrow> asset \<Rightarrow> tiny_asset \<Rightarrow> tiny_asset \<Rightarrow> (asset \<times> tiny_asset) res" where
  "balance_transfer_from_tiny SYMBOL F this source delta =
     bind_r (asset_plus_assign F this (tiny_to_asset SYMBOL delta)) (\<lambda>funds.
     bind_r (tiny_minus F source delta) (\<lambda>source_funds.
     bind_r (check_r (is_valid funds \<and> tiny_is_valid source_funds) ''balance underflow'') (\<lambda>_.
     Inr (funds, source_funds))))"

definition tiny_transfer_from_balance ::
  "32 word \<Rightarrow> fc_lib \<Rightarrow> tiny_asset \<Rightarrow> asset \<Rightarrow> asset \<Rightarrow> (tiny_asset \<times> asset) res" where
  "tiny_transfer_from_balance SYMBOL F this source delta =
     bind_r (tiny_of_asset SYMBOL delta) (\<lambda>d.
     bind_r (tiny_plus F this d) (\<lambda>funds.
     bind_r (asset_minus_assign F source delta) (\<lambda>source_funds.
     bind_r (check_r (tiny_is_valid funds \<and> is_valid source_funds) ''balance underflow'') (\<lambda>_.
     Inr (funds, source_funds)))))"

definition tiny_transfer_from ::
  "fc_lib \<Rightarrow> tiny_asset \<Rightarrow> tiny_asset \<Rightarrow> tiny_asset \<Rightarrow> (tiny_asset \<times> tiny_asset) res" where
  "tiny_transfer_from F this source delta =
     bind_r (tiny_plus F this delta) (\<lambda>funds.
     bind_r (tiny_minus F source delta) (\<lambda>source_funds.
     bind_r (check_r (tiny_is_valid funds \<and> tiny_is_valid source_funds) ''balance underflow'')
       (\<lambda>_. Inr (funds, source_funds))))"

section \<open>Temporary balances\<close>

definition temp_balance :: "asset_symbol_type \<Rightarrow> asset" where
  "temp_balance symbol_id = mk_asset 0 symbol_id"

definition temp_tiny_balance :: tiny_asset where
  "temp_tiny_balance = tiny 0"

definition issue_asset :: "fc_lib \<Rightarrow> tiny_asset \<Rightarrow> tiny_asset \<Rightarrow> tiny_asset res" where
  "issue_asset F this a =
     bind_r (check_r (tamount a \<ge> 0) ''Can't issue negative funds'') (\<lambda>_. tiny_plus F this a)"

definition burn_asset :: "fc_lib \<Rightarrow> tiny_asset \<Rightarrow> tiny_asset \<Rightarrow> tiny_asset res" where
  "burn_asset F this a =
     bind_r (check_r (tamount a \<ge> 0) ''Can't burn negative funds'') (\<lambda>_.
     bind_r (tiny_minus F this a) (\<lambda>funds.
     bind_r (check_r (tiny_is_valid funds) ''Balance underflow'') (\<lambda>_. Inr funds)))"

definition drop_temp :: "asset \<Rightarrow> unit res" where
  "drop_temp b = check_r (is_empty b) ''Destruction of funds''"

definition drop_tiny_temp :: "tiny_asset \<Rightarrow> unit res" where
  "drop_tiny_temp b = check_r (tiny_is_empty b) ''Destruction of funds''"

section \<open>Conservation\<close>

definition bal_ok :: "asset \<Rightarrow> bool" where
  "bal_ok b \<longleftrightarrow> 0 \<le> amount b \<and> in_i64 (amount b)"

definition tiny_ok :: "tiny_asset \<Rightarrow> bool" where
  "tiny_ok b \<longleftrightarrow> 0 \<le> tamount b \<and> in_i64 (tamount b)"

lemma tamount_tiny [simp]: "tamount (tiny x) = x"
  by (simp add: tiny_def)

lemma tiny_collapse [simp]: "tiny (tamount b) = b"
  by (simp add: tiny_def)

lemma mk_asset_simps [simp]: "amount (mk_asset a s) = a" "symbol (mk_asset a s) = s"
  by (simp_all add: mk_asset_def)

lemma temp_balance_simps [simp]:
  "amount (temp_balance s) = 0" "symbol (temp_balance s) = s" "bal_ok (temp_balance s)"
  "tamount temp_tiny_balance = 0" "tiny_ok temp_tiny_balance"
  by (simp_all add: temp_balance_def temp_tiny_balance_def bal_ok_def tiny_ok_def)

lemma tiny_eq_iff: "tiny v = c \<longleftrightarrow> tamount c = v"
  by (cases c) (auto simp: tiny_def)

lemma tiny_plus_Inr:
  assumes "fc_ok F" "in_i64 (tamount a)" "in_i64 (tamount b)"
  shows "tiny_plus F a b = Inr c \<longleftrightarrow> tamount c = tamount a + tamount b \<and> in_i64 (tamount c)"
  unfolding tiny_plus_def bind_r_eq_Inr safe_Inr(1) [OF assms] by (auto simp: tiny_eq_iff)

lemma tiny_minus_Inr:
  assumes "fc_ok F" "in_i64 (tamount a)" "in_i64 (tamount b)"
  shows "tiny_minus F a b = Inr c \<longleftrightarrow> tamount c = tamount a - tamount b \<and> in_i64 (tamount c)"
  unfolding tiny_minus_def bind_r_eq_Inr safe_Inr(2) [OF assms] by (auto simp: tiny_eq_iff)

lemma tiny_uminus_Inr:
  assumes "fc_ok F" "in_i64 (tamount a)"
  shows "tiny_uminus F a = Inr c \<longleftrightarrow> tamount c = - tamount a \<and> in_i64 (tamount c)"
  unfolding tiny_uminus_def bind_r_eq_Inr safe_Inr(6) [OF assms in_i64_0]
  by (auto simp: tiny_eq_iff)

lemma asset_assign_Inr:
  assumes "fc_ok F" "in_i64 (amount a)" "in_i64 (amount b)"
  shows "asset_plus_assign F a b = Inr c \<longleftrightarrow>
      symbol a = symbol b \<and> symbol c = symbol b \<and> amount c = amount a + amount b \<and>
      in_i64 (amount c)"
    and "asset_minus_assign F a b = Inr c \<longleftrightarrow>
      symbol a = symbol b \<and> symbol c = symbol b \<and> amount c = amount a - amount b \<and>
      in_i64 (amount c)"
  using safe_Inr(1,2) [OF assms]
  by (auto simp: asset_plus_assign_def asset_minus_assign_def bind_r_eq_Inr)

lemma mk_asset_eq_iff: "mk_asset v s = c \<longleftrightarrow> amount c = v \<and> symbol c = s"
  by (cases c) (auto simp: mk_asset_def)

lemma asset_uminus_Inr:
  assumes "fc_ok F" "in_i64 (amount a)"
  shows "asset_uminus F a = Inr c \<longleftrightarrow>
    symbol c = symbol a \<and> amount c = - amount a \<and> in_i64 (amount c)"
  unfolding asset_uminus_def bind_r_eq_Inr safe_Inr(6) [OF assms in_i64_0]
  by (auto simp: mk_asset_eq_iff)

lemma tiny_of_asset_Inr: "tiny_of_asset S a = Inr c \<longleftrightarrow> asset_num (symbol a) = S \<and> c = tiny (amount a)"
  by (auto simp: tiny_of_asset_def tiny_check_def bind_r_eq_Inr)

lemma tiny_to_asset_simps [simp]:
  "amount (tiny_to_asset S a) = tamount a" "symbol (tiny_to_asset S a) = from_asset_num S"
  by (simp_all add: tiny_to_asset_def tiny_get_symbol_def)

lemma asset_num_iff: "asset_num s = n \<longleftrightarrow> from_asset_num n = s"
  by (cases s) (auto simp: from_asset_num_def)

text \<open>
  The interface of a move, whatever the two representations: it succeeds exactly when both sides
  stay non-negative and in range, and what one side gains the other loses.
\<close>

locale fund_move =
  fixes move :: "fc_lib \<Rightarrow> 'a \<Rightarrow> 'b \<Rightarrow> 'd \<Rightarrow> ('a \<times> 'b) res"
    and to_val :: "'a \<Rightarrow> int" and from_val :: "'b \<Rightarrow> int" and delta_val :: "'d \<Rightarrow> int"
    and to_sym :: "'a \<Rightarrow> asset_symbol_type" and from_sym :: "'b \<Rightarrow> asset_symbol_type"
    and delta_sym :: "'d \<Rightarrow> asset_symbol_type"
  assumes move_iff:
    "fc_ok F \<Longrightarrow> in_i64 (to_val a) \<Longrightarrow> in_i64 (from_val b) \<Longrightarrow> in_i64 (delta_val d) \<Longrightarrow>
     move F a b d = Inr (a', b') \<longleftrightarrow>
       to_sym a = delta_sym d \<and> from_sym b = delta_sym d \<and>
       to_sym a' = delta_sym d \<and> from_sym b' = delta_sym d \<and>
       to_val a' = to_val a + delta_val d \<and> from_val b' = from_val b - delta_val d \<and>
       0 \<le> to_val a' \<and> 0 \<le> from_val b' \<and> in_i64 (to_val a') \<and> in_i64 (from_val b')"
begin

lemma conserves:
  assumes "fc_ok F" "in_i64 (to_val a)" "in_i64 (from_val b)" "in_i64 (delta_val d)"
    and "move F a b d = Inr (a', b')"
  shows "to_val a' + from_val b' = to_val a + from_val b"
    and "0 \<le> to_val a'" "0 \<le> from_val b'" "in_i64 (to_val a')" "in_i64 (from_val b')"
  using assms by (auto simp: move_iff)

lemma move_all_empties:
  assumes "fc_ok F" "in_i64 (to_val a)" "in_i64 (from_val b)" "delta_val d = from_val b"
    and "move F a b d = Inr (a', b')"
  shows "from_val b' = 0"
  using assms by (simp add: move_iff)

end

interpretation bal: fund_move balance_transfer_from amount amount amount symbol symbol symbol
  by unfold_locales
    (auto simp: balance_transfer_from_def bind_r_eq_Inr asset_assign_Inr is_valid_def)

interpretation from_tiny: fund_move "balance_transfer_from_tiny S" amount tamount tamount symbol
    "\<lambda>_. from_asset_num S" "\<lambda>_. from_asset_num S"
  by unfold_locales
    (auto simp: balance_transfer_from_tiny_def bind_r_eq_Inr asset_assign_Inr tiny_minus_Inr
      is_valid_def tiny_is_valid_def)

interpretation from_bal: fund_move "tiny_transfer_from_balance S" tamount amount amount
    "\<lambda>_. from_asset_num S" symbol symbol
proof unfold_locales
  fix F and a a' :: tiny_asset and b d b' :: asset
  assume "fc_ok F" "in_i64 (tamount a)" "in_i64 (amount b)" "in_i64 (amount d)"
  then show "tiny_transfer_from_balance S F a b d = Inr (a', b') \<longleftrightarrow>
       from_asset_num S = symbol d \<and> symbol b = symbol d \<and>
       from_asset_num S = symbol d \<and> symbol b' = symbol d \<and>
       tamount a' = tamount a + amount d \<and> amount b' = amount b - amount d \<and>
       0 \<le> tamount a' \<and> 0 \<le> amount b' \<and> in_i64 (tamount a') \<and> in_i64 (amount b')"
    by (auto simp: tiny_transfer_from_balance_def bind_r_eq_Inr asset_assign_Inr tiny_plus_Inr
      tiny_of_asset_Inr is_valid_def tiny_is_valid_def asset_num_iff)
qed

interpretation tin: fund_move tiny_transfer_from tamount tamount tamount
    "\<lambda>_. HIVE_SYMBOL" "\<lambda>_. HIVE_SYMBOL" "\<lambda>_. HIVE_SYMBOL"
  by unfold_locales
    (auto simp: tiny_transfer_from_def bind_r_eq_Inr tiny_plus_Inr tiny_minus_Inr tiny_is_valid_def)

lemma issue_asset_Inr:
  "fc_ok F \<Longrightarrow> in_i64 (tamount b) \<Longrightarrow> in_i64 (tamount a) \<Longrightarrow> issue_asset F b a = Inr c \<longleftrightarrow>
   0 \<le> tamount a \<and> tamount c = tamount b + tamount a \<and> in_i64 (tamount c)"
  by (auto simp: issue_asset_def bind_r_eq_Inr tiny_plus_Inr)

lemma burn_asset_Inr:
  "fc_ok F \<Longrightarrow> in_i64 (tamount b) \<Longrightarrow> in_i64 (tamount a) \<Longrightarrow> burn_asset F b a = Inr c \<longleftrightarrow>
   0 \<le> tamount a \<and> tamount c = tamount b - tamount a \<and> 0 \<le> tamount c \<and> in_i64 (tamount c)"
  by (auto simp: burn_asset_def bind_r_eq_Inr tiny_minus_Inr tiny_is_valid_def)

lemma drop_temp_Inr [simp]:
  "drop_temp b = Inr u \<longleftrightarrow> amount b = 0" "drop_tiny_temp c = Inr u \<longleftrightarrow> tamount c = 0"
  by (simp_all add: drop_temp_def drop_tiny_temp_def is_empty_def tiny_is_empty_def)

end
