(* ===== verification/Ledger.thy ===== *)
theory Ledger
  imports Table Balance Manabar
begin

text \<open>
  The chain state that holds funds, and the operations of \<^verbatim>\<open>database.cpp\<close> and
  \<^verbatim>\<open>global_property_object.hpp\<close> through which all other components move them. The record \<open>ledger\<close>
  has one table per object type, the global properties and the price feed. A reference to an
  object is its id; \<^verbatim>\<open>modify\<close> reads the object, computes the new one and stores it.
  Virtual operations are notifications to plugins and change no state, so they have no
  counterpart. Times are \<^verbatim>\<open>uint32_t\<close> seconds.
\<close>

section \<open>Objects\<close>

text \<open>Votes of an account that become effective thirty days after their VESTS were acquired.\<close>

record delayed_votes_data =
  dv_time :: "32 word"
  dv_val :: "64 word"

text \<open>The proxy is the id of an account or the null id.\<close>

record account_object =
  acc_proxy :: "nat option"
  acc_name :: string
  hbd_seconds :: "128 word"
  savings_hbd_seconds :: "128 word"
  voting_manabar :: manabar
  downvote_manabar :: manabar
  rc_manabar :: manabar
  hbd_balance :: HBD_asset
  savings_hbd_balance :: HBD_asset
  reward_hbd_balance :: HBD_asset
  reward_hive_balance :: HIVE_asset
  reward_vesting_hive :: HIVE_asset
  hive_balance :: HIVE_asset
  savings_hive_balance :: HIVE_asset
  reward_vesting_balance :: VEST_asset
  vesting_shares :: VEST_asset
  delegated_vesting_shares :: VEST_asset
  received_vesting_shares :: VEST_asset
  vesting_withdraw_rate :: VEST_asset
  withdrawn :: VEST_asset
  to_withdraw :: VEST_asset
  rc_adjustment :: int
  delegated_rc :: int
  received_rc :: int
  last_max_rc :: int
  sum_delayed_votes :: "64 word"
  hbd_seconds_last_update :: "32 word"
  hbd_last_interest_payment :: "32 word"
  savings_hbd_seconds_last_update :: "32 word"
  savings_hbd_last_interest_payment :: "32 word"
  next_vesting_withdrawal :: "32 word"
  governance_vote_expiration_ts :: "32 word"
  pending_escrow_transfers :: "16 word"
  open_recurrent_transfers :: "16 word"
  witnesses_voted_for :: "16 word"
  savings_withdraw_requests :: "8 word"
  can_vote :: bool
  proxied_vsf_votes :: "int list"
  delayed_votes :: "delayed_votes_data list"

record convert_request_object =
  cr_owner :: nat
  cr_amount :: HBD_asset
  cr_requestid :: "32 word"
  cr_conversion_date :: "32 word"

record collateralized_convert_request_object =
  ccr_owner :: nat
  collateral_amount :: HIVE_asset
  converted_amount :: HBD_asset
  ccr_requestid :: "32 word"
  ccr_conversion_date :: "32 word"

record escrow_object =
  escrow_id :: "32 word"
  esc_from :: string
  esc_to :: string
  esc_agent :: string
  ratification_deadline :: "32 word"
  escrow_expiration :: "32 word"
  esc_hbd_balance :: HBD_asset
  esc_hive_balance :: HIVE_asset
  pending_fee :: asset
  to_approved :: bool
  agent_approved :: bool
  disputed :: bool

record savings_withdraw_object =
  sw_from :: string
  sw_to :: string
  sw_memo :: string
  sw_request_id :: "32 word"
  sw_amount :: asset
  sw_complete :: "32 word"

record limit_order_object =
  lo_created :: "32 word"
  lo_expiration :: "32 word"
  lo_orderid :: "32 word"
  lo_seller :: string
  for_sale :: asset
  sell_price :: price

record liquidity_reward_balance_object =
  lr_owner :: nat
  lr_last_update :: "32 word"
  lr_weight :: "128 word"
  hive_volume :: int
  hbd_volume :: int

record reward_fund_object =
  reward_balance :: HIVE_asset

record feed_history_object =
  current_median_history :: tiny_price
  market_median_history :: tiny_price
  current_min_history :: tiny_price
  current_max_history :: tiny_price

record dynamic_global_property_object =
  head_block_number :: "32 word"
  head_time :: "32 word"
  num_pow_witnesses :: "32 word"
  virtual_supply :: HIVE_asset
  current_supply :: HIVE_asset
  current_hbd_supply :: HBD_asset
  total_vesting_fund_hive :: HIVE_asset
  total_vesting_shares :: VEST_asset
  pending_rewarded_vesting_shares :: VEST_asset
  pending_rewarded_vesting_hive :: HIVE_asset
  hbd_interest_rate :: "16 word"
  hbd_print_rate :: "16 word"
  maximum_block_size :: "32 word"
  hbd_stop_percent :: "16 word"
  hbd_start_percent :: "16 word"
  next_maintenance_time :: "32 word"
  last_budget_time :: "32 word"
  next_daily_maintenance_time :: "32 word"
  dhf_interval_ledger :: HBD_asset
  downvote_pool_percent :: "16 word"
  current_remove_threshold :: int

record ledger =
  accounts :: "account_object table"
  convert_requests :: "convert_request_object table"
  collateralized_requests :: "collateralized_convert_request_object table"
  escrows :: "escrow_object table"
  savings_withdraws :: "savings_withdraw_object table"
  limit_orders :: "limit_order_object table"
  liquidity_rewards :: "liquidity_reward_balance_object table"
  reward_funds :: "reward_fund_object table"
  feed_history :: feed_history_object
  dgpo :: dynamic_global_property_object
  processed_hardforks :: nat

type_synonym 'a ledger_op = "(ledger, 'a) op"
type_synonym 'a dgpo_op = "(dynamic_global_property_object, 'a) op"

section \<open>Global properties\<close>

text \<open>The operations of \<^verbatim>\<open>dynamic_global_property_object\<close>; they create and destroy funds and keep the
  supply counters. An \<open>HBD_price\<close> has HBD as base and HIVE as quote, a \<open>VEST_price\<close> VESTS as base.\<close>

definition issue_HIVE :: "fc_lib \<Rightarrow> HIVE_asset \<Rightarrow> HIVE_asset dgpo_op" where
  "issue_HIVE F hive_amount =
     bind_s (lift_s (issue_asset F temp_tiny_balance hive_amount)) (\<lambda>hive.
     bind_s (get_s id) (\<lambda>g.
     bind_s (lift_s (tiny_plus F (current_supply g) hive_amount)) (\<lambda>cs.
     bind_s (lift_s (tiny_plus F (virtual_supply g) hive_amount)) (\<lambda>vs.
     bind_s (update_s (\<lambda>g. g\<lparr>current_supply := cs, virtual_supply := vs\<rparr>)) (\<lambda>_.
     ret_s hive)))))"

definition burn_HIVE :: "fc_lib \<Rightarrow> HIVE_asset \<Rightarrow> HIVE_asset dgpo_op" where
  "burn_HIVE F hive =
     bind_s (get_s id) (\<lambda>g.
     bind_s (lift_s (tiny_minus F (current_supply g) hive)) (\<lambda>cs.
     bind_s (lift_s (tiny_minus F (virtual_supply g) hive)) (\<lambda>vs.
     bind_s (lift_s (burn_asset F hive hive)) (\<lambda>rest.
     bind_s (update_s (\<lambda>g. g\<lparr>current_supply := cs, virtual_supply := vs\<rparr>)) (\<lambda>_.
     ret_s rest)))))"

definition full_virtual_supply ::
  "fc_lib \<Rightarrow> HBD_asset \<Rightarrow> tiny_price \<Rightarrow> HIVE_asset \<Rightarrow> HIVE_asset res" where
  "full_virtual_supply F hbd_supply exchange_rate hive_supply =
     bind_r (tiny_base_times_price F hbd_supply exchange_rate) (\<lambda>v. tiny_plus F v hive_supply)"

definition issue_HBD :: "fc_lib \<Rightarrow> HBD_asset \<Rightarrow> tiny_price \<Rightarrow> bool \<Rightarrow> HBD_asset dgpo_op" where
  "issue_HBD F hbd_amount exchange_rate full_update_virtual_supply =
     bind_s (lift_s (issue_asset F temp_tiny_balance hbd_amount)) (\<lambda>hbd.
     bind_s (get_s id) (\<lambda>g.
     bind_s (lift_s (tiny_plus F (current_hbd_supply g) hbd_amount)) (\<lambda>hs.
     bind_s (if full_update_virtual_supply
             then lift_s (full_virtual_supply F hs exchange_rate (current_supply g))
             else lift_s (bind_r (tiny_base_times_price F hbd_amount exchange_rate) (\<lambda>v.
                    tiny_plus F (virtual_supply g) v))) (\<lambda>vs.
     bind_s (update_s (\<lambda>g. g\<lparr>current_hbd_supply := hs, virtual_supply := vs\<rparr>)) (\<lambda>_.
     ret_s hbd)))))"

definition burn_HBD :: "fc_lib \<Rightarrow> HBD_asset \<Rightarrow> tiny_price \<Rightarrow> bool \<Rightarrow> HBD_asset dgpo_op" where
  "burn_HBD F hbd exchange_rate full_update_virtual_supply =
     bind_s (get_s id) (\<lambda>g.
     bind_s (lift_s (tiny_minus F (current_hbd_supply g) hbd)) (\<lambda>hs.
     bind_s (if full_update_virtual_supply
             then lift_s (full_virtual_supply F hs exchange_rate (current_supply g))
             else lift_s (bind_r (tiny_base_times_price F hbd exchange_rate) (\<lambda>v.
                    tiny_minus F (virtual_supply g) v))) (\<lambda>vs.
     bind_s (lift_s (burn_asset F hbd hbd)) (\<lambda>rest.
     bind_s (update_s (\<lambda>g. g\<lparr>current_hbd_supply := hs, virtual_supply := vs\<rparr>)) (\<lambda>_.
     ret_s rest)))))"

text \<open>The conversions give the new balance and what is left of the converted one.\<close>

definition convert_HIVE_to_HBD ::
  "fc_lib \<Rightarrow> HIVE_asset \<Rightarrow> tiny_price \<Rightarrow> bool \<Rightarrow> (HBD_asset \<times> HIVE_asset) dgpo_op" where
  "convert_HIVE_to_HBD F hive exchange_rate full_update_virtual_supply =
     bind_s (lift_s (tiny_quote_times_price F hive exchange_rate)) (\<lambda>hbd_amount.
     bind_s (lift_s (issue_asset F temp_tiny_balance hbd_amount)) (\<lambda>hbd.
     bind_s (get_s id) (\<lambda>g.
     bind_s (lift_s (tiny_plus F (current_hbd_supply g) hbd_amount)) (\<lambda>hs.
     bind_s (lift_s (tiny_minus F (current_supply g) hive)) (\<lambda>cs.
     bind_s (lift_s (burn_asset F hive hive)) (\<lambda>rest.
     bind_s (if full_update_virtual_supply then lift_s (full_virtual_supply F hs exchange_rate cs)
             else ret_s (virtual_supply g)) (\<lambda>vs.
     bind_s (update_s (\<lambda>g. g\<lparr>current_hbd_supply := hs, current_supply := cs,
                             virtual_supply := vs\<rparr>)) (\<lambda>_.
     ret_s (hbd, rest)))))))))"

definition convert_HIVE_to_exact_HBD ::
  "fc_lib \<Rightarrow> HIVE_asset \<Rightarrow> HBD_asset \<Rightarrow> (HBD_asset \<times> HIVE_asset) dgpo_op" where
  "convert_HIVE_to_exact_HBD F hive hbd_amount =
     bind_s (lift_s (issue_asset F temp_tiny_balance hbd_amount)) (\<lambda>hbd.
     bind_s (get_s id) (\<lambda>g.
     bind_s (lift_s (tiny_plus F (current_hbd_supply g) hbd_amount)) (\<lambda>hs.
     bind_s (lift_s (tiny_minus F (current_supply g) hive)) (\<lambda>cs.
     bind_s (lift_s (burn_asset F hive hive)) (\<lambda>rest.
     bind_s (update_s (\<lambda>g. g\<lparr>current_hbd_supply := hs, current_supply := cs\<rparr>)) (\<lambda>_.
     ret_s (hbd, rest)))))))"

definition get_vesting_share_price :: "dynamic_global_property_object \<Rightarrow> tiny_price res" where
  "get_vesting_share_price g =
     (if tiny_is_empty (total_vesting_fund_hive g) \<or> tamount (total_vesting_shares g) = 0
      then mk_tiny_price (tiny 1000000) (tiny 1000)
      else mk_tiny_price (total_vesting_shares g) (total_vesting_fund_hive g))"

definition get_reward_vesting_share_price ::
  "fc_lib \<Rightarrow> dynamic_global_property_object \<Rightarrow> tiny_price res" where
  "get_reward_vesting_share_price F g =
     bind_r (tiny_plus F (total_vesting_shares g) (pending_rewarded_vesting_shares g)) (\<lambda>b.
     bind_r (tiny_plus F (total_vesting_fund_hive g) (pending_rewarded_vesting_hive g)) (\<lambda>q.
     mk_tiny_price b q))"

definition issue_VESTS :: "fc_lib \<Rightarrow> VEST_asset \<Rightarrow> bool \<Rightarrow> VEST_asset dgpo_op" where
  "issue_VESTS F vest_amount is_reward =
     bind_s (lift_s (issue_asset F temp_tiny_balance vest_amount)) (\<lambda>vests.
     bind_s (get_s id) (\<lambda>g.
     bind_s (if is_reward then
               bind_s (lift_s (tiny_plus F (pending_rewarded_vesting_shares g) vest_amount)) (\<lambda>v.
               update_s (\<lambda>g. g\<lparr>pending_rewarded_vesting_shares := v\<rparr>))
             else
               bind_s (lift_s (tiny_plus F (total_vesting_shares g) vest_amount)) (\<lambda>v.
               update_s (\<lambda>g. g\<lparr>total_vesting_shares := v\<rparr>))) (\<lambda>_.
     ret_s vests)))"

definition burn_VESTS :: "fc_lib \<Rightarrow> VEST_asset \<Rightarrow> bool \<Rightarrow> VEST_asset dgpo_op" where
  "burn_VESTS F vests is_reward =
     bind_s (get_s id) (\<lambda>g.
     bind_s (if is_reward then
               bind_s (lift_s (tiny_minus F (pending_rewarded_vesting_shares g) vests)) (\<lambda>v.
               update_s (\<lambda>g. g\<lparr>pending_rewarded_vesting_shares := v\<rparr>))
             else
               bind_s (lift_s (tiny_minus F (total_vesting_shares g) vests)) (\<lambda>v.
               update_s (\<lambda>g. g\<lparr>total_vesting_shares := v\<rparr>))) (\<lambda>_.
     lift_s (burn_asset F vests vests)))"

definition convert_HIVE_to_VESTS_at ::
  "fc_lib \<Rightarrow> HIVE_asset \<Rightarrow> tiny_price \<Rightarrow> bool \<Rightarrow> (VEST_asset \<times> HIVE_asset) dgpo_op" where
  "convert_HIVE_to_VESTS_at F hive vest_price is_reward =
     bind_s (lift_s (tiny_quote_times_price F hive vest_price)) (\<lambda>vest_amount.
     bind_s (get_s id) (\<lambda>g.
     bind_s (if is_reward then
               bind_s (lift_s (tiny_plus F (pending_rewarded_vesting_hive g) hive)) (\<lambda>v.
               bind_s (update_s (\<lambda>g. g\<lparr>pending_rewarded_vesting_hive := v\<rparr>)) (\<lambda>_.
               ret_s hive))
             else
               bind_s (lift_s (tiny_transfer_from F (total_vesting_fund_hive g) hive hive))
                 (\<lambda>(fund, rest).
               bind_s (update_s (\<lambda>g. g\<lparr>total_vesting_fund_hive := fund\<rparr>)) (\<lambda>_.
               ret_s rest))) (\<lambda>rest.
     bind_s (issue_VESTS F vest_amount is_reward) (\<lambda>vests.
     ret_s (vests, rest)))))"

definition convert_HIVE_to_VESTS ::
  "fc_lib \<Rightarrow> HIVE_asset \<Rightarrow> bool \<Rightarrow> (VEST_asset \<times> HIVE_asset) dgpo_op" where
  "convert_HIVE_to_VESTS F hive is_reward =
     bind_s (read_s (\<lambda>g. if is_reward then get_reward_vesting_share_price F g
                         else get_vesting_share_price g)) (\<lambda>vest_price.
     convert_HIVE_to_VESTS_at F hive vest_price is_reward)"

definition convert_VESTS_to_HIVE_at ::
  "fc_lib \<Rightarrow> VEST_asset \<Rightarrow> tiny_price \<Rightarrow> (HIVE_asset \<times> VEST_asset) dgpo_op" where
  "convert_VESTS_to_HIVE_at F vests vest_price =
     bind_s (lift_s (tiny_base_times_price F vests vest_price)) (\<lambda>hive_amount.
     bind_s (get_s id) (\<lambda>g.
     bind_s (lift_s (tiny_transfer_from F temp_tiny_balance (total_vesting_fund_hive g) hive_amount))
       (\<lambda>(hive, fund).
     bind_s (update_s (\<lambda>g. g\<lparr>total_vesting_fund_hive := fund\<rparr>)) (\<lambda>_.
     bind_s (burn_VESTS F vests False) (\<lambda>rest.
     ret_s (hive, rest))))))"

definition convert_VESTS_to_HIVE ::
  "fc_lib \<Rightarrow> VEST_asset \<Rightarrow> (HIVE_asset \<times> VEST_asset) dgpo_op" where
  "convert_VESTS_to_HIVE F vests =
     bind_s (read_s get_vesting_share_price) (convert_VESTS_to_HIVE_at F vests)"

end
