(* ===== verification/Account_Balances.thy ===== *)
theory Account_Balances
  imports Ledger
begin

text \<open>
  Reading and changing the balances of accounts (\<^verbatim>\<open>database.cpp\<close>): lookup of accounts, the price
  feed, interest on HBD, and the liquid, savings and reward balances. All liquid and savings
  movements of the other components go through \<open>adjust_balance\<close> and \<open>adjust_savings_balance\<close>.
\<close>

section \<open>Lookup\<close>

definition has_hardfork :: "nat \<Rightarrow> ledger \<Rightarrow> bool" where
  "has_hardfork hardfork s \<longleftrightarrow> processed_hardforks s > hardfork"

definition get_hardfork :: "ledger \<Rightarrow> 32 word" where
  "get_hardfork s = of_nat (processed_hardforks s) - 1"

definition head_block_time :: "ledger \<Rightarrow> 32 word" where
  "head_block_time s = head_time (dgpo s)"

definition modify_dgpo :: "'a dgpo_op \<Rightarrow> 'a ledger_op" where
  "modify_dgpo m = (\<lambda>s. bind_r (m (dgpo s)) (\<lambda>(x, g). Inr (x, s\<lparr>dgpo := g\<rparr>)))"

definition modify_account ::
  "nat \<Rightarrow> (account_object \<Rightarrow> ('a \<times> account_object) res) \<Rightarrow> 'a ledger_op" where
  "modify_account i f = (\<lambda>s.
     case find_row (accounts s) i of None \<Rightarrow> Inl Undefined
     | Some a \<Rightarrow> bind_r (f a) (\<lambda>(x, a'). Inr (x, s\<lparr>accounts := put_row i a' (accounts s)\<rparr>)))"

definition account :: "nat \<Rightarrow> account_object ledger_op" where
  "account i = read_s (\<lambda>s. case find_row (accounts s) i of None \<Rightarrow> Inl Undefined | Some a \<Rightarrow> Inr a)"

definition get_account_by_id :: "nat \<Rightarrow> nat ledger_op" where
  "get_account_by_id i =
     read_s (\<lambda>s. bind_r (check_r (find_row (accounts s) i \<noteq> None) ''Account doesn't exist'') (\<lambda>_. Inr i))"

definition get_account :: "string \<Rightarrow> nat ledger_op" where
  "get_account account_name =
     read_s (\<lambda>s. case find_by (\<lambda>a. acc_name a = account_name) (accounts s) of
       None \<Rightarrow> Inl (Assert_exn ''Account doesn't exist'') | Some i \<Rightarrow> Inr i)"

definition NEW_HIVE_TREASURY_ACCOUNT :: string where
  "NEW_HIVE_TREASURY_ACCOUNT = ''pixa.omnibus''"

definition OBSOLETE_TREASURY_ACCOUNT :: string where
  "OBSOLETE_TREASURY_ACCOUNT = ''steem.dao''"

definition PIXA_ICO_ACCOUNT :: string where "PIXA_ICO_ACCOUNT = ''pixa.rex''"

definition PIXA_TEAM_ACCOUNT :: string where "PIXA_TEAM_ACCOUNT = ''pixa.team''"

definition get_treasury_name :: "32 word \<Rightarrow> string" where
  "get_treasury_name hardfork =
     (if hardfork \<ge> 24 then NEW_HIVE_TREASURY_ACCOUNT else OBSOLETE_TREASURY_ACCOUNT)"

definition is_treasury :: "string \<Rightarrow> bool" where
  "is_treasury n \<longleftrightarrow> n = NEW_HIVE_TREASURY_ACCOUNT \<or> n = OBSOLETE_TREASURY_ACCOUNT"

definition is_pixa_ico :: "string \<Rightarrow> bool" where
  "is_pixa_ico n \<longleftrightarrow> n = PIXA_ICO_ACCOUNT \<or> n = PIXA_TEAM_ACCOUNT"

definition pixa_only_vests_transfer_assert :: "unit res" where
  "pixa_only_vests_transfer_assert =
     Inl (Assert_exn ''This account is restricted to VESTS transfers only.'')"

definition assert_not_pixa_ico :: "string \<Rightarrow> unit res" where
  "assert_not_pixa_ico n = (if is_pixa_ico n then pixa_only_vests_transfer_assert else Inr ())"

section \<open>Price feed\<close>

definition get_hbd_price :: "ledger \<Rightarrow> tiny_price" where
  "get_hbd_price s = current_median_history (feed_history s)"

definition validate_price_feed_available :: "tiny_price \<Rightarrow> unit res" where
  "validate_price_feed_available exchange_rate =
     check_r (\<not> tiny_price_is_null exchange_rate) ''there is no price feed''"

definition debt_supplies ::
  "fc_lib \<Rightarrow> tiny_price \<Rightarrow> (HBD_asset \<times> HIVE_asset) ledger_op" where
  "debt_supplies F exchange_rate =
     bind_s (get_s id) (\<lambda>s.
     if has_hardfork 24 s then
       bind_s (get_account (get_treasury_name (get_hardfork s))) (\<lambda>i.
       bind_s (account i) (\<lambda>treasury.
       bind_s (lift_s (tiny_minus F (current_hbd_supply (dgpo s)) (hbd_balance treasury))) (\<lambda>d.
       let hbd_supply = (if tamount d < 0 then tiny 0 else d) in
       bind_s (lift_s (full_virtual_supply F hbd_supply exchange_rate (current_supply (dgpo s)))) (\<lambda>v.
       ret_s (hbd_supply, v)))))
     else ret_s (current_hbd_supply (dgpo s), virtual_supply (dgpo s)))"

definition calculate_HBD_percent :: "fc_lib \<Rightarrow> (16 word) ledger_op" where
  "calculate_HBD_percent F =
     bind_s (get_s id) (\<lambda>s.
     let exchange_rate = get_hbd_price s in
     if tiny_price_is_null exchange_rate then ret_s 0
     else
       bind_s (debt_supplies F exchange_rate) (\<lambda>(hbd_supply, vs).
       bind_s (lift_s (tiny_base_times_price F hbd_supply exchange_rate)) (\<lambda>h.
       let scaled = (of_int (tamount h) :: 128 word) * of_int HIVE_100_PERCENT;
           rounded = (if has_hardfork 21 s then scaled + of_int (tamount vs sdiv 2) else scaled)
       in
       bind_s (lift_s (div_128 rounded (of_int (tamount vs)))) (\<lambda>q.
       bind_s (lift_s (uint128_to_uint64 F q)) (\<lambda>u. ret_s (ucast u))))))"

section \<open>Interest\<close>

definition HIVE_SECONDS_PER_YEAR :: "128 word" where "HIVE_SECONDS_PER_YEAR = 31536000"

definition HIVE_HBD_INTEREST_COMPOUND_INTERVAL_SEC :: int where
  "HIVE_HBD_INTEREST_COMPOUND_INTERVAL_SEC = 2592000"

text \<open>Differences of two times are signed.\<close>

definition seconds_between :: "32 word \<Rightarrow> 32 word \<Rightarrow> int" where
  "seconds_between later earlier = uint later - uint earlier"

definition evaluate_hbd_interest ::
  "128 word \<Rightarrow> 32 word \<Rightarrow> HBD_asset \<Rightarrow> 32 word \<Rightarrow> 16 word \<Rightarrow> bool \<Rightarrow> 128 word \<times> 128 word" where
  "evaluate_hbd_interest secs now hbd last_update interest_rate do_evaluation =
     (let secs' = secs + of_int (tamount hbd) * of_int (seconds_between now last_update) in
      (if secs' \<noteq> 0 \<and> do_evaluation
       then secs' div HIVE_SECONDS_PER_YEAR * ucast interest_rate div of_int HIVE_100_PERCENT
       else 0, secs'))"

text \<open>Issuing the interest: the amount is converted to a share and printed at the current price.\<close>

definition issue_interest :: "fc_lib \<Rightarrow> 128 word \<Rightarrow> HBD_asset ledger_op" where
  "issue_interest F interest =
     bind_s (lift_s (uint128_to_uint64 F interest)) (\<lambda>u.
     bind_s (lift_s (share_of_uint64 F u)) (\<lambda>v.
     bind_s (get_s get_hbd_price) (\<lambda>rate.
     modify_dgpo (issue_HBD F (tiny v) rate False))))"

section \<open>Liquid balances\<close>

definition sufficient_funds :: "fc_lib \<Rightarrow> tiny_asset \<Rightarrow> tiny_asset \<Rightarrow> unit res" where
  "sufficient_funds F available delta =
     (if tamount delta < 0 then
        bind_r (tiny_uminus F delta) (\<lambda>r.
        check_r (tamount available \<ge> tamount r)
          ''Account does not have sufficient funds for balance adjustment'')
      else Inr ())"

definition adjust_hive_balance :: "fc_lib \<Rightarrow> nat \<Rightarrow> HIVE_asset \<Rightarrow> HIVE_asset \<Rightarrow> HIVE_asset ledger_op" where
  "adjust_hive_balance F i hive delta =
     modify_account i (\<lambda>a.
       bind_r (sufficient_funds F (hive_balance a) delta) (\<lambda>_.
       bind_r (tiny_transfer_from F (hive_balance a) hive delta) (\<lambda>(b, rest).
       Inr (rest, a\<lparr>hive_balance := b\<rparr>))))"

definition pay_liquid_interest :: "fc_lib \<Rightarrow> nat \<Rightarrow> unit ledger_op" where
  "pay_liquid_interest F i =
     bind_s (get_s id) (\<lambda>s.
     bind_s (account i) (\<lambda>a.
     let now = head_block_time s;
         update_hbd_balance = seconds_between now (hbd_last_interest_payment a) >
           HIVE_HBD_INTEREST_COMPOUND_INTERVAL_SEC;
         (interest, secs) = evaluate_hbd_interest (hbd_seconds a) now (hbd_balance a)
           (hbd_seconds_last_update a) (hbd_interest_rate (dgpo s)) update_hbd_balance
     in
     if secs > 0 \<and> update_hbd_balance then
       bind_s (issue_interest F interest) (\<lambda>interest_balance.
       bind_s (modify_account i (\<lambda>a.
         bind_r (tiny_transfer_from F (hbd_balance a) interest_balance interest_balance) (\<lambda>(b, rest).
         Inr (rest, a\<lparr>hbd_balance := b, hbd_seconds := 0, hbd_seconds_last_update := now,
                      hbd_last_interest_payment := now\<rparr>)))) (\<lambda>rest.
       lift_s (drop_tiny_temp rest)))
     else
       modify_account i (\<lambda>a. Inr ((), a\<lparr>hbd_seconds := secs, hbd_seconds_last_update := now\<rparr>))))"

definition adjust_hbd_balance :: "fc_lib \<Rightarrow> nat \<Rightarrow> HBD_asset \<Rightarrow> HBD_asset \<Rightarrow> HBD_asset ledger_op" where
  "adjust_hbd_balance F i hbd delta =
     bind_s (account i) (\<lambda>a.
     bind_s (lift_s (sufficient_funds F (hbd_balance a) delta)) (\<lambda>_.
     bind_s (get_s id) (\<lambda>s.
     bind_s (if \<not> has_hardfork 25 s \<and> hbd_seconds_last_update a \<noteq> head_block_time s
             then pay_liquid_interest F i else ret_s ()) (\<lambda>_.
     modify_account i (\<lambda>a.
       bind_r (tiny_transfer_from F (hbd_balance a) hbd delta) (\<lambda>(b, rest).
       Inr (rest, a\<lparr>hbd_balance := b\<rparr>)))))))"

text \<open>Balances of a dynamic symbol pass through a temporary balance of the fixed one.\<close>

definition through_tiny ::
  "fc_lib \<Rightarrow> 32 word \<Rightarrow> (tiny_asset \<Rightarrow> tiny_asset \<Rightarrow> tiny_asset ledger_op) \<Rightarrow>
   asset \<Rightarrow> asset \<Rightarrow> asset ledger_op" where
  "through_tiny F SYMBOL adjust any_balance delta =
     bind_s (lift_s (tiny_of_asset SYMBOL delta)) (\<lambda>d.
     bind_s (lift_s (tiny_transfer_from_balance SYMBOL F temp_tiny_balance any_balance any_balance))
       (\<lambda>(t, any1).
     bind_s (adjust t d) (\<lambda>t1.
     bind_s (lift_s (balance_transfer_from_tiny SYMBOL F any1 t1 t1)) (\<lambda>(any2, t2).
     bind_s (lift_s (drop_tiny_temp t2)) (\<lambda>_. ret_s any2)))))"

definition adjust_balance :: "fc_lib \<Rightarrow> nat \<Rightarrow> asset \<Rightarrow> asset \<Rightarrow> asset ledger_op" where
  "adjust_balance F i any_balance delta =
     (if asset_num (symbol delta) = HIVE_ASSET_NUM_HIVE then
        through_tiny F HIVE_ASSET_NUM_HIVE (adjust_hive_balance F i) any_balance delta
      else
        bind_s (check_s (asset_num (symbol delta) = HIVE_ASSET_NUM_HBD) ''invalid symbol'') (\<lambda>_.
        through_tiny F HIVE_ASSET_NUM_HBD (adjust_hbd_balance F i) any_balance delta))"

section \<open>Savings\<close>

definition adjust_hive_savings :: "fc_lib \<Rightarrow> nat \<Rightarrow> HIVE_asset \<Rightarrow> HIVE_asset \<Rightarrow> HIVE_asset ledger_op" where
  "adjust_hive_savings F i hive delta =
     modify_account i (\<lambda>a.
       bind_r (tiny_transfer_from F (savings_hive_balance a) hive delta) (\<lambda>(b, rest).
       Inr (rest, a\<lparr>savings_hive_balance := b\<rparr>)))"

definition pay_savings_interest :: "fc_lib \<Rightarrow> nat \<Rightarrow> unit ledger_op" where
  "pay_savings_interest F i =
     bind_s (get_s id) (\<lambda>s.
     bind_s (account i) (\<lambda>a.
     let now = head_block_time s;
         update_savings_hbd_balance = seconds_between now (savings_hbd_last_interest_payment a) >
           HIVE_HBD_INTEREST_COMPOUND_INTERVAL_SEC;
         (interest, secs) = evaluate_hbd_interest (savings_hbd_seconds a) now (savings_hbd_balance a)
           (savings_hbd_seconds_last_update a) (hbd_interest_rate (dgpo s)) update_savings_hbd_balance
     in
     if secs > 0 \<and> update_savings_hbd_balance then
       bind_s (issue_interest F interest) (\<lambda>interest_balance.
       bind_s (modify_account i (\<lambda>a.
         bind_r (tiny_transfer_from F (savings_hbd_balance a) interest_balance interest_balance)
           (\<lambda>(b, rest).
         Inr (rest, a\<lparr>savings_hbd_balance := b, savings_hbd_seconds := 0,
                      savings_hbd_seconds_last_update := now,
                      savings_hbd_last_interest_payment := now\<rparr>)))) (\<lambda>rest.
       lift_s (drop_tiny_temp rest)))
     else
       modify_account i (\<lambda>a. Inr ((), a\<lparr>savings_hbd_seconds := secs,
                                          savings_hbd_seconds_last_update := now\<rparr>))))"

definition adjust_hbd_savings :: "fc_lib \<Rightarrow> nat \<Rightarrow> HBD_asset \<Rightarrow> HBD_asset \<Rightarrow> HBD_asset ledger_op" where
  "adjust_hbd_savings F i hbd delta =
     bind_s (get_s id) (\<lambda>s.
     bind_s (account i) (\<lambda>a.
     bind_s (if savings_hbd_seconds_last_update a \<noteq> head_block_time s
             then pay_savings_interest F i else ret_s ()) (\<lambda>_.
     modify_account i (\<lambda>a.
       bind_r (tiny_transfer_from F (savings_hbd_balance a) hbd delta) (\<lambda>(b, rest).
       Inr (rest, a\<lparr>savings_hbd_balance := b\<rparr>))))))"

definition adjust_savings_balance :: "fc_lib \<Rightarrow> nat \<Rightarrow> asset \<Rightarrow> asset \<Rightarrow> asset ledger_op" where
  "adjust_savings_balance F i any_balance delta =
     (if asset_num (symbol delta) = HIVE_ASSET_NUM_HIVE then
        through_tiny F HIVE_ASSET_NUM_HIVE (adjust_hive_savings F i) any_balance delta
      else
        bind_s (check_s (asset_num (symbol delta) = HIVE_ASSET_NUM_HBD) ''invalid symbol'') (\<lambda>_.
        through_tiny F HIVE_ASSET_NUM_HBD (adjust_hbd_savings F i) any_balance delta))"

section \<open>Rewards\<close>

definition adjust_hive_reward :: "fc_lib \<Rightarrow> nat \<Rightarrow> HIVE_asset \<Rightarrow> HIVE_asset \<Rightarrow> HIVE_asset ledger_op" where
  "adjust_hive_reward F i hive delta =
     modify_account i (\<lambda>a.
       bind_r (tiny_transfer_from F (reward_hive_balance a) hive delta) (\<lambda>(b, rest).
       Inr (rest, a\<lparr>reward_hive_balance := b\<rparr>)))"

definition adjust_hbd_reward :: "fc_lib \<Rightarrow> nat \<Rightarrow> HBD_asset \<Rightarrow> HBD_asset \<Rightarrow> HBD_asset ledger_op" where
  "adjust_hbd_reward F i hbd delta =
     modify_account i (\<lambda>a.
       bind_r (tiny_transfer_from F (reward_hbd_balance a) hbd delta) (\<lambda>(b, rest).
       Inr (rest, a\<lparr>reward_hbd_balance := b\<rparr>)))"

definition HIVE_BLOCKS_PER_DAY :: "32 word" where "HIVE_BLOCKS_PER_DAY = 28800"

definition issue_mining_reward :: "fc_lib \<Rightarrow> HIVE_asset \<Rightarrow> HIVE_asset ledger_op" where
  "issue_mining_reward F reward =
     modify_dgpo (
       bind_s (get_s id) (\<lambda>g.
       let adjust_vesting = tamount reward > 0 \<and> head_block_number g \<ge> HIVE_BLOCKS_PER_DAY * 7 in
       bind_s (if adjust_vesting then lift_s (tiny_times F reward 9) else ret_s (tiny 0)) (\<lambda>new_vesting.
       bind_s (lift_s (tiny_plus F reward new_vesting)) (\<lambda>sum.
       bind_s (issue_HIVE F sum) (\<lambda>new_hive.
       bind_s (get_s id) (\<lambda>g.
       bind_s (lift_s (tiny_transfer_from F (total_vesting_fund_hive g) new_hive new_vesting))
         (\<lambda>(fund, rest).
       bind_s (update_s (\<lambda>g. g\<lparr>total_vesting_fund_hive := fund\<rparr>)) (\<lambda>_.
       ret_s rest))))))))"

section \<open>Reading balances\<close>

definition get_balance :: "account_object \<Rightarrow> asset_symbol_type \<Rightarrow> asset res" where
  "get_balance a s =
     (if asset_num s = HIVE_ASSET_NUM_HIVE then
        Inr (tiny_to_asset HIVE_ASSET_NUM_HIVE (hive_balance a))
      else
        bind_r (check_r (asset_num s = HIVE_ASSET_NUM_HBD) ''Invalid symbol'') (\<lambda>_.
        Inr (tiny_to_asset HIVE_ASSET_NUM_HBD (hbd_balance a))))"

definition get_savings_balance :: "account_object \<Rightarrow> asset_symbol_type \<Rightarrow> asset res" where
  "get_savings_balance a s =
     (if asset_num s = HIVE_ASSET_NUM_HIVE then
        Inr (tiny_to_asset HIVE_ASSET_NUM_HIVE (savings_hive_balance a))
      else
        bind_r (check_r (asset_num s = HIVE_ASSET_NUM_HBD) ''invalid symbol'') (\<lambda>_.
        Inr (tiny_to_asset HIVE_ASSET_NUM_HBD (savings_hbd_balance a))))"

end
