(* ===== verification/Ledger_Laws.thy ===== *)
theory Ledger_Laws
  imports Account_Balances
begin

text \<open>
  The accounting laws of the ledger. \<open>ledger_gap k s\<close> is the difference between what the supply
  counters say of a fund \<open>k\<close> and what the objects of the ledger hold; outside an operation it is zero, inside it
  is what the temporary balances hold. \<open>ledger_ok\<close> says that every balance is a non-negative
  \<^verbatim>\<open>int64_t\<close> of the right symbol and that ids are unique. The rules of the collection
  \<open>ledger_rules\<close> carry \<open>accounted g\<close> (a well-formed ledger with gap \<open>g\<close>) through the operations.
\<close>

section \<open>Totals\<close>

datatype fund = Hive | Hbd | Vests | Reward_vests | Reward_hive

fun account_funds :: "fund \<Rightarrow> account_object \<Rightarrow> int" where
  "account_funds Hive a =
     tamount (hive_balance a) + tamount (savings_hive_balance a) + tamount (reward_hive_balance a)"
| "account_funds Hbd a =
     tamount (hbd_balance a) + tamount (savings_hbd_balance a) + tamount (reward_hbd_balance a)"
| "account_funds Vests a = tamount (vesting_shares a)"
| "account_funds Reward_vests a = tamount (reward_vesting_balance a)"
| "account_funds Reward_hive a = tamount (reward_vesting_hive a)"

definition held :: "fund \<Rightarrow> asset \<Rightarrow> int" where
  "held k b = (case k of Hive \<Rightarrow> if symbol b = HIVE_SYMBOL then amount b else 0
    | Hbd \<Rightarrow> if symbol b = HBD_SYMBOL then amount b else 0 | _ \<Rightarrow> 0)"

definition held_as :: "fund \<Rightarrow> fund \<Rightarrow> tiny_asset \<Rightarrow> int" where
  "held_as j k b = (if k = j then tamount b else 0)"

fun dgpo_funds :: "fund \<Rightarrow> dynamic_global_property_object \<Rightarrow> int" where
  "dgpo_funds Hive g = tamount (total_vesting_fund_hive g) + tamount (pending_rewarded_vesting_hive g)"
| "dgpo_funds _ g = 0"

fun fund_supply :: "fund \<Rightarrow> dynamic_global_property_object \<Rightarrow> int" where
  "fund_supply Hive g = tamount (current_supply g)"
| "fund_supply Hbd g = tamount (current_hbd_supply g)"
| "fund_supply Vests g = tamount (total_vesting_shares g)"
| "fund_supply Reward_vests g = tamount (pending_rewarded_vesting_shares g)"
| "fund_supply Reward_hive g = tamount (pending_rewarded_vesting_hive g)"

definition escrow_funds :: "fund \<Rightarrow> escrow_object \<Rightarrow> int" where
  "escrow_funds k e =
     held_as Hive k (esc_hive_balance e) + held_as Hbd k (esc_hbd_balance e) + held k (pending_fee e)"

definition object_funds :: "fund \<Rightarrow> ledger \<Rightarrow> int" where
  "object_funds k s =
     total (account_funds k) (accounts s) +
     total (\<lambda>c. held_as Hbd k (cr_amount c)) (convert_requests s) +
     total (\<lambda>c. held_as Hive k (collateral_amount c)) (collateralized_requests s) +
     total (escrow_funds k) (escrows s) +
     total (\<lambda>w. held k (sw_amount w)) (savings_withdraws s) +
     total (\<lambda>l. held k (for_sale l)) (limit_orders s) +
     total (\<lambda>r. held_as Hive k (reward_balance r)) (reward_funds s)"

definition ledger_gap :: "fund \<Rightarrow> ledger \<Rightarrow> int" where
  "ledger_gap k s = fund_supply k (dgpo s) - dgpo_funds k (dgpo s) - object_funds k s"

section \<open>Well-formed ledgers\<close>

definition account_ok :: "account_object \<Rightarrow> bool" where
  "account_ok a \<longleftrightarrow>
     tiny_ok (hive_balance a) \<and> tiny_ok (savings_hive_balance a) \<and> tiny_ok (reward_hive_balance a) \<and>
     tiny_ok (hbd_balance a) \<and> tiny_ok (savings_hbd_balance a) \<and> tiny_ok (reward_hbd_balance a) \<and>
     tiny_ok (vesting_shares a) \<and> tiny_ok (reward_vesting_balance a) \<and> tiny_ok (reward_vesting_hive a)"

definition liquid :: "asset \<Rightarrow> bool" where
  "liquid b \<longleftrightarrow> bal_ok b \<and> (symbol b = HIVE_SYMBOL \<or> symbol b = HBD_SYMBOL)"

definition escrow_ok :: "escrow_object \<Rightarrow> bool" where
  "escrow_ok e \<longleftrightarrow> tiny_ok (esc_hive_balance e) \<and> tiny_ok (esc_hbd_balance e) \<and> liquid (pending_fee e)"

definition order_ok :: "limit_order_object \<Rightarrow> bool" where
  "order_ok l \<longleftrightarrow> liquid (for_sale l) \<and> symbol (for_sale l) = symbol (base (sell_price l))"

definition dgpo_ok :: "dynamic_global_property_object \<Rightarrow> bool" where
  "dgpo_ok g \<longleftrightarrow>
     in_i64 (tamount (virtual_supply g)) \<and> in_i64 (tamount (current_supply g)) \<and>
     in_i64 (tamount (current_hbd_supply g)) \<and> in_i64 (tamount (total_vesting_shares g)) \<and>
     in_i64 (tamount (pending_rewarded_vesting_shares g)) \<and>
     in_i64 (tamount (pending_rewarded_vesting_hive g)) \<and> tiny_ok (total_vesting_fund_hive g)"

definition collateralized_ok :: "collateralized_convert_request_object \<Rightarrow> bool" where
  "collateralized_ok c \<longleftrightarrow> tiny_ok (collateral_amount c) \<and> in_i64 (tamount (converted_amount c))"

definition ledger_ok :: "ledger \<Rightarrow> bool" where
  "ledger_ok s \<longleftrightarrow>
     (table_wf (accounts s) \<and> all_rows account_ok (accounts s)) \<and>
     (table_wf (convert_requests s) \<and> all_rows (\<lambda>c. tiny_ok (cr_amount c)) (convert_requests s)) \<and>
     (table_wf (collateralized_requests s) \<and> all_rows collateralized_ok (collateralized_requests s)) \<and>
     (table_wf (escrows s) \<and> all_rows escrow_ok (escrows s)) \<and>
     (table_wf (savings_withdraws s) \<and> all_rows (\<lambda>w. liquid (sw_amount w)) (savings_withdraws s)) \<and>
     (table_wf (limit_orders s) \<and> all_rows order_ok (limit_orders s)) \<and>
     (table_wf (reward_funds s) \<and> all_rows (\<lambda>r. tiny_ok (reward_balance r)) (reward_funds s)) \<and>
     dgpo_ok (dgpo s)"

definition accounted :: "(fund \<Rightarrow> int) \<Rightarrow> ledger \<Rightarrow> bool" where
  "accounted g s \<longleftrightarrow> ledger_ok s \<and> g = (\<lambda>k. ledger_gap k s)"

named_theorems ledger_rules \<open>how the operations change the gap\<close>

lemmas gap_simps = accounted_def ledger_ok_def ledger_gap_def object_funds_def

lemma fund_cases_all: "(\<forall>k. P k) \<longleftrightarrow> P Hive \<and> P Hbd \<and> P Vests \<and> P Reward_vests \<and> P Reward_hive"
  by (metis fund.exhaust)

lemma symbols_distinct [simp]:
  "HIVE_SYMBOL \<noteq> HBD_SYMBOL" "HBD_SYMBOL \<noteq> HIVE_SYMBOL"
  "HIVE_SYMBOL \<noteq> VESTS_SYMBOL" "HBD_SYMBOL \<noteq> VESTS_SYMBOL"
  by (code_simp)+

lemma asset_num_symbols:
  "asset_num s = HIVE_ASSET_NUM_HIVE \<longleftrightarrow> s = HIVE_SYMBOL"
  "asset_num s = HIVE_ASSET_NUM_HBD \<longleftrightarrow> s = HBD_SYMBOL"
  by (auto simp: HIVE_SYMBOL_def HBD_SYMBOL_def asset_num_iff)

lemma from_asset_num_symbols [simp]:
  "from_asset_num HIVE_ASSET_NUM_HIVE = HIVE_SYMBOL" "from_asset_num HIVE_ASSET_NUM_HBD = HBD_SYMBOL"
  by (simp_all add: HIVE_SYMBOL_def HBD_SYMBOL_def)

lemma held_simps [simp]:
  "symbol b = HIVE_SYMBOL \<Longrightarrow> held k b = (if k = Hive then amount b else 0)"
  "symbol b = HBD_SYMBOL \<Longrightarrow> held k b = (if k = Hbd then amount b else 0)"
  "amount b = 0 \<Longrightarrow> held k b = 0"
  by (cases k; simp add: held_def)+

lemma held_as_empty [simp]: "tamount b = 0 \<Longrightarrow> held_as j k b = 0"
  by (simp add: held_as_def)

section \<open>Changing one object\<close>

lemma accounted_accounts:
  assumes "accounted g s" "find_row (accounts s) i = Some a" "account_ok a'"
  shows "accounted (\<lambda>k. g k + account_funds k a - account_funds k a')
    (s\<lparr>accounts := put_row i a' (accounts s)\<rparr>)"
  using assms by (auto simp: gap_simps tab.put_sum)

lemma accounted_dgpo:
  assumes "accounted g s" "dgpo_ok d"
  shows "accounted (\<lambda>k. g k + (fund_supply k d - dgpo_funds k d) - (fund_supply k (dgpo s) - dgpo_funds k (dgpo s)))
    (s\<lparr>dgpo := d\<rparr>)"
  using assms by (auto simp: gap_simps)

lemma accounted_account_ok:
  assumes "accounted g s" "find_row (accounts s) i = Some a"
  shows "account_ok a"
  using assms by (auto simp: accounted_def ledger_ok_def intro: all_rows_find)

lemma valid_modify_account [ledger_rules]:
  assumes "\<And>a x a'. account_ok a \<Longrightarrow> f a = Inr (x, a') \<Longrightarrow> account_ok a'"
    and "\<And>a x a'. account_ok a \<Longrightarrow> f a = Inr (x, a') \<Longrightarrow>
      valid (accounted (\<lambda>k. g k + account_funds k a - account_funds k a')) (m x) Q"
  shows "valid (accounted g) (bind_s (modify_account i f) m) Q"
proof (rule validI)
  fix s y s'
  assume s: "accounted g s" and r: "bind_s (modify_account i f) m s = Inr (y, s')"
  then obtain a x a' where a: "find_row (accounts s) i = Some a" "f a = Inr (x, a')"
    and y: "m x (s\<lparr>accounts := put_row i a' (accounts s)\<rparr>) = Inr (y, s')"
    by (auto simp: bind_s_eq_Inr modify_account_def bind_r_eq_Inr split: option.splits)
  have ok: "account_ok a" using accounted_account_ok [OF s a(1)] .
  show "Q y s'"
    using validD [OF assms(2) [OF ok a(2)] y] accounted_accounts [OF s a(1) assms(1) [OF ok a(2)]] .
qed

lemma valid_modify_dgpo [ledger_rules]:
  assumes "\<And>d x d'. dgpo_ok d \<Longrightarrow> f d = Inr (x, d') \<Longrightarrow> dgpo_ok d'"
    and "\<And>d x d'. dgpo_ok d \<Longrightarrow> f d = Inr (x, d') \<Longrightarrow>
      valid (accounted (\<lambda>k. g k + (fund_supply k d' - dgpo_funds k d') - (fund_supply k d - dgpo_funds k d)))
        (m x) Q"
  shows "valid (accounted g) (bind_s (modify_dgpo f) m) Q"
proof (rule validI)
  fix s y s'
  assume s: "accounted g s" and r: "bind_s (modify_dgpo f) m s = Inr (y, s')"
  then obtain x d' where a: "f (dgpo s) = Inr (x, d')" and y: "m x (s\<lparr>dgpo := d'\<rparr>) = Inr (y, s')"
    by (auto simp: bind_s_eq_Inr modify_dgpo_def bind_r_eq_Inr)
  have ok: "dgpo_ok (dgpo s)" using s by (simp add: accounted_def ledger_ok_def)
  show "Q y s'"
    using validD [OF assms(2) [OF ok a] y] accounted_dgpo [OF s assms(1) [OF ok a]] .
qed

lemma valid_account [valid_rules]:
  "(\<And>a. valid P (m a) Q) \<Longrightarrow> valid P (bind_s (account i) m) Q"
  unfolding account_def by (rule valid_bind_read)

lemma valid_get_account [valid_rules]:
  "(\<And>i. valid P (m i) Q) \<Longrightarrow> valid P (bind_s (get_account n) m) Q"
  "(\<And>i. valid P (m i) Q) \<Longrightarrow> valid P (bind_s (get_account_by_id j) m) Q"
  unfolding get_account_def get_account_by_id_def by (rule valid_bind_read, blast)+

lemma accounted_weaken: "accounted g s \<Longrightarrow> (\<And>k. g k = h k) \<Longrightarrow> accounted h s"
  by (simp add: accounted_def fun_eq_iff)

lemma modify_account_triple:
  assumes "\<And>a x a'. account_ok a \<Longrightarrow> f a = Inr (x, a') \<Longrightarrow>
    account_ok a' \<and> A x \<and> (\<forall>k. account_funds k a - account_funds k a' = D k x)"
  shows "valid (accounted g) (modify_account i f) (\<lambda>x s. A x \<and> accounted (\<lambda>k. g k + D k x) s)"
proof (rule valid_tail, rule valid_modify_account)
  fix a x a'
  assume a: "account_ok a" "f a = Inr (x, a')"
  then have *: "account_ok a'" "A x" "\<And>k. account_funds k a - account_funds k a' = D k x"
    using assms by blast+
  show "account_ok a'" by (rule *)
  show "valid (accounted (\<lambda>k. g k + account_funds k a - account_funds k a')) (ret_s x)
      (\<lambda>x s. A x \<and> accounted (\<lambda>k. g k + D k x) s)"
    using *(2) by (auto intro!: valid_ret elim!: accounted_weaken simp: *(3) [symmetric])
qed

lemma modify_dgpo_triple:
  assumes "\<And>d x d'. dgpo_ok d \<Longrightarrow> f d = Inr (x, d') \<Longrightarrow> dgpo_ok d' \<and> A x \<and>
    (\<forall>k. (fund_supply k d' - dgpo_funds k d') - (fund_supply k d - dgpo_funds k d) = D k x)"
  shows "valid (accounted g) (modify_dgpo f) (\<lambda>x s. A x \<and> accounted (\<lambda>k. g k + D k x) s)"
proof (rule valid_tail, rule valid_modify_dgpo)
  fix d x d'
  assume a: "dgpo_ok d" "f d = Inr (x, d')"
  then have *: "dgpo_ok d'" "A x"
    "\<And>k. (fund_supply k d' - dgpo_funds k d') - (fund_supply k d - dgpo_funds k d) = D k x"
    using assms by blast+
  show "dgpo_ok d'" by (rule *)
  show "valid (accounted (\<lambda>k. g k + (fund_supply k d' - dgpo_funds k d') -
      (fund_supply k d - dgpo_funds k d))) (ret_s x) (\<lambda>x s. A x \<and> accounted (\<lambda>k. g k + D k x) s)"
    using *(2) by (auto intro!: valid_ret elim!: accounted_weaken simp: *(3) [symmetric])
qed

section \<open>Account balances\<close>

text \<open>\<open>moved j b r\<close>: of a temporary balance \<open>b\<close> of the fund \<open>j\<close>, \<open>r\<close> is left and \<open>d\<close> moved.\<close>

definition left_over :: "tiny_asset \<Rightarrow> tiny_asset \<Rightarrow> tiny_asset \<Rightarrow> bool" where
  "left_over b d r \<longleftrightarrow> tiny_ok r \<and> tamount r = tamount b - tamount d"

lemma tiny_move:
  assumes "fc_ok F" "tiny_ok a" "tiny_ok b" "in_i64 (tamount d)" "tiny_transfer_from F a b d = Inr (a', r)"
  shows "tiny_ok a'" "left_over b d r" "tamount a' = tamount a + tamount d"
  using assms by (auto simp: tin.move_iff tiny_ok_def left_over_def)

lemmas move_unfold = bind_r_eq_Inr account_ok_def held_as_def left_over_def tiny_ok_def tin.move_iff

lemma adjust_hive_balance_triple:
  assumes "fc_ok F" "tiny_ok b" "in_i64 (tamount d)"
  shows "valid (accounted g) (adjust_hive_balance F i b d)
    (\<lambda>r s. left_over b d r \<and> accounted (\<lambda>k. g k + (held_as Hive k r - held_as Hive k b)) s)"
  unfolding adjust_hive_balance_def
  by (rule modify_account_triple)
    (use assms in \<open>auto simp: move_unfold fund_cases_all\<close>)

lemma adjust_hive_savings_triple:
  assumes "fc_ok F" "tiny_ok b" "in_i64 (tamount d)"
  shows "valid (accounted g) (adjust_hive_savings F i b d)
    (\<lambda>r s. left_over b d r \<and> accounted (\<lambda>k. g k + (held_as Hive k r - held_as Hive k b)) s)"
  unfolding adjust_hive_savings_def
  by (rule modify_account_triple)
    (use assms in \<open>auto simp: move_unfold fund_cases_all\<close>)

lemma adjust_hive_reward_triple:
  assumes "fc_ok F" "tiny_ok b" "in_i64 (tamount d)"
  shows "valid (accounted g) (adjust_hive_reward F i b d)
    (\<lambda>r s. left_over b d r \<and> accounted (\<lambda>k. g k + (held_as Hive k r - held_as Hive k b)) s)"
  unfolding adjust_hive_reward_def
  by (rule modify_account_triple)
    (use assms in \<open>auto simp: move_unfold fund_cases_all\<close>)

lemma adjust_hbd_reward_triple:
  assumes "fc_ok F" "tiny_ok b" "in_i64 (tamount d)"
  shows "valid (accounted g) (adjust_hbd_reward F i b d)
    (\<lambda>r s. left_over b d r \<and> accounted (\<lambda>k. g k + (held_as Hbd k r - held_as Hbd k b)) s)"
  unfolding adjust_hbd_reward_def
  by (rule modify_account_triple)
    (use assms in \<open>auto simp: move_unfold fund_cases_all\<close>)

section \<open>Issuing and burning\<close>

lemma in_i64_sint: "in_i64 (sint (w :: 64 word))"
  using sint_greater_eq [of w] sint_less [of w] by (simp add: in_i64_def)

lemma signed_share_range: "fc_ok F \<Longrightarrow> signed_share F n w = Inr v \<Longrightarrow> in_i64 v"
  by (auto simp: signed_share_def bind_r_eq_Inr share_of_uint64_exact in_i64_sint)

lemma times_price_range:
  "fc_ok F \<Longrightarrow> tiny_base_times_price F a p = Inr v \<Longrightarrow> in_i64 (tamount v)"
  "fc_ok F \<Longrightarrow> tiny_quote_times_price F a p = Inr v \<Longrightarrow> in_i64 (tamount v)"
  "fc_ok F \<Longrightarrow> asset_times_price F b q = Inr c \<Longrightarrow> in_i64 (amount c)"
  by (auto simp: tiny_base_times_price_def tiny_quote_times_price_def asset_times_price_def Let_def
      bind_r_eq_Inr split: if_splits intro: signed_share_range)

lemma multiply_with_fee_range:
  "fc_ok F \<Longrightarrow> tiny_base_multiply_with_fee F z a p f = Inr v \<Longrightarrow> in_i64 (tamount v)"
  "fc_ok F \<Longrightarrow> tiny_quote_multiply_with_fee F z a p f = Inr v \<Longrightarrow> in_i64 (tamount v)"
  by (auto simp: tiny_base_multiply_with_fee_def tiny_quote_multiply_with_fee_def
      bind_r_eq_Inr split: if_splits intro: signed_share_range)

lemma full_virtual_supply_range:
  assumes "fc_ok F" "in_i64 (tamount h)" "full_virtual_supply F x r h = Inr v"
  shows "in_i64 (tamount v)"
  using assms times_price_range(1) [of F x r]
  by (auto simp: full_virtual_supply_def bind_r_eq_Inr tiny_plus_Inr)

lemmas supply_unfold = bind_s_eq_Inr lift_s_eq_Inr dgpo_ok_def issue_asset_Inr burn_asset_Inr
  tiny_plus_Inr tiny_minus_Inr tiny_ok_def held_as_def bind_r_eq_Inr

lemma issue_HIVE_triple:
  assumes "fc_ok F" "in_i64 (tamount a)"
  shows "valid (accounted g) (modify_dgpo (issue_HIVE F a))
    (\<lambda>r s. (tiny_ok r \<and> tamount r = tamount a) \<and> accounted (\<lambda>k. g k + held_as Hive k r) s)"
  by (rule modify_dgpo_triple)
    (use assms in \<open>auto simp: issue_HIVE_def supply_unfold fund_cases_all\<close>)

lemma burn_HIVE_triple:
  assumes "fc_ok F" "tiny_ok b"
  shows "valid (accounted g) (modify_dgpo (burn_HIVE F b))
    (\<lambda>r s. tamount r = 0 \<and> accounted (\<lambda>k. g k + - held_as Hive k b) s)"
  by (rule modify_dgpo_triple)
    (use assms in \<open>auto simp: burn_HIVE_def supply_unfold fund_cases_all\<close>)

text \<open>The virtual supply is an estimate in range; the supply counters move by the amount.\<close>

lemma issue_HBD_Inr:
  assumes "fc_ok F" "dgpo_ok d" "issue_HBD F a p full d = Inr (r, d')"
  obtains hs vs where "d' = d\<lparr>current_hbd_supply := hs, virtual_supply := vs\<rparr>"
    "issue_asset F temp_tiny_balance a = Inr r" "tiny_plus F (current_hbd_supply d) a = Inr hs"
    "in_i64 (tamount vs)"
proof (cases full)
  case True
  then obtain hs vs where *: "d' = d\<lparr>current_hbd_supply := hs, virtual_supply := vs\<rparr>"
    "issue_asset F temp_tiny_balance a = Inr r" "tiny_plus F (current_hbd_supply d) a = Inr hs"
    "full_virtual_supply F hs p (current_supply d) = Inr vs"
    using assms(3) by (auto simp: issue_HBD_def bind_s_eq_Inr lift_s_eq_Inr)
  moreover have "in_i64 (tamount vs)"
    using full_virtual_supply_range [OF assms(1) _ *(4)] assms(2) by (simp add: dgpo_ok_def)
  ultimately show ?thesis using that by blast
next
  case False
  then obtain hs v vs where *: "d' = d\<lparr>current_hbd_supply := hs, virtual_supply := vs\<rparr>"
    "issue_asset F temp_tiny_balance a = Inr r" "tiny_plus F (current_hbd_supply d) a = Inr hs"
    "tiny_base_times_price F a p = Inr v" "tiny_plus F (virtual_supply d) v = Inr vs"
    using assms(3) by (auto simp: issue_HBD_def bind_s_eq_Inr lift_s_eq_Inr bind_r_eq_Inr)
  moreover have "in_i64 (tamount vs)"
    using *(5) tiny_plus_Inr [OF assms(1) _ times_price_range(1) [OF assms(1) *(4)]] assms(2)
    by (auto simp: dgpo_ok_def)
  ultimately show ?thesis using that by blast
qed

lemma burn_HBD_Inr:
  assumes "fc_ok F" "dgpo_ok d" "burn_HBD F b p full d = Inr (r, d')"
  obtains hs vs where "d' = d\<lparr>current_hbd_supply := hs, virtual_supply := vs\<rparr>"
    "burn_asset F b b = Inr r" "tiny_minus F (current_hbd_supply d) b = Inr hs"
    "in_i64 (tamount vs)"
proof (cases full)
  case True
  then obtain hs vs where *: "d' = d\<lparr>current_hbd_supply := hs, virtual_supply := vs\<rparr>"
    "burn_asset F b b = Inr r" "tiny_minus F (current_hbd_supply d) b = Inr hs"
    "full_virtual_supply F hs p (current_supply d) = Inr vs"
    using assms(3) by (auto simp: burn_HBD_def bind_s_eq_Inr lift_s_eq_Inr)
  moreover have "in_i64 (tamount vs)"
    using full_virtual_supply_range [OF assms(1) _ *(4)] assms(2) by (simp add: dgpo_ok_def)
  ultimately show ?thesis using that by blast
next
  case False
  then obtain hs v vs where *: "d' = d\<lparr>current_hbd_supply := hs, virtual_supply := vs\<rparr>"
    "burn_asset F b b = Inr r" "tiny_minus F (current_hbd_supply d) b = Inr hs"
    "tiny_base_times_price F b p = Inr v" "tiny_minus F (virtual_supply d) v = Inr vs"
    using assms(3) by (auto simp: burn_HBD_def bind_s_eq_Inr lift_s_eq_Inr bind_r_eq_Inr)
  moreover have "in_i64 (tamount vs)"
    using *(5) tiny_minus_Inr [OF assms(1) _ times_price_range(1) [OF assms(1) *(4)]] assms(2)
    by (auto simp: dgpo_ok_def)
  ultimately show ?thesis using that by blast
qed

lemma issue_HBD_triple:
  assumes "fc_ok F" "in_i64 (tamount a)"
  shows "valid (accounted g) (modify_dgpo (issue_HBD F a p full))
    (\<lambda>r s. (tiny_ok r \<and> tamount r = tamount a) \<and> accounted (\<lambda>k. g k + held_as Hbd k r) s)"
  by (rule modify_dgpo_triple, rule issue_HBD_Inr [OF assms(1)], assumption+)
    (use assms in \<open>auto simp: supply_unfold fund_cases_all\<close>)

lemma burn_HBD_triple:
  assumes "fc_ok F" "tiny_ok b"
  shows "valid (accounted g) (modify_dgpo (burn_HBD F b p full))
    (\<lambda>r s. tamount r = 0 \<and> accounted (\<lambda>k. g k + - held_as Hbd k b) s)"
  by (rule modify_dgpo_triple, rule burn_HBD_Inr [OF assms(1)], assumption+)
    (use assms in \<open>auto simp: supply_unfold fund_cases_all\<close>)

section \<open>Interest and liquid HBD\<close>

lemma issue_interest_triple:
  assumes "fc_ok F"
  shows "valid (accounted g) (issue_interest F x)
    (\<lambda>r s. tiny_ok r \<and> accounted (\<lambda>k. g k + held_as Hbd k r) s)"
  unfolding issue_interest_def
  apply (intro valid_rules)
  apply (rule valid_conseq)
   apply (rule issue_HBD_triple [OF assms])
  using assms by (auto simp: share_of_uint64_exact in_i64_sint)

lemma receive_all_triple:
  assumes "\<And>a x a'. account_ok a \<Longrightarrow> f a = Inr (x, a') \<Longrightarrow>
      account_ok a' \<and> tamount x = 0 \<and> (\<forall>k. account_funds k a - account_funds k a' = - held_as j k b)"
  shows "valid (accounted (\<lambda>k. g k + held_as j k b))
    (bind_s (modify_account i f) (\<lambda>r. lift_s (drop_tiny_temp r))) (\<lambda>_. accounted g)"
proof (rule valid_bind_conj)
  show "valid (accounted (\<lambda>k. g k + held_as j k b)) (modify_account i f)
      (\<lambda>x s. tamount x = 0 \<and> accounted (\<lambda>k. g k + held_as j k b + - held_as j k b) s)"
    by (rule modify_account_triple [OF assms])
  show "valid (accounted (\<lambda>k. g k + held_as j k b + - held_as j k b)) (lift_s (drop_tiny_temp x))
      (\<lambda>_. accounted g)" for x
    by (rule valid_tail, rule valid_bind_lift, rule valid_ret) simp
qed

lemma pay_liquid_interest_triple:
  assumes "fc_ok F"
  shows "valid (accounted g) (pay_liquid_interest F i) (\<lambda>_. accounted g)"
  unfolding pay_liquid_interest_def
  apply (intro valid_rules)
   apply (rule valid_bind_conj [OF issue_interest_triple [OF assms]])
   apply (rule receive_all_triple)
   apply (use assms in \<open>auto simp: move_unfold fund_cases_all\<close>) [1]
  apply (rule valid_conseq)
   apply (rule modify_account_triple [where A = "\<lambda>_. True" and D = "\<lambda>_ _. 0"])
   apply (auto simp: account_ok_def fund_cases_all)
  done

lemma pay_savings_interest_triple:
  assumes "fc_ok F"
  shows "valid (accounted g) (pay_savings_interest F i) (\<lambda>_. accounted g)"
  unfolding pay_savings_interest_def
  apply (intro valid_rules)
   apply (rule valid_bind_conj [OF issue_interest_triple [OF assms]])
   apply (rule receive_all_triple)
   apply (use assms in \<open>auto simp: move_unfold fund_cases_all\<close>) [1]
  apply (rule valid_conseq)
   apply (rule modify_account_triple [where A = "\<lambda>_. True" and D = "\<lambda>_ _. 0"])
   apply (auto simp: account_ok_def fund_cases_all)
  done

lemma adjust_hbd_balance_triple:
  assumes "fc_ok F" "tiny_ok b" "in_i64 (tamount d)"
  shows "valid (accounted g) (adjust_hbd_balance F i b d)
    (\<lambda>r s. left_over b d r \<and> accounted (\<lambda>k. g k + (held_as Hbd k r - held_as Hbd k b)) s)"
  unfolding adjust_hbd_balance_def
  apply (intro valid_rules)
   apply (rule valid_bind [OF pay_liquid_interest_triple [OF assms(1)]])
   apply (rule modify_account_triple)
   apply (use assms in \<open>auto simp: move_unfold fund_cases_all\<close>) [1]
  apply (rule modify_account_triple)
  apply (use assms in \<open>auto simp: move_unfold fund_cases_all\<close>)
  done

lemma adjust_hbd_savings_triple:
  assumes "fc_ok F" "tiny_ok b" "in_i64 (tamount d)"
  shows "valid (accounted g) (adjust_hbd_savings F i b d)
    (\<lambda>r s. left_over b d r \<and> accounted (\<lambda>k. g k + (held_as Hbd k r - held_as Hbd k b)) s)"
  unfolding adjust_hbd_savings_def
  apply (intro valid_rules)
   apply (rule valid_bind [OF pay_savings_interest_triple [OF assms(1)]])
   apply (rule modify_account_triple)
   apply (use assms in \<open>auto simp: move_unfold fund_cases_all\<close>) [1]
  apply (rule modify_account_triple)
  apply (use assms in \<open>auto simp: move_unfold fund_cases_all\<close>)
  done

section \<open>Balances of a dynamic symbol\<close>

definition left_over_of :: "asset \<Rightarrow> asset \<Rightarrow> asset \<Rightarrow> bool" where
  "left_over_of b d r \<longleftrightarrow>
     bal_ok r \<and> symbol r = symbol b \<and> symbol b = symbol d \<and> amount r = amount b - amount d"

text \<open>What the four operations on a fixed symbol have in common, and what follows for the two
  operations on a dynamic symbol.\<close>

locale balance_adjustment =
  fixes adjust :: "fc_lib \<Rightarrow> nat \<Rightarrow> tiny_asset \<Rightarrow> tiny_asset \<Rightarrow> tiny_asset ledger_op"
    and fund_kind :: fund and symbol_num :: "32 word"
  assumes adjust_triple:
    "fc_ok F \<Longrightarrow> tiny_ok b \<Longrightarrow> in_i64 (tamount d) \<Longrightarrow>
     valid (accounted g) (adjust F i b d)
       (\<lambda>r s. left_over b d r \<and> accounted (\<lambda>k. g k + (held_as fund_kind k r - held_as fund_kind k b)) s)"
    and held_symbol:
    "symbol c = from_asset_num symbol_num \<Longrightarrow> held k c = (if k = fund_kind then amount c else 0)"
begin

lemma through_tiny_triple:
  assumes F: "fc_ok F" and b: "bal_ok b" and d: "in_i64 (amount d)"
  shows "valid (accounted g) (through_tiny F symbol_num (adjust F i) b d)
    (\<lambda>r s. left_over_of b d r \<and> accounted (\<lambda>k. g k + (held k r - held k b)) s)"
  unfolding through_tiny_def
proof (rule valid_bind_lift)
  fix e
  assume e: "tiny_of_asset symbol_num d = Inr e"
  have "valid (accounted g)
      (bind_s (adjust F i t e) (\<lambda>t1.
       bind_s (lift_s (balance_transfer_from_tiny symbol_num F any1 t1 t1)) (\<lambda>(any2, t2).
       bind_s (lift_s (drop_tiny_temp t2)) (\<lambda>_. ret_s any2))))
      (\<lambda>r s. left_over_of b d r \<and> accounted (\<lambda>k. g k + (held k r - held k b)) s)"
    if m: "tiny_transfer_from_balance symbol_num F temp_tiny_balance b b = Inr (t, any1)" for t any1
  proof -
    have t: "tiny_ok t" "tamount t = amount b" "symbol b = from_asset_num symbol_num"
      "amount any1 = 0" "symbol any1 = symbol b"
      using m F b by (auto simp: from_bal.move_iff bal_ok_def tiny_ok_def)
    show ?thesis
    proof (rule valid_bind_conj [OF adjust_triple [OF F t(1)]])
      show "in_i64 (tamount e)" using e d by (auto simp: tiny_of_asset_Inr)
      fix t1
      assume l: "left_over t e t1"
      show "valid (accounted (\<lambda>k. g k + (held_as fund_kind k t1 - held_as fund_kind k t)))
          (bind_s (lift_s (balance_transfer_from_tiny symbol_num F any1 t1 t1)) (\<lambda>(any2, t2).
           bind_s (lift_s (drop_tiny_temp t2)) (\<lambda>_. ret_s any2)))
          (\<lambda>r s. left_over_of b d r \<and> accounted (\<lambda>k. g k + (held k r - held k b)) s)"
      proof (rule valid_bind_lift, rule valid_case_prod, rule valid_bind_lift, rule valid_ret)
        fix x any2 t2 u s
        assume x: "balance_transfer_from_tiny symbol_num F any1 t1 t1 = Inr x" "x = (any2, t2)"
          and s: "accounted (\<lambda>k. g k + (held_as fund_kind k t1 - held_as fund_kind k t)) s"
        have r: "amount any2 = tamount t1" "symbol any2 = from_asset_num symbol_num" "bal_ok any2"
          using x F t l by (auto simp: from_tiny.move_iff left_over_def tiny_ok_def bal_ok_def)
        have "left_over_of b d any2"
          using r t l e by (auto simp: left_over_of_def left_over_def tiny_of_asset_Inr)
        moreover have "held k any2 - held k b = held_as fund_kind k t1 - held_as fund_kind k t" for k
          using r t by (simp add: held_symbol held_as_def)
        ultimately show "left_over_of b d any2 \<and> accounted (\<lambda>k. g k + (held k any2 - held k b)) s"
          using s by simp
      qed
    qed
  qed
  then show "valid (accounted g)
      (bind_s (lift_s (tiny_transfer_from_balance symbol_num F temp_tiny_balance b b)) (\<lambda>(t, any1).
       bind_s (adjust F i t e) (\<lambda>t1.
       bind_s (lift_s (balance_transfer_from_tiny symbol_num F any1 t1 t1)) (\<lambda>(any2, t2).
       bind_s (lift_s (drop_tiny_temp t2)) (\<lambda>_. ret_s any2)))))
      (\<lambda>r s. left_over_of b d r \<and> accounted (\<lambda>k. g k + (held k r - held k b)) s)"
    by (intro valid_bind_lift valid_case_prod) simp
qed

end

interpretation liquid_hive: balance_adjustment adjust_hive_balance Hive HIVE_ASSET_NUM_HIVE
  by unfold_locales (rule adjust_hive_balance_triple, simp_all)

interpretation liquid_hbd: balance_adjustment adjust_hbd_balance Hbd HIVE_ASSET_NUM_HBD
  by unfold_locales (rule adjust_hbd_balance_triple, simp_all)

interpretation savings_hive: balance_adjustment adjust_hive_savings Hive HIVE_ASSET_NUM_HIVE
  by unfold_locales (rule adjust_hive_savings_triple, simp_all)

interpretation savings_hbd: balance_adjustment adjust_hbd_savings Hbd HIVE_ASSET_NUM_HBD
  by unfold_locales (rule adjust_hbd_savings_triple, simp_all)

lemma adjust_balance_triple:
  assumes "fc_ok F" "bal_ok b" "in_i64 (amount d)"
  shows "valid (accounted g) (adjust_balance F i b d)
    (\<lambda>r s. left_over_of b d r \<and> accounted (\<lambda>k. g k + (held k r - held k b)) s)"
  unfolding adjust_balance_def
  by (intro valid_rules liquid_hive.through_tiny_triple liquid_hbd.through_tiny_triple assms)

lemma adjust_savings_balance_triple:
  assumes "fc_ok F" "bal_ok b" "in_i64 (amount d)"
  shows "valid (accounted g) (adjust_savings_balance F i b d)
    (\<lambda>r s. left_over_of b d r \<and> accounted (\<lambda>k. g k + (held k r - held k b)) s)"
  unfolding adjust_savings_balance_def
  by (intro valid_rules savings_hive.through_tiny_triple savings_hbd.through_tiny_triple assms)

section \<open>Withdrawing and delivering\<close>

lemma liquid_bal_ok: "liquid b \<Longrightarrow> bal_ok b" "liquid b \<Longrightarrow> in_i64 (amount b)"
  by (simp_all add: liquid_def bal_ok_def)

lemma liquid_move:
  assumes "fc_ok F" "liquid b" "in_i64 (amount d)"
    and "balance_transfer_from F (temp_balance (symbol b)) b d = Inr (taken, rest)"
  shows "liquid taken" "liquid rest" "symbol rest = symbol b" "held k b - held k rest = held k taken"
    "symbol taken = symbol b" "amount taken = amount d" "amount rest = amount b - amount d"
  using assms by (auto simp: bal.move_iff liquid_def bal_ok_def held_def split: fund.split)

lemma deliver_all_triple:
  assumes "fc_ok F" "liquid b"
  shows "valid (accounted (\<lambda>k. g k + held k b)) (adjust_balance F a b b)
    (\<lambda>r s. amount r = 0 \<and> accounted g s)"
  by (rule valid_conseq [OF adjust_balance_triple [OF assms(1)]])
    (use assms(2) in \<open>auto simp: liquid_bal_ok left_over_of_def\<close>)

lemmas deliver_all = valid_bind_conj [OF deliver_all_triple]

lemma valid_drop_temp: "valid P (lift_s (drop_temp b)) (\<lambda>_. P)"
  by (simp add: valid_def lift_s_eq_Inr)

lemma adjust_balance_symbol:
  "adjust_balance F i b d s = Inr r \<Longrightarrow> symbol d = HIVE_SYMBOL \<or> symbol d = HBD_SYMBOL"
  by (auto simp: adjust_balance_def bind_s_eq_Inr check_s_eq_Inr asset_num_symbols split: if_splits)

lemma withdraw_triple:
  assumes "fc_ok F" "in_i64 (amount c)" "asset_uminus F c = Inr neg"
  shows "valid (accounted g) (adjust_balance F a (temp_balance (symbol c)) neg)
    (\<lambda>b s. (liquid b \<and> symbol b = symbol c \<and> amount b = amount c) \<and> accounted (\<lambda>k. g k + held k b) s)"
proof (rule validI)
  fix s b s'
  assume s: "accounted g s" "adjust_balance F a (temp_balance (symbol c)) neg s = Inr (b, s')"
  have n: "symbol neg = symbol c" "amount neg = - amount c" "in_i64 (amount neg)"
    using assms asset_uminus_Inr [OF assms(1,2)] by auto
  have "left_over_of (temp_balance (symbol c)) neg b \<and>
      accounted (\<lambda>k. g k + (held k b - held k (temp_balance (symbol c)))) s'"
    using validD [OF adjust_balance_triple [OF assms(1) _ n(3)] s(2) s(1)] by simp
  then show "(liquid b \<and> symbol b = symbol c \<and> amount b = amount c) \<and> accounted (\<lambda>k. g k + held k b) s'"
    using adjust_balance_symbol [OF s(2)] n by (auto simp: left_over_of_def liquid_def)
qed

lemma valid_bind_pair:
  assumes "valid P m (\<lambda>(x, y) s. A x y \<and> R x y s)"
    and "\<And>x y. A x y \<Longrightarrow> valid (R x y) (f x y) Q"
  shows "valid P (bind_s m (\<lambda>(x, y). f x y)) Q"
  by (rule valid_bind [OF assms(1)]) (use assms(2) in \<open>auto simp: valid_def\<close>)

lemma deliver_hbd_triple:
  assumes "fc_ok F" "tiny_ok b"
  shows "valid (accounted (\<lambda>k. g k + held_as Hbd k b)) (adjust_hbd_balance F a b b)
    (\<lambda>r s. tamount r = 0 \<and> accounted g s)"
  by (rule valid_conseq [OF adjust_hbd_balance_triple [OF assms]])
    (use assms(2) in \<open>auto simp: tiny_ok_def left_over_def\<close>)

lemma valid_drop_tiny: "valid P (lift_s (drop_tiny_temp b)) (\<lambda>_. P)"
  by (simp add: valid_def lift_s_eq_Inr)

lemma deliver_hive_triple:
  assumes "fc_ok F" "tiny_ok b"
  shows "valid (accounted (\<lambda>k. g k + held_as Hive k b)) (adjust_hive_balance F a b b)
    (\<lambda>r s. tamount r = 0 \<and> accounted g s)"
  by (rule valid_conseq [OF adjust_hive_balance_triple [OF assms]])
    (use assms(2) in \<open>auto simp: tiny_ok_def left_over_def\<close>)

text \<open>The same with the delivered balance among others.\<close>

lemma deliver_from_triple:
  assumes "fc_ok F"
  shows "liquid c \<Longrightarrow> valid (accounted h) (adjust_balance F a c c)
      (\<lambda>r s. amount r = 0 \<and> accounted (\<lambda>k. h k - held k c) s)"
    and "tiny_ok b \<Longrightarrow> valid (accounted h) (adjust_hive_balance F a b b)
      (\<lambda>r s. tamount r = 0 \<and> accounted (\<lambda>k. h k - held_as Hive k b) s)"
    and "tiny_ok b \<Longrightarrow> valid (accounted h) (adjust_hbd_balance F a b b)
      (\<lambda>r s. tamount r = 0 \<and> accounted (\<lambda>k. h k - held_as Hbd k b) s)"
  using deliver_all_triple [OF assms, of c "\<lambda>k. h k - held k c"]
    deliver_hive_triple [OF assms, of b "\<lambda>k. h k - held_as Hive k b"]
    deliver_hbd_triple [OF assms, of b "\<lambda>k. h k - held_as Hbd k b"] by simp_all

lemmas deliver_from = deliver_from_triple [THEN valid_bind_conj]

section \<open>Tables of objects with funds\<close>

text \<open>A table of the ledger whose objects hold funds: replacing the table changes the gap by the
  difference of the totals.\<close>

locale funded_table =
  fixes get :: "ledger \<Rightarrow> 'a table" and upd :: "'a table \<Rightarrow> ledger \<Rightarrow> ledger"
    and funds :: "fund \<Rightarrow> 'a \<Rightarrow> int" and obj_ok :: "'a \<Rightarrow> bool"
  assumes get_ok: "ledger_ok s \<Longrightarrow> table_wf (get s) \<and> all_rows obj_ok (get s)"
    and set_accounted: "accounted g s \<Longrightarrow> table_wf t \<Longrightarrow> all_rows obj_ok t \<Longrightarrow>
      accounted (\<lambda>k. g k + (total (funds k) (get s) - total (funds k) t)) (upd t s)"
begin

lemma table_ok: "accounted g s \<Longrightarrow> table_wf (get s)" "accounted g s \<Longrightarrow> all_rows obj_ok (get s)"
  using get_ok by (simp_all add: accounted_def)

lemma modify_triple:
  assumes "\<And>x y x'. obj_ok x \<Longrightarrow> f x = Inr (y, x') \<Longrightarrow>
    obj_ok x' \<and> A y \<and> (\<forall>k. funds k x - funds k x' = D k y)"
  shows "valid (accounted g) (modify_row get upd i f) (\<lambda>y s. A y \<and> accounted (\<lambda>k. g k + D k y) s)"
proof (rule validI)
  fix s y s'
  assume s: "accounted g s" and "modify_row get upd i f s = Inr (y, s')"
  then obtain x x' where x: "find_row (get s) i = Some x" "f x = Inr (y, x')"
    and s': "s' = upd (put_row i x' (get s)) s"
    by (auto simp: modify_row_def bind_r_eq_Inr split: option.splits)
  have ok: "obj_ok x" using all_rows_find [OF table_ok(2) [OF s] x(1)] .
  note a = assms [OF ok x(2)]
  then have "accounted (\<lambda>k. g k + (total (funds k) (get s) - total (funds k) (put_row i x' (get s)))) s'"
    unfolding s' using table_ok [OF s] by (intro set_accounted [OF s]) simp_all
  then have "accounted (\<lambda>k. g k + D k y) s'"
    by (rule accounted_weaken) (use a tab.put_sum [OF table_ok(1) [OF s] x(1)] in auto)
  then show "A y \<and> accounted (\<lambda>k. g k + D k y) s'" using a by simp
qed

lemma remove_triple:
  assumes "\<And>x u. obj_ok x \<Longrightarrow> check x = Inr u \<Longrightarrow> (\<forall>k. funds k x = 0)"
  shows "valid (accounted g) (remove_row get upd check i) (\<lambda>_. accounted g)"
proof (rule validI)
  fix s y s'
  assume s: "accounted g s" and "remove_row get upd check i s = Inr (y, s')"
  then obtain x u where x: "find_row (get s) i = Some x" "check x = Inr u"
    and s': "s' = upd (drop_row i (get s)) s"
    by (auto simp: remove_row_def bind_r_eq_Inr split: option.splits)
  have "obj_ok x" using all_rows_find [OF table_ok(2) [OF s] x(1)] .
  then have z: "funds k x = 0" for k using assms x(2) by blast
  have "accounted (\<lambda>k. g k + (total (funds k) (get s) - total (funds k) (drop_row i (get s)))) s'"
    unfolding s' using table_ok [OF s] by (intro set_accounted [OF s]) simp_all
  then show "accounted g s'"
    by (rule accounted_weaken) (simp add: tab.drop_sum [OF table_ok(1) [OF s] x(1)] z)
qed

lemma create_triple:
  assumes "obj_ok x"
  shows "valid (accounted g) (create_row get upd clash x) (\<lambda>_. accounted (\<lambda>k. g k + - funds k x))"
proof (rule validI)
  fix s y s'
  assume s: "accounted g s" and "create_row get upd clash x s = Inr (y, s')"
  then have s': "s' = upd (add_row x (get s)) s"
    by (auto simp: create_row_def split: if_splits)
  have "accounted (\<lambda>k. g k + (total (funds k) (get s) - total (funds k) (add_row x (get s)))) s'"
    unfolding s' using table_ok [OF s] assms by (intro set_accounted [OF s]) simp_all
  then show "accounted (\<lambda>k. g k + - funds k x) s'"
    by (rule accounted_weaken) (simp add: total_add)
qed

end

abbreviation set_orders :: "limit_order_object table \<Rightarrow> ledger \<Rightarrow> ledger" where
  "set_orders t s \<equiv> s\<lparr>limit_orders := t\<rparr>"
abbreviation set_escrows :: "escrow_object table \<Rightarrow> ledger \<Rightarrow> ledger" where
  "set_escrows t s \<equiv> s\<lparr>escrows := t\<rparr>"
abbreviation set_savings :: "savings_withdraw_object table \<Rightarrow> ledger \<Rightarrow> ledger" where
  "set_savings t s \<equiv> s\<lparr>savings_withdraws := t\<rparr>"
abbreviation set_converts :: "convert_request_object table \<Rightarrow> ledger \<Rightarrow> ledger" where
  "set_converts t s \<equiv> s\<lparr>convert_requests := t\<rparr>"
abbreviation set_collateralized ::
  "collateralized_convert_request_object table \<Rightarrow> ledger \<Rightarrow> ledger" where
  "set_collateralized t s \<equiv> s\<lparr>collateralized_requests := t\<rparr>"

interpretation ord: funded_table limit_orders set_orders "\<lambda>k l. held k (for_sale l)" order_ok
  by unfold_locales (auto simp: gap_simps)

interpretation esc: funded_table escrows set_escrows escrow_funds escrow_ok
  by unfold_locales (auto simp: gap_simps)

interpretation sav: funded_table savings_withdraws set_savings "\<lambda>k w. held k (sw_amount w)"
    "\<lambda>w. liquid (sw_amount w)"
  by unfold_locales (auto simp: gap_simps)

interpretation cvt: funded_table convert_requests set_converts "\<lambda>k c. held_as Hbd k (cr_amount c)"
    "\<lambda>c. tiny_ok (cr_amount c)"
  by unfold_locales (auto simp: gap_simps)

interpretation ccv: funded_table collateralized_requests set_collateralized
    "\<lambda>k c. held_as Hive k (collateral_amount c)" collateralized_ok
  by unfold_locales (auto simp: gap_simps)

end
