(* ===== verification/Market.thy ===== *)
theory Market
  imports Ledger_Laws
begin

text \<open>
  The internal market: limit orders (\<^verbatim>\<open>database_market.cpp\<close>), the liquidity volumes
  (\<^verbatim>\<open>database_vesting.cpp\<close>) and the evaluators of the limit order operations
  (\<^verbatim>\<open>hive_evaluator_transfer.cpp\<close>). The object is called by its id; \<open>lo_seller\<close> and the other fields
  are read when the code reads them.
\<close>

section \<open>Liquidity volumes\<close>

definition HIVE_LIQUIDITY_TIMEOUT_SEC :: int where "HIVE_LIQUIDITY_TIMEOUT_SEC = 604800"
definition HIVE_MIN_LIQUIDITY_REWARD_PERIOD_SEC :: int where "HIVE_MIN_LIQUIDITY_REWARD_PERIOD_SEC = 60"
definition HIVE_MIN_LIQUIDITY_REWARD_PERIOD_SEC_HF10 :: int where
  "HIVE_MIN_LIQUIDITY_REWARD_PERIOD_SEC_HF10 = 1800"

definition is_positive :: "liquidity_reward_balance_object \<Rightarrow> bool" where
  "is_positive r \<longleftrightarrow> hive_volume r > 0 \<and> hbd_volume r > 0"

definition volume_weight :: "liquidity_reward_balance_object \<Rightarrow> 128 word" where
  "volume_weight r = (if is_positive r then of_int (hive_volume r) * of_int (hbd_volume r) else 0)"

definition min_volume_weight :: "liquidity_reward_balance_object \<Rightarrow> 128 word" where
  "min_volume_weight r = (if is_positive r then of_int (min (hive_volume r) (hbd_volume r)) else 0)"

definition update_weight ::
  "bool \<Rightarrow> liquidity_reward_balance_object \<Rightarrow> liquidity_reward_balance_object" where
  "update_weight hf9 r = r\<lparr>lr_weight := (if hf9 then min_volume_weight r else volume_weight r)\<rparr>"

definition add_volume ::
  "asset \<Rightarrow> bool \<Rightarrow> liquidity_reward_balance_object \<Rightarrow> liquidity_reward_balance_object res" where
  "add_volume volume is_hbd r =
     (if is_hbd then bind_r (i64 (hbd_volume r + amount volume)) (\<lambda>v. Inr (r\<lparr>hbd_volume := v\<rparr>))
      else bind_r (i64 (hive_volume r + amount volume)) (\<lambda>v. Inr (r\<lparr>hive_volume := v\<rparr>)))"

definition adjust_liquidity_reward :: "nat \<Rightarrow> asset \<Rightarrow> bool \<Rightarrow> unit ledger_op" where
  "adjust_liquidity_reward owner volume is_hbd =
     bind_s (get_s id) (\<lambda>s.
     let now = head_block_time s in
     case find_by (\<lambda>r. lr_owner r = owner) (liquidity_rewards s) of
       Some i \<Rightarrow>
         modify_row liquidity_rewards (\<lambda>t s. s\<lparr>liquidity_rewards := t\<rparr>) i (\<lambda>r.
           let r1 = (if seconds_between now (lr_last_update r) \<ge> HIVE_LIQUIDITY_TIMEOUT_SEC
                     then r\<lparr>hbd_volume := 0, hive_volume := 0, lr_weight := 0\<rparr> else r)
           in bind_r (add_volume volume is_hbd r1) (\<lambda>r2.
              Inr ((), (update_weight (has_hardfork 10 s) r2)\<lparr>lr_last_update := now\<rparr>)))
     | None \<Rightarrow>
         (let r = \<lparr>lr_owner = owner, lr_last_update = 0, lr_weight = 0, hive_volume = 0, hbd_volume = 0\<rparr>;
              r1 = (if is_hbd then r\<lparr>hbd_volume := amount volume\<rparr> else r\<lparr>hive_volume := amount volume\<rparr>);
              r2 = (update_weight (has_hardfork 9 s) r1)\<lparr>lr_last_update := now\<rparr>
          in bind_s (create_row liquidity_rewards (\<lambda>t s. s\<lparr>liquidity_rewards := t\<rparr>)
                      (\<lambda>x y. lr_owner x = lr_owner y) r2) (\<lambda>_. ret_s ())))"

section \<open>Orders\<close>

definition order_check_on_remove :: "limit_order_object \<Rightarrow> unit res" where
  "order_check_on_remove l =
     check_r (is_empty (for_sale l)) ''Removing limit_order_object with non-empty balance field''"

definition amount_to_receive :: "fc_lib \<Rightarrow> limit_order_object \<Rightarrow> asset res" where
  "amount_to_receive F l = asset_times_price F (for_sale l) (sell_price l)"

definition mk_limit_order ::
  "string \<Rightarrow> asset \<Rightarrow> price \<Rightarrow> 32 word \<Rightarrow> 32 word \<Rightarrow> 32 word \<Rightarrow> limit_order_object res" where
  "mk_limit_order seller amount_to_sell p creation_time expiration_time orderid =
     bind_r (check_r (symbol amount_to_sell = symbol (base p)) ''for_sale symbol'') (\<lambda>_.
     Inr \<lparr>lo_created = creation_time, lo_expiration = expiration_time, lo_orderid = orderid,
           lo_seller = seller, for_sale = amount_to_sell, sell_price = p\<rparr>)"

text \<open>The indexes. By price the better price comes first, and the older order of equal prices.\<close>

definition by_price :: "nat \<times> limit_order_object \<Rightarrow> nat \<times> limit_order_object \<Rightarrow> bool" where
  "by_price x y \<longleftrightarrow> price_gt (sell_price (snd x)) (sell_price (snd y)) \<or>
     \<not> price_gt (sell_price (snd y)) (sell_price (snd x)) \<and> fst x < fst y"

definition by_expiration :: "nat \<times> limit_order_object \<Rightarrow> nat \<times> limit_order_object \<Rightarrow> bool" where
  "by_expiration x y \<longleftrightarrow> lo_expiration (snd x) < lo_expiration (snd y) \<or>
     lo_expiration (snd x) = lo_expiration (snd y) \<and> fst x < fst y"

definition same_order :: "limit_order_object \<Rightarrow> limit_order_object \<Rightarrow> bool" where
  "same_order x y \<longleftrightarrow> lo_seller x = lo_seller y \<and> lo_orderid x = lo_orderid y"

definition create_order :: "limit_order_object \<Rightarrow> nat ledger_op" where
  "create_order l = create_row limit_orders set_orders same_order l"

definition remove_order :: "nat \<Rightarrow> unit ledger_op" where
  "remove_order i = remove_row limit_orders set_orders order_check_on_remove i"

text \<open>\<open>take_from_order i d\<close> moves \<open>d\<close> (everything for \<open>None\<close>) out of the order.\<close>

definition take_from_order :: "fc_lib \<Rightarrow> nat \<Rightarrow> asset option \<Rightarrow> asset ledger_op" where
  "take_from_order F i d =
     modify_row limit_orders set_orders i (\<lambda>l.
       bind_r (balance_transfer_from F (temp_balance (symbol (for_sale l))) (for_sale l)
         (case d of None \<Rightarrow> for_sale l | Some x \<Rightarrow> x)) (\<lambda>(taken, rest).
       Inr (taken, l\<lparr>for_sale := rest\<rparr>)))"

definition find_limit_order :: "string \<Rightarrow> 32 word \<Rightarrow> ledger \<Rightarrow> nat option" where
  "find_limit_order seller orderid s =
     (let oid = (if has_hardfork 6 s then orderid else orderid AND 0x0000FFFF) in
      find_by (\<lambda>l. lo_seller l = seller \<and> lo_orderid l = oid) (limit_orders s))"

definition get_limit_order :: "string \<Rightarrow> 32 word \<Rightarrow> nat ledger_op" where
  "get_limit_order seller orderid =
     read_s (\<lambda>s.
       let oid = (if has_hardfork 6 s then orderid else orderid AND 0x0000FFFF) in
       case find_limit_order seller oid s of
         None \<Rightarrow> Inl (Assert_exn ''Limit order doesn't exist'') | Some i \<Rightarrow> Inr i)"

definition cancel_order :: "fc_lib \<Rightarrow> nat \<Rightarrow> unit ledger_op" where
  "cancel_order F i =
     bind_s (take_from_order F i None) (\<lambda>amount_back.
     bind_s (get_row limit_orders i) (\<lambda>l.
     bind_s (get_account (lo_seller l)) (\<lambda>a.
     bind_s (adjust_balance F a amount_back amount_back) (\<lambda>rest.
     bind_s (remove_order i) (\<lambda>_.
     lift_s (drop_temp rest))))))"

definition require :: "bool \<Rightarrow> exn \<Rightarrow> unit res" where
  "require c e = (if c then Inr () else Inl e)"

definition fill_order :: "fc_lib \<Rightarrow> nat \<Rightarrow> asset \<Rightarrow> asset \<Rightarrow> (bool \<times> asset) ledger_op" where
  "fill_order F i pays receives =
     bind_s (get_row limit_orders i) (\<lambda>l.
     bind_s (lift_s (require (symbol (for_sale l) = symbol pays) Order_fill_exn)) (\<lambda>_.
     bind_s (lift_s (require (symbol pays \<noteq> symbol receives) Order_fill_exn)) (\<lambda>_.
     bind_s (get_account (lo_seller l)) (\<lambda>a.
     bind_s (adjust_balance F a receives receives) (\<lambda>rest.
     if amount (for_sale l) = 0 then
       bind_s (remove_order i) (\<lambda>_. ret_s (True, rest))
     else
       bind_s (lift_s (amount_to_receive F l)) (\<lambda>r.
       if amount r = 0 then bind_s (cancel_order F i) (\<lambda>_. ret_s (True, rest))
       else ret_s (False, rest)))))))"

section \<open>Matching\<close>

text \<open>\<open>trade_amounts\<close> are what the new and the old order receive.\<close>

definition trade_amounts :: "fc_lib \<Rightarrow> asset \<Rightarrow> asset \<Rightarrow> price \<Rightarrow> (asset \<times> asset) res" where
  "trade_amounts F new_order_for_sale old_order_for_sale match_price =
     bind_r (asset_times_price F old_order_for_sale match_price) (\<lambda>v.
     bind_r (asset_le new_order_for_sale v) (\<lambda>le.
     if le then
       bind_r (asset_times_price F new_order_for_sale match_price) (\<lambda>r. Inr (r, new_order_for_sale))
     else Inr (old_order_for_sale, v)))"

definition reward_volumes :: "fc_lib \<Rightarrow> nat \<Rightarrow> nat \<Rightarrow> asset \<Rightarrow> asset \<Rightarrow> unit ledger_op" where
  "reward_volumes F new_order old_order new_order_receives old_order_receives =
     bind_s (get_s id) (\<lambda>s.
     bind_s (get_row limit_orders old_order) (\<lambda>o_old.
     bind_s (get_row limit_orders new_order) (\<lambda>o_new.
     let age = seconds_between (head_block_time s) (lo_created o_old) in
     if \<not> has_hardfork 12 s \<and>
        (age \<ge> HIVE_MIN_LIQUIDITY_REWARD_PERIOD_SEC \<and> \<not> has_hardfork 10 s \<or>
         age \<ge> HIVE_MIN_LIQUIDITY_REWARD_PERIOD_SEC_HF10 \<and> has_hardfork 10 s) then
       (let is_hbd = symbol old_order_receives \<noteq> HIVE_SYMBOL;
            volume = (if is_hbd then new_order_receives else old_order_receives)
        in
        bind_s (get_account (lo_seller o_old)) (\<lambda>a.
        bind_s (adjust_liquidity_reward a volume is_hbd) (\<lambda>_.
        bind_s (get_account (lo_seller o_new)) (\<lambda>b.
        bind_s (lift_s (asset_uminus F volume)) (\<lambda>neg.
        adjust_liquidity_reward b neg is_hbd)))))
     else ret_s ())))"

definition match_order :: "fc_lib \<Rightarrow> nat \<Rightarrow> nat \<Rightarrow> price \<Rightarrow> nat ledger_op" where
  "match_order F new_order old_order match_price =
     bind_s (get_row limit_orders new_order) (\<lambda>o_new.
     bind_s (get_row limit_orders old_order) (\<lambda>o_old.
     bind_s (lift_s (require (symbol (quote (sell_price o_new)) = symbol (base (sell_price o_old))) Order_match_exn)) (\<lambda>_.
     bind_s (lift_s (require (symbol (base (sell_price o_new)) = symbol (quote (sell_price o_old))) Order_match_exn)) (\<lambda>_.
     bind_s (lift_s (require (amount (for_sale o_new) > 0 \<and> amount (for_sale o_old) > 0) Order_match_exn)) (\<lambda>_.
     bind_s (lift_s (require (symbol (quote match_price) = symbol (base (sell_price o_new))) Order_match_exn)) (\<lambda>_.
     bind_s (lift_s (require (symbol (base match_price) = symbol (base (sell_price o_old))) Order_match_exn)) (\<lambda>_.
     bind_s (lift_s (trade_amounts F (for_sale o_new) (for_sale o_old) match_price))
       (\<lambda>(new_order_receives, old_order_receives).
     let old_order_pays = new_order_receives; new_order_pays = old_order_receives in
     bind_s (lift_s (require (asset_eq new_order_pays (for_sale o_new) \<or>
                              asset_eq old_order_pays (for_sale o_old)) Order_match_exn)) (\<lambda>_.
     bind_s (reward_volumes F new_order old_order new_order_receives old_order_receives) (\<lambda>_.
     bind_s (take_from_order F old_order (Some new_order_receives)) (\<lambda>old_order_balance.
     bind_s (take_from_order F new_order (Some old_order_receives)) (\<lambda>new_order_balance.
     bind_s (fill_order F new_order new_order_pays old_order_balance) (\<lambda>(new_filled, rest1).
     bind_s (fill_order F old_order old_order_pays new_order_balance) (\<lambda>(old_filled, rest2).
     let result = (if new_filled then 1 else 0) + (if old_filled then 2 else 0) in
     bind_s (lift_s (require (result \<noteq> 0) Order_match_exn)) (\<lambda>_.
     bind_s (lift_s (drop_temp rest2)) (\<lambda>_.
     bind_s (lift_s (drop_temp rest1)) (\<lambda>_.
     ret_s result)))))))))))))))))"

text \<open>
  The orders a new order can match: the range of the price index from the best price of the
  opposite side down to the limit. Iterating from a start behind the end is undefined.
\<close>

definition matching_orders :: "price \<Rightarrow> ledger \<Rightarrow> (nat list) res" where
  "matching_orders sell s =
     bind_r (price_invert sell) (\<lambda>max_price.
     bind_r (price_max (symbol (base max_price)) (symbol (quote max_price))) (\<lambda>best.
     let ls = index_rows by_price (limit_orders s);
         limit_itr = length (takeWhile (\<lambda>(i, l). price_gt (sell_price l) best) ls);
         limit_end = length (takeWhile (\<lambda>(i, l). \<not> price_gt max_price (sell_price l)) ls)
     in if limit_end < limit_itr then Inl Undefined
        else Inr (map fst (drop limit_itr (take limit_end ls)))))"

fun match_loop :: "fc_lib \<Rightarrow> nat \<Rightarrow> nat list \<Rightarrow> unit ledger_op" where
  "match_loop F new_order [] = ret_s ()"
| "match_loop F new_order (i # is) =
     bind_s (get_row limit_orders i) (\<lambda>l.
     bind_s (match_order F new_order i (sell_price l)) (\<lambda>result.
     if odd result then ret_s () else match_loop F new_order is))"

definition apply_order :: "fc_lib \<Rightarrow> nat \<Rightarrow> bool ledger_op" where
  "apply_order F order_id =
     bind_s (get_row limit_orders order_id) (\<lambda>l.
     bind_s (read_s (matching_orders (sell_price l))) (\<lambda>is.
     bind_s (match_loop F order_id is) (\<lambda>_.
     get_s (\<lambda>s. find_row (limit_orders s) order_id = None))))"

section \<open>Maintenance\<close>

definition clear_expired_orders :: "fc_lib \<Rightarrow> unit ledger_op" where
  "clear_expired_orders F =
     bind_s (get_s id) (\<lambda>s.
     while_s (table_size (limit_orders s))
       (\<lambda>t. first_row by_expiration (\<lambda>l. lo_expiration l < head_block_time s) (limit_orders t))
       (\<lambda>i _. cancel_order F i) ())"

definition by_account :: "nat \<times> limit_order_object \<Rightarrow> nat \<times> limit_order_object \<Rightarrow> bool" where
  "by_account x y \<longleftrightarrow> lo_orderid (snd x) < lo_orderid (snd y)"

definition remove_pending_limit_orders :: "fc_lib \<Rightarrow> string \<Rightarrow> unit ledger_op" where
  "remove_pending_limit_orders F account_name =
     bind_s (get_s (\<lambda>s. map fst (sort_rows by_account
       (filter (\<lambda>(i, l). lo_seller l = account_name) (rows (limit_orders s)))))) (\<lambda>is.
     foreach_s is (cancel_order F))"

section \<open>Evaluators\<close>

record limit_order_create_operation =
  loc_owner :: string
  loc_orderid :: "32 word"
  amount_to_sell :: asset
  min_to_receive :: asset
  fill_or_kill :: bool
  loc_expiration :: "32 word"

record limit_order_create2_operation =
  loc2_owner :: string
  loc2_orderid :: "32 word"
  amount_to_sell2 :: asset
  fill_or_kill2 :: bool
  exchange_rate :: price
  loc2_expiration :: "32 word"

definition HIVE_MAX_LIMIT_ORDER_EXPIRATION :: "32 word" where
  "HIVE_MAX_LIMIT_ORDER_EXPIRATION = 2419200"

definition HIVE_HARDFORK_0_20_TIME :: "32 word" where "HIVE_HARDFORK_0_20_TIME = 1537887600"

definition hive_hbd_market :: "asset \<Rightarrow> asset \<Rightarrow> bool" where
  "hive_hbd_market sell receive \<longleftrightarrow>
     is_asset_type sell HIVE_SYMBOL \<and> is_asset_type receive HBD_SYMBOL \<or>
     is_asset_type sell HBD_SYMBOL \<and> is_asset_type receive HIVE_SYMBOL"

text \<open>\<open>open_order\<close> is the common end of both evaluators: the funds leave the account, the order is
  created and matched, and an order that must be filled at once and was not is refused.\<close>

definition open_order ::
  "fc_lib \<Rightarrow> string \<Rightarrow> asset \<Rightarrow> price res \<Rightarrow> 32 word \<Rightarrow> 32 word \<Rightarrow> bool \<Rightarrow> unit ledger_op" where
  "open_order F owner sell p expiration orderid kill =
     bind_s (get_account owner) (\<lambda>seller.
     bind_s (lift_s (asset_uminus F sell)) (\<lambda>neg.
     bind_s (adjust_balance F seller (temp_balance (symbol sell)) neg) (\<lambda>to_sell.
     bind_s (lift_s p) (\<lambda>sp.
     bind_s (get_s head_block_time) (\<lambda>now.
     bind_s (lift_s (mk_limit_order owner to_sell sp now expiration orderid)) (\<lambda>l.
     bind_s (create_order l) (\<lambda>order.
     bind_s (apply_order F order) (\<lambda>filled.
     check_s (\<not> kill \<or> filled) ''Cancelling order because it was not filled.''))))))))"

text \<open>\<open>in_control\<close> says whether the node validates a transaction it is about to include itself;
  \<open>block_hash\<close> is the fifth word of the id of the head block.\<close>

definition limit_order_create_evaluator ::
  "fc_lib \<Rightarrow> bool \<Rightarrow> 32 word \<Rightarrow> limit_order_create_operation \<Rightarrow> unit ledger_op" where
  "limit_order_create_evaluator F in_control block_hash oper =
     bind_s (get_s id) (\<lambda>s.
     bind_s (check_s (loc_expiration oper > head_block_time s)
       ''Limit order has to expire after head block time.'') (\<lambda>_.
     bind_s (check_s ((in_control \<or> has_hardfork 31 s) \<longrightarrow>
         hive_hbd_market (amount_to_sell oper) (min_to_receive oper))
       ''Limit order must be for the HIVE:HBD market'') (\<lambda>_.
     bind_s (check_s (has_hardfork 20 s \<longrightarrow>
         loc_expiration oper \<le> head_block_time s + HIVE_MAX_LIMIT_ORDER_EXPIRATION)
       ''Limit Order Expiration must not be more than 28 days in the future'') (\<lambda>_.
     let expiration = (if has_hardfork 20 s then loc_expiration oper
       else min (loc_expiration oper)
              (HIVE_HARDFORK_0_20_TIME + HIVE_MAX_LIMIT_ORDER_EXPIRATION + block_hash mod 86400))
     in open_order F (loc_owner oper) (amount_to_sell oper)
          (mk_price (amount_to_sell oper) (min_to_receive oper)) expiration (loc_orderid oper)
          (fill_or_kill oper)))))"

definition limit_order_create2_evaluator ::
  "fc_lib \<Rightarrow> bool \<Rightarrow> limit_order_create2_operation \<Rightarrow> unit ledger_op" where
  "limit_order_create2_evaluator F in_control oper =
     bind_s (get_s id) (\<lambda>s.
     bind_s (check_s (loc2_expiration oper > head_block_time s)
       ''Limit order has to expire after head block time.'') (\<lambda>_.
     bind_s (check_s ((in_control \<or> has_hardfork 31 s) \<longrightarrow>
         hive_hbd_market (amount_to_sell2 oper) (quote (exchange_rate oper)))
       ''Limit order must be for the HIVE:HBD market'') (\<lambda>_.
     bind_s (check_s (has_hardfork 20 s \<longrightarrow>
         loc2_expiration oper \<le> head_block_time s + HIVE_MAX_LIMIT_ORDER_EXPIRATION)
       ''Order expiration exceeds 28-day limit.'') (\<lambda>_.
     let expiration = (if has_hardfork 20 s then loc2_expiration oper
       else min (loc2_expiration oper) (HIVE_HARDFORK_0_20_TIME + HIVE_MAX_LIMIT_ORDER_EXPIRATION))
     in open_order F (loc2_owner oper) (amount_to_sell2 oper) (Inr (exchange_rate oper)) expiration
          (loc2_orderid oper) (fill_or_kill2 oper)))))"

definition limit_order_cancel_evaluator :: "fc_lib \<Rightarrow> string \<Rightarrow> 32 word \<Rightarrow> unit ledger_op" where
  "limit_order_cancel_evaluator F owner orderid =
     bind_s (get_limit_order owner orderid) (cancel_order F)"

end
