(* ===== verification/Market_Laws.thy ===== *)
theory Market_Laws
  imports Market
begin

text \<open>
  Laws of the market. Every operation on orders keeps the ledger accounted for: what leaves an
  order reaches an account or another order.
\<close>

section \<open>Funds of orders\<close>

lemma require_Inr [simp]: "require c e = Inr u \<longleftrightarrow> c"
  by (simp add: require_def)

lemma take_from_order_triple:
  assumes "fc_ok F" "\<And>x. d = Some x \<Longrightarrow> in_i64 (amount x)"
  shows "valid (accounted g) (take_from_order F i d) (\<lambda>b s. liquid b \<and> accounted (\<lambda>k. g k + held k b) s)"
  unfolding take_from_order_def
proof (rule ord.modify_triple)
  fix l y l'
  assume l: "order_ok l"
    and "bind_r (balance_transfer_from F (temp_balance (symbol (for_sale l))) (for_sale l)
      (case d of None \<Rightarrow> for_sale l | Some x \<Rightarrow> x)) (\<lambda>(taken, rest). Inr (taken, l\<lparr>for_sale := rest\<rparr>)) =
      Inr (y, l')"
  then obtain rest where m: "balance_transfer_from F (temp_balance (symbol (for_sale l))) (for_sale l)
      (case d of None \<Rightarrow> for_sale l | Some x \<Rightarrow> x) = Inr (y, rest)" and l': "l' = l\<lparr>for_sale := rest\<rparr>"
    by (auto simp: bind_r_eq_Inr)
  have s: "liquid (for_sale l)" using l by (simp add: order_ok_def)
  have d: "in_i64 (amount (case d of None \<Rightarrow> for_sale l | Some x \<Rightarrow> x))"
    using assms(2) s by (auto simp: liquid_bal_ok split: option.split)
  show "order_ok l' \<and> liquid y \<and> (\<forall>k. held k (for_sale l) - held k (for_sale l') = held k y)"
    using liquid_move [OF assms(1) s d m] l by (simp add: l' order_ok_def)
qed

lemma remove_order_triple: "valid (accounted g) (remove_order i) (\<lambda>_. accounted g)"
  unfolding remove_order_def
  by (rule ord.remove_triple) (simp add: order_check_on_remove_def is_empty_def)

lemma cancel_order_triple:
  assumes "fc_ok F"
  shows "valid (accounted g) (cancel_order F i) (\<lambda>_. accounted g)"
  unfolding cancel_order_def
  apply (rule valid_bind_conj [OF take_from_order_triple [OF assms]], simp)
  apply (intro valid_rules)
  apply (rule deliver_all [OF assms], assumption)
  apply (rule valid_bind [OF remove_order_triple])
  apply (rule valid_drop_temp)
  done

lemma fill_order_triple:
  assumes "fc_ok F" "liquid b"
  shows "valid (accounted (\<lambda>k. g k + held k b)) (fill_order F i pays b) (\<lambda>_. accounted g)"
  unfolding fill_order_def
  apply (intro valid_rules)
  apply (rule deliver_all [OF assms])
  apply (intro valid_rules)
    apply (rule valid_bind [OF remove_order_triple], rule valid_ret, assumption)
   apply (rule valid_bind [OF cancel_order_triple [OF assms(1)]], rule valid_ret, assumption)
  apply (rule valid_ret, assumption)
  done

lemma fill_order_triple':
  assumes "fc_ok F" "liquid b"
  shows "valid (accounted h) (fill_order F i pays b) (\<lambda>_. accounted (\<lambda>k. h k - held k b))"
  using fill_order_triple [OF assms, of "\<lambda>k. h k - held k b"] by simp

section \<open>Volumes\<close>

lemma valid_modify_other:
  "(\<And>s t. P s \<Longrightarrow> P (upd t s)) \<Longrightarrow> valid P (modify_row get upd i f) (\<lambda>_. P)"
  by (auto simp: valid_def modify_row_def bind_r_eq_Inr split: option.splits)

lemma valid_create_other:
  "(\<And>s t. P s \<Longrightarrow> P (upd t s)) \<Longrightarrow> valid P (create_row get upd c x) (\<lambda>_. P)"
  by (auto simp: valid_def create_row_def split: if_splits)

lemma accounted_liquidity: "accounted g s \<Longrightarrow> accounted g (s\<lparr>liquidity_rewards := t\<rparr>)"
  by (simp add: gap_simps)

lemma adjust_liquidity_reward_triple:
  "valid (accounted g) (adjust_liquidity_reward a v h) (\<lambda>_. accounted g)"
  unfolding adjust_liquidity_reward_def
  apply (intro valid_rules)
   apply (rule valid_bind [OF valid_create_other])
    apply (erule accounted_liquidity)
   apply (rule valid_ret, assumption)
  apply (rule valid_modify_other)
  apply (erule accounted_liquidity)
  done

lemma reward_volumes_triple:
  "valid (accounted g) (reward_volumes F n old a b) (\<lambda>_. accounted g)"
  unfolding reward_volumes_def
  apply (intro valid_rules)
   apply (rule valid_bind [OF adjust_liquidity_reward_triple])
   apply (intro valid_rules)
   apply (rule adjust_liquidity_reward_triple)
  apply (rule valid_ret, assumption)
  done

section \<open>Matching\<close>

lemma trade_amounts_range:
  assumes "fc_ok F" "in_i64 (amount n)" "in_i64 (amount old)" "trade_amounts F n old p = Inr (x, y)"
  shows "in_i64 (amount x)" "in_i64 (amount y)"
  using assms times_price_range(3) [OF assms(1)]
  by (auto simp: trade_amounts_def bind_r_eq_Inr split: if_splits)

lemma valid_get_order:
  assumes "\<And>l. order_ok l \<Longrightarrow> valid (accounted g) (m l) Q"
  shows "valid (accounted g) (bind_s (get_row limit_orders i) m) Q"
proof (rule validI)
  fix s x s'
  assume s: "accounted g s" and r: "bind_s (get_row limit_orders i) m s = Inr (x, s')"
  then obtain l where l: "find_row (limit_orders s) i = Some l" "m l s = Inr (x, s')"
    by (auto simp: bind_s_eq_Inr get_row_def read_s_eq_Inr split: option.splits)
  have "order_ok l" using all_rows_find [OF ord.table_ok(2) [OF s] l(1)] .
  then show "Q x s'" using validD [OF assms l(2) s] by blast
qed

lemma match_order_triple:
  assumes "fc_ok F"
  shows "valid (accounted g) (match_order F n old p) (\<lambda>_. accounted g)"
  unfolding match_order_def
  apply (rule valid_get_order)
  apply (rule valid_get_order)
  apply (intro valid_rules)
  apply (rule valid_bind [OF reward_volumes_triple])
  subgoal for l l' _ _ _ _ _ x nr or op np
    apply (rule valid_bind_conj [OF take_from_order_triple [OF assms]])
    using trade_amounts_range(1) [OF assms, of "for_sale l" "for_sale l'" p nr or]
     apply (simp add: order_ok_def liquid_bal_ok)
    apply (rule valid_bind_conj [OF take_from_order_triple [OF assms]])
    using trade_amounts_range(2) [OF assms, of "for_sale l" "for_sale l'" p nr or]
     apply (simp add: order_ok_def liquid_bal_ok)
    apply (rule valid_bind [OF fill_order_triple' [OF assms]], assumption)
    apply (intro valid_rules)
    apply (rule valid_bind [OF fill_order_triple' [OF assms]], assumption)
    apply (intro valid_rules valid_ret)
    apply (erule accounted_weaken, simp)
    done
  done

lemma match_loop_triple:
  assumes "fc_ok F"
  shows "valid (accounted g) (match_loop F n is) (\<lambda>_. accounted g)"
proof (induction "is")
  case Nil
  show ?case unfolding match_loop.simps by (rule valid_ret)
next
  case (Cons i "is")
  show ?case
    unfolding match_loop.simps
    apply (intro valid_rules)
    apply (rule valid_bind [OF match_order_triple [OF assms]])
    apply (intro valid_rules)
     apply (rule valid_ret, assumption)
    apply (rule Cons.IH)
    done
qed

lemma apply_order_triple:
  assumes "fc_ok F"
  shows "valid (accounted g) (apply_order F n) (\<lambda>_. accounted g)"
  unfolding apply_order_def
  apply (intro valid_rules)
  apply (rule valid_bind [OF match_loop_triple [OF assms]])
  apply (simp add: valid_def)
  done

section \<open>Maintenance and evaluators\<close>

lemma clear_expired_orders_triple:
  assumes "fc_ok F"
  shows "valid (accounted g) (clear_expired_orders F) (\<lambda>_. accounted g)"
  unfolding clear_expired_orders_def
  apply (intro valid_rules)
  apply (rule valid_conseq [OF valid_while [where I = "\<lambda>_. accounted g"]])
   apply (rule valid_pre [OF cancel_order_triple [OF assms]])
   apply simp_all
  done

lemma remove_pending_limit_orders_triple:
  assumes "fc_ok F"
  shows "valid (accounted g) (remove_pending_limit_orders F n) (\<lambda>_. accounted g)"
  unfolding remove_pending_limit_orders_def
  by (intro valid_rules valid_foreach cancel_order_triple assms)

lemma create_order_triple:
  assumes "order_ok l"
  shows "valid (accounted (\<lambda>k. g k + held k (for_sale l))) (create_order l) (\<lambda>_. accounted g)"
  unfolding create_order_def
  by (rule valid_conseq [OF ord.create_triple [OF assms]]) simp

lemma mk_limit_order_Inr:
  "mk_limit_order n b p c e i = Inr l \<Longrightarrow> liquid b \<Longrightarrow> order_ok l \<and> for_sale l = b \<and> sell_price l = p"
  by (auto simp: mk_limit_order_def bind_r_eq_Inr order_ok_def)

lemma open_order_triple:
  assumes "fc_ok F" "in_i64 (amount c)"
  shows "valid (accounted g) (open_order F owner c p expi oid kill) (\<lambda>_. accounted g)"
  unfolding open_order_def
  apply (intro valid_rules)
  apply (rule valid_bind_conj [OF withdraw_triple [OF assms]], assumption)
  apply (intro valid_rules)
  apply (drule mk_limit_order_Inr, simp)
  apply (elim conjE)
  apply (rule valid_bind)
   apply (rule valid_pre [OF create_order_triple], assumption, simp)
  apply (rule valid_bind [OF apply_order_triple [OF assms(1)]])
  apply (rule valid_tail)
  apply (intro valid_rules valid_ret)
  apply assumption
  done

lemma limit_order_create_triple:
  assumes "fc_ok F" "in_i64 (amount (amount_to_sell oper))"
  shows "valid (accounted g) (limit_order_create_evaluator F c h oper) (\<lambda>_. accounted g)"
  unfolding limit_order_create_evaluator_def by (intro valid_rules open_order_triple assms)

lemma limit_order_create2_triple:
  assumes "fc_ok F" "in_i64 (amount (amount_to_sell2 oper))"
  shows "valid (accounted g) (limit_order_create2_evaluator F c oper) (\<lambda>_. accounted g)"
  unfolding limit_order_create2_evaluator_def by (intro valid_rules open_order_triple assms)

lemma limit_order_cancel_triple:
  assumes "fc_ok F"
  shows "valid (accounted g) (limit_order_cancel_evaluator F n i) (\<lambda>_. accounted g)"
  unfolding limit_order_cancel_evaluator_def get_limit_order_def
  by (intro valid_rules cancel_order_triple assms)

end
