(* ===== verification/Conversion.thy ===== *)
theory Conversion
  imports Ledger_Laws
begin

text \<open>
  Conversions between HBD and HIVE (\<^verbatim>\<open>database_conversion.cpp\<close>) and the evaluators of the two
  conversion operations (\<^verbatim>\<open>hive_evaluator_transfer.cpp\<close>). Processing collects the due requests,
  burns and issues the difference once, and pays the owners.
\<close>

section \<open>Requests\<close>

definition convert_check_on_remove :: "convert_request_object \<Rightarrow> unit res" where
  "convert_check_on_remove c =
     check_r (tiny_is_empty (cr_amount c)) ''Removing convert_request_object with non-empty balance field''"

definition collateralized_check_on_remove :: "collateralized_convert_request_object \<Rightarrow> unit res" where
  "collateralized_check_on_remove c =
     check_r (tiny_is_empty (collateral_amount c))
       ''Removing collateralized_convert_request_object with non-empty balance field''"

definition cr_by_conversion_date ::
  "nat \<times> convert_request_object \<Rightarrow> nat \<times> convert_request_object \<Rightarrow> bool" where
  "cr_by_conversion_date x y \<longleftrightarrow> cr_conversion_date (snd x) < cr_conversion_date (snd y) \<or>
     cr_conversion_date (snd x) = cr_conversion_date (snd y) \<and> fst x < fst y"

definition ccr_by_conversion_date ::
  "nat \<times> collateralized_convert_request_object \<Rightarrow> nat \<times> collateralized_convert_request_object \<Rightarrow> bool" where
  "ccr_by_conversion_date x y \<longleftrightarrow> ccr_conversion_date (snd x) < ccr_conversion_date (snd y) \<or>
     ccr_conversion_date (snd x) = ccr_conversion_date (snd y) \<and> fst x < fst y"

section \<open>Processing\<close>

definition HIVE_COLLATERALIZED_CONVERSION_FEE :: "16 word" where
  "HIVE_COLLATERALIZED_CONVERSION_FEE = 500"

text \<open>What the two collecting loops accumulate: the payments, the drained balance and the HIVE to
  issue (negative: to burn).\<close>

record pending_record =
  pr_account :: nat
  transfer_to_account :: HIVE_asset

record collected =
  pending_data :: "pending_record list"
  drained :: tiny_asset
  hive_to_issue :: HIVE_asset

definition collect_convert :: "fc_lib \<Rightarrow> tiny_price \<Rightarrow> nat \<Rightarrow> collected \<Rightarrow> collected ledger_op" where
  "collect_convert F rate i acc =
     bind_s (get_row convert_requests i) (\<lambda>request.
     bind_s (lift_s (tiny_base_times_price F (cr_amount request) rate)) (\<lambda>amount_to_issue.
     bind_s (get_account_by_id (cr_owner request)) (\<lambda>_.
     bind_s (lift_s (tiny_plus F (hive_to_issue acc) amount_to_issue)) (\<lambda>to_issue.
     bind_s (modify_row convert_requests set_converts i (\<lambda>r.
       bind_r (tiny_transfer_from F (drained acc) (cr_amount r) (cr_amount r)) (\<lambda>(b, rest).
       Inr (b, r\<lparr>cr_amount := rest\<rparr>)))) (\<lambda>hbd.
     bind_s (remove_row convert_requests set_converts convert_check_on_remove i) (\<lambda>_.
     ret_s \<lparr>pending_data = pending_data acc @
              [\<lparr>pr_account = cr_owner request, transfer_to_account = amount_to_issue\<rparr>],
            drained = hbd, hive_to_issue = to_issue\<rparr>))))))"

definition collect_collateralized :: "fc_lib \<Rightarrow> tiny_price \<Rightarrow> nat \<Rightarrow> collected \<Rightarrow> collected ledger_op" where
  "collect_collateralized F rate i acc =
     bind_s (get_row collateralized_requests i) (\<lambda>request.
     bind_s (get_account_by_id (ccr_owner request)) (\<lambda>_.
     bind_s (lift_s (tiny_base_multiply_with_fee F False (converted_amount request) rate
       HIVE_COLLATERALIZED_CONVERSION_FEE)) (\<lambda>required.
     bind_s (lift_s (tiny_minus F (collateral_amount request) required)) (\<lambda>excess_collateral.
     let required_hive = (if tamount excess_collateral < 0 then collateral_amount request else required) in
     bind_s (lift_s (tiny_minus F (hive_to_issue acc) required_hive)) (\<lambda>to_issue.
     bind_s (modify_row collateralized_requests set_collateralized i (\<lambda>r.
       bind_r (tiny_transfer_from F (drained acc) (collateral_amount r) (collateral_amount r))
         (\<lambda>(b, rest). Inr (b, r\<lparr>collateral_amount := rest\<rparr>)))) (\<lambda>hive.
     bind_s (remove_row collateralized_requests set_collateralized collateralized_check_on_remove i) (\<lambda>_.
     ret_s \<lparr>pending_data = pending_data acc @
              [\<lparr>pr_account = ccr_owner request, transfer_to_account = excess_collateral\<rparr>],
            drained = hive, hive_to_issue = to_issue\<rparr>)))))))"

definition settle_supply ::
  "fc_lib \<Rightarrow> tiny_price \<Rightarrow> HIVE_asset \<Rightarrow> HBD_asset \<Rightarrow> HIVE_asset \<Rightarrow> (HIVE_asset \<times> HBD_asset) ledger_op" where
  "settle_supply F rate hive hbd to_issue =
     (if tamount to_issue \<noteq> 0 \<or> tamount hbd \<noteq> 0 then
        bind_s (if tamount to_issue < 0 then
                  bind_s (lift_s (tiny_uminus F to_issue)) (\<lambda>n.
                  bind_s (lift_s (tiny_transfer_from F temp_tiny_balance hive n)) (\<lambda>(to_burn, rest).
                  bind_s (modify_dgpo (burn_HIVE F to_burn)) (\<lambda>burned.
                  bind_s (lift_s (drop_tiny_temp burned)) (\<lambda>_. ret_s rest))))
                else
                  bind_s (modify_dgpo (issue_HIVE F to_issue)) (\<lambda>issued.
                  bind_s (lift_s (tiny_transfer_from F hive issued issued)) (\<lambda>(b, left).
                  bind_s (lift_s (drop_tiny_temp left)) (\<lambda>_. ret_s b)))) (\<lambda>hive1.
        bind_s (modify_dgpo (burn_HBD F hbd rate False)) (\<lambda>hbd1.
        ret_s (hive1, hbd1)))
      else ret_s (hive, hbd))"

fun pay_regular :: "fc_lib \<Rightarrow> pending_record list \<Rightarrow> HIVE_asset \<Rightarrow> HIVE_asset ledger_op" where
  "pay_regular F [] hive = ret_s hive"
| "pay_regular F (p # ps) hive =
     bind_s (get_account_by_id (pr_account p)) (\<lambda>owner.
     bind_s (adjust_hive_balance F owner hive (transfer_to_account p)) (pay_regular F ps))"

fun pay_collateralized :: "fc_lib \<Rightarrow> pending_record list \<Rightarrow> HIVE_asset \<Rightarrow> HIVE_asset ledger_op" where
  "pay_collateralized F [] hive = ret_s hive"
| "pay_collateralized F (p # ps) hive =
     bind_s (get_account_by_id (pr_account p)) (\<lambda>owner.
     bind_s (if tamount (transfer_to_account p) < 0 then ret_s hive
             else adjust_hive_balance F owner hive (transfer_to_account p)) (pay_collateralized F ps))"

definition process_conversions :: "fc_lib \<Rightarrow> unit ledger_op" where
  "process_conversions F =
     bind_s (get_s id) (\<lambda>s.
     let now = head_block_time s; fhistory = feed_history s in
     if tiny_price_is_null (current_median_history fhistory) then ret_s ()
     else
       bind_s (while_s (table_size (convert_requests s))
         (\<lambda>t. first_row cr_by_conversion_date (\<lambda>c. cr_conversion_date c \<le> now) (convert_requests t))
         (collect_convert F (current_median_history fhistory))
         \<lparr>pending_data = [], drained = temp_tiny_balance, hive_to_issue = tiny 0\<rparr>) (\<lambda>regular.
       bind_s (while_s (table_size (collateralized_requests s))
         (\<lambda>t. first_row ccr_by_conversion_date (\<lambda>c. ccr_conversion_date c \<le> now)
            (collateralized_requests t))
         (collect_collateralized F (market_median_history fhistory))
         \<lparr>pending_data = [], drained = temp_tiny_balance, hive_to_issue = hive_to_issue regular\<rparr>)
         (\<lambda>collateralized.
       let hbd = drained regular; hive = drained collateralized;
           to_issue = hive_to_issue collateralized
       in
       bind_s (lift_s (tiny_plus F hive to_issue)) (\<lambda>sum.
       bind_s (check_s (tamount sum \<ge> 0) ''hive_balance + hive_to_issue >= 0'') (\<lambda>_.
       bind_s (settle_supply F (current_median_history fhistory) hive hbd to_issue) (\<lambda>(hive1, hbd1).
       bind_s (pay_regular F (pending_data regular) hive1) (\<lambda>hive2.
       bind_s (pay_collateralized F (pending_data collateralized) hive2) (\<lambda>hive3.
       bind_s (lift_s (drop_tiny_temp hive3)) (\<lambda>_.
       lift_s (drop_tiny_temp hbd1))))))))))"

definition cr_by_owner :: "nat \<times> convert_request_object \<Rightarrow> nat \<times> convert_request_object \<Rightarrow> bool" where
  "cr_by_owner x y \<longleftrightarrow> cr_requestid (snd x) < cr_requestid (snd y)"

definition remove_pending_conversion_requests :: "fc_lib \<Rightarrow> nat \<Rightarrow> unit ledger_op" where
  "remove_pending_conversion_requests F acc =
     bind_s (get_s (\<lambda>s. map fst (sort_rows cr_by_owner
       (filter (\<lambda>(i, c). cr_owner c = acc) (rows (convert_requests s)))))) (\<lambda>is.
     bind_s (foreach_s is (\<lambda>i.
       bind_s (modify_row convert_requests set_converts i (\<lambda>r.
         bind_r (tiny_transfer_from F temp_tiny_balance (cr_amount r) (cr_amount r)) (\<lambda>(b, rest).
         Inr (b, r\<lparr>cr_amount := rest\<rparr>)))) (\<lambda>hbd_drained.
       bind_s (adjust_hbd_balance F acc hbd_drained hbd_drained) (\<lambda>rest.
       bind_s (remove_row convert_requests set_converts convert_check_on_remove i) (\<lambda>_.
       lift_s (drop_tiny_temp rest)))))) (\<lambda>_.
     bind_s (get_s (\<lambda>s. list_ex (\<lambda>(i, c). ccr_owner c = acc) (rows (collateralized_requests s)))) (\<lambda>ex.
     check_s (\<not> ex) ''Collateralized convert requests not handled by clear_account'')))"

section \<open>Evaluators\<close>

definition HIVE_CONVERSION_DELAY :: "32 word" where "HIVE_CONVERSION_DELAY = 302400"
definition HIVE_CONVERSION_DELAY_PRE_HF_16 :: "32 word" where "HIVE_CONVERSION_DELAY_PRE_HF_16 = 604800"
definition HIVE_CONVERSION_COLLATERAL_RATIO :: int where "HIVE_CONVERSION_COLLATERAL_RATIO = 20000"

definition same_convert_request :: "convert_request_object \<Rightarrow> convert_request_object \<Rightarrow> bool" where
  "same_convert_request x y \<longleftrightarrow> cr_owner x = cr_owner y \<and> cr_requestid x = cr_requestid y"

definition same_collateralized_request ::
  "collateralized_convert_request_object \<Rightarrow> collateralized_convert_request_object \<Rightarrow> bool" where
  "same_collateralized_request x y \<longleftrightarrow> ccr_owner x = ccr_owner y \<and> ccr_requestid x = ccr_requestid y"

text \<open>The operation of a conversion: owner, request id and amount.\<close>

record convert_operation =
  conv_owner :: string
  conv_requestid :: "32 word"
  conv_amount :: asset

definition convert_evaluator :: "fc_lib \<Rightarrow> convert_operation \<Rightarrow> unit ledger_op" where
  "convert_evaluator F oper =
     bind_s (get_account (conv_owner oper)) (\<lambda>owner.
     bind_s (lift_s (tiny_of_asset HIVE_ASSET_NUM_HBD (conv_amount oper))) (\<lambda>o_amount.
     bind_s (lift_s (tiny_uminus F o_amount)) (\<lambda>neg.
     bind_s (adjust_hbd_balance F owner temp_tiny_balance neg) (\<lambda>convert_amount.
     bind_s (get_s id) (\<lambda>s.
     bind_s (lift_s (validate_price_feed_available (get_hbd_price s))) (\<lambda>_.
     let delay = (if has_hardfork 16 s then HIVE_CONVERSION_DELAY else HIVE_CONVERSION_DELAY_PRE_HF_16) in
     bind_s (create_row convert_requests set_converts same_convert_request
       \<lparr>cr_owner = owner, cr_amount = convert_amount, cr_requestid = conv_requestid oper,
         cr_conversion_date = head_block_time s + delay\<rparr>) (\<lambda>_.
     ret_s ())))))))"

text \<open>The part of the collateral that is converted at once, and what it gives after the fee.\<close>

definition immediate_conversion :: "fc_lib \<Rightarrow> HIVE_asset \<Rightarrow> tiny_price \<Rightarrow> HBD_asset res" where
  "immediate_conversion F o_amount rate =
     bind_r (div_128 (of_int (tamount o_amount) * of_int HIVE_100_PERCENT)
       (of_int HIVE_CONVERSION_COLLATERAL_RATIO)) (\<lambda>q.
     bind_r (uint128_to_uint64 F q) (\<lambda>u.
     bind_r (share_of_uint64 F u) (\<lambda>v.
     tiny_quote_multiply_with_fee F False (tiny v) rate HIVE_COLLATERALIZED_CONVERSION_FEE)))"

definition collateralized_convert_evaluator :: "fc_lib \<Rightarrow> convert_operation \<Rightarrow> unit ledger_op" where
  "collateralized_convert_evaluator F oper =
     bind_s (get_s id) (\<lambda>s.
     bind_s (check_s (has_hardfork 25 s) ''Operation not available until HF25'') (\<lambda>_.
     bind_s (get_account (conv_owner oper)) (\<lambda>owner.
     bind_s (lift_s (tiny_of_asset HIVE_ASSET_NUM_HIVE (conv_amount oper))) (\<lambda>o_amount.
     bind_s (lift_s (tiny_uminus F o_amount)) (\<lambda>neg.
     bind_s (adjust_hive_balance F owner temp_tiny_balance neg) (\<lambda>collateral.
     bind_s (lift_s (validate_price_feed_available (get_hbd_price s))) (\<lambda>_.
     bind_s (check_s (hbd_print_rate (dgpo s) > 0)
       ''Creation of new HBD blocked at this time due to global limit.'') (\<lambda>_.
     bind_s (lift_s (immediate_conversion F o_amount (current_min_history (feed_history s)))) (\<lambda>converted.
     bind_s (check_s (tamount converted > 0)
       ''Amount of collateral too low - conversion gives no HBD'') (\<lambda>_.
     bind_s (modify_dgpo (issue_HBD F converted (get_hbd_price s) False)) (\<lambda>issued.
     bind_s (adjust_hbd_balance F owner issued issued) (\<lambda>rest.
     bind_s (calculate_HBD_percent F) (\<lambda>percent_hbd.
     bind_s (check_s (percent_hbd \<le> hbd_stop_percent (dgpo s))
       ''Creation of new HBD violates global limit.'') (\<lambda>_.
     bind_s (create_row collateralized_requests set_collateralized same_collateralized_request
       \<lparr>ccr_owner = owner, collateral_amount = collateral, converted_amount = converted,
         ccr_requestid = conv_requestid oper,
         ccr_conversion_date = head_block_time s + HIVE_CONVERSION_DELAY\<rparr>) (\<lambda>_.
     lift_s (drop_tiny_temp rest))))))))))))))))"

end
