(* ===== verification/Conversion_Laws.thy ===== *)
theory Conversion_Laws
  imports Conversion
begin

text \<open>
  Laws of the conversions: every step keeps the ledger accounted for.
\<close>

section \<open>Accounting\<close>

definition collected_ok :: "collected \<Rightarrow> bool" where
  "collected_ok acc \<longleftrightarrow> tiny_ok (drained acc) \<and> in_i64 (tamount (hive_to_issue acc)) \<and>
     (\<forall>p \<in> set (pending_data acc). in_i64 (tamount (transfer_to_account p)))"

lemma drain_convert_triple:
  assumes "fc_ok F" "tiny_ok b"
  shows "valid (accounted g)
    (modify_row convert_requests set_converts i (\<lambda>r.
       bind_r (tiny_transfer_from F b (cr_amount r) (cr_amount r)) (\<lambda>(b, rest).
       Inr (b, r\<lparr>cr_amount := rest\<rparr>))))
    (\<lambda>b' s. tiny_ok b' \<and> accounted (\<lambda>k. g k + (held_as Hbd k b' - held_as Hbd k b)) s)"
  by (rule cvt.modify_triple) (use assms in \<open>auto simp: move_unfold fund_cases_all\<close>)

lemma drain_collateral_triple:
  assumes "fc_ok F" "tiny_ok b"
  shows "valid (accounted g)
    (modify_row collateralized_requests set_collateralized i (\<lambda>r.
       bind_r (tiny_transfer_from F b (collateral_amount r) (collateral_amount r)) (\<lambda>(b, rest).
       Inr (b, r\<lparr>collateral_amount := rest\<rparr>))))
    (\<lambda>b' s. tiny_ok b' \<and> accounted (\<lambda>k. g k + (held_as Hive k b' - held_as Hive k b)) s)"
  by (rule ccv.modify_triple)
    (use assms in \<open>auto simp: move_unfold fund_cases_all collateralized_ok_def\<close>)

lemma remove_convert_triple:
  "valid (accounted g) (remove_row convert_requests set_converts convert_check_on_remove i)
    (\<lambda>_. accounted g)"
  by (rule cvt.remove_triple) (simp add: convert_check_on_remove_def tiny_is_empty_def)

lemma remove_collateralized_triple:
  "valid (accounted g)
    (remove_row collateralized_requests set_collateralized collateralized_check_on_remove i)
    (\<lambda>_. accounted g)"
  by (rule ccv.remove_triple) (simp add: collateralized_check_on_remove_def tiny_is_empty_def)

lemma collect_convert_triple:
  assumes "fc_ok F"
  shows "valid (\<lambda>s. collected_ok acc \<and> accounted (\<lambda>k. g k + held_as Hbd k (drained acc)) s)
    (collect_convert F rate i acc)
    (\<lambda>acc s. collected_ok acc \<and> accounted (\<lambda>k. g k + held_as Hbd k (drained acc)) s)"
proof (cases "collected_ok acc")
  case True
  have "valid (accounted (\<lambda>k. g k + held_as Hbd k (drained acc))) (collect_convert F rate i acc)
      (\<lambda>acc s. collected_ok acc \<and> accounted (\<lambda>k. g k + held_as Hbd k (drained acc)) s)"
    unfolding collect_convert_def
    apply (intro valid_rules)
    apply (rule valid_bind_conj [OF drain_convert_triple [OF assms]])
    using True apply (simp add: collected_ok_def)
    apply (rule valid_bind [OF remove_convert_triple])
    apply (rule valid_ret)
    using True assms times_price_range(1) [OF assms]
    apply (auto simp: collected_ok_def tiny_plus_Inr)
    done
  then show ?thesis by (rule valid_pre) simp
qed (simp add: valid_def)

lemma valid_get_collateralized:
  assumes "\<And>c. collateralized_ok c \<Longrightarrow> valid (accounted g) (m c) Q"
  shows "valid (accounted g) (bind_s (get_row collateralized_requests i) m) Q"
proof (rule validI)
  fix s x s'
  assume s: "accounted g s" and r: "bind_s (get_row collateralized_requests i) m s = Inr (x, s')"
  then obtain l where l: "find_row (collateralized_requests s) i = Some l" "m l s = Inr (x, s')"
    by (auto simp: bind_s_eq_Inr get_row_def read_s_eq_Inr split: option.splits)
  have "collateralized_ok l" using all_rows_find [OF ccv.table_ok(2) [OF s] l(1)] .
  then show "Q x s'" using validD [OF assms l(2) s] by blast
qed

lemma collect_collateralized_triple:
  assumes "fc_ok F"
  shows "valid (\<lambda>s. collected_ok acc \<and> accounted (\<lambda>k. g k + held_as Hive k (drained acc)) s)
    (collect_collateralized F rate i acc)
    (\<lambda>acc s. collected_ok acc \<and> accounted (\<lambda>k. g k + held_as Hive k (drained acc)) s)"
proof (cases "collected_ok acc")
  case True
  have "valid (accounted (\<lambda>k. g k + held_as Hive k (drained acc))) (collect_collateralized F rate i acc)
      (\<lambda>acc s. collected_ok acc \<and> accounted (\<lambda>k. g k + held_as Hive k (drained acc)) s)"
    unfolding collect_collateralized_def
    apply (rule valid_get_collateralized)
    apply (intro valid_rules)
    apply (rule valid_bind_conj [OF drain_collateral_triple [OF assms]])
    using True apply (simp add: collected_ok_def)
    apply (rule valid_bind [OF remove_collateralized_triple])
    apply (rule valid_ret)
    using True assms multiply_with_fee_range(1) [OF assms]
    apply (auto simp: collected_ok_def tiny_minus_Inr collateralized_ok_def tiny_ok_def split: if_splits)
    done
  then show ?thesis by (rule valid_pre) simp
qed (simp add: valid_def)

lemma settle_hive_triple:
  assumes "fc_ok F" "tiny_ok hive" "in_i64 (tamount n)"
  shows "valid (accounted g)
    (if tamount n < 0 then
       bind_s (lift_s (tiny_uminus F n)) (\<lambda>n.
       bind_s (lift_s (tiny_transfer_from F temp_tiny_balance hive n)) (\<lambda>(to_burn, rest).
       bind_s (modify_dgpo (burn_HIVE F to_burn)) (\<lambda>burned.
       bind_s (lift_s (drop_tiny_temp burned)) (\<lambda>_. ret_s rest))))
     else
       bind_s (modify_dgpo (issue_HIVE F n)) (\<lambda>issued.
       bind_s (lift_s (tiny_transfer_from F hive issued issued)) (\<lambda>(b, left).
       bind_s (lift_s (drop_tiny_temp left)) (\<lambda>_. ret_s b))))
    (\<lambda>h s. (tiny_ok h \<and> tamount h = tamount hive + tamount n) \<and>
      accounted (\<lambda>k. g k + (held_as Hive k h - held_as Hive k hive)) s)"
  apply (intro valid_rules)
   apply (rule valid_bind_conj [OF burn_HIVE_triple [OF assms(1)]])
    apply (use assms in \<open>auto simp: tiny_uminus_Inr tin.move_iff tiny_ok_def\<close>) [1]
   apply (intro valid_rules valid_ret)
   apply (use assms in \<open>auto simp: tiny_uminus_Inr tin.move_iff tiny_ok_def held_as_def
      elim!: accounted_weaken\<close>) [1]
  apply (rule valid_bind_conj [OF issue_HIVE_triple [OF assms(1,3)]])
  apply (intro valid_rules valid_ret)
  apply (use assms in \<open>auto simp: tin.move_iff tiny_ok_def held_as_def elim!: accounted_weaken\<close>)
  done

lemma settle_supply_triple:
  assumes "fc_ok F" "tiny_ok hive" "tiny_ok hbd" "in_i64 (tamount n)"
  shows "valid (accounted g) (settle_supply F rate hive hbd n)
    (\<lambda>(h, b) s. (tiny_ok h \<and> tamount h = tamount hive + tamount n \<and> tamount b = 0) \<and>
      accounted (\<lambda>k. g k + (held_as Hive k h - held_as Hive k hive) - held_as Hbd k hbd) s)"
  unfolding settle_supply_def
  apply (intro valid_if)
   apply (rule valid_bind_conj [OF settle_hive_triple [OF assms(1,2,4)]])
   apply (rule valid_bind_conj [OF burn_HBD_triple [OF assms(1,3)]])
   apply (rule valid_ret, simp)
  apply (rule valid_ret, use assms in simp)
  done

lemma pay_regular_triple:
  assumes "fc_ok F" "tiny_ok hive" "\<forall>p \<in> set ps. in_i64 (tamount (transfer_to_account p))"
  shows "valid (accounted g) (pay_regular F ps hive)
    (\<lambda>h s. tiny_ok h \<and> accounted (\<lambda>k. g k + (held_as Hive k h - held_as Hive k hive)) s)"
  using assms(2,3)
proof (induction ps arbitrary: hive g)
  case Nil
  then show ?case unfolding pay_regular.simps by (intro valid_ret) simp
next
  case (Cons p ps)
  show ?case
    unfolding pay_regular.simps
    apply (intro valid_rules)
    apply (rule valid_bind_conj [OF adjust_hive_balance_triple [OF assms(1)]])
    using Cons.prems apply simp_all
    apply (rule valid_conseq)
     apply (rule Cons.IH)
      apply (simp_all add: left_over_def)
    done
qed

lemma pay_collateralized_triple:
  assumes "fc_ok F" "tiny_ok hive" "\<forall>p \<in> set ps. in_i64 (tamount (transfer_to_account p))"
  shows "valid (accounted g) (pay_collateralized F ps hive)
    (\<lambda>h s. tiny_ok h \<and> accounted (\<lambda>k. g k + (held_as Hive k h - held_as Hive k hive)) s)"
  using assms(2,3)
proof (induction ps arbitrary: hive g)
  case Nil
  then show ?case unfolding pay_collateralized.simps by (intro valid_ret) simp
next
  case (Cons p ps)
  show ?case
    unfolding pay_collateralized.simps
    apply (intro valid_rules)
     apply (rule Cons.IH)
    using Cons.prems apply simp_all
    apply (rule valid_bind_conj [OF adjust_hive_balance_triple [OF assms(1)]])
      apply simp_all
    apply (rule valid_conseq)
     apply (rule Cons.IH)
      apply (simp_all add: left_over_def)
    done
qed

lemma collect_converts_triple:
  assumes "fc_ok F"
  shows "valid (accounted g) (while_s n first (collect_convert F rate)
      \<lparr>pending_data = [], drained = temp_tiny_balance, hive_to_issue = tiny 0\<rparr>)
    (\<lambda>acc s. collected_ok acc \<and> accounted (\<lambda>k. g k + held_as Hbd k (drained acc)) s)"
  by (rule valid_conseq [OF valid_pre [OF valid_while [OF valid_pre
      [OF collect_convert_triple [OF assms, of _ g]]]]]) (simp_all add: collected_ok_def)

lemma collect_collaterals_triple:
  assumes "fc_ok F" "in_i64 (tamount m)"
  shows "valid (accounted g) (while_s n first (collect_collateralized F rate)
      \<lparr>pending_data = [], drained = temp_tiny_balance, hive_to_issue = m\<rparr>)
    (\<lambda>acc s. collected_ok acc \<and> accounted (\<lambda>k. g k + held_as Hive k (drained acc)) s)"
  by (rule valid_conseq [OF valid_pre [OF valid_while [OF valid_pre
      [OF collect_collateralized_triple [OF assms(1), of _ g]]]]])
    (use assms(2) in \<open>simp_all add: collected_ok_def\<close>)

lemma process_conversions_triple:
  assumes "fc_ok F"
  shows "valid (accounted g) (process_conversions F) (\<lambda>_. accounted g)"
  unfolding process_conversions_def
  apply (intro valid_rules)
   apply (rule valid_ret, assumption)
  apply (rule valid_bind_conj [OF collect_converts_triple [OF assms]])
  apply (rule valid_bind_conj [OF collect_collaterals_triple [OF assms]], simp add: collected_ok_def)
  apply (intro valid_rules)
  apply (rule valid_bind_pair [OF settle_supply_triple [OF assms]]; (simp add: collected_ok_def)?)
  apply (rule valid_bind_conj [OF pay_regular_triple [OF assms]]; simp?)
  apply (rule valid_bind_conj [OF pay_collateralized_triple [OF assms]]; simp?)
  apply (rule valid_tail)
  apply (intro valid_rules valid_ret)
  apply (erule accounted_weaken, simp)
  done

lemma remove_pending_conversion_requests_triple:
  assumes "fc_ok F"
  shows "valid (accounted g) (remove_pending_conversion_requests F a) (\<lambda>_. accounted g)"
  unfolding remove_pending_conversion_requests_def
  apply (intro valid_rules)
  apply (rule valid_bind [OF valid_foreach])
   apply (rule valid_bind_conj [OF drain_convert_triple [OF assms]], simp)
   apply (rule valid_bind_conj)
    apply (rule valid_pre [OF deliver_hbd_triple [OF assms]], assumption, simp)
   apply (rule valid_bind [OF remove_convert_triple])
   apply (rule valid_drop_tiny)
  apply (rule valid_tail)
  apply (intro valid_rules valid_ret)
  apply assumption
  done

section \<open>Evaluators\<close>

lemma convert_evaluator_triple:
  assumes "fc_ok F" "in_i64 (amount (conv_amount oper))"
  shows "valid (accounted g) (convert_evaluator F oper) (\<lambda>_. accounted g)"
  unfolding convert_evaluator_def
  apply (intro valid_rules)
  apply (rule valid_bind_conj [OF adjust_hbd_balance_triple [OF assms(1)]])
    apply simp
   apply (use assms in \<open>auto simp: tiny_of_asset_Inr tiny_uminus_Inr\<close>) [1]
  apply (intro valid_rules)
  apply (rule valid_bind [OF cvt.create_triple])
   apply (simp add: left_over_def)
  apply (rule valid_ret)
  apply (erule accounted_weaken, simp)
  done

lemma calculate_HBD_percent_triple: "valid P (bind_s (calculate_HBD_percent F) m) Q"
  if "\<And>x. valid P (m x) Q"
  unfolding calculate_HBD_percent_def debt_supplies_def
  by (intro valid_rules that)

lemma collateralized_convert_evaluator_triple:
  assumes "fc_ok F" "in_i64 (amount (conv_amount oper))"
  shows "valid (accounted g) (collateralized_convert_evaluator F oper) (\<lambda>_. accounted g)"
  unfolding collateralized_convert_evaluator_def
  apply (intro valid_rules)
  apply (rule valid_bind_conj [OF adjust_hive_balance_triple [OF assms(1)]])
    apply simp
   apply (use assms in \<open>auto simp: tiny_of_asset_Inr tiny_uminus_Inr\<close>) [1]
  apply (intro valid_rules)
  apply (rule valid_bind_conj [OF issue_HBD_triple [OF assms(1)]])
   apply (use multiply_with_fee_range(2) [OF assms(1)] in
     \<open>auto simp: immediate_conversion_def bind_r_eq_Inr\<close>) [1]
  apply (rule valid_bind_conj [OF deliver_hbd_triple [OF assms(1)]], simp)
  apply (rule calculate_HBD_percent_triple)
  apply (intro valid_rules)
  apply (rule valid_bind [OF ccv.create_triple])
   apply (simp add: collateralized_ok_def left_over_def)
   apply (use multiply_with_fee_range(2) [OF assms(1)] in
     \<open>auto simp: immediate_conversion_def bind_r_eq_Inr\<close>) [1]
  apply (rule valid_conseq [OF valid_drop_tiny])
  apply (erule accounted_weaken, simp)
  done

end
