(* ===== verification/Escrow.thy ===== *)
theory Escrow
  imports Ledger_Laws
begin

text \<open>
  Escrow transfers: the evaluators of \<^verbatim>\<open>hive_evaluator_transfer.cpp\<close> and the maintenance of
  \<^verbatim>\<open>database_market.cpp\<close>. An escrow object holds the HIVE and HBD of the transfer and the fee of the
  agent until all parties agree, a dispute is resolved, or the ratification deadline passes.
\<close>

section \<open>Objects and lookup\<close>

definition escrow_check_on_remove :: "escrow_object \<Rightarrow> unit res" where
  "escrow_check_on_remove e =
     check_r (tiny_is_empty (esc_hive_balance e) \<and> tiny_is_empty (esc_hbd_balance e) \<and> is_empty (pending_fee e))
       ''Removing escrow_object with non-empty balance fields''"

definition is_approved :: "escrow_object \<Rightarrow> bool" where
  "is_approved e \<longleftrightarrow> to_approved e \<and> agent_approved e"

definition same_escrow :: "escrow_object \<Rightarrow> escrow_object \<Rightarrow> bool" where
  "same_escrow x y \<longleftrightarrow> esc_from x = esc_from y \<and> escrow_id x = escrow_id y"

definition by_ratification_deadline :: "nat \<times> escrow_object \<Rightarrow> nat \<times> escrow_object \<Rightarrow> bool" where
  "by_ratification_deadline x y \<longleftrightarrow>
     \<not> is_approved (snd x) \<and> is_approved (snd y) \<or>
     is_approved (snd x) = is_approved (snd y) \<and>
       (ratification_deadline (snd x) < ratification_deadline (snd y) \<or>
        ratification_deadline (snd x) = ratification_deadline (snd y) \<and> fst x < fst y)"

definition find_escrow :: "string \<Rightarrow> 32 word \<Rightarrow> ledger \<Rightarrow> nat option" where
  "find_escrow from_name eid s =
     find_by (\<lambda>e. esc_from e = from_name \<and> escrow_id e = eid) (escrows s)"

definition get_escrow :: "string \<Rightarrow> 32 word \<Rightarrow> nat ledger_op" where
  "get_escrow from_name eid =
     read_s (\<lambda>s. case find_escrow from_name eid s of
       None \<Rightarrow> Inl (Assert_exn ''Escrow balance doesn't exist.'') | Some i \<Rightarrow> Inr i)"

abbreviation modify_escrow ::
  "nat \<Rightarrow> (escrow_object \<Rightarrow> ('a \<times> escrow_object) res) \<Rightarrow> 'a ledger_op" where
  "modify_escrow \<equiv> modify_row escrows set_escrows"

definition remove_escrow_object :: "nat \<Rightarrow> unit ledger_op" where
  "remove_escrow_object i = remove_row escrows set_escrows escrow_check_on_remove i"

definition count_escrow :: "nat \<Rightarrow> 16 word \<Rightarrow> unit ledger_op" where
  "count_escrow a n = modify_account a (\<lambda>acc.
     Inr ((), acc\<lparr>pending_escrow_transfers := pending_escrow_transfers acc + n\<rparr>))"

section \<open>Rejection and expiration\<close>

definition remove_escrow :: "fc_lib \<Rightarrow> nat \<Rightarrow> unit ledger_op" where
  "remove_escrow F i =
     bind_s (modify_escrow i (\<lambda>e.
       bind_r (tiny_transfer_from F temp_tiny_balance (esc_hive_balance e) (esc_hive_balance e)) (\<lambda>(h, h0).
       bind_r (tiny_transfer_from F temp_tiny_balance (esc_hbd_balance e) (esc_hbd_balance e)) (\<lambda>(d, d0).
       bind_r (balance_transfer_from F (temp_balance (symbol (pending_fee e))) (pending_fee e) (pending_fee e))
         (\<lambda>(f, f0).
       Inr ((h, d, f), e\<lparr>esc_hive_balance := h0, esc_hbd_balance := d0, pending_fee := f0\<rparr>))))))
       (\<lambda>(hive_ret, hbd_ret, fee_ret).
     bind_s (get_row escrows i) (\<lambda>e.
     bind_s (get_account (esc_from e)) (\<lambda>from_account.
     bind_s (adjust_hive_balance F from_account hive_ret hive_ret) (\<lambda>r1.
     bind_s (adjust_hbd_balance F from_account hbd_ret hbd_ret) (\<lambda>r2.
     bind_s (adjust_balance F from_account fee_ret fee_ret) (\<lambda>r3.
     bind_s (count_escrow from_account (- 1)) (\<lambda>_.
     bind_s (remove_escrow_object i) (\<lambda>_.
     bind_s (lift_s (drop_temp r3)) (\<lambda>_.
     bind_s (lift_s (drop_tiny_temp r2)) (\<lambda>_.
     lift_s (drop_tiny_temp r1)))))))))))"

definition expire_escrow_ratification :: "fc_lib \<Rightarrow> unit ledger_op" where
  "expire_escrow_ratification F =
     bind_s (get_s (\<lambda>s. map fst (takeWhile
       (\<lambda>(i, e). \<not> is_approved e \<and> ratification_deadline e \<le> head_block_time s)
       (index_rows by_ratification_deadline (escrows s))))) (\<lambda>is.
     foreach_s is (remove_escrow F))"

definition by_escrow_id :: "nat \<times> escrow_object \<Rightarrow> nat \<times> escrow_object \<Rightarrow> bool" where
  "by_escrow_id x y \<longleftrightarrow> escrow_id (snd x) < escrow_id (snd y)"

definition remove_pending_escrows :: "fc_lib \<Rightarrow> string \<Rightarrow> unit ledger_op" where
  "remove_pending_escrows F account_name =
     bind_s (get_s (\<lambda>s. map fst (sort_rows by_escrow_id
       (filter (\<lambda>(i, e). esc_from e = account_name) (rows (escrows s)))))) (\<lambda>is.
     foreach_s is (remove_escrow F))"

section \<open>Evaluators\<close>

record escrow_transfer_operation =
  et_from :: string
  et_to :: string
  et_agent :: string
  et_escrow_id :: "32 word"
  et_hbd_amount :: asset
  et_hive_amount :: asset
  et_fee :: asset
  et_ratification_deadline :: "32 word"
  et_escrow_expiration :: "32 word"

record escrow_approve_operation =
  ea_from :: string
  ea_to :: string
  ea_agent :: string
  ea_who :: string
  ea_escrow_id :: "32 word"
  ea_approve :: bool

record escrow_dispute_operation =
  ed_from :: string
  ed_to :: string
  ed_agent :: string
  ed_who :: string
  ed_escrow_id :: "32 word"

record escrow_release_operation =
  er_from :: string
  er_to :: string
  er_agent :: string
  er_who :: string
  er_receiver :: string
  er_escrow_id :: "32 word"
  er_hbd_amount :: asset
  er_hive_amount :: asset

definition HIVE_MAX_PENDING_TRANSFERS :: "16 word" where "HIVE_MAX_PENDING_TRANSFERS = 255"

text \<open>What the originator has to pay of each symbol, the fee included.\<close>

definition escrow_spent ::
  "fc_lib \<Rightarrow> escrow_transfer_operation \<Rightarrow> (HIVE_asset \<times> HBD_asset) res" where
  "escrow_spent F oper =
     bind_r (tiny_of_asset HIVE_ASSET_NUM_HIVE (et_hive_amount oper)) (\<lambda>hive_amount.
     bind_r (tiny_of_asset HIVE_ASSET_NUM_HBD (et_hbd_amount oper)) (\<lambda>hbd_amount.
     if symbol (et_fee oper) = HIVE_SYMBOL then
       bind_r (tiny_of_asset HIVE_ASSET_NUM_HIVE (et_fee oper)) (\<lambda>fee.
       bind_r (tiny_plus F hive_amount fee) (\<lambda>spent. Inr (spent, hbd_amount)))
     else
       bind_r (tiny_of_asset HIVE_ASSET_NUM_HBD (et_fee oper)) (\<lambda>fee.
       bind_r (tiny_plus F hbd_amount fee) (\<lambda>spent. Inr (hive_amount, spent)))))"

definition split_fee ::
  "fc_lib \<Rightarrow> asset \<Rightarrow> HIVE_asset \<Rightarrow> HBD_asset \<Rightarrow> (asset \<times> HIVE_asset \<times> HBD_asset) res" where
  "split_fee F fee escrow_hive escrow_hbd =
     (if symbol fee = HIVE_SYMBOL then
        bind_r (tiny_of_asset HIVE_ASSET_NUM_HIVE fee) (\<lambda>hive_fee.
        bind_r (balance_transfer_from_tiny HIVE_ASSET_NUM_HIVE F (temp_balance (symbol fee)) escrow_hive hive_fee)
          (\<lambda>(f, h). Inr (f, h, escrow_hbd)))
      else
        bind_r (tiny_of_asset HIVE_ASSET_NUM_HBD fee) (\<lambda>hbd_fee.
        bind_r (balance_transfer_from_tiny HIVE_ASSET_NUM_HBD F (temp_balance (symbol fee)) escrow_hbd hbd_fee)
          (\<lambda>(f, d). Inr (f, escrow_hive, d))))"

definition escrow_transfer_evaluator :: "fc_lib \<Rightarrow> escrow_transfer_operation \<Rightarrow> unit ledger_op" where
  "escrow_transfer_evaluator F oper =
     bind_s (get_account (et_from oper)) (\<lambda>from_account.
     bind_s (get_account (et_to oper)) (\<lambda>to_account.
     bind_s (get_account (et_agent oper)) (\<lambda>agent_account.
     bind_s (get_s head_block_time) (\<lambda>now.
     bind_s (check_s (et_ratification_deadline oper > now)
       ''The escrow ratification deadline must be after head block time.'') (\<lambda>_.
     bind_s (check_s (et_escrow_expiration oper > now)
       ''The escrow expiration must be after head block time.'') (\<lambda>_.
     bind_s (account from_account) (\<lambda>a.
     bind_s (check_s (pending_escrow_transfers a < HIVE_MAX_PENDING_TRANSFERS)
       ''Account already has the maximum number of open escrow transfers.'') (\<lambda>_.
     bind_s (lift_s (escrow_spent F oper)) (\<lambda>(hive_spent, hbd_spent).
     bind_s (lift_s (tiny_uminus F hive_spent)) (\<lambda>neg_hive.
     bind_s (adjust_hive_balance F from_account temp_tiny_balance neg_hive) (\<lambda>escrow_hive.
     bind_s (lift_s (tiny_uminus F hbd_spent)) (\<lambda>neg_hbd.
     bind_s (adjust_hbd_balance F from_account temp_tiny_balance neg_hbd) (\<lambda>escrow_hbd.
     bind_s (lift_s (split_fee F (et_fee oper) escrow_hive escrow_hbd)) (\<lambda>(fee, hive, hbd).
     bind_s (create_row escrows set_escrows same_escrow
       \<lparr>escrow_id = et_escrow_id oper, esc_from = et_from oper, esc_to = et_to oper,
         esc_agent = et_agent oper, ratification_deadline = et_ratification_deadline oper,
         escrow_expiration = et_escrow_expiration oper, esc_hbd_balance = hbd, esc_hive_balance = hive,
         pending_fee = fee, to_approved = False, agent_approved = False, disputed = False\<rparr>) (\<lambda>_.
     count_escrow from_account 1)))))))))))))))"

definition approve_by_to :: "escrow_approve_operation \<Rightarrow> nat \<Rightarrow> unit ledger_op" where
  "approve_by_to oper i =
     (if ea_who oper = ea_to oper then
        bind_s (get_row escrows i) (\<lambda>e.
        bind_s (check_s (\<not> to_approved e) ''Account 'to' has already approved the escrow.'') (\<lambda>_.
        if ea_approve oper then modify_escrow i (\<lambda>e. Inr ((), e\<lparr>to_approved := True\<rparr>)) else ret_s ()))
      else ret_s ())"

definition approve_by_agent :: "escrow_approve_operation \<Rightarrow> nat \<Rightarrow> unit ledger_op" where
  "approve_by_agent oper i =
     (if ea_who oper = ea_agent oper then
        bind_s (get_row escrows i) (\<lambda>e.
        bind_s (check_s (\<not> agent_approved e) ''Account 'agent' has already approved the escrow.'') (\<lambda>_.
        if ea_approve oper then modify_escrow i (\<lambda>e. Inr ((), e\<lparr>agent_approved := True\<rparr>)) else ret_s ()))
      else ret_s ())"

definition pay_agent :: "fc_lib \<Rightarrow> string \<Rightarrow> nat \<Rightarrow> unit ledger_op" where
  "pay_agent F agent i =
     bind_s (modify_escrow i (\<lambda>e.
       bind_r (balance_transfer_from F (temp_balance (symbol (pending_fee e))) (pending_fee e) (pending_fee e))
         (\<lambda>(f, f0). Inr (f, e\<lparr>pending_fee := f0\<rparr>)))) (\<lambda>fee_released.
     bind_s (get_account agent) (\<lambda>a.
     bind_s (adjust_balance F a fee_released fee_released) (\<lambda>rest.
     lift_s (drop_temp rest))))"

definition escrow_approve_evaluator :: "fc_lib \<Rightarrow> escrow_approve_operation \<Rightarrow> unit ledger_op" where
  "escrow_approve_evaluator F oper =
     bind_s (get_escrow (ea_from oper) (ea_escrow_id oper)) (\<lambda>i.
     bind_s (get_row escrows i) (\<lambda>e.
     bind_s (check_s (esc_to e = ea_to oper) ''Operation 'to' does not match escrow 'to'.'') (\<lambda>_.
     bind_s (check_s (esc_agent e = ea_agent oper) ''Operation 'agent' does not match escrow 'agent'.'') (\<lambda>_.
     bind_s (get_s head_block_time) (\<lambda>now.
     bind_s (check_s (ratification_deadline e \<ge> now)
       ''The escrow ratification deadline has passed. Escrow can no longer be ratified.'') (\<lambda>_.
     bind_s (approve_by_to oper i) (\<lambda>_.
     bind_s (approve_by_agent oper i) (\<lambda>_.
     if \<not> ea_approve oper then remove_escrow F i
     else
       bind_s (get_row escrows i) (\<lambda>e.
       if to_approved e \<and> agent_approved e then pay_agent F (ea_agent oper) i else ret_s ())))))))))"

definition escrow_dispute_evaluator :: "escrow_dispute_operation \<Rightarrow> unit ledger_op" where
  "escrow_dispute_evaluator oper =
     bind_s (get_account (ed_from oper)) (\<lambda>_.
     bind_s (get_escrow (ed_from oper) (ed_escrow_id oper)) (\<lambda>i.
     bind_s (get_row escrows i) (\<lambda>e.
     bind_s (get_s head_block_time) (\<lambda>now.
     bind_s (check_s (now < escrow_expiration e) ''Disputing the escrow must happen before expiration.'') (\<lambda>_.
     bind_s (check_s (is_approved e) ''Escrow is not fully approved.'') (\<lambda>_.
     bind_s (check_s (\<not> disputed e) ''The escrow is already under dispute.'') (\<lambda>_.
     bind_s (check_s (esc_to e = ed_to oper) ''Operation 'to' does not match escrow 'to'.'') (\<lambda>_.
     bind_s (check_s (esc_agent e = ed_agent oper) ''Operation 'agent' does not match escrow 'agent'.'') (\<lambda>_.
     modify_escrow i (\<lambda>e. Inr ((), e\<lparr>disputed := True\<rparr>)))))))))))"

text \<open>Who may release the funds of an escrow, and to whom.\<close>

definition may_release :: "escrow_release_operation \<Rightarrow> escrow_object \<Rightarrow> 32 word \<Rightarrow> unit res" where
  "may_release oper e now =
     (if disputed e then
        check_r (er_who oper = esc_agent e) ''Only 'agent' can release funds in a disputed escrow.''
      else
        bind_r (check_r (er_who oper = esc_from e \<or> er_who oper = esc_to e)
          ''Only 'from' and 'to' can release funds from a non-disputed escrow'') (\<lambda>_.
        if escrow_expiration e > now then
          if er_who oper = esc_from e then
            check_r (er_receiver oper = esc_to e) ''Only 'from' can release funds to 'to'.''
          else if er_who oper = esc_to e then
            check_r (er_receiver oper = esc_from e) ''Only 'to' can release funds to 'from'.''
          else Inr ()
        else Inr ()))"

definition release_funds ::
  "fc_lib \<Rightarrow> nat \<Rightarrow> string \<Rightarrow> HIVE_asset \<Rightarrow> HBD_asset \<Rightarrow> unit ledger_op" where
  "release_funds F i receiver o_hive_amount o_hbd_amount =
     bind_s (modify_escrow i (\<lambda>e.
       bind_r (tiny_transfer_from F temp_tiny_balance (esc_hive_balance e) o_hive_amount) (\<lambda>(h, h0).
       bind_r (tiny_transfer_from F temp_tiny_balance (esc_hbd_balance e) o_hbd_amount) (\<lambda>(d, d0).
       Inr ((h, d), e\<lparr>esc_hive_balance := h0, esc_hbd_balance := d0\<rparr>))))) (\<lambda>(hive_released, hbd_released).
     bind_s (get_account receiver) (\<lambda>a.
     bind_s (adjust_hive_balance F a hive_released hive_released) (\<lambda>r1.
     bind_s (get_account receiver) (\<lambda>a.
     bind_s (adjust_hbd_balance F a hbd_released hbd_released) (\<lambda>r2.
     bind_s (lift_s (drop_tiny_temp r1)) (\<lambda>_.
     lift_s (drop_tiny_temp r2)))))))"

definition escrow_release_evaluator :: "fc_lib \<Rightarrow> escrow_release_operation \<Rightarrow> unit ledger_op" where
  "escrow_release_evaluator F oper =
     bind_s (get_account (er_from oper)) (\<lambda>from_account.
     bind_s (get_escrow (er_from oper) (er_escrow_id oper)) (\<lambda>i.
     bind_s (get_row escrows i) (\<lambda>e.
     bind_s (lift_s (tiny_of_asset HIVE_ASSET_NUM_HIVE (er_hive_amount oper))) (\<lambda>o_hive_amount.
     bind_s (lift_s (tiny_of_asset HIVE_ASSET_NUM_HBD (er_hbd_amount oper))) (\<lambda>o_hbd_amount.
     bind_s (check_s (tamount (esc_hive_balance e) \<ge> tamount o_hive_amount)
       ''Release amount exceeds escrow balance.'') (\<lambda>_.
     bind_s (check_s (tamount (esc_hbd_balance e) \<ge> tamount o_hbd_amount)
       ''Release amount exceeds escrow balance.'') (\<lambda>_.
     bind_s (check_s (esc_to e = er_to oper) ''Operation 'to' does not match escrow 'to'.'') (\<lambda>_.
     bind_s (check_s (esc_agent e = er_agent oper) ''Operation 'agent' does not match escrow 'agent'.'') (\<lambda>_.
     bind_s (check_s (er_receiver oper = esc_from e \<or> er_receiver oper = esc_to e)
       ''Funds must be released to 'from' or 'to'.'') (\<lambda>_.
     bind_s (check_s (is_approved e) ''Escrow is not approved.'') (\<lambda>_.
     bind_s (get_s head_block_time) (\<lambda>now.
     bind_s (lift_s (may_release oper e now)) (\<lambda>_.
     bind_s (release_funds F i (er_receiver oper) o_hive_amount o_hbd_amount) (\<lambda>_.
     bind_s (get_row escrows i) (\<lambda>e.
     if tamount (esc_hive_balance e) = 0 \<and> tamount (esc_hbd_balance e) = 0 then
       bind_s (count_escrow from_account (- 1)) (\<lambda>_. remove_escrow_object i)
     else ret_s ())))))))))))))))"

end
