(* ===== verification/Escrow_Laws.thy ===== *)
theory Escrow_Laws
  imports Escrow
begin

text \<open>Laws of the escrow transfers: every operation keeps the ledger accounted for.\<close>

section \<open>Accounting\<close>

lemma count_escrow_triple: "valid (accounted g) (count_escrow a n) (\<lambda>_. accounted g)"
  unfolding count_escrow_def
  by (rule valid_conseq [OF modify_account_triple [where A = "\<lambda>_. True" and D = "\<lambda>_ _. 0"]])
    (auto simp: account_ok_def fund_cases_all)

lemma remove_escrow_object_triple: "valid (accounted g) (remove_escrow_object i) (\<lambda>_. accounted g)"
  unfolding remove_escrow_object_def
  by (rule esc.remove_triple)
    (auto simp: escrow_check_on_remove_def is_empty_def tiny_is_empty_def escrow_funds_def)

lemma drain_escrow_triple:
  assumes "fc_ok F"
  shows "valid (accounted g)
    (modify_escrow i (\<lambda>e.
       bind_r (tiny_transfer_from F temp_tiny_balance (esc_hive_balance e) (esc_hive_balance e)) (\<lambda>(h, h0).
       bind_r (tiny_transfer_from F temp_tiny_balance (esc_hbd_balance e) (esc_hbd_balance e)) (\<lambda>(d, d0).
       bind_r (balance_transfer_from F (temp_balance (symbol (pending_fee e))) (pending_fee e) (pending_fee e))
         (\<lambda>(f, f0).
       Inr ((h, d, f), e\<lparr>esc_hive_balance := h0, esc_hbd_balance := d0, pending_fee := f0\<rparr>))))))
    (\<lambda>x s. (case x of (h, d, f) \<Rightarrow> tiny_ok h \<and> tiny_ok d \<and> liquid f) \<and>
      accounted (\<lambda>k. g k + (case x of (h, d, f) \<Rightarrow> held_as Hive k h + held_as Hbd k d + held k f)) s)"
proof (rule esc.modify_triple)
  fix e y e'
  assume e: "escrow_ok e" and
    "bind_r (tiny_transfer_from F temp_tiny_balance (esc_hive_balance e) (esc_hive_balance e)) (\<lambda>(h, h0).
     bind_r (tiny_transfer_from F temp_tiny_balance (esc_hbd_balance e) (esc_hbd_balance e)) (\<lambda>(d, d0).
     bind_r (balance_transfer_from F (temp_balance (symbol (pending_fee e))) (pending_fee e) (pending_fee e))
       (\<lambda>(f, f0).
     Inr ((h, d, f), e\<lparr>esc_hive_balance := h0, esc_hbd_balance := d0, pending_fee := f0\<rparr>)))) = Inr (y, e')"
  then obtain h h0 d d0 f f0 where
    h: "tiny_transfer_from F temp_tiny_balance (esc_hive_balance e) (esc_hive_balance e) = Inr (h, h0)" and
    d: "tiny_transfer_from F temp_tiny_balance (esc_hbd_balance e) (esc_hbd_balance e) = Inr (d, d0)" and
    f: "balance_transfer_from F (temp_balance (symbol (pending_fee e))) (pending_fee e) (pending_fee e) =
      Inr (f, f0)" and
    y: "y = (h, d, f)" "e' = e\<lparr>esc_hive_balance := h0, esc_hbd_balance := d0, pending_fee := f0\<rparr>"
    by (auto simp: bind_r_eq_Inr)
  have *: "tiny_ok (esc_hive_balance e)" "tiny_ok (esc_hbd_balance e)" "liquid (pending_fee e)"
    "in_i64 (tamount (esc_hive_balance e))" "in_i64 (tamount (esc_hbd_balance e))"
    using e by (simp_all add: escrow_ok_def tiny_ok_def)
  show "escrow_ok e' \<and> (case y of (h, d, f) \<Rightarrow> tiny_ok h \<and> tiny_ok d \<and> liquid f) \<and>
      (\<forall>k. escrow_funds k e - escrow_funds k e' =
        (case y of (h, d, f) \<Rightarrow> held_as Hive k h + held_as Hbd k d + held k f))"
    using tiny_move [OF assms _ *(1,4) h] tiny_move [OF assms _ *(2,5) d]
      liquid_move [OF assms *(3) liquid_bal_ok(2) [OF *(3)] f]
    by (auto simp: y escrow_ok_def escrow_funds_def left_over_def held_as_def)
qed

lemma remove_escrow_triple:
  assumes "fc_ok F"
  shows "valid (accounted g) (remove_escrow F i) (\<lambda>_. accounted g)"
  unfolding remove_escrow_def
  apply (rule valid_bind_conj [OF drain_escrow_triple [OF assms]])
  apply (intro valid_rules)
  apply clarsimp
  apply (rule deliver_from(2) [OF assms], assumption)
  apply (rule deliver_from(3) [OF assms], assumption)
  apply (rule deliver_from(1) [OF assms], assumption)
  apply (rule valid_bind [OF count_escrow_triple])
  apply (rule valid_bind [OF remove_escrow_object_triple])
  apply (rule valid_tail)
  apply (intro valid_rules valid_ret)
  apply (erule accounted_weaken, simp)
  done

lemma expire_escrow_ratification_triple:
  assumes "fc_ok F"
  shows "valid (accounted g) (expire_escrow_ratification F) (\<lambda>_. accounted g)"
  unfolding expire_escrow_ratification_def
  by (intro valid_rules valid_foreach remove_escrow_triple assms)

lemma remove_pending_escrows_triple:
  assumes "fc_ok F"
  shows "valid (accounted g) (remove_pending_escrows F n) (\<lambda>_. accounted g)"
  unfolding remove_pending_escrows_def
  by (intro valid_rules valid_foreach remove_escrow_triple assms)

section \<open>Evaluators\<close>

lemma escrow_spent_range:
  assumes "fc_ok F" "in_i64 (amount (et_hive_amount oper))" "in_i64 (amount (et_hbd_amount oper))"
    and "in_i64 (amount (et_fee oper))" "escrow_spent F oper = Inr (h, d)"
  shows "in_i64 (tamount h)" "in_i64 (tamount d)"
  using assms by (auto simp: escrow_spent_def bind_r_eq_Inr tiny_of_asset_Inr tiny_plus_Inr split: if_splits)

lemma split_fee_Inr:
  assumes "fc_ok F" "tiny_ok h" "tiny_ok d" "in_i64 (amount fee)" "split_fee F fee h d = Inr (f, h', d')"
  shows "liquid f" "tiny_ok h'" "tiny_ok d'"
    "held_as Hive k h' + held_as Hbd k d' + held k f = held_as Hive k h + held_as Hbd k d"
  using assms
  by (auto simp: split_fee_def bind_r_eq_Inr tiny_of_asset_Inr from_tiny.move_iff tiny_ok_def liquid_def
      bal_ok_def held_as_def split: if_splits)

lemma create_escrow_triple:
  assumes "fc_ok F" "left_over b1 d1 h" "left_over b2 d2 d" "in_i64 (amount fee)"
    and "split_fee F fee h d = Inr (pending_fee e, esc_hive_balance e, esc_hbd_balance e)"
    and "\<And>k. u k = g k + held_as Hive k h + held_as Hbd k d"
  shows "valid (accounted u)
    (bind_s (create_row escrows set_escrows same_escrow e) (\<lambda>_. count_escrow a n)) (\<lambda>_. accounted g)"
proof -
  note s = split_fee_Inr [OF assms(1) _ _ assms(4,5)]
  have "escrow_ok e"
    using s(1-3) assms(2,3) by (simp add: escrow_ok_def left_over_def)
  then show ?thesis
    apply (rule valid_bind [OF esc.create_triple])
    apply (rule valid_conseq [OF count_escrow_triple])
    apply (erule accounted_weaken)
    using s(4) assms(2,3,6) apply (simp add: escrow_funds_def left_over_def)
    done
qed

lemma escrow_transfer_evaluator_triple:
  assumes "fc_ok F" "in_i64 (amount (et_hive_amount oper))" "in_i64 (amount (et_hbd_amount oper))"
    and "in_i64 (amount (et_fee oper))"
  shows "valid (accounted g) (escrow_transfer_evaluator F oper) (\<lambda>_. accounted g)"
  unfolding escrow_transfer_evaluator_def
  apply (intro valid_rules)
  apply clarsimp
  apply (frule escrow_spent_range [OF assms])
  apply (frule escrow_spent_range(2) [OF assms])
  apply (rule valid_bind_conj [OF adjust_hive_balance_triple [OF assms(1)]])
    apply simp
   apply (auto simp: tiny_uminus_Inr [OF assms(1)]) [1]
  apply (intro valid_rules)
  apply (rule valid_bind_conj [OF adjust_hbd_balance_triple [OF assms(1)]])
    apply simp
   apply (auto simp: tiny_uminus_Inr [OF assms(1)]) [1]
  apply (intro valid_rules)
  apply clarsimp
  apply (rule create_escrow_triple [OF assms(1) _ _ assms(4)], assumption, assumption, force)
  apply simp
  done

lemma approve_triples:
  "valid (accounted g) (approve_by_to oper i) (\<lambda>_. accounted g)"
  "valid (accounted g) (approve_by_agent oper i) (\<lambda>_. accounted g)"
proof -
  have f: "valid (accounted g) (modify_escrow i (\<lambda>e. Inr ((), f e))) (\<lambda>_. accounted g)"
    if "\<And>e k. escrow_funds k (f e) = escrow_funds k e" "\<And>e. escrow_ok e \<Longrightarrow> escrow_ok (f e)" for f
    by (rule valid_conseq [OF esc.modify_triple [where A = "\<lambda>_. True" and D = "\<lambda>_ _. 0"]])
      (use that in auto)
  have g: "valid (accounted g) (modify_escrow i (\<lambda>e. Inr ((), e\<lparr>to_approved := b\<rparr>))) (\<lambda>_. accounted g)"
    "valid (accounted g) (modify_escrow i (\<lambda>e. Inr ((), e\<lparr>agent_approved := b\<rparr>))) (\<lambda>_. accounted g)" for b
    by (rule f; simp add: escrow_funds_def escrow_ok_def)+
  show "valid (accounted g) (approve_by_to oper i) (\<lambda>_. accounted g)"
    unfolding approve_by_to_def by (intro valid_rules g; rule valid_ret; assumption)
  show "valid (accounted g) (approve_by_agent oper i) (\<lambda>_. accounted g)"
    unfolding approve_by_agent_def by (intro valid_rules g; rule valid_ret; assumption)
qed

lemma take_fee_triple:
  assumes "fc_ok F"
  shows "valid (accounted g)
    (modify_escrow i (\<lambda>e.
       bind_r (balance_transfer_from F (temp_balance (symbol (pending_fee e))) (pending_fee e) (pending_fee e))
         (\<lambda>(f, f0). Inr (f, e\<lparr>pending_fee := f0\<rparr>))))
    (\<lambda>f s. liquid f \<and> accounted (\<lambda>k. g k + held k f) s)"
proof (rule esc.modify_triple)
  fix e y e'
  assume e: "escrow_ok e" and
    "bind_r (balance_transfer_from F (temp_balance (symbol (pending_fee e))) (pending_fee e) (pending_fee e))
      (\<lambda>(f, f0). Inr (f, e\<lparr>pending_fee := f0\<rparr>)) = Inr (y, e')"
  then obtain f0 where f: "balance_transfer_from F (temp_balance (symbol (pending_fee e)))
      (pending_fee e) (pending_fee e) = Inr (y, f0)" and e': "e' = e\<lparr>pending_fee := f0\<rparr>"
    by (auto simp: bind_r_eq_Inr)
  have l: "liquid (pending_fee e)" using e by (simp add: escrow_ok_def)
  show "escrow_ok e' \<and> liquid y \<and> (\<forall>k. escrow_funds k e - escrow_funds k e' = held k y)"
    using liquid_move [OF assms l liquid_bal_ok(2) [OF l] f] e
    by (auto simp: e' escrow_ok_def escrow_funds_def)
qed

lemma pay_agent_triple:
  assumes "fc_ok F"
  shows "valid (accounted g) (pay_agent F n i) (\<lambda>_. accounted g)"
  unfolding pay_agent_def
  apply (rule valid_bind_conj [OF take_fee_triple [OF assms]])
  apply (intro valid_rules)
  apply (rule deliver_all [OF assms], assumption)
  apply (rule valid_drop_temp)
  done

lemma get_escrow_rule [valid_rules]:
  "(\<And>i. valid P (m i) Q) \<Longrightarrow> valid P (bind_s (get_escrow n e) m) Q"
  unfolding get_escrow_def by (rule valid_bind_read)

lemma escrow_approve_evaluator_triple:
  assumes "fc_ok F"
  shows "valid (accounted g) (escrow_approve_evaluator F oper) (\<lambda>_. accounted g)"
  unfolding escrow_approve_evaluator_def
  apply (intro valid_rules)
  apply (rule valid_bind [OF approve_triples(1)])
  apply (rule valid_bind [OF approve_triples(2)])
  apply (intro valid_rules remove_escrow_triple pay_agent_triple assms)
  apply (rule valid_ret, assumption)
  done

lemma escrow_dispute_evaluator_triple:
  "valid (accounted g) (escrow_dispute_evaluator oper) (\<lambda>_. accounted g)"
  unfolding escrow_dispute_evaluator_def
  apply (intro valid_rules)
  apply (rule valid_conseq [OF esc.modify_triple [where A = "\<lambda>_. True" and D = "\<lambda>_ _. 0"]])
   apply (auto simp: escrow_ok_def escrow_funds_def)
  done

lemma release_part_triple:
  assumes "fc_ok F" "in_i64 (tamount x)" "in_i64 (tamount z)"
  shows "valid (accounted g)
    (modify_escrow i (\<lambda>e.
       bind_r (tiny_transfer_from F temp_tiny_balance (esc_hive_balance e) x) (\<lambda>(h, h0).
       bind_r (tiny_transfer_from F temp_tiny_balance (esc_hbd_balance e) z) (\<lambda>(d, d0).
       Inr ((h, d), e\<lparr>esc_hive_balance := h0, esc_hbd_balance := d0\<rparr>)))))
    (\<lambda>y s. (tiny_ok (fst y) \<and> tiny_ok (snd y)) \<and>
      accounted (\<lambda>k. g k + (held_as Hive k (fst y) + held_as Hbd k (snd y))) s)"
  by (rule esc.modify_triple)
    (use assms in \<open>auto simp: bind_r_eq_Inr tin.move_iff tiny_ok_def escrow_ok_def escrow_funds_def held_as_def\<close>)

lemma release_funds_triple:
  assumes "fc_ok F" "in_i64 (tamount x)" "in_i64 (tamount z)"
  shows "valid (accounted g) (release_funds F i n x z) (\<lambda>_. accounted g)"
  unfolding release_funds_def
  apply (rule valid_bind_conj [OF release_part_triple [OF assms]])
  apply (intro valid_rules)
  apply clarsimp
  apply (rule deliver_from(2) [OF assms(1)], assumption)
  apply (intro valid_rules)
  apply (rule deliver_from(3) [OF assms(1)], assumption)
  apply (rule valid_tail)
  apply (intro valid_rules valid_ret)
  apply (erule accounted_weaken, simp)
  done

lemma escrow_release_evaluator_triple:
  assumes "fc_ok F" "in_i64 (amount (er_hive_amount oper))" "in_i64 (amount (er_hbd_amount oper))"
  shows "valid (accounted g) (escrow_release_evaluator F oper) (\<lambda>_. accounted g)"
  unfolding escrow_release_evaluator_def
  apply (intro valid_rules)
  apply (rule valid_bind [OF release_funds_triple [OF assms(1)]])
    apply (use assms in \<open>auto simp: tiny_of_asset_Inr\<close>) [2]
  apply (intro valid_rules)
   apply (rule valid_bind [OF count_escrow_triple])
   apply (rule remove_escrow_object_triple)
  apply (rule valid_ret, assumption)
  done

end
