(* ===== verification/Savings.thy ===== *)
theory Savings
  imports Ledger_Laws
begin

text \<open>
  Savings: the evaluators of the savings operations (\<^verbatim>\<open>hive_evaluator_transfer.cpp\<close>) and the
  completion of withdrawals (\<^verbatim>\<open>database_market.cpp\<close>).
\<close>

section \<open>Objects and lookup\<close>

definition savings_check_on_remove :: "savings_withdraw_object \<Rightarrow> unit res" where
  "savings_check_on_remove w =
     check_r (is_empty (sw_amount w)) ''Removing savings_withdraw_object with non-empty balance field''"

definition same_savings :: "savings_withdraw_object \<Rightarrow> savings_withdraw_object \<Rightarrow> bool" where
  "same_savings x y \<longleftrightarrow> sw_from x = sw_from y \<and> sw_request_id x = sw_request_id y"

text \<open>Account names are sixteen bytes, compared as two big-endian words.\<close>

definition name_word :: "string \<Rightarrow> int" where
  "name_word n = foldl (\<lambda>w c. w * 256 + of_char c) 0 (take 8 (n @ replicate 8 (CHR 0x00)))"

definition name_lt :: "string \<Rightarrow> string \<Rightarrow> bool" where
  "name_lt a b \<longleftrightarrow> name_word a < name_word b \<or>
     name_word a = name_word b \<and> name_word (drop 8 a) < name_word (drop 8 b)"

definition by_complete_from_rid ::
  "nat \<times> savings_withdraw_object \<Rightarrow> nat \<times> savings_withdraw_object \<Rightarrow> bool" where
  "by_complete_from_rid x y \<longleftrightarrow>
     sw_complete (snd x) < sw_complete (snd y) \<or>
     sw_complete (snd x) = sw_complete (snd y) \<and>
       (name_lt (sw_from (snd x)) (sw_from (snd y)) \<or>
        sw_from (snd x) = sw_from (snd y) \<and> sw_request_id (snd x) < sw_request_id (snd y))"

definition find_savings_withdraw :: "string \<Rightarrow> 32 word \<Rightarrow> ledger \<Rightarrow> nat option" where
  "find_savings_withdraw owner request_id s =
     find_by (\<lambda>w. sw_from w = owner \<and> sw_request_id w = request_id) (savings_withdraws s)"

definition get_savings_withdraw :: "string \<Rightarrow> 32 word \<Rightarrow> nat ledger_op" where
  "get_savings_withdraw owner request_id =
     read_s (\<lambda>s. case find_savings_withdraw owner request_id s of
       None \<Rightarrow> Inl (Assert_exn ''Savings withdraw doesn't exist.'') | Some i \<Rightarrow> Inr i)"

definition take_withdrawal :: "fc_lib \<Rightarrow> nat \<Rightarrow> asset ledger_op" where
  "take_withdrawal F i =
     modify_row savings_withdraws set_savings i (\<lambda>w.
       bind_r (balance_transfer_from F (temp_balance (symbol (sw_amount w))) (sw_amount w) (sw_amount w))
         (\<lambda>(taken, rest). Inr (taken, w\<lparr>sw_amount := rest\<rparr>)))"

definition remove_withdrawal :: "nat \<Rightarrow> unit ledger_op" where
  "remove_withdrawal i = remove_row savings_withdraws set_savings savings_check_on_remove i"

definition count_withdrawal :: "nat \<Rightarrow> 8 word \<Rightarrow> unit ledger_op" where
  "count_withdrawal a n = modify_account a (\<lambda>acc.
     Inr ((), acc\<lparr>savings_withdraw_requests := savings_withdraw_requests acc + n\<rparr>))"

section \<open>Maintenance\<close>

definition complete_withdrawal :: "fc_lib \<Rightarrow> nat \<Rightarrow> unit \<Rightarrow> unit ledger_op" where
  "complete_withdrawal F i u =
     bind_s (take_withdrawal F i) (\<lambda>withdrawn.
     bind_s (get_row savings_withdraws i) (\<lambda>w.
     bind_s (get_account (sw_to w)) (\<lambda>to_account.
     bind_s (adjust_balance F to_account withdrawn withdrawn) (\<lambda>rest.
     bind_s (get_account (sw_from w)) (\<lambda>from_account.
     bind_s (count_withdrawal from_account (- 1)) (\<lambda>_.
     bind_s (remove_withdrawal i) (\<lambda>_.
     lift_s (drop_temp rest))))))))"

definition process_savings_withdraws :: "fc_lib \<Rightarrow> unit ledger_op" where
  "process_savings_withdraws F =
     bind_s (get_s id) (\<lambda>s.
     while_s (table_size (savings_withdraws s))
       (\<lambda>t. first_row by_complete_from_rid (\<lambda>w. sw_complete w \<le> head_block_time s)
              (savings_withdraws t))
       (complete_withdrawal F) ())"

definition return_withdrawal :: "fc_lib \<Rightarrow> nat \<Rightarrow> (savings_withdraw_object \<Rightarrow> nat ledger_op) \<Rightarrow> nat \<Rightarrow> unit ledger_op" where
  "return_withdrawal F acc counted i =
     bind_s (take_withdrawal F i) (\<lambda>drained.
     bind_s (adjust_balance F acc drained drained) (\<lambda>rest.
     bind_s (get_row savings_withdraws i) (\<lambda>w.
     bind_s (counted w) (\<lambda>a.
     bind_s (count_withdrawal a (- 1)) (\<lambda>_.
     bind_s (remove_withdrawal i) (\<lambda>_.
     lift_s (drop_temp rest)))))))"

definition by_request :: "nat \<times> savings_withdraw_object \<Rightarrow> nat \<times> savings_withdraw_object \<Rightarrow> bool" where
  "by_request x y \<longleftrightarrow> sw_request_id (snd x) < sw_request_id (snd y)"

definition by_to_complete :: "nat \<times> savings_withdraw_object \<Rightarrow> nat \<times> savings_withdraw_object \<Rightarrow> bool" where
  "by_to_complete x y \<longleftrightarrow> sw_complete (snd x) < sw_complete (snd y) \<or>
     sw_complete (snd x) = sw_complete (snd y) \<and> fst x < fst y"

definition remove_pending_savings_withdraws :: "fc_lib \<Rightarrow> nat \<Rightarrow> string \<Rightarrow> unit ledger_op" where
  "remove_pending_savings_withdraws F acc account_name =
     bind_s (get_s (\<lambda>s. map fst (sort_rows by_request
       (filter (\<lambda>(i, w). sw_from w = account_name) (rows (savings_withdraws s)))))) (\<lambda>from_ids.
     bind_s (foreach_s from_ids (return_withdrawal F acc (\<lambda>_. ret_s acc))) (\<lambda>_.
     bind_s (get_s (\<lambda>s. map fst (sort_rows by_to_complete
       (filter (\<lambda>(i, w). sw_to w = account_name) (rows (savings_withdraws s)))))) (\<lambda>to_ids.
     foreach_s to_ids (return_withdrawal F acc (\<lambda>w. get_account (sw_from w))))))"

section \<open>Evaluators\<close>

definition HIVE_SAVINGS_WITHDRAW_REQUEST_LIMIT :: "8 word" where
  "HIVE_SAVINGS_WITHDRAW_REQUEST_LIMIT = 100"

definition HIVE_SAVINGS_WITHDRAW_TIME :: "32 word" where "HIVE_SAVINGS_WITHDRAW_TIME = 259200"

record transfer_to_savings_operation =
  tts_from :: string
  tts_to :: string
  tts_amount :: asset

record transfer_from_savings_operation =
  tfs_from :: string
  tfs_request_id :: "32 word"
  tfs_to :: string
  tfs_amount :: asset
  tfs_memo :: string

definition transfer_to_savings_evaluator :: "fc_lib \<Rightarrow> transfer_to_savings_operation \<Rightarrow> unit ledger_op" where
  "transfer_to_savings_evaluator F oper =
     bind_s (lift_s (assert_not_pixa_ico (tts_from oper))) (\<lambda>_.
     bind_s (get_account (tts_from oper)) (\<lambda>from_account.
     bind_s (get_account (tts_to oper)) (\<lambda>to_account.
     bind_s (check_s (\<not> is_treasury (tts_to oper)) ''Cannot transfer to savings of treasury'') (\<lambda>_.
     bind_s (lift_s (asset_uminus F (tts_amount oper))) (\<lambda>neg.
     bind_s (adjust_balance F from_account (temp_balance (symbol (tts_amount oper))) neg) (\<lambda>transfer.
     bind_s (adjust_savings_balance F to_account transfer (tts_amount oper)) (\<lambda>rest.
     lift_s (drop_temp rest))))))))"

definition transfer_from_savings_evaluator :: "fc_lib \<Rightarrow> transfer_from_savings_operation \<Rightarrow> unit ledger_op" where
  "transfer_from_savings_evaluator F oper =
     bind_s (lift_s (assert_not_pixa_ico (tfs_from oper))) (\<lambda>_.
     bind_s (get_account (tfs_from oper)) (\<lambda>from_account.
     bind_s (get_account (tfs_to oper)) (\<lambda>to_account.
     bind_s (account from_account) (\<lambda>a.
     bind_s (check_s (savings_withdraw_requests a < HIVE_SAVINGS_WITHDRAW_REQUEST_LIMIT)
       ''Account has reached limit for pending withdraw requests.'') (\<lambda>_.
     bind_s (check_s (symbol (tfs_amount oper) = HBD_SYMBOL \<or> \<not> is_treasury (tfs_to oper))
       ''Can only transfer HBD to treasury'') (\<lambda>_.
     bind_s (lift_s (get_savings_balance a (symbol (tfs_amount oper)))) (\<lambda>available.
     bind_s (lift_s (asset_ge available (tfs_amount oper))) (\<lambda>enough.
     bind_s (check_s enough ''Insufficient savings balance.'') (\<lambda>_.
     bind_s (lift_s (asset_uminus F (tfs_amount oper))) (\<lambda>neg.
     bind_s (adjust_savings_balance F from_account (temp_balance (symbol (tfs_amount oper))) neg)
       (\<lambda>withdraw_amount.
     bind_s (get_s head_block_time) (\<lambda>now.
     bind_s (create_row savings_withdraws set_savings same_savings
       \<lparr>sw_from = tfs_from oper, sw_to = tfs_to oper, sw_memo = tfs_memo oper,
         sw_request_id = tfs_request_id oper, sw_amount = withdraw_amount,
         sw_complete = now + HIVE_SAVINGS_WITHDRAW_TIME\<rparr>) (\<lambda>_.
     count_withdrawal from_account 1)))))))))))))"

definition cancel_transfer_from_savings_evaluator :: "fc_lib \<Rightarrow> string \<Rightarrow> 32 word \<Rightarrow> unit ledger_op" where
  "cancel_transfer_from_savings_evaluator F from_name request_id =
     bind_s (get_savings_withdraw from_name request_id) (\<lambda>i.
     bind_s (take_withdrawal F i) (\<lambda>returned.
     bind_s (get_row savings_withdraws i) (\<lambda>w.
     bind_s (get_account (sw_from w)) (\<lambda>a.
     bind_s (adjust_savings_balance F a returned returned) (\<lambda>rest.
     bind_s (remove_withdrawal i) (\<lambda>_.
     bind_s (get_account from_name) (\<lambda>b.
     bind_s (count_withdrawal b (- 1)) (\<lambda>_.
     lift_s (drop_temp rest)))))))))"

end
