(* ===== verification/Savings_Laws.thy ===== *)
theory Savings_Laws
  imports Savings
begin

text \<open>Laws of the savings: every operation keeps the ledger accounted for.\<close>

section \<open>Accounting\<close>

lemma count_withdrawal_triple: "valid (accounted g) (count_withdrawal a n) (\<lambda>_. accounted g)"
  unfolding count_withdrawal_def
  by (rule valid_conseq [OF modify_account_triple [where A = "\<lambda>_. True" and D = "\<lambda>_ _. 0"]])
    (auto simp: account_ok_def fund_cases_all)

lemma remove_withdrawal_triple: "valid (accounted g) (remove_withdrawal i) (\<lambda>_. accounted g)"
  unfolding remove_withdrawal_def
  by (rule sav.remove_triple) (auto simp: savings_check_on_remove_def is_empty_def)

lemma take_withdrawal_triple:
  assumes "fc_ok F"
  shows "valid (accounted g) (take_withdrawal F i)
    (\<lambda>b s. liquid b \<and> accounted (\<lambda>k. g k + held k b) s)"
  unfolding take_withdrawal_def
proof (rule sav.modify_triple)
  fix w y w'
  assume l: "liquid (sw_amount w)" and
    "bind_r (balance_transfer_from F (temp_balance (symbol (sw_amount w))) (sw_amount w) (sw_amount w))
      (\<lambda>(taken, rest). Inr (taken, w\<lparr>sw_amount := rest\<rparr>)) = Inr (y, w')"
  then obtain r where r: "balance_transfer_from F (temp_balance (symbol (sw_amount w)))
      (sw_amount w) (sw_amount w) = Inr (y, r)" and w': "w' = w\<lparr>sw_amount := r\<rparr>"
    by (auto simp: bind_r_eq_Inr)
  show "liquid (sw_amount w') \<and> liquid y \<and>
      (\<forall>k. held k (sw_amount w) - held k (sw_amount w') = held k y)"
    using liquid_move [OF assms l liquid_bal_ok(2) [OF l] r] by (auto simp: w')
qed

lemma deliver_savings_triple:
  assumes "fc_ok F" "liquid b" "amount d = amount b"
  shows "valid (accounted (\<lambda>k. g k + held k b)) (adjust_savings_balance F a b d)
    (\<lambda>r s. amount r = 0 \<and> accounted g s)"
  by (rule valid_conseq [OF adjust_savings_balance_triple [OF assms(1)]])
    (use assms(2,3) in \<open>auto simp: liquid_bal_ok left_over_of_def\<close>)

lemmas deliver_savings = valid_bind_conj [OF deliver_savings_triple]

lemma adjust_savings_balance_symbol:
  "adjust_savings_balance F i b d s = Inr r \<Longrightarrow> symbol d = HIVE_SYMBOL \<or> symbol d = HBD_SYMBOL"
  by (auto simp: adjust_savings_balance_def bind_s_eq_Inr check_s_eq_Inr asset_num_symbols split: if_splits)

lemma withdraw_savings_triple:
  assumes "fc_ok F" "in_i64 (amount c)" "asset_uminus F c = Inr neg"
  shows "valid (accounted g) (adjust_savings_balance F a (temp_balance (symbol c)) neg)
    (\<lambda>b s. (liquid b \<and> symbol b = symbol c \<and> amount b = amount c) \<and> accounted (\<lambda>k. g k + held k b) s)"
proof (rule validI)
  fix s b s'
  assume s: "accounted g s" "adjust_savings_balance F a (temp_balance (symbol c)) neg s = Inr (b, s')"
  have n: "symbol neg = symbol c" "amount neg = - amount c" "in_i64 (amount neg)"
    using assms asset_uminus_Inr [OF assms(1,2)] by auto
  have "left_over_of (temp_balance (symbol c)) neg b \<and>
      accounted (\<lambda>k. g k + (held k b - held k (temp_balance (symbol c)))) s'"
    using validD [OF adjust_savings_balance_triple [OF assms(1) _ n(3)] s(2) s(1)] by simp
  then show "(liquid b \<and> symbol b = symbol c \<and> amount b = amount c) \<and> accounted (\<lambda>k. g k + held k b) s'"
    using adjust_savings_balance_symbol [OF s(2)] n by (auto simp: left_over_of_def liquid_def)
qed

lemma count_withdrawal_rule [valid_rules]:
  "(\<And>u. valid (accounted g) (m u) Q) \<Longrightarrow> valid (accounted g) (bind_s (count_withdrawal a n) m) Q"
  by (rule valid_bind [OF count_withdrawal_triple])

lemma remove_withdrawal_rule [valid_rules]:
  "(\<And>u. valid (accounted g) (m u) Q) \<Longrightarrow> valid (accounted g) (bind_s (remove_withdrawal i) m) Q"
  by (rule valid_bind [OF remove_withdrawal_triple])

section \<open>Maintenance\<close>

lemma complete_withdrawal_triple:
  assumes "fc_ok F"
  shows "valid (accounted g) (complete_withdrawal F i u) (\<lambda>_. accounted g)"
  unfolding complete_withdrawal_def
  apply (rule valid_bind_conj [OF take_withdrawal_triple [OF assms]])
  apply (intro valid_rules)
  apply (rule deliver_all [OF assms], assumption)
  apply (intro valid_rules valid_drop_temp)
  done

lemma process_savings_withdraws_triple:
  assumes "fc_ok F"
  shows "valid (accounted g) (process_savings_withdraws F) (\<lambda>_. accounted g)"
  unfolding process_savings_withdraws_def
  apply (intro valid_rules)
  apply (rule valid_conseq [OF valid_while [where I = "\<lambda>_. accounted g"]])
   apply (rule valid_pre [OF complete_withdrawal_triple [OF assms]])
   apply simp_all
  done

lemma return_withdrawal_triple:
  assumes "fc_ok F" "\<And>w. valid (accounted g) (counted w) (\<lambda>_. accounted g)"
  shows "valid (accounted g) (return_withdrawal F acc counted i) (\<lambda>_. accounted g)"
  unfolding return_withdrawal_def
  apply (rule valid_bind_conj [OF take_withdrawal_triple [OF assms(1)]])
  apply (rule deliver_all [OF assms(1)], assumption)
  apply (intro valid_rules)
  apply (rule valid_bind [OF assms(2)])
  apply (intro valid_rules valid_drop_temp)
  done

lemma remove_pending_savings_withdraws_triple:
  assumes "fc_ok F"
  shows "valid (accounted g) (remove_pending_savings_withdraws F acc n) (\<lambda>_. accounted g)"
  unfolding remove_pending_savings_withdraws_def
  apply (intro valid_rules)
  apply (rule valid_bind [OF valid_foreach])
   apply (rule return_withdrawal_triple [OF assms], rule valid_ret, assumption)
  apply (intro valid_rules)
  apply (rule valid_foreach, rule return_withdrawal_triple [OF assms], rule valid_tail)
  apply (intro valid_rules valid_ret)
  apply assumption
  done

section \<open>Evaluators\<close>

lemma transfer_to_savings_evaluator_triple:
  assumes "fc_ok F" "in_i64 (amount (tts_amount oper))"
  shows "valid (accounted g) (transfer_to_savings_evaluator F oper) (\<lambda>_. accounted g)"
  unfolding transfer_to_savings_evaluator_def
  apply (intro valid_rules)
  apply (rule valid_bind_conj [OF withdraw_triple [OF assms]], assumption)
  apply (rule deliver_savings [OF assms(1)], simp, simp)
  apply (rule valid_drop_temp)
  done

lemma transfer_from_savings_evaluator_triple:
  assumes "fc_ok F" "in_i64 (amount (tfs_amount oper))"
  shows "valid (accounted g) (transfer_from_savings_evaluator F oper) (\<lambda>_. accounted g)"
  unfolding transfer_from_savings_evaluator_def
  apply (intro valid_rules)
  apply (rule valid_bind_conj [OF withdraw_savings_triple [OF assms]], assumption)
  apply (intro valid_rules)
  apply (rule valid_bind [OF sav.create_triple], simp)
  apply (rule valid_conseq [OF count_withdrawal_triple])
  apply (erule accounted_weaken)
  apply simp
  done

lemma cancel_transfer_from_savings_evaluator_triple:
  assumes "fc_ok F"
  shows "valid (accounted g) (cancel_transfer_from_savings_evaluator F n r) (\<lambda>_. accounted g)"
  unfolding cancel_transfer_from_savings_evaluator_def get_savings_withdraw_def
  apply (intro valid_rules)
  apply (rule valid_bind_conj [OF take_withdrawal_triple [OF assms]])
  apply (intro valid_rules)
  apply (rule deliver_savings [OF assms], assumption, simp)
  apply (intro valid_rules valid_drop_temp)
  done

end
