(* ===== verification/Supply.thy ===== *)
theory Supply
  imports Market_Laws Conversion_Laws Escrow_Laws Savings_Laws
begin

text \<open>
  The supply counters of the chain: \<^verbatim>\<open>update_virtual_supply\<close> and the part of
  \<^verbatim>\<open>validate_invariants\<close> that compares the counters with the funds of all objects
  (\<^verbatim>\<open>database.cpp\<close>), with the totals it collects from the market, the escrows, the savings and the
  conversions. The laws show that the comparison of \<^verbatim>\<open>validate_invariants\<close> succeeds exactly for the
  ledgers without a gap.
\<close>

section \<open>Virtual supply and print rate\<close>

definition print_rate :: "16 word \<Rightarrow> 16 word \<Rightarrow> 16 word \<Rightarrow> (16 word) res" where
  "print_rate percent_hbd stop start =
     (if percent_hbd \<ge> stop then Inr 0
      else if percent_hbd \<le> start then Inr (of_int HIVE_100_PERCENT)
      else if uint stop - uint start = 0 then Inl Undefined
      else Inr (of_int (((uint stop - uint percent_hbd) * HIVE_100_PERCENT) sdiv (uint stop - uint start))))"

definition update_virtual_supply :: "fc_lib \<Rightarrow> unit ledger_op" where
  "update_virtual_supply F =
     bind_s (get_s id) (\<lambda>s.
     let exchange_rate = get_hbd_price s in
     bind_s (if tiny_price_is_null exchange_rate then ret_s (tiny 0)
             else lift_s (tiny_base_times_price F (current_hbd_supply (dgpo s)) exchange_rate)) (\<lambda>v.
     bind_s (lift_s (tiny_plus F (current_supply (dgpo s)) v)) (\<lambda>vs.
     bind_s (update_s (\<lambda>s. s\<lparr>dgpo := (dgpo s)\<lparr>virtual_supply := vs\<rparr>\<rparr>)) (\<lambda>_.
     if \<not> tiny_price_is_null exchange_rate \<and> has_hardfork 14 s then
       bind_s (calculate_HBD_percent F) (\<lambda>percent_hbd.
       bind_s (lift_s (print_rate percent_hbd (hbd_stop_percent (dgpo s)) (hbd_start_percent (dgpo s)))) (\<lambda>r.
       update_s (\<lambda>s. s\<lparr>dgpo := (dgpo s)\<lparr>hbd_print_rate := r\<rparr>\<rparr>)))
     else ret_s ()))))"

section \<open>Totals\<close>

type_synonym hive_hbd = "HIVE_asset \<times> HBD_asset"

primrec fold_r :: "('x \<Rightarrow> 'a \<Rightarrow> 'a res) \<Rightarrow> 'x list \<Rightarrow> 'a \<Rightarrow> 'a res" where
  "fold_r f [] acc = Inr acc"
| "fold_r f (x # xs) acc = bind_r (f x acc) (fold_r f xs)"

definition add_hive :: "fc_lib \<Rightarrow> HIVE_asset \<Rightarrow> hive_hbd \<Rightarrow> hive_hbd res" where
  "add_hive F v = (\<lambda>(h, d). bind_r (tiny_plus F h v) (\<lambda>h'. Inr (h', d)))"

definition add_hbd :: "fc_lib \<Rightarrow> HBD_asset \<Rightarrow> hive_hbd \<Rightarrow> hive_hbd res" where
  "add_hbd F v = (\<lambda>(h, d). bind_r (tiny_plus F d v) (\<lambda>d'. Inr (h, d')))"

definition convert_total :: "fc_lib \<Rightarrow> convert_request_object \<Rightarrow> hive_hbd \<Rightarrow> hive_hbd res" where
  "convert_total F c = add_hbd F (cr_amount c)"

definition collateral_total ::
  "fc_lib \<Rightarrow> collateralized_convert_request_object \<Rightarrow> hive_hbd \<Rightarrow> hive_hbd res" where
  "collateral_total F c = add_hive F (collateral_amount c)"

definition get_convert_request_totals :: "fc_lib \<Rightarrow> ledger \<Rightarrow> hive_hbd \<Rightarrow> hive_hbd res" where
  "get_convert_request_totals F s t =
     bind_r (fold_r (convert_total F) (map snd (rows (convert_requests s))) t) (\<lambda>t.
     fold_r (collateral_total F) (map snd (rows (collateralized_requests s))) t)"

definition order_total :: "fc_lib \<Rightarrow> limit_order_object \<Rightarrow> hive_hbd \<Rightarrow> hive_hbd res" where
  "order_total F l t =
     (if symbol (for_sale l) = HIVE_SYMBOL
      then bind_r (tiny_of_asset HIVE_ASSET_NUM_HIVE (for_sale l)) (\<lambda>v. add_hive F v t)
      else if symbol (for_sale l) = HBD_SYMBOL
      then bind_r (tiny_of_asset HIVE_ASSET_NUM_HBD (for_sale l)) (\<lambda>v. add_hbd F v t)
      else Inr t)"

definition get_limit_order_totals :: "fc_lib \<Rightarrow> ledger \<Rightarrow> hive_hbd \<Rightarrow> hive_hbd res" where
  "get_limit_order_totals F s t = fold_r (order_total F) (map snd (rows (limit_orders s))) t"

definition hive_or_hbd_total :: "fc_lib \<Rightarrow> string \<Rightarrow> asset \<Rightarrow> hive_hbd \<Rightarrow> hive_hbd res" where
  "hive_or_hbd_total F msg b t =
     (if symbol b = HIVE_SYMBOL
      then bind_r (tiny_of_asset HIVE_ASSET_NUM_HIVE b) (\<lambda>v. add_hive F v t)
      else bind_r (check_r (symbol b = HBD_SYMBOL) msg) (\<lambda>_.
           bind_r (tiny_of_asset HIVE_ASSET_NUM_HBD b) (\<lambda>v. add_hbd F v t)))"

definition escrow_total :: "fc_lib \<Rightarrow> escrow_object \<Rightarrow> hive_hbd \<Rightarrow> hive_hbd res" where
  "escrow_total F e t =
     bind_r (add_hive F (esc_hive_balance e) t) (\<lambda>t.
     bind_r (add_hbd F (esc_hbd_balance e) t) (\<lambda>t.
     hive_or_hbd_total F ''found escrow pending fee that is not HBD or HIVE'' (pending_fee e) t))"

definition get_escrow_totals :: "fc_lib \<Rightarrow> ledger \<Rightarrow> hive_hbd \<Rightarrow> hive_hbd res" where
  "get_escrow_totals F s t = fold_r (escrow_total F) (map snd (rows (escrows s))) t"

definition savings_total :: "fc_lib \<Rightarrow> savings_withdraw_object \<Rightarrow> hive_hbd \<Rightarrow> hive_hbd res" where
  "savings_total F w t =
     hive_or_hbd_total F ''found savings withdraw that is not HBD or HIVE'' (sw_amount w) t"

definition get_savings_withdraw_totals :: "fc_lib \<Rightarrow> ledger \<Rightarrow> hive_hbd \<Rightarrow> hive_hbd res" where
  "get_savings_withdraw_totals F s t =
     fold_r (savings_total F) (map snd (rows (savings_withdraws s))) t"

definition reward_fund_total :: "fc_lib \<Rightarrow> reward_fund_object \<Rightarrow> hive_hbd \<Rightarrow> hive_hbd res" where
  "reward_fund_total F r = add_hive F (reward_balance r)"

section \<open>Comparison with the counters\<close>

text \<open>The first components of the totals of all accounts are the liquid funds, the others the VESTS,
  the VESTS rewards and their value in HIVE.\<close>

type_synonym account_totals = "hive_hbd \<times> VEST_asset \<times> VEST_asset \<times> HIVE_asset"

definition account_total :: "fc_lib \<Rightarrow> account_object \<Rightarrow> account_totals \<Rightarrow> account_totals res" where
  "account_total F a = (\<lambda>(t, vests, reward_vests, reward_hive).
     bind_r (add_hive F (hive_balance a) t) (\<lambda>t.
     bind_r (add_hive F (savings_hive_balance a) t) (\<lambda>t.
     bind_r (add_hive F (reward_hive_balance a) t) (\<lambda>t.
     bind_r (add_hbd F (hbd_balance a) t) (\<lambda>t.
     bind_r (add_hbd F (savings_hbd_balance a) t) (\<lambda>t.
     bind_r (add_hbd F (reward_hbd_balance a) t) (\<lambda>t.
     bind_r (tiny_plus F vests (vesting_shares a)) (\<lambda>v.
     bind_r (tiny_plus F reward_vests (reward_vesting_balance a)) (\<lambda>rv.
     bind_r (tiny_plus F reward_hive (reward_vesting_hive a)) (\<lambda>rh.
     Inr (t, v, rv, rh)))))))))))"

definition by_account_name :: "nat \<times> account_object \<Rightarrow> nat \<times> account_object \<Rightarrow> bool" where
  "by_account_name x y \<longleftrightarrow> name_lt (acc_name (snd x)) (acc_name (snd y))"

definition object_totals :: "fc_lib \<Rightarrow> ledger \<Rightarrow> hive_hbd \<Rightarrow> hive_hbd res" where
  "object_totals F s t =
     bind_r (get_convert_request_totals F s t) (\<lambda>t.
     bind_r (get_limit_order_totals F s t) (\<lambda>t.
     bind_r (get_escrow_totals F s t) (\<lambda>t.
     bind_r (get_savings_withdraw_totals F s t) (\<lambda>t.
     fold_r (reward_fund_total F) (map snd (rows (reward_funds s))) t))))"

definition validate_supplies :: "fc_lib \<Rightarrow> ledger \<Rightarrow> unit res" where
  "validate_supplies F s =
     bind_r (fold_r (account_total F) (map snd (index_rows by_account_name (accounts s)))
       ((tiny 0, tiny 0), tiny 0, tiny 0, tiny 0)) (\<lambda>(t, total_vesting, total_reward_vesting, pending_vesting_hive).
     bind_r (object_totals F s t) (\<lambda>t.
     bind_r (tiny_plus F (total_vesting_fund_hive (dgpo s)) (pending_rewarded_vesting_hive (dgpo s))) (\<lambda>v.
     bind_r (add_hive F v t) (\<lambda>(total_supply, total_hbd).
     bind_r (check_r (current_supply (dgpo s) = total_supply) ''current_supply'') (\<lambda>_.
     bind_r (check_r (current_hbd_supply (dgpo s) = total_hbd) ''current_hbd_supply'') (\<lambda>_.
     bind_r (check_r (total_vesting_shares (dgpo s) = total_vesting) ''total_vesting_shares'') (\<lambda>_.
     bind_r (check_r (pending_rewarded_vesting_shares (dgpo s) = total_reward_vesting)
       ''pending_rewarded_vesting_shares'') (\<lambda>_.
     check_r (pending_rewarded_vesting_hive (dgpo s) = pending_vesting_hive)
       ''pending_rewarded_vesting_hive''))))))))"

definition validate_virtual_supply :: "fc_lib \<Rightarrow> ledger \<Rightarrow> unit res" where
  "validate_virtual_supply F s =
     bind_r (check_r (tamount (virtual_supply (dgpo s)) \<ge> tamount (current_supply (dgpo s)))
       ''virtual_supply >= current_supply'') (\<lambda>_.
     let exchange_rate = get_hbd_price s in
     if tiny_price_is_null exchange_rate then Inr ()
     else
       bind_r (full_virtual_supply F (current_hbd_supply (dgpo s)) exchange_rate (current_supply (dgpo s))) (\<lambda>v.
       check_r (v = virtual_supply (dgpo s)) ''virtual_supply''))"

section \<open>Sums\<close>

text \<open>\<open>adds_up amt v f\<close>: from totals in range, \<open>f\<close> adds \<open>v\<close>, and it returns when the new totals are in
  range. The components of the totals are read by \<open>amt\<close>.\<close>

definition in_range :: "(fund \<Rightarrow> int) \<Rightarrow> bool" where
  "in_range v \<longleftrightarrow> (\<forall>k. 0 \<le> v k \<and> in_i64 (v k))"

definition adds_up :: "('st \<Rightarrow> fund \<Rightarrow> int) \<Rightarrow> (fund \<Rightarrow> int) \<Rightarrow> ('st \<Rightarrow> 'st res) \<Rightarrow> bool" where
  "adds_up amt v f \<longleftrightarrow> (\<forall>k. 0 \<le> v k) \<and>
     (\<forall>t. in_range (amt t) \<longrightarrow>
       (\<forall>t'. f t = Inr t' \<longrightarrow> in_range (amt t') \<and> (\<forall>k. amt t' k = amt t k + v k)) \<and>
       (in_range (\<lambda>k. amt t k + v k) \<longrightarrow> (\<exists>t'. f t = Inr t')))"

fun pair_amt :: "hive_hbd \<Rightarrow> fund \<Rightarrow> int" where
  "pair_amt (h, d) Hive = tamount h"
| "pair_amt (h, d) Hbd = tamount d"
| "pair_amt (h, d) _ = 0"

fun account_amt :: "account_totals \<Rightarrow> fund \<Rightarrow> int" where
  "account_amt ((h, d), v, rv, rh) Hive = tamount h"
| "account_amt ((h, d), v, rv, rh) Hbd = tamount d"
| "account_amt ((h, d), v, rv, rh) Vests = tamount v"
| "account_amt ((h, d), v, rv, rh) Reward_vests = tamount rv"
| "account_amt ((h, d), v, rv, rh) Reward_hive = tamount rh"

lemma in_range_le: "in_range v \<Longrightarrow> (\<And>k. 0 \<le> w k) \<Longrightarrow> (\<And>k. w k \<le> v k) \<Longrightarrow> in_range w"
  by (auto simp: in_range_def intro: in_i64_leI)

lemma adds_up_nonneg: "adds_up amt v f \<Longrightarrow> 0 \<le> v k"
  unfolding adds_up_def by blast

lemma adds_up_step:
  assumes "adds_up amt v f" "in_range (amt t)" "f t = Inr t'"
  shows "in_range (amt t')" "amt t' k = amt t k + v k"
  using assms by (simp_all add: adds_up_def)

lemma adds_up_returns:
  assumes "adds_up amt v f" "in_range (amt t)" "in_range (\<lambda>k. amt t k + v k)"
  obtains t' where "f t = Inr t'"
  using assms by (auto simp: adds_up_def)

lemma adds_up_Inr: "adds_up amt (\<lambda>_. 0) Inr"
  by (simp add: adds_up_def)

lemma adds_up_cong: "adds_up amt v f \<Longrightarrow> (\<And>k. v k = w k) \<Longrightarrow> adds_up amt w f"
  by (simp add: adds_up_def)

lemma adds_up_bind:
  assumes f: "adds_up amt v f" and g: "adds_up amt w g"
  shows "adds_up amt (\<lambda>k. v k + w k) (\<lambda>t. bind_r (f t) g)"
  unfolding adds_up_def
proof (intro conjI allI impI)
  show "0 \<le> v k + w k" for k using adds_up_nonneg [OF f, of k] adds_up_nonneg [OF g, of k] by simp
next
  fix t t'
  assume t: "in_range (amt t)" and "bind_r (f t) g = Inr t'"
  then obtain u where u: "f t = Inr u" "g u = Inr t'" by (auto simp: bind_r_eq_Inr)
  show "in_range (amt t')" using adds_up_step(1) [OF g adds_up_step(1) [OF f t u(1)] u(2)] .
  show "amt t' k = amt t k + (v k + w k)" for k
    using adds_up_step(2) [OF g adds_up_step(1) [OF f t u(1)] u(2), of k] adds_up_step(2) [OF f t u(1), of k]
    by linarith
next
  fix t
  assume t: "in_range (amt t)" and r: "in_range (\<lambda>k. amt t k + (v k + w k))"
  have v: "0 \<le> amt t k + v k" "amt t k + v k \<le> amt t k + (v k + w k)" for k
    using t adds_up_nonneg [OF f, of k] adds_up_nonneg [OF g, of k] by (simp_all add: in_range_def)
  obtain u where u: "f t = Inr u"
    using adds_up_returns [OF f t in_range_le [OF r v]] .
  have "(\<lambda>k. amt u k + w k) = (\<lambda>k. amt t k + (v k + w k))"
    by (rule ext) (simp add: adds_up_step(2) [OF f t u])
  then obtain t' where "g u = Inr t'"
    using adds_up_returns [OF g adds_up_step(1) [OF f t u]] r by metis
  then show "\<exists>t'. bind_r (f t) g = Inr t'" using u by simp
qed

lemma adds_up_fold:
  "(\<And>x. x \<in> set xs \<Longrightarrow> adds_up amt (v x) (step x)) \<Longrightarrow>
    adds_up amt (\<lambda>k. \<Sum>x\<leftarrow>xs. v x k) (fold_r step xs)"
proof (induction xs)
  case Nil
  then show ?case using adds_up_Inr by (simp add: adds_up_def)
next
  case (Cons x xs)
  then have "adds_up amt (\<lambda>k. v x k + (\<Sum>x\<leftarrow>xs. v x k)) (\<lambda>t. bind_r (step x t) (fold_r step xs))"
    by (intro adds_up_bind) simp_all
  then show ?case by (simp add: adds_up_def)
qed

lemma ex_tiny [simp]: "(\<exists>c :: tiny_asset. tamount c = x \<and> P (tamount c)) \<longleftrightarrow> P x"
  by (metis tamount_tiny)

lemmas adds_up_unfold = adds_up_def in_range_def fund_cases_all tiny_ok_def held_as_def bind_r_eq_Inr
  tiny_plus_Inr

lemma add_hive_adds_up:
  assumes "fc_ok F" "tiny_ok b"
  shows "adds_up pair_amt (\<lambda>k. held_as Hive k b) (add_hive F b)"
  using assms by (auto simp: adds_up_unfold add_hive_def)

lemma add_hbd_adds_up:
  assumes "fc_ok F" "tiny_ok b"
  shows "adds_up pair_amt (\<lambda>k. held_as Hbd k b) (add_hbd F b)"
  using assms by (auto simp: adds_up_unfold add_hbd_def)

lemma hive_or_hbd_adds_up:
  assumes "fc_ok F" "liquid b"
  shows "adds_up pair_amt (\<lambda>k. held k b) (hive_or_hbd_total F msg b)"
proof -
  have b: "tiny_ok (tiny (amount b))" using assms(2) by (simp add: liquid_def bal_ok_def tiny_ok_def)
  consider "symbol b = HIVE_SYMBOL" | "symbol b = HBD_SYMBOL" using assms(2) by (auto simp: liquid_def)
  then show ?thesis
  proof cases
    case 1
    then have "hive_or_hbd_total F msg b = add_hive F (tiny (amount b))"
      by (auto simp: hive_or_hbd_total_def tiny_of_asset_def tiny_check_def asset_num_symbols)
    moreover have "held_as Hive k (tiny (amount b)) = held k b" for k using 1 by (simp add: held_as_def)
    ultimately show ?thesis
      using adds_up_cong [OF add_hive_adds_up [OF assms(1) b]] by metis
  next
    case 2
    then have "hive_or_hbd_total F msg b = add_hbd F (tiny (amount b))"
      by (auto simp: hive_or_hbd_total_def tiny_of_asset_def tiny_check_def asset_num_symbols)
    moreover have "held_as Hbd k (tiny (amount b)) = held k b" for k using 2 by (simp add: held_as_def)
    ultimately show ?thesis
      using adds_up_cong [OF add_hbd_adds_up [OF assms(1) b]] by metis
  qed
qed

lemma order_total_eq: "liquid (for_sale l) \<Longrightarrow> order_total F l = hive_or_hbd_total F [] (for_sale l)"
  by (auto simp: order_total_def hive_or_hbd_total_def liquid_def)

lemma escrow_adds_up:
  assumes "fc_ok F" "escrow_ok e"
  shows "adds_up pair_amt (\<lambda>k. escrow_funds k e) (escrow_total F e)"
proof -
  have "adds_up pair_amt (\<lambda>k. held_as Hive k (esc_hive_balance e) +
      (held_as Hbd k (esc_hbd_balance e) + held k (pending_fee e))) (escrow_total F e)"
    unfolding escrow_total_def using assms
    by (intro adds_up_bind add_hive_adds_up add_hbd_adds_up hive_or_hbd_adds_up) (simp_all add: escrow_ok_def)
  then show ?thesis by (rule adds_up_cong) (simp add: escrow_funds_def)
qed

lemma table_adds_up:
  assumes "all_rows P t" "\<And>x. P x \<Longrightarrow> adds_up amt (\<lambda>k. v k x) (step x)"
  shows "adds_up amt (\<lambda>k. total (v k) t) (fold_r step (map snd (rows t)))"
proof -
  have "adds_up amt (\<lambda>k. \<Sum>x\<leftarrow>map snd (rows t). v k x) (fold_r step (map snd (rows t)))"
    by (rule adds_up_fold, rule assms(2)) (use assms(1) in \<open>auto simp: all_rows_def list_all_iff\<close>)
  then show ?thesis by (rule adds_up_cong) (simp add: total_def)
qed

definition other_funds :: "fund \<Rightarrow> ledger \<Rightarrow> int" where
  "other_funds k s = object_funds k s - total (account_funds k) (accounts s)"

lemma object_totals_adds_up:
  assumes F: "fc_ok F" and "ledger_ok s"
  shows "adds_up pair_amt (\<lambda>k. other_funds k s) (object_totals F s)"
proof -
  have ok: "all_rows (\<lambda>c. tiny_ok (cr_amount c)) (convert_requests s)"
    "all_rows collateralized_ok (collateralized_requests s)" "all_rows escrow_ok (escrows s)"
    "all_rows (\<lambda>w. liquid (sw_amount w)) (savings_withdraws s)" "all_rows order_ok (limit_orders s)"
    "all_rows (\<lambda>r. tiny_ok (reward_balance r)) (reward_funds s)"
    using assms(2) by (simp_all add: ledger_ok_def)
  have c: "adds_up pair_amt (\<lambda>k. held_as Hbd k (cr_amount c)) (convert_total F c)" if "tiny_ok (cr_amount c)" for c
    using add_hbd_adds_up [OF F that] by (simp add: convert_total_def)
  have d: "adds_up pair_amt (\<lambda>k. held_as Hive k (collateral_amount c)) (collateral_total F c)"
    if "collateralized_ok c" for c
    using add_hive_adds_up [OF F] that by (simp add: collateral_total_def collateralized_ok_def)
  have l: "adds_up pair_amt (\<lambda>k. held k (for_sale l)) (order_total F l)" if "order_ok l" for l
    using hive_or_hbd_adds_up [OF F] that by (simp add: order_total_eq order_ok_def)
  have w: "adds_up pair_amt (\<lambda>k. held k (sw_amount w)) (savings_total F w)" if "liquid (sw_amount w)" for w
    using hive_or_hbd_adds_up [OF F that] by (simp add: savings_total_def [abs_def])
  have r: "adds_up pair_amt (\<lambda>k. held_as Hive k (reward_balance r)) (reward_fund_total F r)"
    if "tiny_ok (reward_balance r)" for r
    using add_hive_adds_up [OF F that] by (simp add: reward_fund_total_def)
  note parts = table_adds_up [OF ok(1) c] table_adds_up [OF ok(2) d] table_adds_up [OF ok(3) escrow_adds_up [OF F]]
    table_adds_up [OF ok(4) w] table_adds_up [OF ok(5) l] table_adds_up [OF ok(6) r]
  show ?thesis
    unfolding object_totals_def get_convert_request_totals_def get_limit_order_totals_def
      get_escrow_totals_def get_savings_withdraw_totals_def
    by (rule adds_up_cong [OF adds_up_bind [OF adds_up_bind [OF parts(1,2)]
        adds_up_bind [OF parts(5) adds_up_bind [OF parts(3) adds_up_bind [OF parts(4,6)]]]]])
      (simp_all add: other_funds_def object_funds_def)
qed

section \<open>Accounts\<close>

lemma sum_sort_rows:
  fixes f :: "'r \<Rightarrow> int"
  shows "sum_list (map f (sort_rows b rs)) = sum_list (map f rs)"
proof -
  have "sum_list (map f (insert_row b r qs)) = f r + sum_list (map f qs)" for r qs
    by (induction qs) simp_all
  then show ?thesis by (induction rs) simp_all
qed

definition liquid_total :: "fc_lib \<Rightarrow> account_object \<Rightarrow> hive_hbd \<Rightarrow> hive_hbd res" where
  "liquid_total F a t =
     bind_r (add_hive F (hive_balance a) t) (\<lambda>t.
     bind_r (add_hive F (savings_hive_balance a) t) (\<lambda>t.
     bind_r (add_hive F (reward_hive_balance a) t) (\<lambda>t.
     bind_r (add_hbd F (hbd_balance a) t) (\<lambda>t.
     bind_r (add_hbd F (savings_hbd_balance a) t) (\<lambda>t.
     add_hbd F (reward_hbd_balance a) t)))))"

lemma account_total_split:
  "account_total F a (t, v, rv, rh) =
     bind_r (liquid_total F a t) (\<lambda>t.
     bind_r (tiny_plus F v (vesting_shares a)) (\<lambda>v.
     bind_r (tiny_plus F rv (reward_vesting_balance a)) (\<lambda>rv.
     bind_r (tiny_plus F rh (reward_vesting_hive a)) (\<lambda>rh. Inr (t, v, rv, rh)))))"
  by (simp add: account_total_def liquid_total_def bind_r_assoc)

lemma liquid_total_adds_up:
  assumes "fc_ok F" "account_ok a"
  shows "adds_up pair_amt (\<lambda>k. held_as Hive k (hive_balance a) + (held_as Hive k (savings_hive_balance a) +
    (held_as Hive k (reward_hive_balance a) + (held_as Hbd k (hbd_balance a) +
    (held_as Hbd k (savings_hbd_balance a) + held_as Hbd k (reward_hbd_balance a)))))) (liquid_total F a)"
  unfolding liquid_total_def using assms
  by (intro adds_up_bind add_hive_adds_up add_hbd_adds_up) (simp_all add: account_ok_def)

lemma account_total_adds_up:
  assumes F: "fc_ok F" and a: "account_ok a"
  shows "adds_up account_amt (\<lambda>k. account_funds k a) (account_total F a)"
  unfolding adds_up_def
proof (intro conjI allI impI)
  show "0 \<le> account_funds k a" for k
    using a by (cases k) (simp_all add: account_ok_def tiny_ok_def)
next
  fix x x'
  assume x: "in_range (account_amt x)" and r: "account_total F a x = Inr x'"
  obtain t v rv rh where x_eq: "x = (t, v, rv, rh)" by (cases x)
  obtain h d where t_eq: "t = (h, d)" by (cases t)
  have t: "in_range (pair_amt t)" and i: "in_i64 (tamount v)" "in_i64 (tamount rv)" "in_i64 (tamount rh)"
    "0 \<le> tamount v" "0 \<le> tamount rv" "0 \<le> tamount rh"
    using x by (simp_all add: x_eq t_eq in_range_def fund_cases_all)
  have b: "tiny_ok (vesting_shares a)" "tiny_ok (reward_vesting_balance a)" "tiny_ok (reward_vesting_hive a)"
    using a by (simp_all add: account_ok_def)
  obtain t' v' rv' rh' where x': "x' = (t', v', rv', rh')" and l: "liquid_total F a t = Inr t'"
    and p: "tiny_plus F v (vesting_shares a) = Inr v'" "tiny_plus F rv (reward_vesting_balance a) = Inr rv'"
      "tiny_plus F rh (reward_vesting_hive a) = Inr rh'"
    using r by (auto simp: x_eq account_total_split bind_r_eq_Inr)
  obtain h' d' where t'_eq: "t' = (h', d')" by (cases t')
  note l' = adds_up_step [OF liquid_total_adds_up [OF F a] t l]
  have q: "tamount v' = tamount v + tamount (vesting_shares a) \<and> in_i64 (tamount v')"
    "tamount rv' = tamount rv + tamount (reward_vesting_balance a) \<and> in_i64 (tamount rv')"
    "tamount rh' = tamount rh + tamount (reward_vesting_hive a) \<and> in_i64 (tamount rh')"
    using p i b F by (auto simp: tiny_plus_Inr tiny_ok_def)
  have e: "account_amt x' k = account_amt x k + account_funds k a" for k
    using l'(2) [of k] q by (cases k) (simp_all add: x' t'_eq x_eq t_eq held_as_def)
  then show "account_amt x' k = account_amt x k + account_funds k a" for k .
  show "in_range (account_amt x')"
    using l'(1) q i b by (auto simp: x' t'_eq in_range_def fund_cases_all tiny_ok_def)
next
  fix x
  assume x: "in_range (account_amt x)" and r: "in_range (\<lambda>k. account_amt x k + account_funds k a)"
  obtain t v rv rh where x_eq: "x = (t, v, rv, rh)" by (cases x)
  obtain h d where t_eq: "t = (h, d)" by (cases t)
  have t: "in_range (pair_amt t)" and i: "in_i64 (tamount v)" "in_i64 (tamount rv)" "in_i64 (tamount rh)"
    using x by (simp_all add: x_eq t_eq in_range_def fund_cases_all)
  have b: "tiny_ok (vesting_shares a)" "tiny_ok (reward_vesting_balance a)" "tiny_ok (reward_vesting_hive a)"
    using a by (simp_all add: account_ok_def)
  obtain t' where l: "liquid_total F a t = Inr t'"
    by (rule adds_up_returns [OF liquid_total_adds_up [OF F a] t])
      (use r in \<open>simp add: x_eq t_eq in_range_def fund_cases_all held_as_def add.assoc\<close>)
  have "\<exists>v'. tiny_plus F v (vesting_shares a) = Inr v'"
    "\<exists>rv'. tiny_plus F rv (reward_vesting_balance a) = Inr rv'"
    "\<exists>rh'. tiny_plus F rh (reward_vesting_hive a) = Inr rh'"
    using r i b F by (simp_all add: tiny_plus_Inr tiny_ok_def x_eq t_eq in_range_def fund_cases_all)
  then show "\<exists>x'. account_total F a x = Inr x'"
    using l by (auto simp: x_eq account_total_split bind_r_eq_Inr)
qed

section \<open>Supplies\<close>

lemma accounts_adds_up:
  assumes "fc_ok F" "ledger_ok s"
  shows "adds_up account_amt (\<lambda>k. total (account_funds k) (accounts s))
    (fold_r (account_total F) (map snd (index_rows by_account_name (accounts s))))"
proof -
  have "adds_up account_amt (\<lambda>k. \<Sum>a\<leftarrow>map snd (index_rows by_account_name (accounts s)). account_funds k a)
      (fold_r (account_total F) (map snd (index_rows by_account_name (accounts s))))"
    by (rule adds_up_fold, rule account_total_adds_up [OF assms(1)])
      (use assms(2) in \<open>auto simp: ledger_ok_def all_rows_def list_all_iff\<close>)
  then show ?thesis
    by (rule adds_up_cong) (simp add: total_def index_rows_def sum_sort_rows)
qed

text \<open>A total of \<open>validate_supplies\<close> is what the objects hold.\<close>

lemma collected_totals:
  assumes F: "fc_ok F" and s: "ledger_ok s"
    and "fold_r (account_total F) (map snd (index_rows by_account_name (accounts s)))
      ((tiny 0, tiny 0), tiny 0, tiny 0, tiny 0) = Inr (t, v, rv, rh)"
    and "object_totals F s t = Inr (h, d)"
  shows "tamount h = object_funds Hive s" "tamount d = object_funds Hbd s" "tamount v = object_funds Vests s"
    "tamount rv = object_funds Reward_vests s" "tamount rh = object_funds Reward_hive s"
    "in_range (pair_amt (h, d))"
proof -
  let ?z = "((tiny 0, tiny 0), tiny 0, tiny 0, tiny 0)"
  have z: "in_range (account_amt ?z)" by (simp add: in_range_def fund_cases_all)
  obtain h0 d0 where t: "t = (h0, d0)" by (cases t)
  note a = adds_up_step [OF accounts_adds_up [OF F s] z assms(3)]
  have p: "in_range (pair_amt t)" using a(1) by (simp add: t in_range_def fund_cases_all)
  note o = adds_up_step [OF object_totals_adds_up [OF F s] p assms(4)]
  show "tamount h = object_funds Hive s" "tamount d = object_funds Hbd s"
    using a(2) [of Hive] a(2) [of Hbd] o(2) [of Hive] o(2) [of Hbd] by (simp_all add: t other_funds_def)
  show "tamount v = object_funds Vests s" "tamount rv = object_funds Reward_vests s"
    "tamount rh = object_funds Reward_hive s"
    using a(2) [of Vests] a(2) [of Reward_vests] a(2) [of Reward_hive]
      o(2) [of Vests] o(2) [of Reward_vests] o(2) [of Reward_hive] by (simp_all add: t other_funds_def)
  show "in_range (pair_amt (h, d))" using o(1) .
qed

lemma object_funds_nonneg:
  assumes "fc_ok F" "ledger_ok s"
  shows "0 \<le> other_funds k s" "0 \<le> total (account_funds k) (accounts s)"
  using adds_up_nonneg [OF object_totals_adds_up [OF assms]] adds_up_nonneg [OF accounts_adds_up [OF assms]]
  by simp_all

text \<open>Without a gap every total is collected without an overflow, because no partial sum exceeds the
  supply.\<close>

lemma totals_return:
  assumes F: "fc_ok F" and s: "ledger_ok s" and r: "in_range (\<lambda>k. object_funds k s)"
  shows "\<exists>t v rv rh h d. fold_r (account_total F) (map snd (index_rows by_account_name (accounts s)))
      ((tiny 0, tiny 0), tiny 0, tiny 0, tiny 0) = Inr (t, v, rv, rh) \<and> object_totals F s t = Inr (h, d)"
proof -
  let ?z = "((tiny 0, tiny 0), tiny 0, tiny 0, tiny 0)"
  note n = object_funds_nonneg [OF F s]
  have z: "in_range (account_amt ?z)" by (simp add: in_range_def fund_cases_all)
  have z0: "account_amt ?z k = 0" for k by (cases k) simp_all
  have "in_range (\<lambda>k. account_amt ?z k + total (account_funds k) (accounts s))"
    unfolding z0 by (rule in_range_le [OF r]) (use n in \<open>simp_all add: other_funds_def\<close>)
  then obtain x where x: "fold_r (account_total F) (map snd (index_rows by_account_name (accounts s))) ?z = Inr x"
    using adds_up_returns [OF accounts_adds_up [OF F s] z] by blast
  obtain h0 d0 v rv rh where x_eq: "x = ((h0, d0), v, rv, rh)" by (cases x) auto
  note a = adds_up_step [OF accounts_adds_up [OF F s] z x]
  have p: "in_range (pair_amt (h0, d0))" using a(1) by (simp add: x_eq in_range_def fund_cases_all)
  have e: "pair_amt (h0, d0) k + other_funds k s \<le> object_funds k s" for k
    using a(2) [of k] n(2) [of k] z0 [of k] by (cases k) (simp_all add: x_eq other_funds_def)
  have "in_range (\<lambda>k. pair_amt (h0, d0) k + other_funds k s)"
    by (rule in_range_le [OF r]) (use e p n in \<open>simp_all add: in_range_def\<close>)
  then obtain y where "object_totals F s (h0, d0) = Inr y"
    using adds_up_returns [OF object_totals_adds_up [OF F s] p] by blast
  then show ?thesis using x by (cases y) (auto simp: x_eq)
qed

lemma validate_supplies_iff:
  assumes F: "fc_ok F" and s: "ledger_ok s"
  shows "validate_supplies F s = Inr () \<longleftrightarrow> (\<forall>k. ledger_gap k s = 0)"
proof
  assume "validate_supplies F s = Inr ()"
  then obtain t v rv rh h d w h' d' where
    a: "fold_r (account_total F) (map snd (index_rows by_account_name (accounts s)))
      ((tiny 0, tiny 0), tiny 0, tiny 0, tiny 0) = Inr (t, v, rv, rh)"
    and o: "object_totals F s t = Inr (h, d)"
    and w: "tiny_plus F (total_vesting_fund_hive (dgpo s)) (pending_rewarded_vesting_hive (dgpo s)) = Inr w"
    and m: "add_hive F w (h, d) = Inr (h', d')"
    and c: "current_supply (dgpo s) = h'" "current_hbd_supply (dgpo s) = d'" "total_vesting_shares (dgpo s) = v"
      "pending_rewarded_vesting_shares (dgpo s) = rv" "pending_rewarded_vesting_hive (dgpo s) = rh"
    by (fastforce simp: validate_supplies_def bind_r_eq_Inr)
  note q = collected_totals [OF F s a o]
  have i: "in_i64 (tamount (total_vesting_fund_hive (dgpo s)))" "in_i64 (tamount (pending_rewarded_vesting_hive (dgpo s)))"
    using s by (simp_all add: ledger_ok_def dgpo_ok_def tiny_ok_def)
  have w': "tamount w = tamount (total_vesting_fund_hive (dgpo s)) + tamount (pending_rewarded_vesting_hive (dgpo s))"
    "in_i64 (tamount w)"
    using w tiny_plus_Inr [OF F i] by auto
  have "tamount h' = tamount h + tamount w" "d' = d"
    using m q(6) w'(2) F by (auto simp: add_hive_def bind_r_eq_Inr in_range_def fund_cases_all tiny_plus_Inr)
  then show "\<forall>k. ledger_gap k s = 0"
    using c q w'(1) by (simp add: fund_cases_all ledger_gap_def)
next
  assume g: "\<forall>k. ledger_gap k s = 0"
  note n = object_funds_nonneg [OF F s]
  have d: "dgpo_ok (dgpo s)" using s by (simp add: ledger_ok_def)
  have n': "0 \<le> object_funds k s" for k using n [of k] by (simp add: other_funds_def)
  have p: "0 \<le> tamount (pending_rewarded_vesting_hive (dgpo s))"
    using g n' [of Reward_hive] by (simp add: fund_cases_all ledger_gap_def)
  have r: "in_range (\<lambda>k. object_funds k s)"
    using g d n' [of Hive] n' [of Hbd] n' [of Vests] n' [of Reward_vests] n' [of Reward_hive] p
    by (auto simp: in_range_def fund_cases_all ledger_gap_def dgpo_ok_def tiny_ok_def in_i64_def)
  obtain t v rv rh h e where
    a: "fold_r (account_total F) (map snd (index_rows by_account_name (accounts s)))
      ((tiny 0, tiny 0), tiny 0, tiny 0, tiny 0) = Inr (t, v, rv, rh)" and o: "object_totals F s t = Inr (h, e)"
    using totals_return [OF F s r] by blast
  note q = collected_totals [OF F s a o]
  let ?w = "tiny (tamount (total_vesting_fund_hive (dgpo s)) + tamount (pending_rewarded_vesting_hive (dgpo s)))"
  have w: "tiny_plus F (total_vesting_fund_hive (dgpo s)) (pending_rewarded_vesting_hive (dgpo s)) = Inr ?w"
    using g d n' [of Hive] p F
    by (auto simp: tiny_plus_Inr dgpo_ok_def tiny_ok_def fund_cases_all ledger_gap_def in_i64_def)
  have "tiny_plus F h ?w = Inr (current_supply (dgpo s))"
    using g d n' [of Hive] p q F
    by (auto simp: tiny_plus_Inr dgpo_ok_def tiny_ok_def fund_cases_all ledger_gap_def in_i64_def)
  then show "validate_supplies F s = Inr ()"
    using g q by (auto simp: validate_supplies_def a o w add_hive_def fund_cases_all ledger_gap_def tiny_eq_iff)
qed

end
