(* ===== verification/Ledger_Steps.thy ===== *)
theory Ledger_Steps
  imports Supply
begin

text \<open>
  The operations and the maintenance of the ledger as steps of the chain, and the invariant that
  holds over any sequence of them: the funds of all objects agree with the supply counters.
\<close>

section \<open>Steps\<close>

text \<open>A user operation, or a call of \<^verbatim>\<open>_apply_block\<close> or of \<^verbatim>\<open>clear_account\<close>. \<open>in_control\<close> and \<open>block_hash\<close>
  are what the evaluators of limit orders read from the node.\<close>

datatype ledger_step =
    Limit_order_create bool "32 word" limit_order_create_operation
  | Limit_order_create2 bool limit_order_create2_operation
  | Limit_order_cancel string "32 word"
  | Convert convert_operation
  | Collateralized_convert convert_operation
  | Escrow_transfer escrow_transfer_operation
  | Escrow_approve escrow_approve_operation
  | Escrow_dispute escrow_dispute_operation
  | Escrow_release escrow_release_operation
  | Transfer_to_savings transfer_to_savings_operation
  | Transfer_from_savings transfer_from_savings_operation
  | Cancel_transfer_from_savings string "32 word"
  | Clear_expired_orders
  | Process_conversions
  | Process_savings_withdraws
  | Expire_escrow_ratification
  | Update_virtual_supply
  | Remove_pending_conversion_requests nat
  | Remove_pending_limit_orders string
  | Remove_pending_escrows string
  | Remove_pending_savings_withdraws nat string

fun step_op :: "fc_lib \<Rightarrow> ledger_step \<Rightarrow> unit ledger_op" where
  "step_op F (Limit_order_create in_control block_hash oper) = limit_order_create_evaluator F in_control block_hash oper"
| "step_op F (Limit_order_create2 in_control oper) = limit_order_create2_evaluator F in_control oper"
| "step_op F (Limit_order_cancel owner orderid) = limit_order_cancel_evaluator F owner orderid"
| "step_op F (Convert oper) = convert_evaluator F oper"
| "step_op F (Collateralized_convert oper) = collateralized_convert_evaluator F oper"
| "step_op F (Escrow_transfer oper) = escrow_transfer_evaluator F oper"
| "step_op F (Escrow_approve oper) = escrow_approve_evaluator F oper"
| "step_op F (Escrow_dispute oper) = escrow_dispute_evaluator oper"
| "step_op F (Escrow_release oper) = escrow_release_evaluator F oper"
| "step_op F (Transfer_to_savings oper) = transfer_to_savings_evaluator F oper"
| "step_op F (Transfer_from_savings oper) = transfer_from_savings_evaluator F oper"
| "step_op F (Cancel_transfer_from_savings n r) = cancel_transfer_from_savings_evaluator F n r"
| "step_op F Clear_expired_orders = clear_expired_orders F"
| "step_op F Process_conversions = process_conversions F"
| "step_op F Process_savings_withdraws = process_savings_withdraws F"
| "step_op F Expire_escrow_ratification = expire_escrow_ratification F"
| "step_op F Update_virtual_supply = update_virtual_supply F"
| "step_op F (Remove_pending_conversion_requests i) = remove_pending_conversion_requests F i"
| "step_op F (Remove_pending_limit_orders n) = remove_pending_limit_orders F n"
| "step_op F (Remove_pending_escrows n) = remove_pending_escrows F n"
| "step_op F (Remove_pending_savings_withdraws i n) = remove_pending_savings_withdraws F i n"

text \<open>The amounts of an operation are \<^verbatim>\<open>int64_t\<close>.\<close>

fun amounts_ok :: "ledger_step \<Rightarrow> bool" where
  "amounts_ok (Limit_order_create _ _ oper) = in_i64 (amount (amount_to_sell oper))"
| "amounts_ok (Limit_order_create2 _ oper) = in_i64 (amount (amount_to_sell2 oper))"
| "amounts_ok (Convert oper) = in_i64 (amount (conv_amount oper))"
| "amounts_ok (Collateralized_convert oper) = in_i64 (amount (conv_amount oper))"
| "amounts_ok (Escrow_transfer oper) =
     (in_i64 (amount (et_hive_amount oper)) \<and> in_i64 (amount (et_hbd_amount oper)) \<and> in_i64 (amount (et_fee oper)))"
| "amounts_ok (Escrow_release oper) =
     (in_i64 (amount (er_hive_amount oper)) \<and> in_i64 (amount (er_hbd_amount oper)))"
| "amounts_ok (Transfer_to_savings oper) = in_i64 (amount (tts_amount oper))"
| "amounts_ok (Transfer_from_savings oper) = in_i64 (amount (tfs_amount oper))"
| "amounts_ok _ = True"

text \<open>A step that throws leaves the state unchanged, because the undo session it runs in restores
  it.\<close>

definition apply_step :: "fc_lib \<Rightarrow> ledger_step \<Rightarrow> ledger \<Rightarrow> ledger" where
  "apply_step F st s = (case step_op F st s of Inl _ \<Rightarrow> s | Inr (_, s') \<Rightarrow> s')"

text \<open>Between the steps the rest of the node may change what holds no funds: the global properties
  apart from the supply counters and funds (the time, rates, limits, maintenance times), the price feed,
  the applied hardforks and the liquidity weights.\<close>

definition same_supplies :: "dynamic_global_property_object \<Rightarrow> dynamic_global_property_object \<Rightarrow> bool" where
  "same_supplies d g \<longleftrightarrow>
     virtual_supply d = virtual_supply g \<and> current_supply d = current_supply g \<and>
     current_hbd_supply d = current_hbd_supply g \<and> total_vesting_fund_hive d = total_vesting_fund_hive g \<and>
     total_vesting_shares d = total_vesting_shares g \<and>
     pending_rewarded_vesting_shares d = pending_rewarded_vesting_shares g \<and>
     pending_rewarded_vesting_hive d = pending_rewarded_vesting_hive g"

inductive chain_step :: "fc_lib \<Rightarrow> ledger \<Rightarrow> ledger \<Rightarrow> bool" for F where
  applied: "amounts_ok st \<Longrightarrow> chain_step F s (apply_step F st s)"
| elsewhere: "same_supplies d (dgpo s) \<Longrightarrow> chain_step F s
    (s\<lparr>dgpo := d, feed_history := fh, processed_hardforks := h, liquidity_rewards := l\<rparr>)"

section \<open>An example\<close>

definition example_account :: "string \<Rightarrow> int \<Rightarrow> int \<Rightarrow> account_object" where
  "example_account n hive hbd =
     \<lparr>acc_proxy = None, acc_name = n, hbd_seconds = 0, savings_hbd_seconds = 0,
      voting_manabar = \<lparr>current_mana = 0, last_update_time = 0\<rparr>,
      downvote_manabar = \<lparr>current_mana = 0, last_update_time = 0\<rparr>,
      rc_manabar = \<lparr>current_mana = 0, last_update_time = 0\<rparr>,
      hbd_balance = tiny hbd, savings_hbd_balance = tiny 0, reward_hbd_balance = tiny 0,
      reward_hive_balance = tiny 0, reward_vesting_hive = tiny 0, hive_balance = tiny hive,
      savings_hive_balance = tiny 0, reward_vesting_balance = tiny 0, vesting_shares = tiny 0,
      delegated_vesting_shares = tiny 0, received_vesting_shares = tiny 0, vesting_withdraw_rate = tiny 0,
      withdrawn = tiny 0, to_withdraw = tiny 0, rc_adjustment = 0, delegated_rc = 0, received_rc = 0,
      last_max_rc = 0, sum_delayed_votes = 0, hbd_seconds_last_update = 0, hbd_last_interest_payment = 0,
      savings_hbd_seconds_last_update = 0, savings_hbd_last_interest_payment = 0, next_vesting_withdrawal = 0,
      governance_vote_expiration_ts = 0, pending_escrow_transfers = 0, open_recurrent_transfers = 0,
      witnesses_voted_for = 0, savings_withdraw_requests = 0, can_vote = True,
      proxied_vsf_votes = [0, 0, 0, 0], delayed_votes = []\<rparr>"

definition example_ledger :: ledger where
  "example_ledger =
     \<lparr>accounts = \<lparr>rows = [(0, example_account ''alice'' 1000 0), (1, example_account ''bob'' 0 500),
        (2, example_account ''pixa.omnibus'' 0 0)], next_id = 3\<rparr>,
      convert_requests = empty_table, collateralized_requests = empty_table, escrows = empty_table,
      savings_withdraws = empty_table, limit_orders = empty_table, liquidity_rewards = empty_table,
      reward_funds = empty_table,
      feed_history = \<lparr>current_median_history = \<lparr>tbase = tiny 1, tquote = tiny 2\<rparr>,
        market_median_history = \<lparr>tbase = tiny 1, tquote = tiny 2\<rparr>,
        current_min_history = \<lparr>tbase = tiny 1, tquote = tiny 2\<rparr>,
        current_max_history = \<lparr>tbase = tiny 1, tquote = tiny 2\<rparr>\<rparr>,
      dgpo = \<lparr>head_block_number = 1000, head_time = 3000, num_pow_witnesses = 0, virtual_supply = tiny 2000,
        current_supply = tiny 1000, current_hbd_supply = tiny 500, total_vesting_fund_hive = tiny 0,
        total_vesting_shares = tiny 0, pending_rewarded_vesting_shares = tiny 0,
        pending_rewarded_vesting_hive = tiny 0, hbd_interest_rate = 0, hbd_print_rate = 10000,
        maximum_block_size = 65536, hbd_stop_percent = 1000, hbd_start_percent = 900,
        next_maintenance_time = 0, last_budget_time = 0, next_daily_maintenance_time = 0,
        dhf_interval_ledger = tiny 0, downvote_pool_percent = 0, current_remove_threshold = 200\<rparr>,
      processed_hardforks = 32\<rparr>"

text \<open>Alice offers 200 HIVE for 100 HBD; Bob sells 60 HBD for at least 100 HIVE.\<close>

definition example_steps :: "ledger_step list" where
  "example_steps =
     [Limit_order_create True 0 \<lparr>loc_owner = ''alice'', loc_orderid = 1, amount_to_sell = mk_asset 200 HIVE_SYMBOL,
        min_to_receive = mk_asset 100 HBD_SYMBOL, fill_or_kill = False, loc_expiration = 4000\<rparr>,
      Limit_order_create True 0 \<lparr>loc_owner = ''bob'', loc_orderid = 1, amount_to_sell = mk_asset 60 HBD_SYMBOL,
        min_to_receive = mk_asset 100 HIVE_SYMBOL, fill_or_kill = True, loc_expiration = 4000\<rparr>]"

section \<open>Steps keep the ledger accounted for\<close>

lemma accounted_virtual_supply:
  "accounted g s \<Longrightarrow> in_i64 (tamount v) \<Longrightarrow> accounted g (s\<lparr>dgpo := (dgpo s)\<lparr>virtual_supply := v\<rparr>\<rparr>)"
  "accounted g s \<Longrightarrow> accounted g (s\<lparr>dgpo := (dgpo s)\<lparr>hbd_print_rate := r\<rparr>\<rparr>)"
  by (auto simp: gap_simps dgpo_ok_def fun_eq_iff fund_cases_all)

lemma calculate_HBD_percent_state:
  assumes "calculate_HBD_percent F s = Inr (x, s')"
  shows "s' = s"
proof -
  have "valid (\<lambda>t. t = s) (bind_s (calculate_HBD_percent F) ret_s) (\<lambda>_ t. t = s)"
    by (rule calculate_HBD_percent_triple, rule valid_ret)
  then show ?thesis using assms by (auto simp: valid_def bind_ret_right)
qed

lemma update_virtual_supply_Inr:
  assumes "update_virtual_supply F s = Inr (u, s')"
  obtains v vs where "tiny_price_is_null (get_hbd_price s) \<Longrightarrow> v = tiny 0"
    "\<not> tiny_price_is_null (get_hbd_price s) \<Longrightarrow>
      tiny_base_times_price F (current_hbd_supply (dgpo s)) (get_hbd_price s) = Inr v"
    "tiny_plus F (current_supply (dgpo s)) v = Inr vs"
    "s' = s\<lparr>dgpo := (dgpo s)\<lparr>virtual_supply := vs\<rparr>\<rparr> \<or>
      (\<exists>r. s' = s\<lparr>dgpo := (dgpo s)\<lparr>virtual_supply := vs, hbd_print_rate := r\<rparr>\<rparr>)"
proof -
  let ?p = "get_hbd_price s"
  obtain v vs where v: "(if tiny_price_is_null ?p then ret_s (tiny 0)
      else lift_s (tiny_base_times_price F (current_hbd_supply (dgpo s)) ?p)) s = Inr (v, s)"
    "tiny_plus F (current_supply (dgpo s)) v = Inr vs"
    and r: "(if \<not> tiny_price_is_null ?p \<and> has_hardfork 14 s then
       bind_s (calculate_HBD_percent F) (\<lambda>percent_hbd.
       bind_s (lift_s (print_rate percent_hbd (hbd_stop_percent (dgpo s)) (hbd_start_percent (dgpo s)))) (\<lambda>r.
       update_s (\<lambda>s. s\<lparr>dgpo := (dgpo s)\<lparr>hbd_print_rate := r\<rparr>\<rparr>)))
     else ret_s ()) (s\<lparr>dgpo := (dgpo s)\<lparr>virtual_supply := vs\<rparr>\<rparr>) = Inr (u, s')"
    using assms by (auto simp: update_virtual_supply_def Let_def bind_s_eq_Inr lift_s_eq_Inr split: if_splits)
  show thesis
  proof (rule that)
    show "tiny_price_is_null ?p \<Longrightarrow> v = tiny 0" "\<not> tiny_price_is_null ?p \<Longrightarrow>
      tiny_base_times_price F (current_hbd_supply (dgpo s)) ?p = Inr v"
      using v(1) by (simp_all add: lift_s_eq_Inr)
    show "tiny_plus F (current_supply (dgpo s)) v = Inr vs" by (rule v(2))
    show "s' = s\<lparr>dgpo := (dgpo s)\<lparr>virtual_supply := vs\<rparr>\<rparr> \<or>
      (\<exists>r. s' = s\<lparr>dgpo := (dgpo s)\<lparr>virtual_supply := vs, hbd_print_rate := r\<rparr>\<rparr>)"
      using r by (auto simp: bind_s_eq_Inr lift_s_eq_Inr dest!: calculate_HBD_percent_state split: if_splits)
  qed
qed

lemma update_virtual_supply_triple:
  assumes "fc_ok F"
  shows "valid (accounted g) (update_virtual_supply F) (\<lambda>_. accounted g)"
proof (rule validI)
  fix s u s'
  assume s: "accounted g s" and r: "update_virtual_supply F s = Inr (u, s')"
  obtain v vs where v: "tiny_price_is_null (get_hbd_price s) \<Longrightarrow> v = tiny 0"
    "\<not> tiny_price_is_null (get_hbd_price s) \<Longrightarrow>
      tiny_base_times_price F (current_hbd_supply (dgpo s)) (get_hbd_price s) = Inr v"
    "tiny_plus F (current_supply (dgpo s)) v = Inr vs"
    and s': "s' = s\<lparr>dgpo := (dgpo s)\<lparr>virtual_supply := vs\<rparr>\<rparr> \<or>
      (\<exists>r. s' = s\<lparr>dgpo := (dgpo s)\<lparr>virtual_supply := vs, hbd_print_rate := r\<rparr>\<rparr>)"
    using update_virtual_supply_Inr [OF r] by blast
  have "in_i64 (tamount v)"
    using v(1,2) times_price_range(1) [OF assms] by (cases "tiny_price_is_null (get_hbd_price s)") auto
  moreover have "in_i64 (tamount (current_supply (dgpo s)))"
    using s by (simp add: accounted_def ledger_ok_def dgpo_ok_def)
  ultimately have "in_i64 (tamount vs)" using v(3) tiny_plus_Inr [OF assms] by blast
  then have "accounted g (s\<lparr>dgpo := (dgpo s)\<lparr>virtual_supply := vs\<rparr>\<rparr>)"
    by (rule accounted_virtual_supply(1) [OF s])
  then show "accounted g s'"
    using s' accounted_virtual_supply(2) by fastforce
qed

lemma step_op_triple:
  assumes "fc_ok F" "amounts_ok st"
  shows "valid (accounted g) (step_op F st) (\<lambda>_. accounted g)"
  using assms(2)
  by (cases st) (simp_all add: assms(1)
      limit_order_create_triple limit_order_create2_triple limit_order_cancel_triple
      convert_evaluator_triple collateralized_convert_evaluator_triple escrow_transfer_evaluator_triple
      escrow_approve_evaluator_triple escrow_dispute_evaluator_triple escrow_release_evaluator_triple
      transfer_to_savings_evaluator_triple transfer_from_savings_evaluator_triple
      cancel_transfer_from_savings_evaluator_triple clear_expired_orders_triple process_conversions_triple
      process_savings_withdraws_triple expire_escrow_ratification_triple update_virtual_supply_triple
      remove_pending_conversion_requests_triple remove_pending_limit_orders_triple
      remove_pending_escrows_triple remove_pending_savings_withdraws_triple)

lemma chain_step_accounted:
  assumes "fc_ok F" "chain_step F s s'" "accounted g s"
  shows "accounted g s'"
  using assms(2,3)
proof cases
  case (applied st)
  then show ?thesis
    using step_op_triple [OF assms(1), of st g] assms(3)
    by (auto simp: apply_step_def valid_def split: sum.splits)
next
  case elsewhere
  then show ?thesis
    using assms(3) by (simp add: gap_simps dgpo_ok_def fun_eq_iff fund_cases_all same_supplies_def)
qed

lemma chain_steps_accounted:
  assumes "fc_ok F" "(chain_step F)\<^sup>*\<^sup>* s s'" "accounted g s"
  shows "accounted g s'"
  using assms(2,3) by (induction rule: rtranclp_induct) (auto intro: chain_step_accounted [OF assms(1)])

section \<open>Conservation of funds\<close>

lemma balanced_iff:
  assumes "fc_ok F"
  shows "ledger_ok s \<and> validate_supplies F s = Inr () \<longleftrightarrow> accounted (\<lambda>_. 0) s"
  using validate_supplies_iff [OF assms, of s] by (auto simp: accounted_def fun_eq_iff)

text \<open>
  C1: Funds are neither created nor destroyed except through the supply counters. In a ledger whose
  balances are well-formed (non-negative \<^verbatim>\<open>int64_t\<close> amounts of the right symbol, unique ids) and whose
  totals pass the comparison of \<^verbatim>\<open>validate_invariants\<close>, this stays so after any sequence of
  operations on the market, the conversions, the escrows and the savings, of maintenance steps and
  of changes elsewhere in the node, whether an operation succeeds or throws.
\<close>

theorem funds_conserved:
  assumes "fc_ok F" "ledger_ok s" "validate_supplies F s = Inr ()" "(chain_step F)\<^sup>*\<^sup>* s s'"
  shows "ledger_ok s' \<and> validate_supplies F s' = Inr ()"
  using assms balanced_iff [OF assms(1)] chain_steps_accounted [OF assms(1,4)] by blast

lemma apply_steps_reach:
  "list_all amounts_ok sts \<Longrightarrow> (chain_step F)\<^sup>*\<^sup>* s (fold (apply_step F) sts s)"
  by (induction sts arbitrary: s) (auto intro: converse_rtranclp_into_rtranclp applied)

lemma example_traded:
  "map (\<lambda>(i, l). (i, for_sale l)) (rows (limit_orders (fold (apply_step exact_fc) example_steps example_ledger))) =
    [(0, mk_asset 80 HIVE_SYMBOL)]"
  by code_simp

theorem funds_conserved_witness:
  "validate_supplies exact_fc (fold (apply_step exact_fc) example_steps example_ledger) = Inr ()"
proof -
  have "list_all amounts_ok example_steps" by code_simp
  moreover have "ledger_ok example_ledger" by code_simp
  moreover have "validate_supplies exact_fc example_ledger = Inr ()" by code_simp
  ultimately show ?thesis using funds_conserved [OF exact_fc_ok _ _ apply_steps_reach] by blast
qed

end
