(* ===== verification/Virtual_Supply.thy ===== *)
theory Virtual_Supply
  imports Ledger_Steps
begin

text \<open>
  What \<^verbatim>\<open>update_virtual_supply\<close> establishes: the virtual supply that \<^verbatim>\<open>validate_invariants\<close> expects and
  a print rate between zero and one hundred percent.
\<close>

section \<open>Conversion at the median price\<close>

definition price_ok :: "tiny_price \<Rightarrow> bool" where
  "price_ok p \<longleftrightarrow> 0 < tamount (tbase p) \<and> tamount (tbase p) \<le> max_i64 \<and>
     0 < tamount (tquote p) \<and> tamount (tquote p) \<le> max_i64"

definition hive_value :: "int \<Rightarrow> tiny_price \<Rightarrow> int" where
  "hive_value a p = a * tamount (tquote p) div tamount (tbase p)"

lemma price_ok_not_null: "price_ok p \<Longrightarrow> \<not> tiny_price_is_null p"
  by (auto simp: price_ok_def tiny_price_is_null_def)

lemma hive_value_mono:
  assumes "price_ok p" "0 \<le> a" "a \<le> b"
  shows "0 \<le> hive_value a p" "hive_value a p \<le> hive_value b p"
  using assms by (auto simp: price_ok_def hive_value_def pos_imp_zdiv_nonneg_iff intro!: zdiv_mono1 mult_right_mono)

lemma tiny_base_times_price_exact:
  assumes "fc_ok F" "price_ok p" "0 \<le> tamount a" "in_i64 (tamount a)" "hive_value (tamount a) p \<le> max_i64"
  shows "tiny_base_times_price F a p = Inr (tiny (hive_value (tamount a) p))"
proof -
  have "magnitude (tamount a) = Inr (of_int \<bar>tamount a\<bar>)"
    using assms(3,4) by (intro magnitude_abs) simp_all
  then show ?thesis
    using convert_exact [OF assms(1,4), of "tamount (tquote p)" "tamount (tbase p)"] assms(2,3,5)
    by (simp add: tiny_base_times_price_def price_ok_def hive_value_def sdiv_pos flip: bind_r_assoc)
qed

section \<open>Debt ratio\<close>

lemma ratio_exact:
  assumes "0 \<le> v" "v \<le> vs" "0 < vs" "vs \<le> max_i64" "0 \<le> r" "r \<le> vs div 2"
  shows "div_128 ((of_int v :: 128 word) * of_int HIVE_100_PERCENT + of_int r) (of_int vs) =
      Inr (of_int ((v * 10000 + r) div vs))"
    and "0 \<le> (v * 10000 + r) div vs" "(v * 10000 + r) div vs \<le> 10000"
proof -
  have b: "v * 10000 + r < 10001 * vs" using assms by simp
  have q: "(v * 10000 + r) div vs < 10001"
  proof (rule ccontr)
    assume "\<not> (v * 10000 + r) div vs < 10001"
    then have "10001 * vs \<le> (v * 10000 + r) div vs * vs" using assms(3) by simp
    also have "\<dots> \<le> v * 10000 + r"
      using pos_mod_sign [OF assms(3), of "v * 10000 + r"] div_mult_mod_eq [of "v * 10000 + r" vs] by linarith
    finally show False using b by simp
  qed
  show "0 \<le> (v * 10000 + r) div vs" "(v * 10000 + r) div vs \<le> 10000"
    using q assms by (simp_all add: pos_imp_zdiv_nonneg_iff)
  have n: "(of_int v :: 128 word) * of_int HIVE_100_PERCENT + of_int r = of_int (v * 10000 + r)"
    by (simp add: HIVE_100_PERCENT_def)
  have u: "uint (of_int (v * 10000 + r) :: 128 word) = v * 10000 + r" "uint (of_int vs :: 128 word) = vs"
    by (rule uint_of_int_128; use assms in linarith)+
  have "of_int vs \<noteq> (0 :: 128 word)" using u(2) assms(3) by auto
  moreover have "(of_int (v * 10000 + r) :: 128 word) div of_int vs = of_int ((v * 10000 + r) div vs)"
    by (metis u word_div_def)
  ultimately show "div_128 ((of_int v :: 128 word) * of_int HIVE_100_PERCENT + of_int r) (of_int vs) =
      Inr (of_int ((v * 10000 + r) div vs))"
    unfolding n by (simp add: div_128_def)
qed

text \<open>The treasury of the current hardfork, whose HBD do not count as debt.\<close>

definition has_treasury :: "ledger \<Rightarrow> bool" where
  "has_treasury s \<longleftrightarrow> (has_hardfork 24 s \<longrightarrow>
     find_by (\<lambda>a. acc_name a = get_treasury_name (get_hardfork s)) (accounts s) \<noteq> None)"

lemma debt_supplies_exact:
  assumes F: "fc_ok F" and s: "ledger_ok s" and p: "price_ok p"
    and h: "0 \<le> tamount (current_hbd_supply (dgpo s))" and c: "0 < tamount (current_supply (dgpo s))"
    and vs: "virtual_supply (dgpo s) =
      tiny (hive_value (tamount (current_hbd_supply (dgpo s))) p + tamount (current_supply (dgpo s)))"
    and b: "tamount (virtual_supply (dgpo s)) \<le> max_i64" and t: "has_treasury s"
  obtains d where "debt_supplies F p s = Inr ((tiny d, tiny (hive_value d p + tamount (current_supply (dgpo s)))), s)"
    "0 \<le> d" "d \<le> tamount (current_hbd_supply (dgpo s))"
proof (cases "has_hardfork 24 s")
  case False
  then show thesis
    using that [of "tamount (current_hbd_supply (dgpo s))"] h by (simp add: debt_supplies_def vs)
next
  case True
  then obtain i where "find_by (\<lambda>a. acc_name a = get_treasury_name (get_hardfork s)) (accounts s) = Some i"
    using t by (auto simp: has_treasury_def)
  moreover obtain a where a: "find_row (accounts s) i = Some a"
    using find_by_SomeD [OF _ calculation] s by (auto simp: ledger_ok_def)
  have ok: "tiny_ok (hbd_balance a)" and i: "in_i64 (tamount (current_hbd_supply (dgpo s)))"
    "in_i64 (tamount (current_supply (dgpo s)))"
    using all_rows_find [OF _ a, of account_ok] s by (auto simp: ledger_ok_def account_ok_def dgpo_ok_def)
  define d where "d = max 0 (tamount (current_hbd_supply (dgpo s)) - tamount (hbd_balance a))"
  have d: "0 \<le> d" "d \<le> tamount (current_hbd_supply (dgpo s))"
    using ok h by (auto simp: d_def tiny_ok_def)
  have "tiny_minus F (current_hbd_supply (dgpo s)) (hbd_balance a) =
      Inr (tiny (tamount (current_hbd_supply (dgpo s)) - tamount (hbd_balance a)))"
    using ok h i F by (auto simp: tiny_minus_Inr tiny_ok_def in_i64_def)
  moreover note v = hive_value_mono [OF p d]
  have "full_virtual_supply F (tiny d) p (current_supply (dgpo s)) =
      Inr (tiny (hive_value d p + tamount (current_supply (dgpo s))))"
    using F p d v i b vs c
    by (auto simp: full_virtual_supply_def tiny_base_times_price_exact tiny_plus_Inr in_i64_def)
  ultimately show thesis
    using that [OF _ d] a True
    by (simp add: debt_supplies_def get_account_def account_def bind_s_def read_s_def lift_s_def d_def Let_def
        max_def split: if_splits)
qed

lemma ucast_of_int_chain: "(ucast (ucast (of_int q :: 128 word) :: 64 word) :: 16 word) = of_int q"
  by transfer simp

lemma calculate_HBD_percent_exact:
  assumes F: "fc_ok F" and s: "ledger_ok s" and p: "price_ok (get_hbd_price s)"
    and h: "0 \<le> tamount (current_hbd_supply (dgpo s))" and c: "0 < tamount (current_supply (dgpo s))"
    and vs: "virtual_supply (dgpo s) =
      tiny (hive_value (tamount (current_hbd_supply (dgpo s))) (get_hbd_price s) + tamount (current_supply (dgpo s)))"
    and b: "tamount (virtual_supply (dgpo s)) \<le> max_i64" and t: "has_treasury s"
  obtains q where "calculate_HBD_percent F s = Inr (of_int q, s)" "0 \<le> q" "q \<le> 10000"
proof -
  let ?p = "get_hbd_price s"
  obtain d where d: "debt_supplies F ?p s = Inr ((tiny d, tiny (hive_value d ?p + tamount (current_supply (dgpo s)))), s)"
    "0 \<le> d" "d \<le> tamount (current_hbd_supply (dgpo s))"
    by (rule debt_supplies_exact [OF F s p h c vs b t])
  let ?v = "hive_value d ?p" and ?w = "hive_value d ?p + tamount (current_supply (dgpo s))"
  note v = hive_value_mono [OF p d(2,3)]
  have i: "in_i64 d" using d s by (auto simp: ledger_ok_def dgpo_ok_def intro: in_i64_leI)
  have w: "?v \<le> ?w" "0 < ?w" "?w \<le> max_i64" using v c b vs by simp_all
  define r where "r = (if has_hardfork 21 s then ?w div 2 else 0)"
  have r: "0 \<le> r" "r \<le> ?w div 2" using w by (simp_all add: r_def)
  note q = ratio_exact [OF v(1) w r]
  let ?q = "(?v * 10000 + r) div ?w"
  have u: "uint (of_int ?q :: 128 word) = ?q" using q by (intro uint_of_int_128) simp_all
  have e: "tiny_base_times_price F (tiny d) ?p = Inr (tiny ?v)"
    using tiny_base_times_price_exact [OF F p, of "tiny d"] d i w c by simp
  have "(if has_hardfork 21 s then (of_int ?v :: 128 word) * of_int HIVE_100_PERCENT + of_int (?w sdiv 2)
      else of_int ?v * of_int HIVE_100_PERCENT) = of_int ?v * of_int HIVE_100_PERCENT + of_int r"
    using w by (simp add: r_def signed_divide_int_def)
  moreover have "(ucast (ucast (of_int ?q :: 128 word) :: 64 word) :: 16 word) = of_int ?q"
    by (rule ucast_of_int_chain)
  ultimately have "calculate_HBD_percent F s = Inr (of_int ?q, s)"
    using F q u d(1) e price_ok_not_null [OF p]
    by (cases "has_hardfork 21 s")
      (simp_all add: calculate_HBD_percent_def Let_def uint128_to_uint64_exact bind_s_def lift_s_def)
  then show thesis using that q(2,3) by blast
qed

section \<open>Print rate\<close>

lemma print_rate_exact:
  obtains r where "print_rate percent stop start = Inr r" "uint r \<le> 10000" "stop \<le> percent \<Longrightarrow> r = 0"
    "percent < stop \<Longrightarrow> percent \<le> start \<Longrightarrow> uint r = 10000"
    "start < percent \<Longrightarrow> percent < stop \<Longrightarrow>
      uint r = (uint stop - uint percent) * 10000 div (uint stop - uint start)"
proof -
  consider "stop \<le> percent" | "percent < stop" "percent \<le> start" | "percent < stop" "start < percent"
    by fastforce
  then show thesis
  proof cases
    case 1
    then show thesis using that [of 0] by (simp add: print_rate_def)
  next
    case 2
    then show thesis using that [of "of_int HIVE_100_PERCENT"] by (simp add: print_rate_def HIVE_100_PERCENT_def)
  next
    case 3
    then have u: "uint start < uint percent" "uint percent < uint stop" by (simp_all add: word_less_def)
    let ?q = "(uint stop - uint percent) * 10000 div (uint stop - uint start)"
    have "?q \<le> (uint stop - uint start) * 10000 div (uint stop - uint start)"
      using u by (intro zdiv_mono1) simp_all
    moreover have "(uint stop - uint start) * 10000 div (uint stop - uint start) = 10000"
      using u by (intro nonzero_mult_div_cancel_left) simp
    ultimately have q: "?q \<le> 10000" "0 \<le> ?q" using u by (simp_all add: pos_imp_zdiv_nonneg_iff)
    then have "uint (of_int ?q :: 16 word) = ?q" by (simp add: uint_word_of_int)
    moreover have "print_rate percent stop start = Inr (of_int ?q)"
      using u q by (simp add: print_rate_def word_le_def HIVE_100_PERCENT_def signed_divide_int_def)
    ultimately show thesis
      using that [of "of_int ?q"] q u by (simp add: word_le_def)
  qed
qed

section \<open>Virtual supply\<close>

lemma debt_supplies_print_rate:
  assumes "debt_supplies F p s = Inr (x, t)"
  shows "debt_supplies F p (s\<lparr>dgpo := (dgpo s)\<lparr>hbd_print_rate := r\<rparr>\<rparr>) =
    Inr (x, s\<lparr>dgpo := (dgpo s)\<lparr>hbd_print_rate := r\<rparr>\<rparr>)"
  using assms
  by (auto simp: debt_supplies_def get_account_def account_def has_hardfork_def get_hardfork_def Let_def
      bind_s_def lift_s_def read_s_def bind_r_eq_Inr split: if_splits option.splits sum.splits)

lemma calculate_HBD_percent_print_rate:
  assumes "calculate_HBD_percent F s = Inr (x, s)"
  shows "calculate_HBD_percent F (s\<lparr>dgpo := (dgpo s)\<lparr>hbd_print_rate := r\<rparr>\<rparr>) =
    Inr (x, s\<lparr>dgpo := (dgpo s)\<lparr>hbd_print_rate := r\<rparr>\<rparr>)"
proof (cases "tiny_price_is_null (get_hbd_price s)")
  case True
  then show ?thesis using assms by (simp add: calculate_HBD_percent_def Let_def get_hbd_price_def)
next
  case False
  let ?s = "s\<lparr>dgpo := (dgpo s)\<lparr>hbd_print_rate := r\<rparr>\<rparr>"
  obtain d v t where d: "debt_supplies F (get_hbd_price s) s = Inr ((d, v), t)"
    using assms False by (auto simp: calculate_HBD_percent_def Let_def bind_s_eq_Inr)
  have "get_hbd_price ?s = get_hbd_price s" "has_hardfork n ?s = has_hardfork n s" for n
    by (simp_all add: get_hbd_price_def has_hardfork_def)
  then show ?thesis
    using assms False d debt_supplies_print_rate [OF d, of r]
    by (cases "has_hardfork 21 s")
      (auto simp: calculate_HBD_percent_def Let_def bind_s_eq_Inr lift_s_eq_Inr)
qed

text \<open>
  C17: With a valid median price, a positive supply and a treasury account, and as long as the value
  of all HBD fits into \<^verbatim>\<open>int64_t\<close>, \<^verbatim>\<open>update_virtual_supply\<close> does not fail. It sets the virtual supply to
  the HIVE supply plus the value of the HBD supply, which is what \<^verbatim>\<open>validate_invariants\<close> requires, keeps
  the other supplies valid, and leaves a print rate of at most one hundred percent, which is zero
  once the debt ratio reaches the stop limit.
\<close>

theorem virtual_supply_updated:
  assumes F: "fc_ok F" and s: "ledger_ok s" "validate_supplies F s = Inr ()"
    and p: "price_ok (get_hbd_price s)" and c: "0 < tamount (current_supply (dgpo s))"
    and t: "has_treasury s" and hf: "has_hardfork 14 s"
    and b: "hive_value (tamount (current_hbd_supply (dgpo s))) (get_hbd_price s) +
      tamount (current_supply (dgpo s)) \<le> max_i64"
  shows "\<exists>s' percent. update_virtual_supply F s = Inr ((), s') \<and>
    tamount (virtual_supply (dgpo s')) =
      hive_value (tamount (current_hbd_supply (dgpo s))) (get_hbd_price s) + tamount (current_supply (dgpo s)) \<and>
    validate_virtual_supply F s' = Inr () \<and> validate_supplies F s' = Inr () \<and>
    calculate_HBD_percent F s' = Inr (percent, s') \<and> uint percent \<le> 10000 \<and>
    uint (hbd_print_rate (dgpo s')) \<le> 10000 \<and>
    (hbd_stop_percent (dgpo s) \<le> percent \<longrightarrow> hbd_print_rate (dgpo s') = 0)"
proof -
  let ?h = "tamount (current_hbd_supply (dgpo s))" and ?c = "tamount (current_supply (dgpo s))"
  let ?p = "get_hbd_price s"
  have acc: "accounted (\<lambda>_. 0) s" using balanced_iff [OF F] s by blast
  have n: "0 \<le> other_funds k s" "0 \<le> total (account_funds k) (accounts s)" for k
    by (rule object_funds_nonneg [OF F s(1)])+
  have h: "0 \<le> ?h" "in_i64 ?h" "in_i64 ?c"
    using acc n [of Hbd] by (auto simp: accounted_def fun_eq_iff fund_cases_all ledger_gap_def other_funds_def
        ledger_ok_def dgpo_ok_def)
  define vs where "vs = hive_value ?h ?p + ?c"
  have v: "tiny_base_times_price F (current_hbd_supply (dgpo s)) ?p = Inr (tiny (hive_value ?h ?p))"
    "tiny_plus F (current_supply (dgpo s)) (tiny (hive_value ?h ?p)) = Inr (tiny vs)"
    "tiny_plus F (tiny (hive_value ?h ?p)) (current_supply (dgpo s)) = Inr (tiny vs)"
    using F p h b c hive_value_mono(1) [OF p h(1) order_refl]
    by (auto simp: tiny_base_times_price_exact tiny_plus_Inr vs_def in_i64_def)
  define s1 where "s1 = s\<lparr>dgpo := (dgpo s)\<lparr>virtual_supply := tiny vs\<rparr>\<rparr>"
  have "accounted (\<lambda>_. 0) s1"
    unfolding s1_def by (rule accounted_virtual_supply(1) [OF acc])
      (use b c hive_value_mono(1) [OF p h(1) order_refl] in \<open>auto simp: vs_def in_i64_def\<close>)
  note acc1 = this
  obtain q where q: "calculate_HBD_percent F s1 = Inr (of_int q, s1)" "0 \<le> q" "q \<le> 10000"
    by (rule calculate_HBD_percent_exact [OF F, of s1])
      (use acc1 p h c b t in \<open>auto simp: accounted_def s1_def vs_def get_hbd_price_def has_treasury_def
        has_hardfork_def get_hardfork_def\<close>)
  obtain r where r: "print_rate (of_int q) (hbd_stop_percent (dgpo s)) (hbd_start_percent (dgpo s)) = Inr r"
    "uint r \<le> 10000" "hbd_stop_percent (dgpo s) \<le> of_int q \<Longrightarrow> r = 0"
    by (rule print_rate_exact) blast
  define s' where "s' = s1\<lparr>dgpo := (dgpo s1)\<lparr>hbd_print_rate := r\<rparr>\<rparr>"
  have "update_virtual_supply F s = Inr ((), s')"
    using v q(1) r(1) hf price_ok_not_null [OF p]
    by (simp add: update_virtual_supply_def Let_def bind_s_def lift_s_def flip: s1_def) (simp add: s'_def)
  moreover have "calculate_HBD_percent F s' = Inr (of_int q, s')"
    unfolding s'_def by (rule calculate_HBD_percent_print_rate [OF q(1)])
  moreover have "validate_supplies F s' = Inr ()"
    using balanced_iff [OF F, of s'] accounted_virtual_supply(2) [OF acc1, of r] by (simp add: s'_def)
  moreover have "validate_virtual_supply F s' = Inr ()"
    using v hive_value_mono(1) [OF p h(1) order_refl]
    by (simp add: validate_virtual_supply_def s'_def s1_def full_virtual_supply_def get_hbd_price_def Let_def vs_def)
  moreover have "uint (of_int q :: 16 word) \<le> 10000"
    using q by (simp add: uint_word_of_int)
  ultimately show ?thesis
    using r by (intro exI [of _ s'] exI [of _ "of_int q"]) (simp add: s'_def s1_def vs_def)
qed

theorem virtual_supply_updated_witness:
  "\<exists>s'. update_virtual_supply exact_fc example_ledger = Inr ((), s') \<and>
    tamount (virtual_supply (dgpo s')) = 2000 \<and> validate_virtual_supply exact_fc s' = Inr () \<and>
    uint (hbd_print_rate (dgpo s')) \<le> 10000"
proof -
  have "ledger_ok example_ledger" "validate_supplies exact_fc example_ledger = Inr ()"
    "price_ok (get_hbd_price example_ledger)" "0 < tamount (current_supply (dgpo example_ledger))"
    "has_treasury example_ledger" "has_hardfork 14 example_ledger"
    by code_simp+
  moreover have "hive_value (tamount (current_hbd_supply (dgpo example_ledger))) (get_hbd_price example_ledger) +
      tamount (current_supply (dgpo example_ledger)) = 2000" by code_simp
  ultimately show ?thesis
    using virtual_supply_updated [OF exact_fc_ok, of example_ledger] by auto
qed

end
