(* ===== verification/Account_Names.thy ===== *)
theory Account_Names
  imports Prelude
begin

text \<open>
  Account names (\<^verbatim>\<open>detail::check_account_name\<close> in \<^verbatim>\<open>authority.cpp\<close>): the scan of a name label by label,
  and the grammar it accepts.
\<close>

section \<open>The scan\<close>

definition HIVE_MIN_ACCOUNT_NAME_LENGTH :: nat where "HIVE_MIN_ACCOUNT_NAME_LENGTH = 3"
definition HIVE_MAX_ACCOUNT_NAME_LENGTH :: nat where "HIVE_MAX_ACCOUNT_NAME_LENGTH = 16"

datatype account_name_validity = Valid_name | Too_short | Too_long | Invalid_sequence

definition is_lower :: "char \<Rightarrow> bool" where
  "is_lower c \<longleftrightarrow> c \<in> set ''abcdefghijklmnopqrstuvwxyz''"

definition is_digit :: "char \<Rightarrow> bool" where
  "is_digit c \<longleftrightarrow> c \<in> set ''0123456789''"

text \<open>\<open>find_first_of c name b\<close> is the position of the first \<open>c\<close> in \<open>name\<close> from position \<open>b\<close> on;
  \<open>None\<close> stands for \<^verbatim>\<open>npos\<close>.\<close>

definition find_first_of :: "char \<Rightarrow> string \<Rightarrow> nat \<Rightarrow> nat option" where
  "find_first_of c name b =
     (let e = b + length (takeWhile (\<lambda>x. x \<noteq> c) (drop b name))
      in if e < length name then Some e else None)"

definition label_end :: "string \<Rightarrow> nat \<Rightarrow> nat" where
  "label_end name b = (case find_first_of CHR ''.'' name b of None \<Rightarrow> length name | Some e \<Rightarrow> e)"

text \<open>The loop over the labels; \<open>b\<close> and \<open>e\<close> are the bounds of the current label.\<close>

function check_labels :: "string \<Rightarrow> nat \<Rightarrow> account_name_validity" where
  "check_labels name b =
     (let e = label_end name b in
      if e - b < 3 then Invalid_sequence
      else if \<not> is_lower (name ! b) then Invalid_sequence
      else if \<not> (is_lower (name ! (e - 1)) \<or> is_digit (name ! (e - 1))) then Invalid_sequence
      else if \<not> list_all (\<lambda>i. is_lower (name ! i) \<or> is_digit (name ! i) \<or> name ! i = CHR ''-'')
                 [b + 1 ..< e - 1] then Invalid_sequence
      else if e = length name then Valid_name
      else check_labels name (e + 1))"
  by pat_completeness auto
termination
proof (relation "measure (\<lambda>(name, b). Suc (length name) - b)")
  fix name b e
  assume "e = label_end name b" "\<not> e - b < 3" "e \<noteq> length name"
  then have "b \<le> e" "e < length name"
    by (auto simp: label_end_def find_first_of_def Let_def split: option.splits if_splits)
  then show "((name, e + 1), name, b) \<in> measure (\<lambda>(name, b). Suc (length name) - b)" by simp
qed simp

definition check_account_name :: "string \<Rightarrow> account_name_validity" where
  "check_account_name name =
     (if length name < HIVE_MIN_ACCOUNT_NAME_LENGTH then Too_short
      else if length name > HIVE_MAX_ACCOUNT_NAME_LENGTH then Too_long
      else check_labels name 0)"

definition is_valid_account_name :: "string \<Rightarrow> bool" where
  "is_valid_account_name name \<longleftrightarrow> check_account_name name = Valid_name"

definition validate_account_name :: "string \<Rightarrow> unit res" where
  "validate_account_name name =
     (let validity_check_result = check_account_name name in
      bind_r (check_r (validity_check_result \<noteq> Too_short) ''Account name is too short'') (\<lambda>_.
      bind_r (check_r (validity_check_result \<noteq> Too_long) ''Account name is too long'') (\<lambda>_.
      check_r (validity_check_result \<noteq> Invalid_sequence) ''Account name is not valid'')))"

section \<open>The grammar\<close>

text \<open>A label starts with a letter, ends with a letter or a digit, has hyphens only inside, and has at
  least three characters. A name is a sequence of labels separated by dots.\<close>

definition label_ok :: "string \<Rightarrow> bool" where
  "label_ok l \<longleftrightarrow> 3 \<le> length l \<and> is_lower (hd l) \<and> (is_lower (last l) \<or> is_digit (last l)) \<and>
     list_all (\<lambda>c. is_lower c \<or> is_digit c \<or> c = CHR ''-'') l"

inductive dotted :: "string \<Rightarrow> bool" where
  single: "label_ok l \<Longrightarrow> dotted l"
| more: "label_ok l \<Longrightarrow> dotted n \<Longrightarrow> dotted (l @ CHR ''.'' # n)"

lemma label_no_dot: "label_ok l \<Longrightarrow> CHR ''.'' \<notin> set l"
proof
  assume "label_ok l" "CHR ''.'' \<in> set l"
  then have "is_lower CHR ''.'' \<or> is_digit CHR ''.'' \<or> CHR ''.'' = CHR ''-''"
    unfolding label_ok_def list_all_iff by blast
  then show False by (simp add: is_lower_def is_digit_def)
qed

text \<open>The checks on one label of the scan are the label predicate.\<close>

lemma label_checks:
  assumes "l = take n xs" "n \<le> length xs" "3 \<le> n"
  shows "label_ok l \<longleftrightarrow> is_lower (xs ! 0) \<and> (is_lower (xs ! (n - 1)) \<or> is_digit (xs ! (n - 1))) \<and>
    (\<forall>i. 1 \<le> i \<and> i < n - 1 \<longrightarrow> is_lower (xs ! i) \<or> is_digit (xs ! i) \<or> xs ! i = CHR ''-'')"
proof -
  have l: "length l = n" "hd l = xs ! 0" "last l = xs ! (n - 1)" "\<And>i. i < n \<Longrightarrow> l ! i = xs ! i"
    using assms by (simp, cases xs, simp, simp, cases "take n xs = []", simp, simp add: last_conv_nth, simp)
  have "(\<forall>i<n. P (l ! i)) \<longleftrightarrow> P (xs ! 0) \<and> P (xs ! (n - 1)) \<and> (\<forall>i. 1 \<le> i \<and> i < n - 1 \<longrightarrow> P (xs ! i))" for P
  proof
    assume r: "P (xs ! 0) \<and> P (xs ! (n - 1)) \<and> (\<forall>i. 1 \<le> i \<and> i < n - 1 \<longrightarrow> P (xs ! i))"
    have "P (l ! i)" if "i < n" for i
      using r that l(4) [OF that] by (cases "i = 0 \<or> i = n - 1") auto
    then show "\<forall>i<n. P (l ! i)" by blast
  qed (use l(4) assms(3) in auto)
  from this [of "\<lambda>c. is_lower c \<or> is_digit c \<or> c = CHR ''-''"] show ?thesis
    using l(1-3) assms(3) unfolding label_ok_def list_all_length by auto
qed

definition first_label :: "string \<Rightarrow> string" where
  "first_label xs = takeWhile (\<lambda>x. x \<noteq> CHR ''.'') xs"

lemma first_label_length: "length (first_label xs) \<le> length xs"
  unfolding first_label_def by (rule length_takeWhile_le)

lemma first_label_take: "first_label xs = take (length (first_label xs)) xs"
  unfolding first_label_def by (rule takeWhile_eq_take)

lemma label_end_spec:
  assumes "b \<le> length name"
  shows "label_end name b = b + length (first_label (drop b name))"
  unfolding label_end_def find_first_of_def Let_def first_label_def [symmetric]
  using assms first_label_length [of "drop b name"] by (simp split: option.split) linarith

declare check_labels.simps [simp del]

lemma check_labels_short:
  "label_end name b - b < 3 \<Longrightarrow> check_labels name b = Invalid_sequence"
  by (simp add: check_labels.simps [of name b])

lemma check_labels_long:
  assumes "label_end name b = b + n" "\<not> n < 3"
  shows "check_labels name b = Valid_name \<longleftrightarrow>
    (is_lower (name ! b) \<and> (is_lower (name ! (b + n - 1)) \<or> is_digit (name ! (b + n - 1))) \<and>
     list_all (\<lambda>i. is_lower (name ! i) \<or> is_digit (name ! i) \<or> name ! i = CHR ''-'') [b + 1 ..< b + n - 1]) \<and>
    (b + n = length name \<or> check_labels name (b + n + 1) = Valid_name)"
  using assms(2) by (simp add: check_labels.simps [of name b] Let_def assms(1))

lemma list_all_upt:
  assumes "3 \<le> (n :: nat)"
  shows "list_all P [b + 1 ..< b + n - 1] \<longleftrightarrow> (\<forall>i. 1 \<le> i \<and> i < n - 1 \<longrightarrow> P (b + i))"
proof
  assume "list_all P [b + 1 ..< b + n - 1]"
  then show "\<forall>i. 1 \<le> i \<and> i < n - 1 \<longrightarrow> P (b + i)" by (auto simp: list_all_iff)
next
  assume a: "\<forall>i. 1 \<le> i \<and> i < n - 1 \<longrightarrow> P (b + i)"
  have "P i" if "b + 1 \<le> i" "i < b + n - 1" for i using spec [OF a, of "i - b"] that by fastforce
  then show "list_all P [b + 1 ..< b + n - 1]" by (simp add: list_all_iff)
qed

lemma check_labels_unfold:
  assumes "b \<le> length name" "l = first_label (drop b name)"
  shows "check_labels name b = Valid_name \<longleftrightarrow>
    label_ok l \<and> (b + length l = length name \<or> check_labels name (b + length l + 1) = Valid_name)"
proof (cases "length l < 3")
  case True
  then show ?thesis using label_end_spec [OF assms(1)] assms(2) by (simp add: check_labels_short label_ok_def)
next
  case False
  have at: "drop b name ! i = name ! (b + i)" for i using assms(1) by simp
  have ix: "b + (length l - 1) = b + length l - 1" using False by simp
  have n: "3 \<le> length l" using False by simp
  have t: "l = take (length l) (drop b name)" "length l \<le> length (drop b name)"
    using first_label_take [of "drop b name"] first_label_length [of "drop b name"] assms(2) by simp_all
  have e: "label_end name b = b + length l" using label_end_spec [OF assms(1)] assms(2) by simp
  show ?thesis
    unfolding check_labels_long [OF e False] list_all_upt [OF n] label_checks [OF t n] at ix add_0_right
    by (rule refl)
qed

lemma dotted_unfold:
  assumes "l = first_label xs"
  shows "dotted xs \<longleftrightarrow> label_ok l \<and> (length l = length xs \<or> dotted (drop (length l + 1) xs))"
proof
  assume "dotted xs"
  then show "label_ok l \<and> (length l = length xs \<or> dotted (drop (length l + 1) xs))"
  proof cases
    case single
    then have "l = xs" using label_no_dot assms by (auto simp: first_label_def takeWhile_eq_all_conv)
    then show ?thesis using single by simp
  next
    case (more k n)
    then have "l = k" using label_no_dot [OF more(2)] assms by (auto simp: first_label_def takeWhile_tail takeWhile_append)
    then show ?thesis using more by simp
  qed
next
  assume r: "label_ok l \<and> (length l = length xs \<or> dotted (drop (length l + 1) xs))"
  have t: "l = take (length l) xs" using first_label_take [of xs] assms by simp
  show "dotted xs"
  proof (cases "length l = length xs")
    case True
    then have "l = xs" using t by simp
    then show ?thesis using r single [of xs] by simp
  next
    case False
    then have less: "length l < length xs" using first_label_length [of xs] assms by simp
    then have "xs ! length l = CHR ''.''"
      using nth_length_takeWhile [of "\<lambda>x. x \<noteq> CHR ''.''" xs] assms by (simp add: first_label_def)
    then have "xs = l @ CHR ''.'' # drop (length l + 1) xs"
      using id_take_nth_drop [OF less] t by simp
    then show ?thesis using r False more [of l "drop (length l + 1) xs"] by simp
  qed
qed

lemma check_labels_dotted:
  "b \<le> length name \<Longrightarrow> check_labels name b = Valid_name \<longleftrightarrow> dotted (drop b name)"
proof (induction "length name - b" arbitrary: b rule: less_induct)
  case less
  define l where "l = first_label (drop b name)"
  have len: "length l \<le> length name - b" using first_label_length [of "drop b name"] by (simp add: l_def)
  note u = check_labels_unfold [OF less.prems l_def] dotted_unfold [OF l_def]
  show ?case
  proof (cases "b + length l = length name")
    case True
    then show ?thesis using u by auto
  next
    case False
    then have "check_labels name (b + length l + 1) = Valid_name \<longleftrightarrow> dotted (drop (b + length l + 1) name)"
      using len less.prems by (intro less.hyps) auto
    moreover have "length l \<noteq> length (drop b name)" using False less.prems by auto
    moreover have "drop (length l + 1) (drop b name) = drop (b + length l + 1) name" by (simp add: ac_simps)
    ultimately show ?thesis using False u by presburger
  qed
qed

lemma validate_account_name_iff: "validate_account_name n = Inr () \<longleftrightarrow> is_valid_account_name n"
  by (cases "check_account_name n")
    (simp_all add: validate_account_name_def is_valid_account_name_def check_r_def Let_def)

section \<open>Valid names\<close>

text \<open>
  C23: The scan accepts exactly the names of three to sixteen characters that are sequences of labels
  separated by single dots, every label with at least three characters, a letter first, a letter
  or a digit last and only letters, digits and hyphens; and \<^verbatim>\<open>validate_account_name\<close> throws for all others.
\<close>

theorem account_names_valid:
  "(is_valid_account_name name \<longleftrightarrow> 3 \<le> length name \<and> length name \<le> 16 \<and> dotted name) \<and>
   (validate_account_name name = Inr () \<longleftrightarrow> is_valid_account_name name)"
  using check_labels_dotted [of 0 name] validate_account_name_iff [of name]
  by (auto simp: is_valid_account_name_def check_account_name_def HIVE_MIN_ACCOUNT_NAME_LENGTH_def
      HIVE_MAX_ACCOUNT_NAME_LENGTH_def)

end
