(* ===== verification/Order_Book.thy ===== *)
theory Order_Book
  imports Ledger_Steps Account_Names
begin

text \<open>
  The order book of the internal market. An order of each side crosses when their prices allow a
  trade. Matching leaves no crossing orders behind, whatever happens to the ledger afterwards;
  and a trade respects what both orders offer and ask for.
\<close>

section \<open>Validation of new orders\<close>

definition limit_order_symbols :: "asset \<Rightarrow> asset \<Rightarrow> bool" where
  "limit_order_symbols sell receive \<longleftrightarrow>
     is_asset_type sell HIVE_SYMBOL \<and> is_asset_type receive HBD_SYMBOL \<or>
     is_asset_type sell HBD_SYMBOL \<and> is_asset_type receive HIVE_SYMBOL \<or>
     space (symbol sell) = smt_nai_space \<and> is_asset_type receive HIVE_SYMBOL \<or>
     is_asset_type sell HIVE_SYMBOL \<and> space (symbol receive) = smt_nai_space"

definition limit_order_create_validate :: "limit_order_create_operation \<Rightarrow> unit res" where
  "limit_order_create_validate oper =
     bind_r (validate_account_name (loc_owner oper)) (\<lambda>_.
     bind_r (check_r (limit_order_symbols (amount_to_sell oper) (min_to_receive oper))
       ''Limit order must be for the HIVE:HBD market'') (\<lambda>_.
     bind_r (mk_price (amount_to_sell oper) (min_to_receive oper)) price_validate))"

definition limit_order_create2_validate :: "fc_lib \<Rightarrow> limit_order_create2_operation \<Rightarrow> unit res" where
  "limit_order_create2_validate F oper =
     bind_r (validate_account_name (loc2_owner oper)) (\<lambda>_.
     bind_r (validate_asset_type (amount_to_sell2 oper) (symbol (base (exchange_rate oper)))) (\<lambda>_.
     bind_r (price_validate (exchange_rate oper)) (\<lambda>_.
     bind_r (check_r (limit_order_symbols (amount_to_sell2 oper) (quote (exchange_rate oper)))
       ''Limit order must be for the HIVE:HBD market'') (\<lambda>_.
     bind_r (asset_times_price F (amount_to_sell2 oper) (exchange_rate oper)) validate_asset_greater_than_zero))))"

section \<open>Prices in the book\<close>

text \<open>A price of the book is valid and not better than the highest price that matching starts from.\<close>

definition price_listed :: "price \<Rightarrow> bool" where
  "price_listed p \<longleftrightarrow> price_wf p \<and> amount (base p) \<le> max_satoshis * amount (quote p)"

definition crosses :: "price \<Rightarrow> price \<Rightarrow> bool" where
  "crosses p q \<longleftrightarrow> symbol (base p) = symbol (quote q) \<and> symbol (quote p) = symbol (base q) \<and>
     amount (quote p) * amount (quote q) \<le> amount (base p) * amount (base q)"

definition book_ok :: "ledger \<Rightarrow> bool" where
  "book_ok s \<longleftrightarrow> (\<forall>i l. find_row (limit_orders s) i = Some l \<longrightarrow> price_listed (sell_price l))"

definition uncrossed :: "ledger \<Rightarrow> bool" where
  "uncrossed s \<longleftrightarrow> (\<forall>i a j b. find_row (limit_orders s) i = Some a \<longrightarrow> find_row (limit_orders s) j = Some b \<longrightarrow>
     \<not> crosses (sell_price a) (sell_price b))"

lemma price_gt_iff:
  assumes "price_wf a" "price_wf b"
  shows "price_gt a b \<longleftrightarrow> price_before b a"
  using price_value_less(1) [OF assms(2,1)] mult_swap [of b a] by (auto simp: price_gt_def price_before_def)

lemma tie_less_trans: "tie_less x y \<Longrightarrow> tie_less y z \<Longrightarrow> tie_less x z"
  by (cases x; cases y; cases z) (auto simp: tie_less_def)

lemma price_not_before_trans:
  "\<not> price_before a b \<Longrightarrow> \<not> price_before b c \<Longrightarrow> \<not> price_before a c"
  unfolding price_before_def
  by (metis order_less_le_trans not_less tie_less_linear tie_less_trans tie_less_irrefl)

lemma price_before_asym: "price_before a b \<Longrightarrow> \<not> price_before b a"
  by (metis price_before_def less_asym tie_less_linear tie_less_irrefl)

text \<open>The rows of the price index have falling prices.\<close>

definition at_least :: "nat \<times> limit_order_object \<Rightarrow> nat \<times> limit_order_object \<Rightarrow> bool" where
  "at_least x y \<longleftrightarrow> \<not> price_before (sell_price (snd x)) (sell_price (snd y))"

lemma price_index_sorted:
  assumes "\<forall>x\<in>set (rows t). price_wf (sell_price (snd x))"
  shows "sorted_wrt at_least (index_rows by_price t)"
  unfolding index_rows_def
proof (rule sorted_sort_rows [where S = "set (rows t)"])
  fix x y
  assume "x \<in> set (rows t)" "y \<in> set (rows t)"
  then have w: "price_wf (sell_price (snd x))" "price_wf (sell_price (snd y))" using assms by auto
  show "at_least x y" if "by_price x y"
    using that price_gt_iff [OF w] price_gt_iff [OF w(2,1)] price_before_asym by (auto simp: by_price_def at_least_def)
  show "at_least y x" if "\<not> by_price x y"
    using that price_gt_iff [OF w] by (auto simp: by_price_def at_least_def)
qed (auto simp: at_least_def dest: price_not_before_trans)

lemma price_before_same:
  assumes "price_wf a" "price_wf b" "BQ a = BQ b"
  shows "price_before a b \<longleftrightarrow> amount (base a) * amount (quote b) < amount (base b) * amount (quote a)"
  using price_value_less(1) [OF assms(1,2)] assms(3) cross_products [OF assms(1,2)]
  by (simp add: price_before_def word_less_def mult.commute)

lemma symbol_eqI: "asset_num x = asset_num y \<Longrightarrow> x = (y :: asset_symbol_type)"
  by (cases x; cases y) simp

text \<open>Between the best price of the opposite side and the inverted limit are exactly the crossing prices.\<close>

lemma crossing_range:
  assumes "price_listed p" "price_listed q"
    and "m = \<lparr>base = quote q, quote = base q\<rparr>"
    and "best = \<lparr>base = mk_asset max_satoshis (symbol (quote q)), quote = mk_asset 1 (symbol (base q))\<rparr>"
  shows "\<not> price_before p m \<and> \<not> price_before best p \<longleftrightarrow> crosses p q"
proof -
  have w: "price_wf p" "price_wf m" "price_wf best"
    using assms by (auto simp: price_listed_def price_wf_iff max_satoshis_def HIVE_MAX_SATOSHIS_def mk_asset_def)
  have bq: "BQ m = BQ best" by (simp add: assms(3,4) BQ_def mk_asset_def)
  show ?thesis
  proof (cases "BQ p = BQ m")
    case True
    then have "\<not> price_before best p"
      using price_before_same [OF w(3,1)] bq assms(1) by (simp add: assms(4) price_listed_def mk_asset_def mult.commute)
    moreover have "symbol (base p) = symbol (quote q)" "symbol (quote p) = symbol (base q)"
      using True by (auto simp: BQ_def assms(3) intro: symbol_eqI)
    ultimately show ?thesis
      using price_before_same [OF w(1,2) True] by (simp add: crosses_def assms(3) not_less mult.commute)
  next
    case False
    then have "\<not> crosses p q" by (auto simp: crosses_def BQ_def assms(3))
    moreover have "tie_less (BQ p) (BQ m) \<or> tie_less (BQ best) (BQ p)"
      using False bq tie_less_linear by metis
    ultimately show ?thesis by (auto simp: price_before_def)
  qed
qed

lemma matching_orders_exact:
  assumes "table_wf (limit_orders s)" "book_ok s" "price_listed p" "matching_orders p s = Inr is"
  shows "i \<in> set is \<longleftrightarrow> (\<exists>l. find_row (limit_orders s) i = Some l \<and> crosses (sell_price l) p)"
proof -
  define m where "m = \<lparr>base = quote p, quote = base p\<rparr>"
  define best where "best = \<lparr>base = mk_asset max_satoshis (symbol (quote p)), quote = mk_asset 1 (symbol (base p))\<rparr>"
  define ls where "ls = index_rows by_price (limit_orders s)"
  let ?P = "\<lambda>(i :: nat, l). price_gt (sell_price l) best" and ?Q = "\<lambda>(i :: nat, l). \<not> price_gt m (sell_price l)"
  have w: "price_wf m" "price_wf best"
    using assms(3) by (auto simp: price_listed_def price_wf_iff m_def best_def max_satoshis_def HIVE_MAX_SATOSHIS_def mk_asset_def)
  have listed: "price_listed (sell_price (snd x))" if "x \<in> set ls" for x
    using that assms(1,2) find_row_eq [OF assms(1), of "fst x" "snd x"] by (simp add: ls_def book_ok_def)
  then have lw: "price_wf (sell_price (snd x))" if "x \<in> set ls" for x using that by (simp add: price_listed_def)
  have P: "?P x \<longleftrightarrow> price_before best (sell_price (snd x))" if "x \<in> set ls" for x
    using price_gt_iff [OF lw [OF that] w(2)] by (cases x) simp
  have Q: "?Q x \<longleftrightarrow> \<not> price_before (sell_price (snd x)) m" if "x \<in> set ls" for x
    using price_gt_iff [OF w(1) lw [OF that]] by (cases x) simp
  have "price_invert p = Inr m" "price_max (symbol (base m)) (symbol (quote m)) = Inr best"
    using w by (auto simp: price_invert_def price_max_def mk_price_def m_def best_def price_wf_def)
  then have "is = map fst (drop (length (takeWhile ?P ls)) (take (length (takeWhile ?Q ls)) ls))"
    using assms(4) by (simp add: matching_orders_def ls_def Let_def split: if_splits)
  moreover have "set (drop (length (takeWhile ?P ls)) (take (length (takeWhile ?Q ls)) ls)) = {x \<in> set ls. ?Q x \<and> \<not> ?P x}"
  proof (rule range_of_index [where ge = at_least])
    show "sorted_wrt at_least ls"
      unfolding ls_def by (rule price_index_sorted) (use lw in \<open>simp add: ls_def\<close>)
    show "?P x" if "x \<in> set ls" "y \<in> set ls" "at_least x y" "?P y" for x y
      using that P price_not_before_trans unfolding at_least_def by blast
    show "?Q x" if "x \<in> set ls" "y \<in> set ls" "at_least x y" "?Q y" for x y
      using that Q price_not_before_trans unfolding at_least_def by blast
  qed
  moreover have "{x \<in> set ls. ?Q x \<and> \<not> ?P x} = {x \<in> set ls. crosses (sell_price (snd x)) p}"
    using P Q crossing_range [OF listed assms(3) m_def best_def] by blast
  ultimately have "i \<in> set is \<longleftrightarrow> i \<in> fst ` {x \<in> set ls. crosses (sell_price (snd x)) p}" by (simp only: set_map)
  also have "\<dots> \<longleftrightarrow> (\<exists>l. (i, l) \<in> set (rows (limit_orders s)) \<and> crosses (sell_price l) p)"
    by (auto simp: ls_def image_iff)
  finally show ?thesis using find_row_eq [OF assms(1)] by simp
qed

section \<open>Operations that leave the book alone\<close>

definition keeps_orders :: "ledger \<Rightarrow> ledger \<Rightarrow> bool" where
  "keeps_orders s s' \<longleftrightarrow> limit_orders s' = limit_orders s"

interpretation ko: preorder_of_states keeps_orders
  by unfold_locales (simp_all add: keeps_orders_def)

lemma keeps_modify_account [moves_rules]: "moves keeps_orders (modify_account i f)"
  by (auto simp: moves_def modify_account_def bind_r_eq_Inr keeps_orders_def split: option.splits)

lemma keeps_modify_dgpo [moves_rules]: "moves keeps_orders (modify_dgpo m)"
  by (auto simp: moves_def modify_dgpo_def bind_r_eq_Inr keeps_orders_def)

lemma keeps_rows [moves_rules]:
  "moves keeps_orders (modify_row liquidity_rewards (\<lambda>t s. s\<lparr>liquidity_rewards := t\<rparr>) i f1)"
  "moves keeps_orders (create_row liquidity_rewards (\<lambda>t s. s\<lparr>liquidity_rewards := t\<rparr>) c1 x1)"
  "moves keeps_orders (modify_row escrows set_escrows i f2)" "moves keeps_orders (create_row escrows set_escrows c2 x2)"
  "moves keeps_orders (remove_row escrows set_escrows k2 i)"
  "moves keeps_orders (modify_row savings_withdraws set_savings i f3)"
  "moves keeps_orders (create_row savings_withdraws set_savings c3 x3)"
  "moves keeps_orders (remove_row savings_withdraws set_savings k3 i)"
  "moves keeps_orders (modify_row convert_requests set_converts i f4)"
  "moves keeps_orders (create_row convert_requests set_converts c4 x4)"
  "moves keeps_orders (remove_row convert_requests set_converts k4 i)"
  "moves keeps_orders (modify_row collateralized_requests set_collateralized i f5)"
  "moves keeps_orders (create_row collateralized_requests set_collateralized c5 x5)"
  "moves keeps_orders (remove_row collateralized_requests set_collateralized k5 i)"
  by (rule moves_modify_row moves_create_row moves_remove_row, simp add: keeps_orders_def)+

lemma keeps_account [moves_rules]: "moves keeps_orders (account i)" "moves keeps_orders (get_account n)"
  "moves keeps_orders (get_account_by_id i)"
  unfolding account_def get_account_def get_account_by_id_def by (rule moves_rules)+

lemma keeps_balance [moves_rules]:
  "moves keeps_orders (adjust_hive_balance F i b d)" "moves keeps_orders (adjust_hbd_balance F i b d)"
  unfolding adjust_hive_balance_def adjust_hbd_balance_def pay_liquid_interest_def issue_interest_def
  by (intro moves_rules)+

lemma keeps_through_tiny: "(\<And>b d. moves keeps_orders (f b d)) \<Longrightarrow> moves keeps_orders (through_tiny F S f x y)"
  unfolding through_tiny_def by (intro moves_rules)

lemma keeps_adjust_balance [moves_rules]:
  "moves keeps_orders (adjust_balance F i x y)" "moves keeps_orders (adjust_savings_balance F i x y)"
  unfolding adjust_balance_def adjust_savings_balance_def adjust_hive_savings_def adjust_hbd_savings_def
    pay_savings_interest_def issue_interest_def
  by (intro moves_rules keeps_through_tiny)+

lemma keeps_reward_volumes [moves_rules]: "moves keeps_orders (reward_volumes F n old a b)"
  unfolding reward_volumes_def adjust_liquidity_reward_def by (intro moves_rules)

lemma keeps_escrow [moves_rules]:
  "moves keeps_orders (remove_escrow F i)" "moves keeps_orders (escrow_transfer_evaluator F o1)"
  "moves keeps_orders (escrow_dispute_evaluator o3)" "moves keeps_orders (escrow_release_evaluator F o4)"
  unfolding remove_escrow_def count_escrow_def remove_escrow_object_def escrow_transfer_evaluator_def
    escrow_dispute_evaluator_def escrow_release_evaluator_def get_escrow_def release_funds_def
  by (intro moves_rules)+

lemma keeps_escrow_approve [moves_rules]:
  "moves keeps_orders (escrow_approve_evaluator F o2)" "moves keeps_orders (expire_escrow_ratification F)"
  "moves keeps_orders (remove_pending_escrows F n)"
  unfolding escrow_approve_evaluator_def approve_by_to_def approve_by_agent_def pay_agent_def get_escrow_def
    expire_escrow_ratification_def remove_pending_escrows_def
  by (intro moves_rules)+

lemma keeps_savings [moves_rules]:
  "moves keeps_orders (transfer_to_savings_evaluator F o1)" "moves keeps_orders (transfer_from_savings_evaluator F o2)"
  "moves keeps_orders (cancel_transfer_from_savings_evaluator F n r)" "moves keeps_orders (complete_withdrawal F i u)"
  unfolding transfer_to_savings_evaluator_def transfer_from_savings_evaluator_def complete_withdrawal_def
    cancel_transfer_from_savings_evaluator_def get_savings_withdraw_def take_withdrawal_def remove_withdrawal_def
    count_withdrawal_def
  by (intro moves_rules)+

lemma keeps_savings_maintenance [moves_rules]:
  "moves keeps_orders (process_savings_withdraws F)" "moves keeps_orders (remove_pending_savings_withdraws F i n)"
  unfolding process_savings_withdraws_def remove_pending_savings_withdraws_def return_withdrawal_def
    take_withdrawal_def remove_withdrawal_def count_withdrawal_def
  by (intro moves_rules)+

lemma keeps_percent [moves_rules]: "moves keeps_orders (calculate_HBD_percent F)"
  unfolding calculate_HBD_percent_def debt_supplies_def by (intro moves_rules)

lemma keeps_virtual_supply [moves_rules]: "moves keeps_orders (update_virtual_supply F)"
  unfolding update_virtual_supply_def
  by (intro moves_rules) (rule ko.moves_update, simp add: keeps_orders_def)+

lemma keeps_payments [moves_rules]:
  "moves keeps_orders (pay_regular F ps h)" "moves keeps_orders (pay_collateralized F ps h)"
  by (induction ps arbitrary: h) (auto intro!: moves_rules)

lemma keeps_conversions [moves_rules]:
  "moves keeps_orders (convert_evaluator F oper)" "moves keeps_orders (collateralized_convert_evaluator F oper)"
  "moves keeps_orders (process_conversions F)" "moves keeps_orders (remove_pending_conversion_requests F i)"
  unfolding convert_evaluator_def collateralized_convert_evaluator_def process_conversions_def
    remove_pending_conversion_requests_def collect_convert_def collect_collateralized_def settle_supply_def
  by (intro moves_rules)+

section \<open>Operations that only remove orders\<close>

definition shrinks_orders :: "ledger \<Rightarrow> ledger \<Rightarrow> bool" where
  "shrinks_orders s s' \<longleftrightarrow> (\<forall>i l'. find_row (limit_orders s') i = Some l' \<longrightarrow>
     (\<exists>l. find_row (limit_orders s) i = Some l \<and> sell_price l = sell_price l'))"

interpretation so: preorder_of_states shrinks_orders
proof
  show "shrinks_orders s s" for s by (simp add: shrinks_orders_def)
  show "shrinks_orders s u" if "shrinks_orders s t" "shrinks_orders t u" for s t u
    using that unfolding shrinks_orders_def by metis
qed

lemma shrinks_keeps: "moves keeps_orders m \<Longrightarrow> moves shrinks_orders m"
  by (erule moves_weaken) (auto simp: keeps_orders_def shrinks_orders_def)

lemmas shrinks_lookups [moves_rules] = keeps_account [THEN shrinks_keeps] keeps_adjust_balance [THEN shrinks_keeps]
  keeps_reward_volumes [THEN shrinks_keeps]

lemma shrinks_remove_order [moves_rules]: "moves shrinks_orders (remove_order i)"
  by (auto simp: moves_def remove_order_def remove_row_def bind_r_eq_Inr shrinks_orders_def find_row_drop
      split: option.splits if_splits)

lemma shrinks_take [moves_rules]: "moves shrinks_orders (take_from_order F i d)"
  by (auto simp: moves_def take_from_order_def modify_row_def bind_r_eq_Inr shrinks_orders_def find_row_put
      split: option.splits if_splits)

lemma shrinks_cancel [moves_rules]: "moves shrinks_orders (cancel_order F i)"
  unfolding cancel_order_def by (intro moves_rules)

lemma shrinks_fill [moves_rules]: "moves shrinks_orders (fill_order F i p r)"
  unfolding fill_order_def by (intro moves_rules)

lemma shrinks_match [moves_rules]: "moves shrinks_orders (match_order F n i p)"
  unfolding match_order_def by (intro moves_rules)

lemma shrinks_match_loop [moves_rules]: "moves shrinks_orders (match_loop F n is)"
proof (induction "is")
  case Nil
  show ?case unfolding match_loop.simps by (intro moves_rules)
next
  case (Cons i "is")
  then show ?case unfolding match_loop.simps by (intro moves_rules)
qed

lemma shrinks_maintenance [moves_rules]:
  "moves shrinks_orders (clear_expired_orders F)" "moves shrinks_orders (remove_pending_limit_orders F n)"
  "moves shrinks_orders (limit_order_cancel_evaluator F n oid)"
  unfolding clear_expired_orders_def remove_pending_limit_orders_def limit_order_cancel_evaluator_def get_limit_order_def
  by (intro moves_rules)+

lemma shrinks_book:
  assumes "shrinks_orders s s'" "book_ok s \<and> uncrossed s"
  shows "book_ok s' \<and> uncrossed s'"
  using assms unfolding shrinks_orders_def book_ok_def uncrossed_def by metis

section \<open>Matching removes the crossing orders\<close>

lemma gone_stays: "shrinks_orders s s' \<Longrightarrow> find_row (limit_orders s) i = None \<Longrightarrow> find_row (limit_orders s') i = None"
  unfolding shrinks_orders_def by (cases "find_row (limit_orders s') i") force+

lemma remove_order_gone: "remove_order i s = Inr (x, s') \<Longrightarrow> find_row (limit_orders s') i = None"
  by (auto simp: remove_order_def remove_row_def bind_r_eq_Inr find_row_drop split: option.splits)

lemma cancel_order_gone: "cancel_order F i s = Inr (x, s') \<Longrightarrow> find_row (limit_orders s') i = None"
  by (auto simp: cancel_order_def bind_s_eq_Inr lift_s_eq_Inr dest: remove_order_gone)

lemma fill_order_gone: "fill_order F i p r s = Inr ((True, b), s') \<Longrightarrow> find_row (limit_orders s') i = None"
  by (auto simp: fill_order_def bind_s_eq_Inr lift_s_eq_Inr split: if_splits dest: remove_order_gone cancel_order_gone)

lemma fill_order_valid:
  "valid (\<lambda>s. a \<longrightarrow> find_row (limit_orders s) n = None) (fill_order F i p r)
    (\<lambda>x s. (a \<longrightarrow> find_row (limit_orders s) n = None) \<and> (fst x \<longrightarrow> find_row (limit_orders s) i = None))"
proof (rule validI)
  fix s x s'
  assume "a \<longrightarrow> find_row (limit_orders s) n = None" "fill_order F i p r s = Inr (x, s')"
  then show "(a \<longrightarrow> find_row (limit_orders s') n = None) \<and> (fst x \<longrightarrow> find_row (limit_orders s') i = None)"
    using gone_stays [OF movesD [OF shrinks_fill]] fill_order_gone by (metis (full_types) prod.collapse)
qed

lemma valid_any: "valid P m (\<lambda>_ _. True)"
  by (simp add: valid_def)

lemma match_order_gone:
  "valid (\<lambda>_. True) (match_order F n i p)
    (\<lambda>r s. (odd r \<longrightarrow> find_row (limit_orders s) n = None) \<and> (even r \<longrightarrow> find_row (limit_orders s) i = None))"
  unfolding match_order_def
  apply (intro valid_rules)
  apply (rule valid_bind [OF valid_any], rule valid_bind [OF valid_any], rule valid_bind [OF valid_any])
  apply (rule valid_bind [OF valid_pre [OF fill_order_valid [where a = False and n = n]]], simp)
  apply (intro valid_rules)
  apply (rule valid_bind [OF valid_pre [OF fill_order_valid]])
   apply (erule conjunct2)
  apply (intro valid_rules valid_ret)
  apply (auto simp: require_def split: if_splits)
  done

lemma match_loop_gone:
  assumes "match_loop F n is s = Inr (x, s')"
  shows "find_row (limit_orders s') n = None \<or> (\<forall>i\<in>set is. find_row (limit_orders s') i = None)"
  using assms
proof (induction "is" arbitrary: s)
  case (Cons i "is")
  then obtain p s0 r s1 where m: "match_order F n i p s0 = Inr (r, s1)"
      "(if odd r then ret_s () else match_loop F n is) s1 = Inr (x, s')"
    unfolding match_loop.simps bind_s_eq_Inr by blast
  note g = validD [OF match_order_gone m(1)]
  show ?case
  proof (cases "odd r")
    case True
    then show ?thesis using g m(2) by (simp add: ret_s_def)
  next
    case False
    then have l: "match_loop F n is s1 = Inr (x, s')" using m(2) by simp
    then show ?thesis
      using Cons.IH [OF l] g False gone_stays [OF movesD [OF shrinks_match_loop l]] by auto
  qed
qed simp

text \<open>A new order and the orders it meets.\<close>

lemma apply_order_uncrossed:
  assumes "table_wf (limit_orders s)" "book_ok s" "find_row (limit_orders s) n = Some new"
    and others: "\<And>i j a b. i \<noteq> n \<Longrightarrow> j \<noteq> n \<Longrightarrow> find_row (limit_orders s) i = Some a \<Longrightarrow> find_row (limit_orders s) j = Some b \<Longrightarrow>
      \<not> crosses (sell_price a) (sell_price b)"
    and "apply_order F n s = Inr (x, s')"
  shows "book_ok s' \<and> uncrossed s'"
proof -
  obtain "is" where "is": "matching_orders (sell_price new) s = Inr is" "match_loop F n is s = Inr ((), s')"
    using assms(3,5) by (auto simp: apply_order_def bind_s_eq_Inr get_row_def read_s_eq_Inr get_s_def)
  have p: "price_listed (sell_price new)" using assms(2,3) by (auto simp: book_ok_def)
  note meets = matching_orders_exact [OF assms(1,2) p "is"(1)]
  have sh: "shrinks_orders s s'" by (rule movesD [OF shrinks_match_loop "is"(2)])
  have sym: "crosses p q \<Longrightarrow> crosses q p" for p q by (simp add: crosses_def mult.commute)
  have with_new: "\<not> crosses (sell_price b) (sell_price new)"
    if nb: "find_row (limit_orders s') n = Some a" "find_row (limit_orders s') j = Some b" for a b j
  proof -
    obtain b' where b': "find_row (limit_orders s) j = Some b'" "sell_price b' = sell_price b"
      using sh nb(2) by (auto simp: shrinks_orders_def)
    have "j \<notin> set is" using match_loop_gone [OF "is"(2)] nb by auto
    then show ?thesis using meets b' by auto
  qed
  have "book_ok s'" using assms(2) sh unfolding book_ok_def shrinks_orders_def by metis
  moreover have "\<not> crosses (sell_price a) (sell_price b)"
    if ab: "find_row (limit_orders s') i = Some a" "find_row (limit_orders s') j = Some b" for i j a b
  proof -
    obtain a' b' where o: "find_row (limit_orders s) i = Some a'" "sell_price a' = sell_price a"
        "find_row (limit_orders s) j = Some b'" "sell_price b' = sell_price b"
      using sh ab by (metis shrinks_orders_def)
    consider "i = n" | "i \<noteq> n" "j = n" | "i \<noteq> n" "j \<noteq> n" by blast
    then show ?thesis
    proof cases
      case 1
      then have "sell_price new = sell_price a" using o(1,2) assms(3) by simp
      then show ?thesis using with_new [of a j b] ab 1 sym by metis
    next
      case 2
      then have "sell_price new = sell_price b" using o(3,4) assms(3) by simp
      then show ?thesis using with_new [of b i a] ab 2 by metis
    next
      case 3
      then show ?thesis using others [OF 3 o(1,3)] o(2,4) by simp
    qed
  qed
  ultimately show ?thesis by (auto simp: uncrossed_def)
qed

lemma open_order_uncrossed:
  assumes "table_wf (limit_orders s)" "book_ok s" "uncrossed s" "\<And>q. p = Inr q \<Longrightarrow> price_listed q"
    and "open_order F owner sell p expi oid kill s = Inr (x, s')"
  shows "book_ok s' \<and> uncrossed s'"
proof -
  obtain q now to_sell l n b acc neg s1 s2 where q: "p = Inr q" "mk_limit_order owner to_sell q now expi oid = Inr l"
    and s1: "adjust_balance F acc (temp_balance (symbol sell)) neg s = Inr (to_sell, s1)"
    and s2: "create_order l s1 = Inr (n, s2)" and s3: "apply_order F n s2 = Inr (b, s')"
    using assms(5) by (auto simp: open_order_def bind_s_eq_Inr lift_s_eq_Inr check_s_eq_Inr get_s_def get_account_def read_s_eq_Inr)
  have o1: "limit_orders s1 = limit_orders s"
    using movesD [OF keeps_adjust_balance(1) s1] by (simp add: keeps_orders_def)
  have sp: "sell_price l = q" using q(2) by (auto simp: mk_limit_order_def bind_r_eq_Inr)
  have o2: "limit_orders s2 = add_row l (limit_orders s)" "n = next_id (limit_orders s)"
    using s2 by (auto simp: create_order_def create_row_def o1 split: if_splits)
  have f: "find_row (limit_orders s2) i = (if i = n then Some l else find_row (limit_orders s) i)" for i
    using find_row_add [OF assms(1)] by (simp add: o2)
  show ?thesis
  proof (rule apply_order_uncrossed [OF _ _ _ _ s3])
    show "table_wf (limit_orders s2)" using assms(1) by (simp add: o2)
    show "book_ok s2" using assms(2) assms(4) [OF q(1)] sp by (auto simp: book_ok_def f)
    show "find_row (limit_orders s2) n = Some l" by (simp add: f)
    show "\<not> crosses (sell_price a) (sell_price b)"
      if "i \<noteq> n" "j \<noteq> n" "find_row (limit_orders s2) i = Some a" "find_row (limit_orders s2) j = Some b" for i j a b
      using that assms(3) by (auto simp: f uncrossed_def)
  qed
qed

section \<open>Valid operations have prices for the book\<close>

lemma created_price_listed:
  assumes "limit_order_create_validate oper = Inr ()" "amount (amount_to_sell oper) \<le> max_satoshis"
    "amount (min_to_receive oper) \<le> max_i64" "mk_price (amount_to_sell oper) (min_to_receive oper) = Inr q"
  shows "price_listed q"
proof -
  have q: "q = \<lparr>base = amount_to_sell oper, quote = min_to_receive oper\<rparr>" "price_validate q = Inr ()"
    using assms(4) by (auto simp: mk_price_def bind_r_eq_Inr)
  then have pos: "0 < amount (base q)" "0 < amount (quote q)" by (auto simp: price_validate_iff)
  have "amount (base q) \<le> max_satoshis * 1" using assms(2) q by simp
  also have "\<dots> \<le> max_satoshis * amount (quote q)"
    using pos by (intro mult_left_mono) (simp_all add: max_satoshis_def HIVE_MAX_SATOSHIS_def)
  finally show ?thesis
    using pos q assms(2,3) by (simp add: price_listed_def price_wf_def in_i64_def max_satoshis_def HIVE_MAX_SATOSHIS_def)
qed

lemma times_price_positive:
  assumes "fc_ok F" "price_wf p" "in_i64 (amount a)" "0 \<le> amount a" "symbol a = symbol (base p)"
    "asset_times_price F a p = Inr r" "0 < amount r"
  shows "amount (base p) \<le> amount a * amount (quote p)"
proof (rule ccontr)
  assume "\<not> amount (base p) \<le> amount a * amount (quote p)"
  moreover have "0 \<le> amount a * amount (quote p)" using assms(2,4) by (simp add: price_wf_iff)
  ultimately have "amount a * amount (quote p) div amount (base p) = 0" by simp
  moreover have "amount a * amount (quote p) sdiv amount (base p) = amount a * amount (quote p) div amount (base p)"
    using assms(2,4) by (simp add: price_wf_iff sdiv_pos)
  ultimately have "asset_times_price F a p = Inr (mk_asset 0 (symbol (quote p)))"
    using asset_times_price_base [OF assms(1,2,3) _ assms(5)] assms(4) by simp
  then show False using assms(6,7) by (simp add: mk_asset_def)
qed

lemma created2_price_listed:
  assumes "fc_ok F" "limit_order_create2_validate F oper = Inr ()"
    "0 \<le> amount (amount_to_sell2 oper)" "amount (amount_to_sell2 oper) \<le> max_satoshis"
    "amount (base (exchange_rate oper)) \<le> max_i64" "amount (quote (exchange_rate oper)) \<le> max_i64"
  shows "price_listed (exchange_rate oper)"
proof -
  let ?p = "exchange_rate oper" and ?a = "amount_to_sell2 oper"
  obtain r where r: "price_validate ?p = Inr ()" "symbol ?a = symbol (base ?p)" "asset_times_price F ?a ?p = Inr r" "0 < amount r"
    using assms(2) by (auto simp: limit_order_create2_validate_def bind_r_eq_Inr validate_asset_type_def is_asset_type_def
        validate_asset_greater_than_zero_def check_r_eq_Inr)
  have w: "price_wf ?p" using r(1) assms(5,6) by (auto simp: price_wf_iff price_validate_iff)
  have "in_i64 (amount ?a)" using assms(3,4) by (simp add: in_i64_def max_satoshis_def HIVE_MAX_SATOSHIS_def)
  from times_price_positive [OF assms(1) w this assms(3) r(2-4)]
  have "amount (base ?p) \<le> amount ?a * amount (quote ?p)" .
  also have "\<dots> \<le> max_satoshis * amount (quote ?p)" using assms(4) w by (intro mult_right_mono) (simp_all add: price_wf_iff)
  finally show ?thesis using w by (simp add: price_listed_def)
qed

section \<open>The book stays uncrossed\<close>

text \<open>What the validation of an operation and its serialised form guarantee.\<close>

fun validated :: "fc_lib \<Rightarrow> ledger_step \<Rightarrow> bool" where
  "validated F (Limit_order_create _ _ oper) \<longleftrightarrow> limit_order_create_validate oper = Inr () \<and>
     amount (amount_to_sell oper) \<le> max_satoshis \<and> amount (min_to_receive oper) \<le> max_i64"
| "validated F (Limit_order_create2 _ oper) \<longleftrightarrow> limit_order_create2_validate F oper = Inr () \<and>
     0 \<le> amount (amount_to_sell2 oper) \<and> amount (amount_to_sell2 oper) \<le> max_satoshis \<and>
     amount (base (exchange_rate oper)) \<le> max_i64 \<and> amount (quote (exchange_rate oper)) \<le> max_i64"
| "validated F _ \<longleftrightarrow> True"

inductive market_step :: "fc_lib \<Rightarrow> ledger \<Rightarrow> ledger \<Rightarrow> bool" for F where
  operation: "amounts_ok st \<Longrightarrow> validated F st \<Longrightarrow> market_step F s (apply_step F st s)"
| outside: "chain_step F s s' \<Longrightarrow> limit_orders s' = limit_orders s \<Longrightarrow> market_step F s s'"

lemma step_uncrossed:
  assumes "fc_ok F" "validated F st" "table_wf (limit_orders s)" "book_ok s \<and> uncrossed s"
    "step_op F st s = Inr (x, s')"
  shows "book_ok s' \<and> uncrossed s'"
proof -
  have opened: ?thesis
    if "open_order F owner sell p expi oid kill s = Inr (x, s')" "\<And>q. p = Inr q \<Longrightarrow> price_listed q" for owner sell p expi oid kill
    using open_order_uncrossed [OF assms(3) _ _ that(2,1)] assms(4) by blast
  have shrunk: ?thesis if "moves shrinks_orders (step_op F st)"
    using movesD [OF that assms(5)] shrinks_book assms(4) by blast
  show ?thesis
  proof (cases st)
    case (Limit_order_create c h oper)
    then obtain expi where o: "open_order F (loc_owner oper) (amount_to_sell oper) (mk_price (amount_to_sell oper) (min_to_receive oper))
        expi (loc_orderid oper) (fill_or_kill oper) s = Inr (x, s')"
      using assms(5) by (auto simp: limit_order_create_evaluator_def bind_s_eq_Inr get_s_def check_s_eq_Inr Let_def)
    have "price_listed q" if "mk_price (amount_to_sell oper) (min_to_receive oper) = Inr q" for q
      using created_price_listed [OF _ _ _ that] assms(2) Limit_order_create by simp
    then show ?thesis using opened [OF o] by simp
  next
    case (Limit_order_create2 c oper)
    then obtain expi where o: "open_order F (loc2_owner oper) (amount_to_sell2 oper) (Inr (exchange_rate oper))
        expi (loc2_orderid oper) (fill_or_kill2 oper) s = Inr (x, s')"
      using assms(5) by (auto simp: limit_order_create2_evaluator_def bind_s_eq_Inr get_s_def check_s_eq_Inr Let_def)
    have "price_listed (exchange_rate oper)" using created2_price_listed [OF assms(1)] assms(2) Limit_order_create2 by simp
    then show ?thesis using opened [OF o] by simp
  qed (rule shrunk, simp, intro moves_rules shrinks_keeps)+
qed

lemma market_step_inv:
  assumes "fc_ok F" "market_step F s s'" "ledger_ok s \<and> book_ok s \<and> uncrossed s"
  shows "ledger_ok s' \<and> book_ok s' \<and> uncrossed s'"
proof -
  have acc: "accounted (\<lambda>k. ledger_gap k s) s" using assms(3) by (simp add: accounted_def)
  have wf: "table_wf (limit_orders s)" using assms(3) by (simp add: ledger_ok_def)
  from assms(2) show ?thesis
  proof cases
    case (operation st)
    then have "ledger_ok s'"
      using chain_step_accounted [OF assms(1) _ acc, of s'] applied by (auto simp: accounted_def)
    moreover have "book_ok s' \<and> uncrossed s'"
      using step_uncrossed [OF assms(1) operation(3) wf] assms(3) operation(1)
      by (auto simp: apply_step_def split: sum.splits)
    ultimately show ?thesis by blast
  next
    case outside
    then show ?thesis
      using chain_step_accounted [OF assms(1) outside(1) acc] assms(3)
      by (simp add: accounted_def book_ok_def uncrossed_def)
  qed
qed

text \<open>
  C7: The order book never stays crossed. If no two orders of the book could trade with each other at
  their prices, then no two can after any sequence of operations, maintenance steps and changes
  elsewhere in the node, as long as new orders pass their validation and sell no more than
  \<^verbatim>\<open>HIVE_MAX_SATOSHIS\<close>: matching a new order removes every order it crosses, or the new order itself.
\<close>

theorem book_stays_uncrossed:
  assumes "fc_ok F" "ledger_ok s" "book_ok s" "uncrossed s" "(market_step F)\<^sup>*\<^sup>* s s'"
  shows "book_ok s' \<and> uncrossed s'"
proof -
  have "ledger_ok s' \<and> book_ok s' \<and> uncrossed s'"
    using assms(5,2-4) by (induction rule: rtranclp_induct) (auto dest: market_step_inv [OF assms(1)])
  then show ?thesis by blast
qed

lemma market_steps_reach:
  "list_all (\<lambda>st. amounts_ok st \<and> validated F st) sts \<Longrightarrow> (market_step F)\<^sup>*\<^sup>* s (fold (apply_step F) sts s)"
  by (induction sts arbitrary: s) (auto intro: converse_rtranclp_into_rtranclp operation)

theorem book_stays_uncrossed_witness:
  "uncrossed (fold (apply_step exact_fc) example_steps example_ledger) \<and>
   rows (limit_orders (fold (apply_step exact_fc) example_steps example_ledger)) \<noteq> []"
proof
  have "list_all (\<lambda>st. amounts_ok st \<and> validated exact_fc st) example_steps" by code_simp
  moreover have "ledger_ok example_ledger" by code_simp
  moreover have "book_ok example_ledger" "uncrossed example_ledger"
    by (simp_all add: book_ok_def uncrossed_def example_ledger_def find_row_def empty_table_def)
  ultimately show "uncrossed (fold (apply_step exact_fc) example_steps example_ledger)"
    using book_stays_uncrossed [OF exact_fc_ok _ _ _ market_steps_reach] by blast
  show "rows (limit_orders (fold (apply_step exact_fc) example_steps example_ledger)) \<noteq> []"
    using example_traded by force
qed

section \<open>Fair trades\<close>

lemma floor_bounds:
  fixes x :: int
  assumes "0 < d"
  shows "x div d * d \<le> x" "x < x div d * d + d"
  using assms by (metis minus_mod_eq_div_mult pos_mod_sign diff_ge_0_iff_ge diff_le_eq le_add_same_cancel1)
    (metis assms add.commute add_less_cancel_left mult_div_mod_eq mult.commute pos_mod_bound)

text \<open>The two ways to limit a trade, in plain numbers: \<open>bp\<close>/\<open>qp\<close> is the price of the older order, \<open>bq\<close>/\<open>qq\<close> the
  price of the newer one.\<close>

lemma new_order_used_up:
  fixes N Old bp qp bq qq :: int
  assumes "0 < bp" "0 < qp" "0 < bq" "0 < qq" "qp * qq \<le> bp * bq" "0 < N" "N \<le> Old * qp div bp"
  shows "0 \<le> N * bp div qp" "N * bp div qp \<le> Old" "N * bp div qp * qp \<le> N * bp" "N * bp < (N * bp div qp + 1) * qp"
    "N * qq < (N * bp div qp + 1) * bq"
proof -
  let ?r = "N * bp div qp"
  show "0 \<le> ?r" using assms by (simp add: pos_imp_zdiv_nonneg_iff)
  have "N * bp \<le> Old * qp div bp * bp" using assms(1,7) by (intro mult_right_mono) simp_all
  also have "\<dots> \<le> Old * qp" by (rule floor_bounds(1) [OF assms(1)])
  finally show "?r \<le> Old" using zdiv_mono1 [of "N * bp" "Old * qp" qp] assms(2) by simp
  show "?r * qp \<le> N * bp" by (rule floor_bounds(1) [OF assms(2)])
  show r: "N * bp < (?r + 1) * qp" using floor_bounds(2) [OF assms(2), of "N * bp"] by (simp add: algebra_simps)
  have "qp * (N * qq) = N * (qp * qq)" by simp
  also have "\<dots> \<le> N * (bp * bq)" using assms(5,6) by (intro mult_left_mono) simp_all
  also have "\<dots> = N * bp * bq" by simp
  also have "\<dots> < (?r + 1) * qp * bq" using r assms(3) by (rule mult_strict_right_mono)
  also have "\<dots> = qp * ((?r + 1) * bq)" by simp
  finally show "N * qq < (?r + 1) * bq" using assms(2) by (simp add: mult_less_cancel_left_pos)
qed

lemma old_order_used_up:
  fixes Old bp qp bq qq :: int
  assumes "0 < bp" "0 < qp" "0 < bq" "0 < qq" "qp * qq \<le> bp * bq" "0 < Old"
  shows "0 \<le> Old * qp div bp" "Old * qp div bp * bp \<le> Old * qp" "Old * qp < (Old * qp div bp + 1) * bp"
    "Old * qp div bp * qq < (Old + 1) * bq"
proof -
  let ?v = "Old * qp div bp"
  show "0 \<le> ?v" using assms by (simp add: pos_imp_zdiv_nonneg_iff)
  show v: "?v * bp \<le> Old * qp" by (rule floor_bounds(1) [OF assms(1)])
  show "Old * qp < (?v + 1) * bp" using floor_bounds(2) [OF assms(1), of "Old * qp"] by (simp add: algebra_simps)
  have "bp * (?v * qq) = ?v * bp * qq" by simp
  also have "\<dots> \<le> Old * qp * qq" using v assms(4) by (intro mult_right_mono) simp_all
  also have "\<dots> = Old * (qp * qq)" by simp
  also have "\<dots> \<le> Old * (bp * bq)" using assms(5,6) by (intro mult_left_mono) simp_all
  also have "\<dots> = bp * (Old * bq)" by simp
  finally have "?v * qq \<le> Old * bq" using assms(1) by (simp add: mult_le_cancel_left_pos)
  then show "?v * qq < (Old + 1) * bq" using assms(3) by (simp add: algebra_simps)
qed

text \<open>
  C18: A trade at the price of the older order is fair. Neither order pays more than it offers, one of
  the two is used up, and what they exchange is the price up to one unit of the asset that was
  rounded. The newer order gets at least its own limit, up to that rounding. The trade fails only if
  the older order asks for more than \<^verbatim>\<open>int64_t\<close> can hold.
\<close>

theorem trade_fair:
  assumes "fc_ok F" "price_wf p" "price_wf q" "crosses p q"
    and "0 < amount n" "in_i64 (amount n)" "0 < amount old" "in_i64 (amount old)"
    and "symbol n = symbol (base q)" "symbol old = symbol (base p)"
    and "amount old * amount (quote p) div amount (base p) \<le> max_i64"
  shows "\<exists>new_receives old_receives. trade_amounts F n old p = Inr (new_receives, old_receives) \<and>
    symbol new_receives = symbol old \<and> symbol old_receives = symbol n \<and>
    0 \<le> amount new_receives \<and> amount new_receives \<le> amount old \<and>
    0 \<le> amount old_receives \<and> amount old_receives \<le> amount n \<and>
    (amount new_receives = amount old \<or> amount old_receives = amount n) \<and>
    (amount new_receives = amount old \<and>
       amount old_receives * amount (base p) \<le> amount new_receives * amount (quote p) \<and>
       amount new_receives * amount (quote p) < (amount old_receives + 1) * amount (base p) \<or>
     amount new_receives * amount (quote p) \<le> amount old_receives * amount (base p) \<and>
       amount old_receives * amount (base p) < (amount new_receives + 1) * amount (quote p)) \<and>
    amount old_receives * amount (quote q) < (amount new_receives + 1) * amount (base q)"
proof -
  let ?N = "amount n" and ?O = "amount old" and ?bp = "amount (base p)" and ?qp = "amount (quote p)"
  let ?bq = "amount (base q)" and ?qq = "amount (quote q)" and ?V = "amount old * amount (quote p) div amount (base p)"
  have pos: "0 < ?bp" "0 < ?qp" "0 < ?bq" "0 < ?qq" "?qp * ?qq \<le> ?bp * ?bq"
    using assms(2-4) by (simp_all add: price_wf_iff crosses_def)
  have sy: "symbol n = symbol (quote p)" using assms(4,9) by (simp add: crosses_def)
  have v: "asset_times_price F old p = Inr (mk_asset ?V (symbol (quote p)))"
    using asset_times_price_base [OF assms(1,2,8) _ assms(10)] assms(7,11) pos by (simp add: sdiv_pos)
  show ?thesis
  proof (cases "?N \<le> ?V")
    case True
    note f = new_order_used_up [OF pos assms(5) True]
    have "asset_times_price F n p = Inr (mk_asset (?N * ?bp div ?qp) (symbol (base p)))"
      using asset_times_price_quote [OF assms(1,2,6) _ sy] assms(5,8) f(2) pos by (simp add: sdiv_pos in_i64_def)
    then have "trade_amounts F n old p = Inr (mk_asset (?N * ?bp div ?qp) (symbol (base p)), n)"
      using v True sy by (simp add: trade_amounts_def asset_le_def mk_asset_def)
    then show ?thesis using f assms(5,10) by (simp add: mk_asset_def)
  next
    case False
    note f = old_order_used_up [OF pos assms(7)]
    have "trade_amounts F n old p = Inr (old, mk_asset ?V (symbol (quote p)))"
      using v False sy by (simp add: trade_amounts_def asset_le_def mk_asset_def)
    then show ?thesis using f False assms(7) sy by (simp add: mk_asset_def)
  qed
qed

theorem trade_fair_witness:
  "trade_amounts exact_fc (mk_asset 60 HBD_SYMBOL) (mk_asset 200 HIVE_SYMBOL)
     \<lparr>base = mk_asset 200 HIVE_SYMBOL, quote = mk_asset 99 HBD_SYMBOL\<rparr> =
     Inr (mk_asset 121 HIVE_SYMBOL, mk_asset 60 HBD_SYMBOL) \<and>
   (60 :: int) * 100 < (121 + 1) * 60"
proof -
  let ?p = "\<lparr>base = mk_asset 200 HIVE_SYMBOL, quote = mk_asset 99 HBD_SYMBOL\<rparr>"
  let ?q = "\<lparr>base = mk_asset 60 HBD_SYMBOL, quote = mk_asset 100 HIVE_SYMBOL\<rparr>"
  have t: "trade_amounts exact_fc (mk_asset 60 HBD_SYMBOL) (mk_asset 200 HIVE_SYMBOL) ?p =
      Inr (mk_asset 121 HIVE_SYMBOL, mk_asset 60 HBD_SYMBOL)" by code_simp
  have "price_wf ?p" "price_wf ?q" by code_simp+
  moreover have "crosses ?p ?q" by (simp add: crosses_def mk_asset_def)
  ultimately have "amount (mk_asset 60 HBD_SYMBOL) * amount (quote ?q) < (amount (mk_asset 121 HIVE_SYMBOL) + 1) * amount (base ?q)"
    using trade_fair [OF exact_fc_ok, of ?p ?q "mk_asset 60 HBD_SYMBOL" "mk_asset 200 HIVE_SYMBOL"] t
    by (auto simp: in_i64_def mk_asset_def)
  then show ?thesis using t by (simp add: mk_asset_def)
qed

end
