(* ===== verification/Authority.thy ===== *)
theory Authority
  imports State_Exn "HOL-Library.Word" "HOL-Library.AList"
begin

text \<open>
  Verification of the signatures of a transaction: authorities (\<^verbatim>\<open>authority.hpp\<close>, \<^verbatim>\<open>authority.cpp\<close>), the
  search for approvals of \<^verbatim>\<open>sign_state\<close> (\<^verbatim>\<open>sign_state.hpp\<close>) without the tracing variant, and
  \<^verbatim>\<open>verify_authority\<close> and \<^verbatim>\<open>has_authorization\<close> (\<^verbatim>\<open>transaction_util.cpp\<close>).
\<close>

section \<open>Authorities\<close>

text \<open>A public key is its 33 bytes. The two maps of an authority are lists in the order of their keys.\<close>

type_synonym public_key_type = "8 word list"

record authority =
  weight_threshold :: "32 word"
  account_auths :: "(string \<times> 16 word) list"
  key_auths :: "(public_key_type \<times> 16 word) list"

type_synonym authority_getter = "string \<Rightarrow> authority res"

definition get_keys :: "authority \<Rightarrow> public_key_type list" where
  "get_keys a = map fst (key_auths a)"

definition get_accounts :: "authority \<Rightarrow> string list" where
  "get_accounts a = map fst (account_auths a)"

definition is_impossible :: "authority \<Rightarrow> bool" where
  "is_impossible a \<longleftrightarrow>
     fold (\<lambda>(_, w) t. t + ucast w) (key_auths a) (fold (\<lambda>(_, w) t. t + ucast w) (account_auths a) 0) <
     (ucast (weight_threshold a) :: 64 word)"

definition num_auths :: "authority \<Rightarrow> 32 word" where
  "num_auths a = of_nat (length (account_auths a)) + of_nat (length (key_auths a))"

section \<open>The search for approvals\<close>

definition HIVE_MAX_SIG_CHECK_DEPTH :: nat where "HIVE_MAX_SIG_CHECK_DEPTH = 2"
definition HIVE_MAX_SIG_CHECK_ACCOUNTS :: nat where "HIVE_MAX_SIG_CHECK_ACCOUNTS = 125"
definition HIVE_MAX_AUTHORITY_MEMBERSHIP :: nat where "HIVE_MAX_AUTHORITY_MEMBERSHIP = 40"

record sign_limits =
  allow_strict_and_mixed_authorities :: bool
  recursion_limit :: nat
  membership_limit :: nat
  account_auths_limit :: nat

record sign_state =
  account_auth_count :: nat
  approved_by :: "string set"
  provided_signatures :: "(public_key_type \<times> bool) list"

definition signed_by :: "public_key_type \<Rightarrow> (sign_state, bool) op" where
  "signed_by k =
     bind_s (get_s (\<lambda>s. map_of (provided_signatures s) k)) (\<lambda>itr.
     case itr of
       None \<Rightarrow> ret_s False
     | Some _ \<Rightarrow>
         bind_s (update_s (\<lambda>s. s\<lparr>provided_signatures :=
           map (\<lambda>(j, b). (j, if j = k then True else b)) (provided_signatures s)\<rparr>)) (\<lambda>_.
         ret_s True))"

definition extend_provided_signatures :: "public_key_type list \<Rightarrow> sign_state \<Rightarrow> sign_state" where
  "extend_provided_signatures keys s = s\<lparr>provided_signatures := 
     fold (\<lambda>key. AList.update key False) keys (provided_signatures s)\<rparr>"

definition add_approved :: "string list \<Rightarrow> sign_state \<Rightarrow> sign_state" where
  "add_approved approvals s = s\<lparr>approved_by := set approvals \<union> approved_by s\<rparr>"

definition clear_approved :: "sign_state \<Rightarrow> sign_state" where
  "clear_approved s = s\<lparr>approved_by := {}\<rparr>"

definition remove_unused_signatures :: "(sign_state, bool) op" where
  "remove_unused_signatures =
     bind_s (get_s (\<lambda>s. filter (\<lambda>(k, used). \<not> used) (provided_signatures s))) (\<lambda>remove_sigs.
     bind_s (update_s (\<lambda>s. s\<lparr>provided_signatures := filter (\<lambda>(k, used). used) (provided_signatures s)\<rparr>)) (\<lambda>_.
     ret_s (remove_sigs \<noteq> [])))"

text \<open>\<open>increase_membership\<close> counts one more member; \<open>None\<close> is the end of the check at the limit.\<close>

definition increase_membership :: "sign_limits \<Rightarrow> nat \<Rightarrow> nat option" where
  "increase_membership limits membership =
     (if membership_limit limits > 0 \<and> membership + 1 \<ge> membership_limit limits then None
      else Some (membership + 1))"

text \<open>The loops over the members of an authority. A loop that has decided returns \<open>Inl\<close> the result of
  the check, otherwise the total weight and the number of members so far.\<close>

fun check_keys ::
  "sign_limits \<Rightarrow> 32 word \<Rightarrow> (public_key_type \<times> 16 word) list \<Rightarrow> 32 word \<Rightarrow> nat \<Rightarrow>
   (sign_state, bool + 32 word \<times> nat) op" where
  "check_keys limits threshold [] total_weight membership = ret_s (Inr (total_weight, membership))"
| "check_keys limits threshold ((k, w) # ks) total_weight membership =
     bind_s (signed_by k) (\<lambda>signed.
     let total_weight = (if signed then total_weight + ucast w else total_weight) in
     if signed \<and> total_weight \<ge> threshold then ret_s (Inl True)
     else case increase_membership limits membership of
            None \<Rightarrow> ret_s (Inl False)
          | Some m \<Rightarrow> check_keys limits threshold ks total_weight m)"

text \<open>\<open>nested\<close> is the check of the authority of another account one level deeper, and \<open>None\<close> when the
  depth is at the limit.\<close>

fun check_accounts ::
  "sign_limits \<Rightarrow> authority_getter \<Rightarrow> (authority \<Rightarrow> (sign_state, bool) op) option \<Rightarrow> 32 word \<Rightarrow>
   (string \<times> 16 word) list \<Rightarrow> 32 word \<Rightarrow> nat \<Rightarrow> (sign_state, bool) op" where
  "check_accounts limits get nested threshold [] total_weight membership =
     ret_s (total_weight \<ge> threshold)"
| "check_accounts limits get nested threshold ((a, w) # as) total_weight membership =
     bind_s (get_s id) (\<lambda>s.
     let continue_with = (\<lambda>total_weight.
       case increase_membership limits membership of
         None \<Rightarrow> ret_s False
       | Some m \<Rightarrow> check_accounts limits get nested threshold as total_weight m)
     in
     if a \<notin> approved_by s then
       case nested of
         None \<Rightarrow> check_accounts limits get nested threshold as total_weight membership
       | Some check \<Rightarrow>
           if account_auths_limit limits > 0 \<and> account_auth_count s \<ge> account_auths_limit limits then ret_s False
           else
             bind_s (update_s (\<lambda>s. s\<lparr>account_auth_count := account_auth_count s + 1\<rparr>)) (\<lambda>_.
             bind_s (lift_s (get a)) (\<lambda>account_auth.
             bind_s (check account_auth) (\<lambda>success.
             if success then
               bind_s (update_s (\<lambda>s. s\<lparr>approved_by := insert a (approved_by s)\<rparr>)) (\<lambda>_.
               let total_weight = total_weight + ucast w in
               if total_weight \<ge> threshold then ret_s True else continue_with total_weight)
             else continue_with total_weight)))
     else
       let total_weight = total_weight + ucast w in
       if total_weight \<ge> threshold then ret_s True else continue_with total_weight)"

definition check_members ::
  "sign_limits \<Rightarrow> authority_getter \<Rightarrow> (authority \<Rightarrow> (sign_state, bool) op) option \<Rightarrow> authority \<Rightarrow>
   (sign_state, bool) op" where
  "check_members limits get nested auth =
     bind_s (check_keys limits (weight_threshold auth) (key_auths auth) 0 0) (\<lambda>r.
     case r of
       Inl result \<Rightarrow> ret_s result
     | Inr (total_weight, membership) \<Rightarrow>
         check_accounts limits get nested (weight_threshold auth) (account_auths auth) total_weight membership)"

text \<open>The depth is given by the number of levels left, \<open>recursion_limit - depth\<close>.\<close>

primrec check_authority_impl ::
  "sign_limits \<Rightarrow> authority_getter \<Rightarrow> nat \<Rightarrow> authority \<Rightarrow> (sign_state, bool) op" where
  "check_authority_impl limits get 0 = check_members limits get None"
| "check_authority_impl limits get (Suc levels) =
     check_members limits get (Some (check_authority_impl limits get levels))"

definition check_authority_id :: "sign_limits \<Rightarrow> authority_getter \<Rightarrow> string \<Rightarrow> (sign_state, bool) op" where
  "check_authority_id limits get acc =
     bind_s (lift_s (get acc)) (\<lambda>initial_auth.
     bind_s (get_s approved_by) (\<lambda>approved.
     if acc \<in> approved then ret_s True
     else
       bind_s (update_s (\<lambda>s. s\<lparr>account_auth_count :=
         (if allow_strict_and_mixed_authorities limits then account_auth_count s + 1 else 1)\<rparr>)) (\<lambda>_.
       check_authority_impl limits get (recursion_limit limits) initial_auth)))"

definition check_authority :: "sign_limits \<Rightarrow> authority_getter \<Rightarrow> authority \<Rightarrow> (sign_state, bool) op" where
  "check_authority limits get auth =
     bind_s (update_s (\<lambda>s. if allow_strict_and_mixed_authorities limits then s
                            else s\<lparr>account_auth_count := 0\<rparr>)) (\<lambda>_.
     check_authority_impl limits get (recursion_limit limits) auth)"

section \<open>Verification of a transaction\<close>

text \<open>\<open>missing_other\<close> is the problem the second handler of \<^verbatim>\<open>verify_authority_impl\<close> receives.\<close>

datatype verify_authority_problem =
    mixed_with_posting
  | missing_posting string
  | missing_active string
  | missing_owner string
  | missing_other authority
  | missing_witness string
  | missing_witness_key string
  | unused_signature

record required_authorities_type =
  required_active :: "string list"
  required_owner :: "string list"
  required_posting :: "string list"
  required_witness :: "string list"
  other :: "authority list"

record authority_getters =
  get_active :: authority_getter
  get_owner :: authority_getter
  get_posting :: authority_getter
  get_witness_key :: "string \<Rightarrow> public_key_type res"

text \<open>A check of every element of a sequence, up to the first problem, and the continuation with
  another check when there was none.\<close>

fun check_each :: "('a \<Rightarrow> ('s, 'p option) op) \<Rightarrow> 'a list \<Rightarrow> ('s, 'p option) op" where
  "check_each f [] = ret_s None"
| "check_each f (x # xs) =
     bind_s (f x) (\<lambda>r. case r of Some p \<Rightarrow> ret_s (Some p) | None \<Rightarrow> check_each f xs)"

definition and_then :: "('s, 'p option) op \<Rightarrow> ('s, 'p option) op \<Rightarrow> ('s, 'p option) op" where
  "and_then m n = bind_s m (\<lambda>r. case r of Some p \<Rightarrow> ret_s (Some p) | None \<Rightarrow> n)"

definition problem_unless :: "('s, bool) op \<Rightarrow> 'p \<Rightarrow> ('s, 'p option) op" where
  "problem_unless test p = bind_s test (\<lambda>ok. ret_s (if ok then None else Some p))"

definition or_else :: "('s, bool) op \<Rightarrow> ('s, bool) op \<Rightarrow> ('s, bool) op" where
  "or_else m n = bind_s m (\<lambda>ok. if ok then ret_s True else n)"

definition check_of :: "sign_limits \<Rightarrow> authority_getter \<Rightarrow> authority_getter \<Rightarrow> string \<Rightarrow> (sign_state, bool) op" where
  "check_of limits get get_role acc = bind_s (lift_s (get_role acc)) (check_authority limits get)"

definition check_posting ::
  "sign_limits \<Rightarrow> authority_getters \<Rightarrow> string \<Rightarrow> (sign_state, verify_authority_problem option) op" where
  "check_posting limits g acc =
     problem_unless
       (if allow_strict_and_mixed_authorities limits then check_authority_id limits (get_posting g) acc
        else or_else (check_authority_id limits (get_posting g) acc)
              (or_else (check_of limits (get_posting g) (get_active g) acc)
                       (check_of limits (get_posting g) (get_owner g) acc)))
       (missing_posting acc)"

definition check_active ::
  "sign_limits \<Rightarrow> authority_getters \<Rightarrow> string \<Rightarrow> (sign_state, verify_authority_problem option) op" where
  "check_active limits g acc =
     problem_unless
       (if allow_strict_and_mixed_authorities limits then check_authority_id limits (get_active g) acc
        else or_else (check_authority_id limits (get_active g) acc)
               (check_of limits (get_active g) (get_owner g) acc))
       (missing_active acc)"

definition check_owner ::
  "sign_limits \<Rightarrow> authority_getters \<Rightarrow> string list \<Rightarrow> string \<Rightarrow> (sign_state, verify_authority_problem option) op" where
  "check_owner limits g owner_approvals acc =
     problem_unless
       (if acc \<in> set owner_approvals then ret_s True else check_of limits (get_active g) (get_owner g) acc)
       (missing_owner acc)"

definition check_witness ::
  "authority_getters \<Rightarrow> string \<Rightarrow> (sign_state, verify_authority_problem option) op" where
  "check_witness g acc =
     (case get_witness_key g acc of
        Inl _ \<Rightarrow> ret_s (Some (missing_witness_key acc))
      | Inr signing_key \<Rightarrow> problem_unless (signed_by signing_key) (missing_witness acc))"

definition check_unused :: "bool \<Rightarrow> (sign_state, verify_authority_problem option) op" where
  "check_unused allow_redundant_signatures =
     (if allow_redundant_signatures then ret_s None
      else problem_unless (bind_s remove_unused_signatures (\<lambda>removed. ret_s (\<not> removed))) unused_signature)"

text \<open>The two parts of the verification: the required posting authorities, and the rest.\<close>

definition verify_posting ::
  "sign_limits \<Rightarrow> required_authorities_type \<Rightarrow> authority_getters \<Rightarrow> string list \<Rightarrow>
   (sign_state, verify_authority_problem option) op" where
  "verify_posting limits req g posting_approvals =
     and_then
       (ret_s (if \<not> allow_strict_and_mixed_authorities limits \<and>
                  \<not> (required_active req = [] \<and> required_owner req = [] \<and> required_witness req = [] \<and> other req = [])
               then Some mixed_with_posting else None))
       (bind_s (update_s (add_approved posting_approvals)) (\<lambda>_.
        check_each (check_posting limits g) (required_posting req)))"

definition verify_rest ::
  "sign_limits \<Rightarrow> bool \<Rightarrow> required_authorities_type \<Rightarrow> authority_getters \<Rightarrow> string list \<Rightarrow> string list \<Rightarrow>
   (sign_state, verify_authority_problem option) op" where
  "verify_rest limits allow_redundant_signatures req g active_approvals owner_approvals =
     bind_s (update_s (add_approved owner_approvals \<circ> add_approved active_approvals \<circ> clear_approved)) (\<lambda>_.
       and_then (check_each (\<lambda>auth. problem_unless (check_authority limits (get_active g) auth)
                                       (missing_other auth)) (other req))
      (and_then (check_each (check_active limits g) (required_active req))
      (and_then (check_each (check_owner limits g owner_approvals) (required_owner req))
      (and_then (check_each (check_witness g) (required_witness req))
         (check_unused allow_redundant_signatures)))))"

definition verify_authority_impl ::
  "sign_limits \<Rightarrow> bool \<Rightarrow> required_authorities_type \<Rightarrow> public_key_type list \<Rightarrow> authority_getters \<Rightarrow>
   string list \<Rightarrow> string list \<Rightarrow> string list \<Rightarrow> verify_authority_problem option res" where
  "verify_authority_impl limits allow_redundant_signatures req sigs g
      active_approvals owner_approvals posting_approvals =
     (let s = extend_provided_signatures sigs \<lparr>account_auth_count = 0, approved_by = {}, provided_signatures = []\<rparr>;
          rest = verify_rest limits allow_redundant_signatures req g active_approvals owner_approvals
      in map_sum id fst
        ((if required_posting req = [] then rest
          else and_then (verify_posting limits req g posting_approvals)
                 (if allow_strict_and_mixed_authorities limits then rest
                  else check_unused allow_redundant_signatures)) s))"

text \<open>\<^verbatim>\<open>verify_authority\<close> throws for the first problem, \<^verbatim>\<open>has_authorization\<close> reports whether there is one;
  an exception of a getter reaches the caller of both.\<close>

definition verify_authority ::
  "sign_limits \<Rightarrow> bool \<Rightarrow> required_authorities_type \<Rightarrow> public_key_type list \<Rightarrow> authority_getters \<Rightarrow>
   string list \<Rightarrow> string list \<Rightarrow> string list \<Rightarrow> unit res" where
  "verify_authority limits allow_redundant_signatures req sigs g active_approvals owner_approvals posting_approvals =
     bind_r (verify_authority_impl limits allow_redundant_signatures req sigs g
               active_approvals owner_approvals posting_approvals) (\<lambda>problem.
     check_r (problem = None) ''missing authority or irrelevant signature'')"

definition has_authorization ::
  "bool \<Rightarrow> bool \<Rightarrow> required_authorities_type \<Rightarrow> public_key_type list \<Rightarrow> authority_getters \<Rightarrow> bool res" where
  "has_authorization strict allow_redundant_signatures req sigs g =
     bind_r (verify_authority_impl
        \<lparr>allow_strict_and_mixed_authorities = strict, recursion_limit = HIVE_MAX_SIG_CHECK_DEPTH,
         membership_limit = HIVE_MAX_AUTHORITY_MEMBERSHIP, account_auths_limit = HIVE_MAX_SIG_CHECK_ACCOUNTS\<rparr>
        allow_redundant_signatures req sigs g [] [] []) (\<lambda>problem. Inr (problem = None))"

end
