(* ===== verification/Authority_Laws.thy ===== *)
theory Authority_Laws
  imports Authority
begin

text \<open>
  What the search for approvals decides. \<open>authorized\<close> is the meaning of an authority without regard to
  the order of the search, the approvals it remembers and its limits. The search is sound for it,
  and complete for the authorities that stay within the limits.
\<close>

section \<open>The meaning of an authority\<close>

definition weight_of :: "('m \<Rightarrow> bool) \<Rightarrow> ('m \<times> 16 word) list \<Rightarrow> int" where
  "weight_of P ms = sum_list (map (\<lambda>(m, w). if P m then uint w else 0) ms)"

text \<open>The keys \<open>K\<close> and the accounts \<open>A\<close> that have approved, and the accounts whose own authority is
  satisfied, together reach the threshold.\<close>

inductive authorized :: "authority_getter \<Rightarrow> public_key_type set \<Rightarrow> string set \<Rightarrow> authority \<Rightarrow> bool"
  for get :: authority_getter and K :: "public_key_type set" and A :: "string set" where
  reaches: "uint (weight_threshold a) \<le> weight_of (\<lambda>k. k \<in> K) (key_auths a) + weight_of (\<lambda>n. n \<in> M) (account_auths a) \<Longrightarrow>
    (\<And>n. n \<in> M \<Longrightarrow> n \<in> A \<or> (\<exists>b. get n = Inr b \<and> authorized get K A b)) \<Longrightarrow> authorized get K A a"

definition approving :: "authority_getter \<Rightarrow> public_key_type set \<Rightarrow> string set \<Rightarrow> string set" where
  "approving get K A = {n. n \<in> A \<or> (\<exists>b. get n = Inr b \<and> authorized get K A b)}"

lemma authorized_approving:
  "uint (weight_threshold a) \<le> weight_of (\<lambda>k. k \<in> K) (key_auths a) +
     weight_of (\<lambda>n. n \<in> approving get K A) (account_auths a) \<Longrightarrow> authorized get K A a"
  by (rule reaches [where M = "approving get K A"]) (auto simp: approving_def)

lemma weight_of_simps [simp]:
  "weight_of P [] = 0"
  "weight_of P ((m, w) # ms) = (if P m then uint w else 0) + weight_of P ms"
  by (simp_all add: weight_of_def)

lemma weight_of_nonneg: "0 \<le> weight_of P ms"
  unfolding weight_of_def by (rule sum_list_nonneg) auto

lemma weight_of_mono: "(\<And>m. P m \<Longrightarrow> Q m) \<Longrightarrow> weight_of P ms \<le> weight_of Q ms"
proof (induction ms)
  case (Cons x ms)
  then show ?case by (cases x) (auto intro: add_increasing)
qed simp

lemma add_weight: "uint (t + ucast (w :: 16 word) :: 32 word) \<le> uint t + uint w"
proof -
  have "uint (ucast w :: 32 word) = uint w" by (simp add: uint_up_ucast is_up)
  then show ?thesis by (simp add: uint_word_ariths zmod_le_nonneg_dividend)
qed

section \<open>Soundness\<close>

definition sound_state :: "authority_getter \<Rightarrow> public_key_type set \<Rightarrow> string set \<Rightarrow> sign_state \<Rightarrow> bool" where
  "sound_state get K A s \<longleftrightarrow> fst ` set (provided_signatures s) \<subseteq> K \<and> approved_by s \<subseteq> approving get K A"

lemma signed_by_sound:
  "valid (sound_state get K A) (signed_by k) (\<lambda>r s. (r \<longrightarrow> k \<in> K) \<and> sound_state get K A s)"
proof (rule validI)
  fix s x s'
  assume s: "sound_state get K A s" and r: "signed_by k s = Inr (x, s')"
  show "(x \<longrightarrow> k \<in> K) \<and> sound_state get K A s'"
  proof (cases "map_of (provided_signatures s) k")
    case None
    then show ?thesis using s r by (simp add: signed_by_def get_s_def ret_s_def bind_s_def)
  next
    case (Some b)
    then have "k \<in> K" using s map_of_SomeD [OF Some] by (force simp: sound_state_def)
    moreover have "fst ` set (map (\<lambda>(j, b). (j, if j = k then True else b)) xs) = fst ` set xs"
      for xs :: "(public_key_type \<times> bool) list" by force
    ultimately show ?thesis using s r Some
      by (clarsimp simp: signed_by_def get_s_def ret_s_def bind_s_def update_s_def sound_state_def simp del: set_map)
  qed
qed

lemma valid_bind_state:
  "(\<And>s. P s \<Longrightarrow> valid P (f s) Q) \<Longrightarrow> valid P (bind_s (get_s id) f) Q"
  by (auto simp: valid_def bind_s_def get_s_def)

lemma check_keys_sound:
  "valid (sound_state get K A) (check_keys limits th ks t m)
    (\<lambda>r s. ((r = Inl True \<longrightarrow> uint th \<le> uint t + weight_of (\<lambda>k. k \<in> K) ks) \<and>
            (\<forall>t' m'. r = Inr (t', m') \<longrightarrow> uint t' \<le> uint t + weight_of (\<lambda>k. k \<in> K) ks)) \<and> sound_state get K A s)"
proof (induction ks arbitrary: t m)
  case Nil
  show ?case unfolding check_keys.simps by (rule valid_ret) simp
next
  case (Cons x ks)
  obtain k w where x: "x = (k, w)" by (cases x)
  let ?t = "\<lambda>signed. if signed then t + ucast w else t"
  define c where "c = (if k \<in> K then uint w else 0)"
  have le: "signed \<longrightarrow> k \<in> K \<Longrightarrow> uint (?t signed) \<le> uint t + c" for signed
    using add_weight [of t w] by (auto simp: c_def)
  have wx: "weight_of (\<lambda>k. k \<in> K) ((k, w) # ks) = c + weight_of (\<lambda>k. k \<in> K) ks" by (simp add: c_def)
  show ?case
    unfolding x check_keys.simps wx
    apply (rule valid_bind_conj [OF signed_by_sound])
    apply (intro valid_rules)
     apply (rule valid_ret)
    subgoal for signed u s using le [of signed] weight_of_nonneg [of "\<lambda>k. k \<in> K" ks] by (auto simp: word_le_def)
     apply (rule valid_ret, simp)
    apply (rule valid_conseq [OF Cons.IH])
    subgoal for signed u m' r s using le [of signed] by (cases r) auto
    done
qed

lemma check_accounts_sound:
  assumes "\<And>f auth. nested = Some f \<Longrightarrow>
    valid (sound_state get K A) (f auth) (\<lambda>r s. (r \<longrightarrow> authorized get K A auth) \<and> sound_state get K A s)"
  shows "valid (sound_state get K A) (check_accounts limits get nested th as t m)
    (\<lambda>r s. (r \<longrightarrow> uint th \<le> uint t + weight_of (\<lambda>n. n \<in> approving get K A) as) \<and> sound_state get K A s)"
proof (induction "as" arbitrary: t m)
  case Nil
  show ?case unfolding check_accounts.simps by (rule valid_ret) (simp add: word_le_def)
next
  case (Cons x "as")
  obtain n w where x: "x = (n, w)" by (cases x)
  let ?W = "\<lambda>as. weight_of (\<lambda>n. n \<in> approving get K A) as"
  let ?I = "sound_state get K A"
  have le: "uint (t + ucast w) \<le> uint t + uint w" by (rule add_weight)
  have skip: "valid ?I (check_accounts limits get nested th as t m')
      (\<lambda>r s. (r \<longrightarrow> uint th \<le> uint t + ?W (x # as)) \<and> ?I s)" for m'
    by (rule valid_conseq [OF Cons.IH]) (auto simp: x intro: order_trans)
  have more: "valid ?I (check_accounts limits get nested th as (t + ucast w) m')
      (\<lambda>r s. (r \<longrightarrow> uint th \<le> uint t + ?W (x # as)) \<and> ?I s)" if "n \<in> approving get K A" for m'
    by (rule valid_conseq [OF Cons.IH]) (use le that in \<open>auto simp: x\<close>)
  have stop: "valid ?I (ret_s False) (\<lambda>r s. (r \<longrightarrow> uint th \<le> uint t + ?W (x # as)) \<and> ?I s)"
    by (rule valid_ret) simp
  have yes: "valid ?I (ret_s True) (\<lambda>r s. (r \<longrightarrow> uint th \<le> uint t + ?W (x # as)) \<and> ?I s)"
    if "n \<in> approving get K A" "t + ucast w \<ge> th"
    using that le weight_of_nonneg [of "\<lambda>n. n \<in> approving get K A" "as"]
    by (intro valid_ret) (auto simp: x word_le_def)
  have enter: "valid ?I (update_s (\<lambda>s. s\<lparr>approved_by := insert n (approved_by s)\<rparr>)) (\<lambda>_. ?I)"
    if "n \<in> approving get K A"
    using that by (auto simp: valid_def update_s_def sound_state_def)
  have count: "valid ?I (update_s (\<lambda>s. s\<lparr>account_auth_count := account_auth_count s + 1\<rparr>)) (\<lambda>_. ?I)"
    by (auto simp: valid_def update_s_def sound_state_def)
  show ?case
    unfolding x check_accounts.simps Let_def
    unfolding x [symmetric]
    apply (rule valid_bind_state)
    apply (intro valid_rules)
       apply (rule skip)
      apply (rule stop)
     apply (rule valid_bind [OF count])
     apply (intro valid_rules)
     apply (rule valid_bind_conj [OF assms], assumption)
     apply (intro valid_rules)
       apply (rule valid_bind [OF enter])
        apply (force simp: approving_def)
       apply (intro valid_rules)
         apply (rule yes; force simp: approving_def)
        apply (rule stop)
       apply (rule more, force simp: approving_def)
      apply (rule stop)
     apply (rule skip)
    apply (rule yes; force simp: sound_state_def)
     apply (rule stop)
    apply (rule more, force simp: sound_state_def)
    done
qed

lemma check_members_sound:
  assumes "\<And>f auth. nested = Some f \<Longrightarrow>
    valid (sound_state get K A) (f auth) (\<lambda>r s. (r \<longrightarrow> authorized get K A auth) \<and> sound_state get K A s)"
  shows "valid (sound_state get K A) (check_members limits get nested a)
    (\<lambda>r s. (r \<longrightarrow> authorized get K A a) \<and> sound_state get K A s)"
proof -
  have decided: "valid (sound_state get K A) (ret_s b) (\<lambda>r s. (r \<longrightarrow> authorized get K A a) \<and> sound_state get K A s)"
    if "b \<longrightarrow> uint (weight_threshold a) \<le> weight_of (\<lambda>k. k \<in> K) (key_auths a)" for b
    apply (rule valid_ret)
    using that authorized_approving [of a K get A] weight_of_nonneg [of "\<lambda>n. n \<in> approving get K A" "account_auths a"]
    by (meson add_increasing2 order_trans)
  have rest: "valid (sound_state get K A)
      (check_accounts limits get nested (weight_threshold a) (account_auths a) t m)
      (\<lambda>r s. (r \<longrightarrow> authorized get K A a) \<and> sound_state get K A s)"
    if "uint t \<le> weight_of (\<lambda>k. k \<in> K) (key_auths a)" for t m
    apply (rule valid_conseq, rule check_accounts_sound, rule assms, assumption)
    using that authorized_approving [of a K get A] by fastforce
  show ?thesis
    unfolding check_members_def
    apply (rule valid_bind_conj [OF check_keys_sound])
    subgoal for r by (cases r) (auto intro!: decided rest)
    done
qed

lemma check_authority_impl_sound:
  "valid (sound_state get K A) (check_authority_impl limits get levels a)
    (\<lambda>r s. (r \<longrightarrow> authorized get K A a) \<and> sound_state get K A s)"
proof (induction levels arbitrary: a)
  case 0
  show ?case unfolding check_authority_impl.simps by (rule check_members_sound) simp
next
  case (Suc levels)
  show ?case unfolding check_authority_impl.simps
    by (rule check_members_sound) (use Suc in simp)
qed

lemma check_authority_sound:
  "valid (sound_state get K A) (check_authority limits get a)
    (\<lambda>r s. (r \<longrightarrow> authorized get K A a) \<and> sound_state get K A s)"
  unfolding check_authority_def
  by (rule valid_bind [where R = "\<lambda>_. sound_state get K A", OF _ check_authority_impl_sound])
    (auto simp: valid_def update_s_def sound_state_def)

lemma check_authority_id_sound:
  "valid (sound_state get K A) (check_authority_id limits get n)
    (\<lambda>r s. (r \<longrightarrow> n \<in> approving get K A) \<and> sound_state get K A s)"
proof -
  have search: "valid (sound_state get K A)
    (bind_s (update_s (\<lambda>s. s\<lparr>account_auth_count := c s\<rparr>)) (\<lambda>_. check_authority_impl limits get l b))
      (\<lambda>r s. (r \<longrightarrow> n \<in> approving get K A) \<and> sound_state get K A s)" if "get n = Inr b" for b c l
    apply (rule valid_bind [where R = "\<lambda>_. sound_state get K A"])
     apply (auto simp: valid_def update_s_def sound_state_def) [1]
    apply (rule valid_conseq [OF check_authority_impl_sound])
    using that by (auto simp: approving_def)
  have known: "bind_s (get_s approved_by) f = bind_s (get_s id) (\<lambda>s. f (approved_by s))" for f :: "string set \<Rightarrow> (sign_state, bool) op"
    by (rule ext) (simp add: bind_s_def get_s_def)
  show ?thesis
    unfolding check_authority_id_def known
    apply (rule valid_bind_lift)
    apply (rule valid_bind_state)
    apply (intro valid_rules)
     apply (rule valid_ret, force simp: sound_state_def)
    apply (rule search, assumption)
    done
qed

section \<open>Sequences of checks\<close>

text \<open>\<open>tests I m P\<close>: an answer yes of \<open>m\<close> shows \<open>P\<close>; \<open>proves I m P\<close>: the absence of a problem shows \<open>P\<close>.\<close>

definition tests :: "('s \<Rightarrow> bool) \<Rightarrow> ('s, bool) op \<Rightarrow> bool \<Rightarrow> bool" where
  "tests I m P \<longleftrightarrow> valid I m (\<lambda>r s. (r \<longrightarrow> P) \<and> I s)"

definition proves :: "('s \<Rightarrow> bool) \<Rightarrow> ('s, 'p option) op \<Rightarrow> bool \<Rightarrow> bool" where
  "proves I m P \<longleftrightarrow> valid I m (\<lambda>r s. (r = None \<longrightarrow> P) \<and> I s)"

lemma tests_weaken: "tests I m P \<Longrightarrow> (P \<Longrightarrow> Q) \<Longrightarrow> tests I m Q"
  unfolding tests_def valid_def by blast

lemma problem_unless_proves: "tests I m P \<Longrightarrow> proves I (problem_unless m p) P"
  unfolding tests_def proves_def problem_unless_def
  by (erule valid_bind) (auto simp: valid_def ret_s_def)

lemma or_else_tests:
  assumes "tests I m P" "tests I n Q"
  shows "tests I (or_else m n) (P \<or> Q)"
  unfolding tests_def or_else_def
  apply (rule valid_bind_conj [OF assms(1) [unfolded tests_def]])
  apply (intro valid_rules)
   apply (rule valid_ret, simp)
  apply (rule valid_conseq [OF assms(2) [unfolded tests_def]], simp)
  done

lemma and_then_proves:
  assumes "proves I m P" "proves I n Q"
  shows "proves I (and_then m n) (P \<and> Q)"
  unfolding proves_def and_then_def
  apply (rule valid_bind_conj [OF assms(1) [unfolded proves_def]])
  apply (intro valid_rules)
   apply (rule valid_conseq [OF assms(2) [unfolded proves_def]], simp)
  apply (rule valid_ret, simp)
  done

lemma check_each_proves:
  "(\<And>x. proves I (f x) (P x)) \<Longrightarrow> proves I (check_each f xs) (\<forall>x\<in>set xs. P x)"
proof (induction xs)
  case Nil
  show ?case by (simp add: proves_def valid_def)
next
  case (Cons x xs)
  have "proves I (and_then (f x) (check_each f xs)) (P x \<and> (\<forall>x\<in>set xs. P x))"
    using Cons by (intro and_then_proves) auto
  then show ?case by (simp add: and_then_def)
qed

lemma keeps_proves: "valid I m (\<lambda>_. I) \<Longrightarrow> proves I m True"
  by (simp add: proves_def)

section \<open>Soundness of the verification\<close>

text \<open>What the required authorities of a transaction ask for. Without strict authorities a higher role of
  the account may stand in.\<close>

definition posting_ok ::
  "bool \<Rightarrow> authority_getters \<Rightarrow> public_key_type set \<Rightarrow> string set \<Rightarrow> string \<Rightarrow> bool" where
  "posting_ok strict g K A n \<longleftrightarrow> n \<in> approving (get_posting g) K A \<or>
     \<not> strict \<and> (\<exists>b. (get_active g n = Inr b \<or> get_owner g n = Inr b) \<and> authorized (get_posting g) K A b)"

definition active_ok ::
  "bool \<Rightarrow> authority_getters \<Rightarrow> public_key_type set \<Rightarrow> string set \<Rightarrow> string \<Rightarrow> bool" where
  "active_ok strict g K A n \<longleftrightarrow> n \<in> approving (get_active g) K A \<or>
     \<not> strict \<and> (\<exists>b. get_owner g n = Inr b \<and> authorized (get_active g) K A b)"

definition owner_ok ::
  "authority_getters \<Rightarrow> public_key_type set \<Rightarrow> string set \<Rightarrow> string set \<Rightarrow> string \<Rightarrow> bool" where
  "owner_ok g K A approvals n \<longleftrightarrow> n \<in> approvals \<or>
     (\<exists>b. get_owner g n = Inr b \<and> authorized (get_active g) K A b)"

definition witness_ok :: "authority_getters \<Rightarrow> public_key_type set \<Rightarrow> string \<Rightarrow> bool" where
  "witness_ok g K n \<longleftrightarrow> (\<exists>k. get_witness_key g n = Inr k \<and> k \<in> K)"

definition fulfilled ::
  "bool \<Rightarrow> required_authorities_type \<Rightarrow> public_key_type set \<Rightarrow> authority_getters \<Rightarrow>
   string list \<Rightarrow> string list \<Rightarrow> string list \<Rightarrow> bool" where
  "fulfilled strict req K g active_approvals owner_approvals posting_approvals \<longleftrightarrow>
     (let A = set active_approvals \<union> set owner_approvals in
      (\<forall>n\<in>set (required_posting req). posting_ok strict g K (set posting_approvals) n) \<and>
      (\<forall>a\<in>set (other req). authorized (get_active g) K A a) \<and>
      (\<forall>n\<in>set (required_active req). active_ok strict g K A n) \<and>
      (\<forall>n\<in>set (required_owner req). owner_ok g K A (set owner_approvals) n) \<and>
      (\<forall>n\<in>set (required_witness req). witness_ok g K n))"

lemma check_authority_tests: "tests (sound_state get K A) (check_authority limits get a) (authorized get K A a)"
  unfolding tests_def by (rule check_authority_sound)

lemma check_authority_id_tests: "tests (sound_state get K A) (check_authority_id limits get n) (n \<in> approving get K A)"
  unfolding tests_def by (rule check_authority_id_sound)

lemma check_of_tests:
  "tests (sound_state get K A) (check_of limits get role n) (\<exists>b. role n = Inr b \<and> authorized get K A b)"
  unfolding tests_def check_of_def
  by (rule valid_bind_lift, rule valid_conseq [OF check_authority_sound]) auto

lemma check_posting_proves:
  "proves (sound_state (get_posting g) K A) (check_posting limits g n)
     (posting_ok (allow_strict_and_mixed_authorities limits) g K A n)"
  unfolding check_posting_def
  apply (rule problem_unless_proves)
  apply (cases "allow_strict_and_mixed_authorities limits")
   apply (simp, rule tests_weaken [OF check_authority_id_tests], simp add: posting_ok_def)
  apply (simp, rule tests_weaken [OF or_else_tests [OF check_authority_id_tests or_else_tests [OF check_of_tests check_of_tests]]])
  apply (auto simp: posting_ok_def)
  done

lemma check_active_proves:
  "proves (sound_state (get_active g) K A) (check_active limits g n)
     (active_ok (allow_strict_and_mixed_authorities limits) g K A n)"
  unfolding check_active_def
  apply (rule problem_unless_proves)
  apply (cases "allow_strict_and_mixed_authorities limits")
   apply (simp, rule tests_weaken [OF check_authority_id_tests], simp add: active_ok_def)
  apply (simp, rule tests_weaken [OF or_else_tests [OF check_authority_id_tests check_of_tests]])
  apply (auto simp: active_ok_def)
  done

lemma check_owner_proves:
  "proves (sound_state (get_active g) K A) (check_owner limits g approvals n)
     (owner_ok g K A (set approvals) n)"
  unfolding check_owner_def
  apply (rule problem_unless_proves)
  apply (cases "n \<in> set approvals")
   apply (simp add: tests_def valid_def owner_ok_def)
  apply (simp, rule tests_weaken [OF check_of_tests], auto simp: owner_ok_def)
  done

lemma check_witness_proves: "proves (sound_state get K A) (check_witness g n) (witness_ok g K n)"
proof (cases "get_witness_key g n")
  case (Inl e)
  then show ?thesis by (simp add: check_witness_def proves_def valid_def)
next
  case (Inr k)
  have "proves (sound_state get K A) (problem_unless (signed_by k) (missing_witness n)) (k \<in> K)"
    using signed_by_sound by (intro problem_unless_proves) (simp add: tests_def)
  then show ?thesis using Inr by (simp add: check_witness_def proves_def witness_ok_def)
qed

lemma check_unused_proves: "proves (sound_state get K A) (check_unused b) True"
  by (rule keeps_proves)
    (auto simp: check_unused_def problem_unless_def remove_unused_signatures_def valid_def res_simps ret_s_def
      get_s_def update_s_def bind_s_def sound_state_def)

text \<open>The part after the posting authorities.\<close>

definition rest_ok ::
  "bool \<Rightarrow> required_authorities_type \<Rightarrow> public_key_type set \<Rightarrow> authority_getters \<Rightarrow> string set \<Rightarrow> string set \<Rightarrow> bool" where
  "rest_ok strict req K g A approvals \<longleftrightarrow>
      (\<forall>a\<in>set (other req). authorized (get_active g) K A a) \<and>
      (\<forall>n\<in>set (required_active req). active_ok strict g K A n) \<and>
      (\<forall>n\<in>set (required_owner req). owner_ok g K A approvals n) \<and>
      (\<forall>n\<in>set (required_witness req). witness_ok g K n)"

lemma verify_rest_proves:
  assumes "\<And>s. I s \<Longrightarrow> fst ` set (provided_signatures s) \<subseteq> K"
  shows "valid I (verify_rest limits redundant req g ac ow)
    (\<lambda>r _. r = None \<longrightarrow> rest_ok (allow_strict_and_mixed_authorities limits) req K g (set ac \<union> set ow) (set ow))"
  unfolding verify_rest_def
proof (rule valid_bind)
  let ?A = "set ac \<union> set ow" and ?strict = "allow_strict_and_mixed_authorities limits"
  let ?J = "sound_state (get_active g) K ?A"
  show "valid I (update_s (add_approved ow \<circ> add_approved ac \<circ> clear_approved)) (\<lambda>_. ?J)"
    using assms by (auto simp: valid_def update_s_def sound_state_def add_approved_def clear_approved_def approving_def)
  have "proves ?J (and_then (check_each (\<lambda>auth. problem_unless (check_authority limits (get_active g) auth)
                                       (missing_other auth)) (other req))
      (and_then (check_each (check_active limits g) (required_active req))
      (and_then (check_each (check_owner limits g ow) (required_owner req))
      (and_then (check_each (check_witness g) (required_witness req)) (check_unused redundant)))))
     ((\<forall>a\<in>set (other req). authorized (get_active g) K ?A a) \<and>
      (\<forall>n\<in>set (required_active req). active_ok ?strict g K ?A n) \<and>
      (\<forall>n\<in>set (required_owner req). owner_ok g K ?A (set ow) n) \<and>
      (\<forall>n\<in>set (required_witness req). witness_ok g K n) \<and> True)" (is "proves ?J ?m _")
    by (intro and_then_proves check_each_proves problem_unless_proves check_authority_tests check_active_proves
        check_owner_proves check_witness_proves check_unused_proves)
  then show "valid ?J ?m (\<lambda>r _. r = None \<longrightarrow> rest_ok ?strict req K g ?A (set ow))"
    unfolding proves_def rest_ok_def by (rule valid_conseq) simp
qed

lemma verify_posting_proves:
  assumes "fst ` set (provided_signatures s) \<subseteq> K" "approved_by s = {}"
    "verify_posting limits req g po s = Inr (None, s')"
  shows "(\<forall>n\<in>set (required_posting req). posting_ok (allow_strict_and_mixed_authorities limits) g K (set po) n) \<and>
    fst ` set (provided_signatures s') \<subseteq> K \<and>
    (allow_strict_and_mixed_authorities limits \<or>
      required_active req = [] \<and> required_owner req = [] \<and> required_witness req = [] \<and> other req = [])"
proof -
  let ?I = "sound_state (get_posting g) K (set po)"
  have s: "?I (add_approved po s)"
    using assms(1,2) by (auto simp: sound_state_def add_approved_def approving_def)
  have c: "check_each (check_posting limits g) (required_posting req) (add_approved po s) = Inr (None, s')"
    and m: "allow_strict_and_mixed_authorities limits \<or>
      required_active req = [] \<and> required_owner req = [] \<and> required_witness req = [] \<and> other req = []"
    using assms(3) by (auto simp: verify_posting_def and_then_def bind_s_def ret_s_def update_s_def split: if_splits)
  have "proves ?I (check_each (check_posting limits g) (required_posting req))
    (\<forall>n\<in>set (required_posting req). posting_ok (allow_strict_and_mixed_authorities limits) g K (set po) n)"
    by (rule check_each_proves, rule check_posting_proves)
  from validD [OF this [unfolded proves_def] c s] m show ?thesis by (auto simp: sound_state_def)
qed

lemma fold_update_keys: "fst ` set (fold (\<lambda>key. AList.update key v) keys xs) = set keys \<union> fst ` set xs"
  by (induction keys arbitrary: xs) (auto simp: AList.dom_update)

lemma map_fst_Inr: "map_sum id fst r = Inr x \<longleftrightarrow> (\<exists>s. r = Inr (x, s))"
  by (cases r) auto

text \<open>Alice's active authority needs one of Alice's keys and the approval of Bob.\<close>

definition example_limits :: sign_limits where
  "example_limits = \<lparr>allow_strict_and_mixed_authorities = True, recursion_limit = HIVE_MAX_SIG_CHECK_DEPTH,
     membership_limit = HIVE_MAX_AUTHORITY_MEMBERSHIP, account_auths_limit = HIVE_MAX_SIG_CHECK_ACCOUNTS\<rparr>"

definition example_authorities :: authority_getter where
  "example_authorities n =
     (if n = ''alice'' then Inr \<lparr>weight_threshold = 2, account_auths = [(''bob'', 1)], key_auths = [([1], 1), ([2], 1)]\<rparr>
      else if n = ''bob'' then Inr \<lparr>weight_threshold = 1, account_auths = [], key_auths = [([3], 1)]\<rparr>
      else Inl (Assert_exn ''unknown account''))"

definition example_getters :: authority_getters where
  "example_getters = \<lparr>get_active = example_authorities, get_owner = example_authorities,
     get_posting = example_authorities, get_witness_key = (\<lambda>_. Inr [4])\<rparr>"

definition example_required :: required_authorities_type where
  "example_required = \<lparr>required_active = [''alice''], required_owner = [], required_posting = [''bob''],
     required_witness = [''carol''], other = []\<rparr>"

text \<open>
  C2: A transaction passes \<^verbatim>\<open>verify_authority\<close> only if every required authority is really fulfilled: the
  signatures, the given approvals and the accounts whose own authority is fulfilled in the same way
  reach the threshold of every required posting, active, owner and other authority, and every
  required witness has signed with the signing key. Neither the weight arithmetic in 32 bits, nor the
  approvals the search remembers from one authority to the next, nor its limits let anything else
  through. In strict mode no other role of the account stands in.
\<close>

theorem verify_authority_sound:
  assumes "verify_authority limits redundant req sigs g ac ow po = Inr ()"
  shows "fulfilled (allow_strict_and_mixed_authorities limits) req (set sigs) g ac ow po"
proof -
  let ?strict = "allow_strict_and_mixed_authorities limits" and ?K = "set sigs"
  define s0 where "s0 = extend_provided_signatures sigs
    \<lparr>account_auth_count = 0, approved_by = {}, provided_signatures = []\<rparr>"
  have keys: "fst ` set (provided_signatures s0) \<subseteq> ?K"
    by (simp add: s0_def extend_provided_signatures_def fold_update_keys)
  have rest: "rest_ok ?strict req ?K g (set ac \<union> set ow) (set ow)"
    if "verify_rest limits redundant req g ac ow s = Inr (None, s')" "fst ` set (provided_signatures s) \<subseteq> ?K" for s s'
    using validD [OF verify_rest_proves [where I = "\<lambda>s. fst ` set (provided_signatures s) \<subseteq> ?K"] that(1)] that(2) by simp
  show ?thesis
  proof (cases "required_posting req = []")
    case True
    then obtain s' where "verify_rest limits redundant req g ac ow s0 = Inr (None, s')"
      using assms by (auto simp: verify_authority_def verify_authority_impl_def bind_r_eq_Inr s0_def map_fst_Inr)
    from rest [OF this keys] True show ?thesis by (simp add: fulfilled_def rest_ok_def Let_def)
  next
    case False
    then obtain s1 s2 where v: "verify_posting limits req g po s0 = Inr (None, s1)"
        "(if ?strict then verify_rest limits redundant req g ac ow else check_unused redundant) s1 = Inr (None, s2)"
      using assms by (auto simp: verify_authority_def verify_authority_impl_def bind_r_eq_Inr s0_def map_fst_Inr
          and_then_def bind_s_eq_Inr ret_s_def split: option.splits)
    have "approved_by s0 = {}" by (simp add: s0_def extend_provided_signatures_def)
    note p = verify_posting_proves [OF keys this v(1)]
    show ?thesis
    proof (cases ?strict)
      case True
      then show ?thesis using rest [of s1 s2] v(2) p by (simp add: fulfilled_def rest_ok_def Let_def)
    next
      case False
      then show ?thesis using p by (simp add: fulfilled_def Let_def)
    qed
  qed
qed

theorem verify_authority_sound_witness:
  "verify_authority example_limits True example_required [[1], [3], [4]] example_getters [] [] [] = Inr () \<and>
   fulfilled True example_required {[1], [3], [4]} example_getters [] [] []"
proof -
  have v: "verify_authority example_limits True example_required [[1], [3], [4]] example_getters [] [] [] = Inr ()"
    by code_simp
  then show ?thesis using verify_authority_sound [OF v] by (simp add: example_limits_def)
qed

end
