(* ===== verification/Authority_Complete.thy ===== *)
theory Authority_Complete
  imports Authority_Laws
begin

text \<open>
  The search for approvals finds every approval within its limits: signatures that satisfy an
  authority within the allowed depth are accepted, as long as the number of accounts to visit stays
  within the limit.
\<close>

section \<open>Approvals within a depth\<close>

definition of_account :: "authority_getter \<Rightarrow> 'v \<Rightarrow> (authority \<Rightarrow> 'v) \<Rightarrow> string \<Rightarrow> 'v" where
  "of_account get z f n = (case get n of Inl _ \<Rightarrow> z | Inr b \<Rightarrow> f b)"

primrec grants :: "authority_getter \<Rightarrow> public_key_type set \<Rightarrow> nat \<Rightarrow> authority \<Rightarrow> bool" where
  "grants get K 0 = (\<lambda>a. uint (weight_threshold a) \<le> weight_of (\<lambda>k. k \<in> K) (key_auths a))"
| "grants get K (Suc d) = (\<lambda>a. uint (weight_threshold a) \<le>
     weight_of (\<lambda>k. k \<in> K) (key_auths a) + weight_of (of_account get False (grants get K d)) (account_auths a))"

text \<open>The number of accounts whose authority the search may have to look up.\<close>

definition cost_of :: "(string \<Rightarrow> nat) \<Rightarrow> (string \<times> 16 word) list \<Rightarrow> nat" where
  "cost_of c as = sum_list (map (\<lambda>(n, _). 1 + c n) as)"

primrec visits :: "authority_getter \<Rightarrow> nat \<Rightarrow> authority \<Rightarrow> nat" where
  "visits get 0 = (\<lambda>_. 0)"
| "visits get (Suc d) = (\<lambda>a. cost_of (of_account get 0 (visits get d)) (account_auths a))"

text \<open>The authorities in reach exist, are not open to everyone, and have no more members than allowed
  and than the 32 bits of the weight can hold.\<close>

definition moderate :: "sign_limits \<Rightarrow> authority \<Rightarrow> bool" where
  "moderate limits a \<longleftrightarrow> 0 < weight_threshold a \<and> length (key_auths a) + length (account_auths a) \<le> 65536 \<and>
     (membership_limit limits = 0 \<or> length (key_auths a) + length (account_auths a) \<le> membership_limit limits)"

primrec within :: "sign_limits \<Rightarrow> authority_getter \<Rightarrow> nat \<Rightarrow> authority \<Rightarrow> bool" where
  "within limits get 0 = moderate limits"
| "within limits get (Suc d) = (\<lambda>a. moderate limits a \<and>
     list_all (\<lambda>(n, _). of_account get False (within limits get d) n) (account_auths a))"

definition has_room :: "sign_limits \<Rightarrow> nat \<Rightarrow> bool" where
  "has_room limits c \<longleftrightarrow> account_auths_limit limits = 0 \<or> c \<le> account_auths_limit limits"

definition has_keys :: "public_key_type set \<Rightarrow> sign_state \<Rightarrow> bool" where
  "has_keys K s \<longleftrightarrow> K \<subseteq> fst ` set (provided_signatures s)"

lemma add_weight_exact:
  assumes "uint t + 65535 < 4294967296"
  shows "uint (t + ucast (w :: 16 word) :: 32 word) = uint t + uint w"
proof -
  have "uint (ucast w :: 32 word) = uint w" by (simp add: uint_up_ucast is_up)
  moreover have "uint w < 65536" using uint_lt2p [of w] by simp
  ultimately show ?thesis using assms by (simp add: uint_word_ariths)
qed

lemma weight_16: "0 \<le> uint w" "uint w \<le> 65535" for w :: "16 word"
  using uint_lt2p [of w] by simp_all

lemma weight_of_none [simp]: "weight_of (\<lambda>_. False) ms = 0"
  by (induction ms) auto

lemma cost_of_simps [simp]: "cost_of c [] = 0" "cost_of c ((n, w) # as) = 1 + c n + cost_of c as"
  by (simp_all add: cost_of_def)

section \<open>The loops\<close>

lemma signed_by_complete:
  assumes "has_keys K s"
  shows "\<exists>r s'. signed_by k s = Inr (r, s') \<and> (k \<in> K \<longrightarrow> r) \<and> has_keys K s' \<and>
    account_auth_count s' = account_auth_count s"
proof (cases "map_of (provided_signatures s) k")
  case None
  then have "k \<notin> K" using assms by (auto simp: has_keys_def map_of_eq_None_iff)
  then show ?thesis using None assms by (auto simp: signed_by_def get_s_def ret_s_def bind_s_def)
next
  case (Some b)
  have "fst ` set (map (\<lambda>(j, b). (j, if j = k then True else b)) xs) = fst ` set xs"
    for xs :: "(public_key_type \<times> bool) list" by force
  then show ?thesis using Some assms
    by (auto simp: signed_by_def get_s_def ret_s_def bind_s_def update_s_def has_keys_def simp del: set_map)
qed

text \<open>\<open>bounded limits n t m\<close>: with \<open>n\<close> members left the total weight cannot wrap around and the
  membership limit is not passed before the last of them.\<close>

definition bounded :: "sign_limits \<Rightarrow> nat \<Rightarrow> 32 word \<Rightarrow> nat \<Rightarrow> bool" where
  "bounded limits n t m \<longleftrightarrow> uint t + 65535 * int n < 4294967296 \<and>
     (membership_limit limits = 0 \<or> m + n \<le> membership_limit limits)"

lemma bounded_next:
  assumes "bounded limits (Suc n) t m"
  shows "uint (t + ucast (w :: 16 word)) = uint t + uint w"
    "bounded limits n t m"
    "increase_membership limits m = None \<Longrightarrow> n = 0"
    "increase_membership limits m = Some m' \<Longrightarrow> bounded limits n t m' \<and> bounded limits n (t + ucast w) m'"
proof -
  show w: "uint (t + ucast (w :: 16 word)) = uint t + uint w"
    using assms by (intro add_weight_exact) (simp add: bounded_def)
  show "bounded limits n t m" "increase_membership limits m = None \<Longrightarrow> n = 0"
    using assms by (auto simp: bounded_def increase_membership_def split: if_splits)
  show "increase_membership limits m = Some m' \<Longrightarrow> bounded limits n t m' \<and> bounded limits n (t + ucast w) m'"
    using assms weight_16 [of w] unfolding bounded_def w by (auto simp: increase_membership_def split: if_splits)
qed

text \<open>The outcome of the loop over the keys, when the keys of the set alone have the weight \<open>v\<close>.\<close>

definition key_outcome :: "sign_limits \<Rightarrow> 32 word \<Rightarrow> nat \<Rightarrow> int \<Rightarrow> bool + 32 word \<times> nat \<Rightarrow> bool" where
  "key_outcome limits th n v r \<longleftrightarrow>
     (case r of
        Inl yes \<Rightarrow> yes \<or> n = 0 \<and> v < uint th
      | Inr (t, m) \<Rightarrow> v \<le> uint t \<and> uint t < uint th \<and> bounded limits n t m)"

lemma key_outcome_mono: "key_outcome limits th n v r \<Longrightarrow> v' \<le> v \<Longrightarrow> key_outcome limits th n v' r"
  by (auto simp: key_outcome_def split: sum.splits)

lemma check_keys_complete:
  assumes "has_keys K s" "uint t < uint th" "bounded limits (length ks + n) t m"
  shows "\<exists>r s'. check_keys limits th ks t m s = Inr (r, s') \<and> has_keys K s' \<and>
    account_auth_count s' = account_auth_count s \<and>
    key_outcome limits th n (uint t + weight_of (\<lambda>k. k \<in> K) ks) r"
  using assms
proof (induction ks arbitrary: s t m)
  case Nil
  then show ?case by (simp add: ret_s_def key_outcome_def)
next
  case (Cons x ks)
  obtain k w where x: "x = (k, w)" by (cases x)
  obtain b s1 where b: "signed_by k s = Inr (b, s1)" "k \<in> K \<longrightarrow> b" "has_keys K s1"
      "account_auth_count s1 = account_auth_count s"
    using signed_by_complete [OF Cons.prems(1)] by blast
  have bd: "bounded limits (Suc (length ks + n)) t m" using Cons.prems(3) by simp
  define u where "u = (if b then t + ucast w else t)"
  have u: "uint u = uint t + (if b then uint w else 0)" using bounded_next(1) [OF bd] by (simp add: u_def)
  have le: "uint t + weight_of (\<lambda>k. k \<in> K) (x # ks) \<le> uint u + weight_of (\<lambda>k. k \<in> K) ks"
    unfolding x weight_of_simps u using b(2) weight_16 [of w] by auto
  have step: "check_keys limits th (x # ks) t m s =
      (if b \<and> u \<ge> th then Inr (Inl True, s1)
       else (case increase_membership limits m of None \<Rightarrow> Inr (Inl False, s1)
             | Some m' \<Rightarrow> check_keys limits th ks u m' s1))"
    using b(1) by (simp add: x bind_s_def u_def Let_def ret_s_def split: option.split)
  show ?case
  proof (cases "b \<and> u \<ge> th")
    case True
    then show ?thesis using step b by (simp add: key_outcome_def)
  next
    case False
    then have lt: "uint u < uint th" using Cons.prems(2) u by (cases b) (auto simp: word_le_def)
    show ?thesis
    proof (cases "increase_membership limits m")
      case None
      then have "length ks + n = 0" using bounded_next(3) [OF bd] by simp
      then have "key_outcome limits th n (uint t + weight_of (\<lambda>k. k \<in> K) (x # ks)) (Inl False)"
        using le lt by (simp add: key_outcome_def)
      then show ?thesis using step b False None by simp
    next
      case (Some m')
      then have "bounded limits (length ks + n) u m'" using bounded_next(4) [OF bd] by (simp add: u_def)
      from Cons.IH [OF b(3) lt this] obtain r s' where ih:
        "check_keys limits th ks u m' s1 = Inr (r, s')" "has_keys K s'" "account_auth_count s' = account_auth_count s1"
        "key_outcome limits th n (uint u + weight_of (\<lambda>k. k \<in> K) ks) r" by blast
      have "check_keys limits th (x # ks) t m s = Inr (r, s')" using step False Some ih(1) by simp
      then show ?thesis using ih(2,3) b(4) key_outcome_mono [OF ih(4) le] by simp
    qed
  qed
qed

text \<open>At the depth limit the loop over the accounts looks nothing up.\<close>

lemma check_accounts_at_limit:
  "has_keys K s \<Longrightarrow> \<exists>r s'. check_accounts limits get None th as t m s = Inr (r, s') \<and> has_keys K s' \<and>
    account_auth_count s' = account_auth_count s"
proof (induction "as" arbitrary: t m)
  case Nil
  then show ?case by (simp add: ret_s_def)
next
  case (Cons x "as")
  obtain n w where x: "x = (n, w)" by (cases x)
  show ?case
    using Cons by (cases "increase_membership limits m")
      (auto simp: x bind_s_def get_s_def ret_s_def Let_def)
qed

text \<open>\<open>finds limits K c m G\<close>: with room for \<open>c\<close> more accounts \<open>m\<close> ends, visits at most \<open>c\<close> of them, and answers
  yes if \<open>G\<close> holds.\<close>

definition finds :: "sign_limits \<Rightarrow> public_key_type set \<Rightarrow> nat \<Rightarrow> (sign_state, bool) op \<Rightarrow> bool \<Rightarrow> bool" where
  "finds limits K c m G \<longleftrightarrow>
     (\<forall>s. has_keys K s \<and> has_room limits (account_auth_count s + c) \<longrightarrow>
       (\<exists>r s'. m s = Inr (r, s') \<and> has_keys K s' \<and> account_auth_count s' \<le> account_auth_count s + c \<and> (G \<longrightarrow> r)))"

lemma findsD:
  assumes "finds limits K c m G" "has_keys K s" "has_room limits (account_auth_count s + c)"
  obtains r s' where "m s = Inr (r, s')" "has_keys K s'" "account_auth_count s' \<le> account_auth_count s + c" "G \<longrightarrow> r"
  using assms unfolding finds_def by blast

lemma has_room_mono: "has_room limits c \<Longrightarrow> c' \<le> c \<Longrightarrow> has_room limits c'"
  by (auto simp: has_room_def)

lemma check_accounts_complete:
  assumes "\<And>n b. get n = Inr b \<Longrightarrow> W b \<Longrightarrow> finds limits K (V b) (f b) (G b)"
    and "list_all (\<lambda>(n, _). of_account get False W n) as"
    and "has_keys K s" "has_room limits (account_auth_count s + cost_of (of_account get 0 V) as)"
    and "uint t < uint th" "bounded limits (length as) t m"
  shows "\<exists>r s'. check_accounts limits get (Some f) th as t m s = Inr (r, s') \<and> has_keys K s' \<and>
    account_auth_count s' \<le> account_auth_count s + cost_of (of_account get 0 V) as \<and>
    (uint th \<le> uint t + weight_of (of_account get False G) as \<longrightarrow> r)"
  using assms(2-)
proof (induction "as" arbitrary: s t m)
  case Nil
  then show ?case by (simp add: ret_s_def)
next
  case (Cons x "as")
  obtain n w where x: "x = (n, w)" by (cases x)
  let ?P = "of_account get False G" and ?C = "of_account get 0 V"
  obtain b where b: "get n = Inr b" "W b" using Cons.prems(1) by (auto simp: x of_account_def split: sum.splits)
  have as: "list_all (\<lambda>(n, _). of_account get False W n) as" using Cons.prems(1) by (simp add: x)
  have pn: "?P n = G b" "?C n = V b" using b(1) by (simp_all add: of_account_def)
  have bd: "bounded limits (Suc (length as)) t m" using Cons.prems(5) by simp
  have w: "uint (t + ucast w) = uint t + uint w" by (rule bounded_next(1) [OF bd])
  have go_on: "\<exists>r s'. (case increase_membership limits m of None \<Rightarrow> ret_s False
        | Some m \<Rightarrow> check_accounts limits get (Some f) th as u m) s1 = Inr (r, s') \<and> has_keys K s' \<and>
      account_auth_count s' \<le> account_auth_count s + cost_of ?C (x # as) \<and>
      (uint th \<le> uint t + weight_of ?P (x # as) \<longrightarrow> r)"
    if s1: "has_keys K s1" "account_auth_count s1 \<le> account_auth_count s + 1 + V b"
      and u: "u = t + ucast w \<or> u = t \<and> \<not> G b" "uint u < uint th" for u s1
  proof -
    have le: "uint t + weight_of ?P (x # as) \<le> uint u + weight_of ?P as"
      unfolding x weight_of_simps pn using u(1) w weight_16 [of w] by auto
    have c: "cost_of ?C (x # as) = 1 + V b + cost_of ?C as" by (simp add: x pn)
    show ?thesis
    proof (cases "increase_membership limits m")
      case None
      then have "as = []" using bounded_next(3) [OF bd] by simp
      then have "\<not> uint th \<le> uint t + weight_of ?P (x # as)" using le u(2) by simp
      then show ?thesis using None s1 by (intro exI [of _ False] exI [of _ s1]) (simp add: ret_s_def c)
    next
      case (Some m')
      have "has_room limits (account_auth_count s1 + cost_of ?C as)"
        using s1(2) by (intro has_room_mono [OF Cons.prems(3)]) (simp add: c)
      moreover have "bounded limits (length as) u m'" using bounded_next(4) [OF bd Some] u(1) by blast
      ultimately obtain r s' where ih: "check_accounts limits get (Some f) th as u m' s1 = Inr (r, s')" "has_keys K s'"
          "account_auth_count s' \<le> account_auth_count s1 + cost_of ?C as"
          "uint th \<le> uint u + weight_of ?P as \<longrightarrow> r"
        using Cons.IH [OF as s1(1) _ u(2)] by blast
      have "account_auth_count s' \<le> account_auth_count s + cost_of ?C (x # as)" using ih(3) s1(2) c by linarith
      moreover have "uint th \<le> uint t + weight_of ?P (x # as) \<longrightarrow> r" using ih(4) le by linarith
      ultimately show ?thesis using ih(1,2) Some by simp
    qed
  qed
  show ?case
  proof (cases "n \<in> approved_by s")
    case True
    then have step: "check_accounts limits get (Some f) th (x # as) t m s =
      (if t + ucast w \<ge> th then Inr (True, s)
       else (case increase_membership limits m of None \<Rightarrow> ret_s False
          | Some m \<Rightarrow> check_accounts limits get (Some f) th as (t + ucast w) m) s)"
      by (simp add: x bind_s_def get_s_def ret_s_def Let_def)
    show ?thesis
      using step Cons.prems(2) go_on [of s "t + ucast w"] by (cases "t + ucast w \<ge> th") (auto simp: word_le_def)
  next
    case False
    define s1 where "s1 = s\<lparr>account_auth_count := account_auth_count s + 1\<rparr>"
    have room: "\<not> (0 < account_auths_limit limits \<and> account_auths_limit limits \<le> account_auth_count s)"
      using Cons.prems(3) by (auto simp: has_room_def x)
    have "has_keys K s1" "has_room limits (account_auth_count s1 + V b)"
      using Cons.prems(2) has_room_mono [OF Cons.prems(3), of "account_auth_count s1 + V b"]
      by (simp_all add: s1_def has_keys_def x pn)
    then obtain r s2 where r: "f b s1 = Inr (r, s2)" "has_keys K s2"
        "account_auth_count s2 \<le> account_auth_count s1 + V b" "G b \<longrightarrow> r"
      using findsD [OF assms(1) [OF b]] by metis
    define s3 where "s3 = s2\<lparr>approved_by := insert n (approved_by s2)\<rparr>"
    have s3: "has_keys K s3" "account_auth_count s3 \<le> account_auth_count s + 1 + V b"
      "account_auth_count s2 \<le> account_auth_count s + 1 + V b"
      using r(2,3) by (simp_all add: s3_def s1_def has_keys_def)
    have step: "check_accounts limits get (Some f) th (x # as) t m s =
      (if r then
         (if t + ucast w \<ge> th then Inr (True, s3)
          else (case increase_membership limits m of None \<Rightarrow> ret_s False
             | Some m \<Rightarrow> check_accounts limits get (Some f) th as (t + ucast w) m) s3)
       else (case increase_membership limits m of None \<Rightarrow> ret_s False
             | Some m \<Rightarrow> check_accounts limits get (Some f) th as t m) s2)"
      using False room r(1) b(1)
      by (cases r; simp add: x bind_s_def get_s_def ret_s_def update_s_def lift_s_def Let_def s1_def s3_def; force)
    show ?thesis
    proof (cases r)
      case True
      then show ?thesis
        using step s3 go_on [OF s3(1,2), of "t + ucast w"] by (cases "t + ucast w \<ge> th") (auto simp: word_le_def x pn)
    next
      case rf: False
      then have "\<not> G b" using r(4) by blast
      then show ?thesis using step rf go_on [OF r(2) s3(3), of t] Cons.prems(4) by simp
    qed
  qed
qed

section \<open>The search\<close>

lemma check_members_complete:
  assumes "moderate limits a" "P = weight_of Q (account_auths a)"
    and accounts: "\<And>t m s. has_keys K s \<Longrightarrow> has_room limits (account_auth_count s + c) \<Longrightarrow>
      uint t < uint (weight_threshold a) \<Longrightarrow> bounded limits (length (account_auths a)) t m \<Longrightarrow>
      \<exists>r s'. check_accounts limits get nested (weight_threshold a) (account_auths a) t m s = Inr (r, s') \<and> has_keys K s' \<and>
        account_auth_count s' \<le> account_auth_count s + c \<and> (uint (weight_threshold a) \<le> uint t + P \<longrightarrow> r)"
  shows "finds limits K c (check_members limits get nested a)
    (uint (weight_threshold a) \<le> weight_of (\<lambda>k. k \<in> K) (key_auths a) + P)"
  unfolding finds_def
proof (intro allI impI)
  fix s
  assume s: "has_keys K s \<and> has_room limits (account_auth_count s + c)"
  let ?th = "weight_threshold a" and ?n = "length (account_auths a)" and ?Wk = "weight_of (\<lambda>k. k \<in> K) (key_auths a)"
  have "uint (0 :: 32 word) < uint ?th" "bounded limits (length (key_auths a) + ?n) 0 0"
    using assms(1) by (auto simp: moderate_def bounded_def word_less_def)
  from check_keys_complete [OF conjunct1 [OF s] this] obtain r s1 where r:
    "check_keys limits ?th (key_auths a) 0 0 s = Inr (r, s1)" "has_keys K s1"
    "account_auth_count s1 = account_auth_count s" "key_outcome limits ?th ?n ?Wk r"
    by auto
  show "\<exists>r s'. check_members limits get nested a s = Inr (r, s') \<and> has_keys K s' \<and>
      account_auth_count s' \<le> account_auth_count s + c \<and> (uint ?th \<le> ?Wk + P \<longrightarrow> r)"
  proof (cases r)
    case (Inl yes)
    then have "check_members limits get nested a s = Inr (yes, s1)"
      using r(1) by (simp add: check_members_def bind_s_def ret_s_def)
    moreover have "uint ?th \<le> ?Wk + P \<longrightarrow> yes"
      using r(4) Inl assms(2) by (auto simp: key_outcome_def)
    ultimately show ?thesis using r(2,3) by simp
  next
    case (Inr tm)
    obtain t m where tm: "tm = (t, m)" by (cases tm)
    have t: "?Wk \<le> uint t" "uint t < uint ?th" "bounded limits ?n t m"
      using r(4) Inr tm by (auto simp: key_outcome_def)
    have "has_room limits (account_auth_count s1 + c)" using s r(3) by simp
    from accounts [OF r(2) this t(2,3)] obtain b s' where b:
      "check_accounts limits get nested ?th (account_auths a) t m s1 = Inr (b, s')" "has_keys K s'"
      "account_auth_count s' \<le> account_auth_count s1 + c" "uint ?th \<le> uint t + P \<longrightarrow> b" by blast
    have "check_members limits get nested a s = Inr (b, s')"
      using r(1) b(1) Inr tm by (simp add: check_members_def bind_s_def)
    moreover have "uint ?th \<le> ?Wk + P \<longrightarrow> b" using b(4) t(1) by linarith
    ultimately show ?thesis using b(2,3) r(3) by simp
  qed
qed

lemma check_authority_impl_complete:
  "within limits get d a \<Longrightarrow> finds limits K (visits get d a) (check_authority_impl limits get d a) (grants get K d a)"
proof (induction d arbitrary: a)
  case 0
  have "finds limits K 0 (check_members limits get None a)
    (uint (weight_threshold a) \<le> weight_of (\<lambda>k. k \<in> K) (key_auths a) + 0)"
  proof (rule check_members_complete [where Q = "\<lambda>_. False"])
    show "0 = weight_of (\<lambda>_. False) (account_auths a)"
      by simp
  next
    fix t :: "32 word" and m s
    assume "has_keys K s" "uint t < uint (weight_threshold a)"
    then show "\<exists>r s'. check_accounts limits get None (weight_threshold a) (account_auths a) t m s = Inr (r, s') \<and>
        has_keys K s' \<and> account_auth_count s' \<le> account_auth_count s + 0 \<and>
        (uint (weight_threshold a) \<le> uint t + 0 \<longrightarrow> r)"
      using check_accounts_at_limit [of K s limits get "weight_threshold a" "account_auths a" t m] by auto
  qed (use 0 in simp)
  then show ?case by simp
next
  case (Suc d)
  show ?case
    unfolding check_authority_impl.simps visits.simps grants.simps
  proof (rule check_members_complete [OF _ refl])
    fix t :: "32 word" and m s
    assume "has_keys K s" "has_room limits (account_auth_count s + cost_of (of_account get 0 (visits get d)) (account_auths a))"
      "uint t < uint (weight_threshold a)" "bounded limits (length (account_auths a)) t m"
    then show "\<exists>r s'. check_accounts limits get (Some (check_authority_impl limits get d)) (weight_threshold a)
        (account_auths a) t m s = Inr (r, s') \<and> has_keys K s' \<and>
        account_auth_count s' \<le> account_auth_count s + cost_of (of_account get 0 (visits get d)) (account_auths a) \<and>
        (uint (weight_threshold a) \<le> uint t + weight_of (of_account get False (grants get K d)) (account_auths a) \<longrightarrow> r)"
      using Suc.prems by (intro check_accounts_complete [where W = "within limits get d"] Suc.IH) auto
  qed (use Suc.prems in simp)
qed

section \<open>Completeness of the verification\<close>

definition clears :: "sign_limits \<Rightarrow> public_key_type set \<Rightarrow> nat \<Rightarrow> (sign_state, 'p option) op \<Rightarrow> bool" where
  "clears limits K c m \<longleftrightarrow>
     (\<forall>s. has_keys K s \<and> has_room limits (account_auth_count s + c) \<longrightarrow>
       (\<exists>s'. m s = Inr (None, s') \<and> has_keys K s' \<and> account_auth_count s' \<le> account_auth_count s + c))"

lemma clearsD:
  assumes "clears limits K c m" "has_keys K s" "has_room limits (account_auth_count s + c)"
  obtains s' where "m s = Inr (None, s')" "has_keys K s'" "account_auth_count s' \<le> account_auth_count s + c"
  using assms unfolding clears_def by blast

lemma clears_problem_unless: "finds limits K c m True \<Longrightarrow> clears limits K c (problem_unless m p)"
  unfolding finds_def clears_def problem_unless_def bind_s_def ret_s_def by fastforce

lemma clears_none: "clears limits K 0 (ret_s None)"
  by (simp add: clears_def ret_s_def)

lemma clears_and_then:
  assumes "clears limits K c m" "clears limits K c' n"
  shows "clears limits K (c + c') (and_then m n)"
  unfolding clears_def
proof (intro allI impI)
  fix s
  assume s: "has_keys K s \<and> has_room limits (account_auth_count s + (c + c'))"
  have "has_room limits (account_auth_count s + c)" by (rule has_room_mono [OF conjunct2 [OF s]]) simp
  then obtain s1 where s1: "m s = Inr (None, s1)" "has_keys K s1" "account_auth_count s1 \<le> account_auth_count s + c"
    using clearsD [OF assms(1)] s by blast
  have "has_room limits (account_auth_count s1 + c')" using s1(3) by (intro has_room_mono [OF conjunct2 [OF s]]) simp
  then obtain s2 where "n s1 = Inr (None, s2)" "has_keys K s2" "account_auth_count s2 \<le> account_auth_count s1 + c'"
    using clearsD [OF assms(2)] s1(2) by blast
  then show "\<exists>s'. and_then m n s = Inr (None, s') \<and> has_keys K s' \<and> account_auth_count s' \<le> account_auth_count s + (c + c')"
    using s1 by (auto simp: and_then_def bind_s_def)
qed

lemma clears_check_each:
  "(\<And>x. x \<in> set xs \<Longrightarrow> clears limits K (c x) (f x)) \<Longrightarrow> clears limits K (sum_list (map c xs)) (check_each f xs)"
proof (induction xs)
  case Nil
  show ?case by (simp add: clears_def)
next
  case (Cons x xs)
  have "clears limits K (c x + sum_list (map c xs)) (and_then (f x) (check_each f xs))"
    using Cons by (intro clears_and_then) auto
  then show ?case by (simp add: and_then_def)
qed

text \<open>An update of the approvals changes neither the signatures nor the count.\<close>

lemma clears_update:
  assumes "clears limits K c m"
    "\<And>s. provided_signatures (u s) = provided_signatures s \<and> account_auth_count (u s) = account_auth_count s"
  shows "clears limits K c (bind_s (update_s u) (\<lambda>_. m))"
  unfolding clears_def
proof (intro allI impI)
  fix s
  assume "has_keys K s \<and> has_room limits (account_auth_count s + c)"
  then have "has_keys K (u s)" "has_room limits (account_auth_count (u s) + c)" using assms(2) by (simp_all add: has_keys_def)
  then show "\<exists>s'. bind_s (update_s u) (\<lambda>_. m) s = Inr (None, s') \<and> has_keys K s' \<and>
      account_auth_count s' \<le> account_auth_count s + c"
    using clearsD [OF assms(1)] assms(2) by (fastforce simp: bind_s_def update_s_def)
qed

lemma check_authority_finds:
  assumes "allow_strict_and_mixed_authorities limits" "within limits get (recursion_limit limits) a"
    "grants get K (recursion_limit limits) a"
  shows "finds limits K (visits get (recursion_limit limits) a) (check_authority limits get a) True"
  using check_authority_impl_complete [OF assms(2), of K] assms(1,3)
  by (simp add: finds_def check_authority_def bind_s_def update_s_def)

lemma check_authority_id_finds:
  assumes "allow_strict_and_mixed_authorities limits" "get n = Inr a" "within limits get (recursion_limit limits) a"
    "grants get K (recursion_limit limits) a"
  shows "finds limits K (1 + visits get (recursion_limit limits) a) (check_authority_id limits get n) True"
  unfolding finds_def
proof (intro allI impI)
  fix s
  let ?c = "visits get (recursion_limit limits) a"
  assume s: "has_keys K s \<and> has_room limits (account_auth_count s + (1 + ?c))"
  define s1 where "s1 = s\<lparr>account_auth_count := account_auth_count s + 1\<rparr>"
  have "has_keys K s1" "has_room limits (account_auth_count s1 + ?c)" using s by (simp_all add: s1_def has_keys_def)
  then obtain r s2 where r: "check_authority_impl limits get (recursion_limit limits) a s1 = Inr (r, s2)" "has_keys K s2"
      "account_auth_count s2 \<le> account_auth_count s1 + ?c" "r"
    using findsD [OF check_authority_impl_complete [OF assms(3), of K]] assms(4) by metis
  have "check_authority_id limits get n s = (if n \<in> approved_by s then Inr (True, s) else Inr (True, s2))"
    using r(1,4) assms(1,2) by (simp add: check_authority_id_def bind_s_def lift_s_def get_s_def update_s_def ret_s_def s1_def)
  then show "\<exists>r s'. check_authority_id limits get n s = Inr (r, s') \<and> has_keys K s' \<and>
      account_auth_count s' \<le> account_auth_count s + (1 + ?c) \<and> (True \<longrightarrow> r)"
    using s r(2,3) by (auto simp: s1_def)
qed

text \<open>\<open>reachable limits get role K n\<close>: the authority that \<open>role\<close> gives for the account \<open>n\<close> is granted by the keys
  within the limits of the search.\<close>

definition reachable ::
  "sign_limits \<Rightarrow> authority_getter \<Rightarrow> public_key_type set \<Rightarrow> authority \<Rightarrow> bool" where
  "reachable limits get K a \<longleftrightarrow> within limits get (recursion_limit limits) a \<and> grants get K (recursion_limit limits) a"

definition search_cost :: "sign_limits \<Rightarrow> required_authorities_type \<Rightarrow> authority_getters \<Rightarrow> nat" where
  "search_cost limits req g =
     (let cost = (\<lambda>get role n. of_account role 0 (visits get (recursion_limit limits)) n) in
      sum_list (map (\<lambda>n. 1 + cost (get_posting g) (get_posting g) n) (required_posting req)) +
      (sum_list (map (visits (get_active g) (recursion_limit limits)) (other req)) +
       (sum_list (map (\<lambda>n. 1 + cost (get_active g) (get_active g) n) (required_active req)) +
        sum_list (map (cost (get_active g) (get_owner g)) (required_owner req)))))"

lemma check_posting_clears:
  assumes "allow_strict_and_mixed_authorities limits" "get_posting g n = Inr b" "reachable limits (get_posting g) K b"
  shows "clears limits K (Suc (of_account (get_posting g) 0 (visits (get_posting g) (recursion_limit limits)) n)) (check_posting limits g n)"
  using assms check_authority_id_finds [where get = "get_posting g" and n = n and limits = limits and K = K and a = b]
  by (simp add: check_posting_def of_account_def reachable_def clears_problem_unless)

lemma check_active_clears:
  assumes "allow_strict_and_mixed_authorities limits" "get_active g n = Inr b" "reachable limits (get_active g) K b"
  shows "clears limits K (Suc (of_account (get_active g) 0 (visits (get_active g) (recursion_limit limits)) n)) (check_active limits g n)"
  using assms check_authority_id_finds [where get = "get_active g" and n = n and limits = limits and K = K and a = b]
  by (simp add: check_active_def of_account_def reachable_def clears_problem_unless)

lemma check_owner_clears:
  assumes "allow_strict_and_mixed_authorities limits" "get_owner g n = Inr b" "reachable limits (get_active g) K b"
  shows "clears limits K (of_account (get_owner g) 0 (visits (get_active g) (recursion_limit limits)) n) (check_owner limits g [] n)"
  using assms check_authority_finds [OF assms(1), of "get_active g" b K]
  by (simp add: check_owner_def check_of_def bind_s_def lift_s_def of_account_def reachable_def clears_problem_unless)

lemma check_other_clears:
  assumes "allow_strict_and_mixed_authorities limits" "reachable limits get K a"
  shows "clears limits K (visits get (recursion_limit limits) a) (problem_unless (check_authority limits get a) p)"
  using assms by (intro clears_problem_unless check_authority_finds) (auto simp: reachable_def)

lemma check_witness_clears:
  assumes "get_witness_key g n = Inr k" "k \<in> K"
  shows "clears limits K 0 (check_witness g n)"
  using assms signed_by_complete
  by (auto simp: check_witness_def finds_def intro!: clears_problem_unless) (metis order_refl)

text \<open>
  C6: With strict authorities and redundant signatures allowed, a transaction passes
  \<^verbatim>\<open>verify_authority\<close> whenever its signatures grant every required authority within the depth limit, the
  authorities in reach exist, have a positive threshold and no more members than the limit, and
  the accounts to look up do not exceed the limit. Neither the early ends of the loops nor the
  remembered approvals lose an approval.
\<close>

theorem verify_authority_complete:
  assumes strict: "allow_strict_and_mixed_authorities limits"
    and "\<forall>n\<in>set (required_posting req). \<exists>b. get_posting g n = Inr b \<and> reachable limits (get_posting g) (set sigs) b"
    and "\<forall>a\<in>set (other req). reachable limits (get_active g) (set sigs) a"
    and "\<forall>n\<in>set (required_active req). \<exists>b. get_active g n = Inr b \<and> reachable limits (get_active g) (set sigs) b"
    and "\<forall>n\<in>set (required_owner req). \<exists>b. get_owner g n = Inr b \<and> reachable limits (get_active g) (set sigs) b"
    and "\<forall>n\<in>set (required_witness req). \<exists>k. get_witness_key g n = Inr k \<and> k \<in> set sigs"
    and room: "has_room limits (search_cost limits req g)"
  shows "verify_authority limits True req sigs g [] [] [] = Inr ()"
proof -
  let ?K = "set sigs" and ?r = "recursion_limit limits"
  define s0 where "s0 = extend_provided_signatures sigs
    \<lparr>account_auth_count = 0, approved_by = {}, provided_signatures = []\<rparr>"
  define cp where "cp = sum_list (map (\<lambda>n. 1 + of_account (get_posting g) 0 (visits (get_posting g) ?r) n) (required_posting req))"
  define cr where "cr = sum_list (map (visits (get_active g) ?r) (other req)) +
    (sum_list (map (\<lambda>n. 1 + of_account (get_active g) 0 (visits (get_active g) ?r) n) (required_active req)) +
     (sum_list (map (of_account (get_owner g) 0 (visits (get_active g) ?r)) (required_owner req)) +
      (sum_list (map (\<lambda>_. 0) (required_witness req)) + 0)))"
  have cost: "cp + cr = search_cost limits req g"
    by (simp add: search_cost_def Let_def cp_def cr_def)
  have s0: "has_keys ?K s0" "account_auth_count s0 = 0"
    by (simp_all add: s0_def has_keys_def extend_provided_signatures_def fold_update_keys)
  have post: "clears limits ?K cp (verify_posting limits req g [])"
  proof -
    have "clears limits ?K (0 + cp) (and_then (ret_s None)
        (bind_s (update_s (add_approved [])) (\<lambda>_. check_each (check_posting limits g) (required_posting req))))"
      unfolding cp_def using assms(2)
      by (intro clears_and_then clears_none clears_update clears_check_each)
        (auto simp: add_approved_def intro: check_posting_clears [OF strict])
    then show ?thesis using strict by (simp add: verify_posting_def)
  qed
  have rest: "clears limits ?K cr (verify_rest limits True req g [] [])"
    unfolding verify_rest_def cr_def using assms(3-6)
    by (intro clears_update clears_and_then clears_check_each)
      (auto simp: add_approved_def clear_approved_def check_unused_def clears_none
        intro: check_active_clears [OF strict] check_owner_clears [OF strict] check_witness_clears
          check_other_clears [OF strict])
  have all: "clears limits ?K (cp + cr) (and_then (verify_posting limits req g []) (verify_rest limits True req g [] []))"
    by (rule clears_and_then [OF post rest])
  have "has_room limits (account_auth_count s0 + (cp + cr))" "has_room limits (account_auth_count s0 + cr)"
    using room cost s0(2) by (auto simp: has_room_def)
  then obtain s1 s2 where "and_then (verify_posting limits req g []) (verify_rest limits True req g [] []) s0 = Inr (None, s1)"
      "verify_rest limits True req g [] [] s0 = Inr (None, s2)"
    using clearsD [OF all s0(1)] clearsD [OF rest s0(1)] by metis
  then show ?thesis
    using strict by (simp add: verify_authority_def verify_authority_impl_def s0_def [symmetric] check_r_def Let_def)
qed

theorem verify_authority_complete_witness:
  "verify_authority example_limits True example_required [[1], [3], [4]] example_getters [] [] [] = Inr () \<and>
   verify_authority example_limits True example_required [[1], [4]] example_getters [] [] [] \<noteq> Inr ()"
proof
  have "\<forall>n\<in>set (required_posting example_required). \<exists>b. get_posting example_getters n = Inr b \<and>
      reachable example_limits (get_posting example_getters) (set [[1], [3], [4]]) b"
    "\<forall>a\<in>set (other example_required). reachable example_limits (get_active example_getters) (set [[1], [3], [4]]) a"
    "\<forall>n\<in>set (required_active example_required). \<exists>b. get_active example_getters n = Inr b \<and>
      reachable example_limits (get_active example_getters) (set [[1], [3], [4]]) b"
    "\<forall>n\<in>set (required_owner example_required). \<exists>b. get_owner example_getters n = Inr b \<and>
      reachable example_limits (get_active example_getters) (set [[1], [3], [4]]) b"
    "\<forall>n\<in>set (required_witness example_required). \<exists>k. get_witness_key example_getters n = Inr k \<and> k \<in> set [[1], [3], [4]]"
    by (simp_all add: example_required_def example_getters_def example_authorities_def reachable_def example_limits_def
        HIVE_MAX_SIG_CHECK_DEPTH_def HIVE_MAX_AUTHORITY_MEMBERSHIP_def moderate_def of_account_def numeral_2_eq_2)
  moreover have "allow_strict_and_mixed_authorities example_limits"
    "has_room example_limits (search_cost example_limits example_required example_getters)" by code_simp+
  ultimately show "verify_authority example_limits True example_required [[1], [3], [4]] example_getters [] [] [] = Inr ()"
    by (intro verify_authority_complete)
  show "verify_authority example_limits True example_required [[1], [4]] example_getters [] [] [] \<noteq> Inr ()"
    by code_simp
qed

end
