(* ===== verification/Witness_Schedule.thy ===== *)
theory Witness_Schedule
  imports Savings Resource_Dynamics Authority
begin

text \<open>
  The witnesses and the schedule in which they produce blocks (\<^verbatim>\<open>witness_schedule.cpp\<close>,
  \<^verbatim>\<open>witness_schedule.hpp\<close>, \<^verbatim>\<open>witness_objects.hpp\<close>, \<^verbatim>\<open>version.hpp\<close>): once per round the most voted witnesses,
  the queued miners and the next witnesses by virtual time form the schedule of the round after the next
  one, the votes for hardforks are counted, the schedule is shuffled and the chain properties become the medians of
  the properties that the scheduled witnesses ask for.
\<close>

section \<open>Versions\<close>

text \<open>A version is a 32-bit number of eight bits major version, eight bits hardfork and sixteen bits
  release; the other operand of a comparison is adjusted when the major versions are 0 and 1.\<close>

definition major_v :: "32 word \<Rightarrow> 32 word" where
  "major_v v = drop_bit 24 (and v 0xFF000000)"

definition version_operand :: "32 word \<Rightarrow> 32 word \<Rightarrow> 32 word" where
  "version_operand v val =
     (if major_v v = 0 \<and> major_v val = 1 then and val 0x00FFFFFF
      else if major_v v = 1 \<and> major_v val = 0 then and val 0x01FFFFFF
      else val)"

definition version_eq :: "32 word \<Rightarrow> 32 word \<Rightarrow> bool" where
  "version_eq v w \<longleftrightarrow> v = version_operand v w"

definition version_less :: "32 word \<Rightarrow> 32 word \<Rightarrow> bool" where
  "version_less v w \<longleftrightarrow> v < version_operand v w"

definition version_less_eq :: "32 word \<Rightarrow> 32 word \<Rightarrow> bool" where
  "version_less_eq v w \<longleftrightarrow> v \<le> version_operand v w"

definition version_greater :: "32 word \<Rightarrow> 32 word \<Rightarrow> bool" where
  "version_greater v w \<longleftrightarrow> v > version_operand v w"

section \<open>Objects\<close>

datatype witness_schedule_type = elected | timeshare | miner | none

record chain_properties =
  account_creation_fee :: HIVE_asset
  cp_maximum_block_size :: "32 word"
  cp_hbd_interest_rate :: "16 word"
  account_subsidy_budget :: int
  account_subsidy_decay :: "32 word"

record witness_object =
  w_owner :: string
  last_confirmed_block_num :: "64 word"
  pow_worker :: "64 word"
  signing_key :: public_key_type
  w_props :: chain_properties
  votes :: int
  schedule :: witness_schedule_type
  virtual_last_update :: "128 word"
  virtual_position :: "128 word"
  virtual_scheduled_time :: "128 word"
  running_version :: "32 word"
  hardfork_version_vote :: "32 word"
  hardfork_time_vote :: "32 word"
  available_witness_account_subsidies :: int

record witness_vote_object =
  vote_witness :: string
  vote_account :: string

record witness_schedule_object =
  current_virtual_time :: "128 word"
  next_shuffle_block_num :: "32 word"
  current_shuffled_witnesses :: "string list"
  num_scheduled_witnesses :: "8 word"
  elected_weight :: "8 word"
  timeshare_weight :: "8 word"
  miner_weight :: "8 word"
  witness_pay_normalization_factor :: "32 word"
  median_props :: chain_properties
  majority_version :: "32 word"
  max_voted_witnesses :: "8 word"
  max_miner_witnesses :: "8 word"
  max_runner_witnesses :: "8 word"
  hardfork_required_witnesses :: "8 word"
  account_subsidy_rd :: rd_dynamics_params
  account_subsidy_witness_rd :: rd_dynamics_params
  min_witness_account_subsidy_decay :: int

record hardfork_property_object =
  current_hardfork_version :: "32 word"
  next_hardfork :: "32 word"
  next_hardfork_time :: "32 word"

text \<open>The chain has two schedules since hardfork 26, that of the current round and that of the next one. The
  resource parameters of new accounts are set with the schedule.\<close>

datatype wso_ref = Current_wso | Future_wso

record schedule_state =
  node_ledger :: ledger
  witnesses :: "witness_object table"
  witness_votes :: "witness_vote_object table"
  current_wso :: witness_schedule_object
  future_wso :: witness_schedule_object
  hardforks :: hardfork_property_object
  new_accounts_rd :: rd_dynamics_params
  new_accounts_curve :: rc_price_curve_params

type_synonym 'a schedule_op = "(schedule_state, 'a) op"

fun wso_of :: "wso_ref \<Rightarrow> schedule_state \<Rightarrow> witness_schedule_object" where
  "wso_of Current_wso s = current_wso s"
| "wso_of Future_wso s = future_wso s"

fun set_wso :: "wso_ref \<Rightarrow> witness_schedule_object \<Rightarrow> schedule_state \<Rightarrow> schedule_state" where
  "set_wso Current_wso w s = s\<lparr>current_wso := w\<rparr>"
| "set_wso Future_wso w s = s\<lparr>future_wso := w\<rparr>"

abbreviation set_witnesses :: "witness_object table \<Rightarrow> schedule_state \<Rightarrow> schedule_state" where
  "set_witnesses t s \<equiv> s\<lparr>witnesses := t\<rparr>"

definition modify_witness :: "nat \<Rightarrow> (witness_object \<Rightarrow> witness_object) \<Rightarrow> unit schedule_op" where
  "modify_witness i f = modify_row witnesses set_witnesses i (\<lambda>w. Inr ((), f w))"

definition modify_global ::
  "(dynamic_global_property_object \<Rightarrow> dynamic_global_property_object) \<Rightarrow> unit schedule_op" where
  "modify_global f = update_s (\<lambda>s. s\<lparr>node_ledger := (node_ledger s)\<lparr>dgpo := f (dgpo (node_ledger s))\<rparr>\<rparr>)"

definition is_disabled :: "witness_object \<Rightarrow> bool" where
  "is_disabled w \<longleftrightarrow> signing_key w = replicate 33 0"

definition by_vote_name :: "nat \<times> witness_object \<Rightarrow> nat \<times> witness_object \<Rightarrow> bool" where
  "by_vote_name x y \<longleftrightarrow> votes (snd x) > votes (snd y) \<or>
     votes (snd x) = votes (snd y) \<and> name_lt (w_owner (snd x)) (w_owner (snd y))"

definition by_pow :: "nat \<times> witness_object \<Rightarrow> nat \<times> witness_object \<Rightarrow> bool" where
  "by_pow x y \<longleftrightarrow> pow_worker (snd x) < pow_worker (snd y) \<or>
     pow_worker (snd x) = pow_worker (snd y) \<and> fst x < fst y"

definition by_schedule_time :: "nat \<times> witness_object \<Rightarrow> nat \<times> witness_object \<Rightarrow> bool" where
  "by_schedule_time x y \<longleftrightarrow> virtual_scheduled_time (snd x) < virtual_scheduled_time (snd y) \<or>
     virtual_scheduled_time (snd x) = virtual_scheduled_time (snd y) \<and> fst x < fst y"

definition get_witness :: "string \<Rightarrow> witness_object schedule_op" where
  "get_witness n = read_s (\<lambda>s. case find_by (\<lambda>w. w_owner w = n) (witnesses s) of
     None \<Rightarrow> Inl (Assert_exn ''Witness doesn't exist'')
   | Some i \<Rightarrow> (case find_row (witnesses s) i of None \<Rightarrow> Inl Undefined | Some w \<Rightarrow> Inr w))"

definition HIVE_MAX_WITNESSES :: nat where "HIVE_MAX_WITNESSES = 21"

definition HIVE_HARDFORK_REQUIRED_WITNESSES :: "32 word" where "HIVE_HARDFORK_REQUIRED_WITNESSES = 17"

definition HIVE_VIRTUAL_SCHEDULE_LAP_LENGTH2 :: "128 word" where "HIVE_VIRTUAL_SCHEDULE_LAP_LENGTH2 = - 1"

definition pixa_hardfork_quorum :: "32 word \<Rightarrow> 32 word" where
  "pixa_hardfork_quorum n =
     (if n = 0 then HIVE_HARDFORK_REQUIRED_WITNESSES
      else min (max ((n * HIVE_HARDFORK_REQUIRED_WITNESSES + of_nat HIVE_MAX_WITNESSES - 1) div of_nat HIVE_MAX_WITNESSES) 1) n)"

definition get_witness_schedule_object_for_irreversibility :: "schedule_state \<Rightarrow> wso_ref" where
  "get_witness_schedule_object_for_irreversibility s =
     (if has_hardfork 26 (node_ledger s) then Future_wso else Current_wso)"

section \<open>Selection\<close>

text \<open>The virtual time of a lap; more votes make it shorter.\<close>

definition lap_time :: "witness_object \<Rightarrow> (128 word) res" where
  "lap_time w =
     bind_r (i64 (votes w + 1)) (\<lambda>d. div_128 HIVE_VIRTUAL_SCHEDULE_LAP_LENGTH2 (of_int d))"

definition reset_virtual_schedule_time :: "unit schedule_op" where
  "reset_virtual_schedule_time =
     bind_s (get_s id) (\<lambda>s.
     let ref = (if has_hardfork 27 (node_ledger s) then get_witness_schedule_object_for_irreversibility s
                else Current_wso) in
     bind_s (update_s (\<lambda>s. set_wso ref ((wso_of ref s)\<lparr>current_virtual_time := 0\<rparr>) s)) (\<lambda>_.
     foreach_s (map fst (rows (witnesses s))) (\<lambda>i.
       modify_row witnesses set_witnesses i (\<lambda>w.
         bind_r (lap_time w) (\<lambda>t.
         Inr ((), w\<lparr>virtual_position := 0, virtual_last_update := 0, virtual_scheduled_time := t\<rparr>))))))"

text \<open>Since hardfork 30 a witness needs the approval of one percent of all VESTS, as long as some
  enabled witness has it.\<close>

definition minimum_votes :: "int \<Rightarrow> int" where
  "minimum_votes total_vests = max 1 (total_vests sdiv 100 + (if total_vests smod 100 \<noteq> 0 then 1 else 0))"

definition eligible :: "schedule_state \<Rightarrow> witness_object \<Rightarrow> bool" where
  "eligible s w =
     (let approval_required = has_hardfork 30 (node_ledger s);
          least = (if approval_required then minimum_votes (tamount (total_vesting_shares (dgpo (node_ledger s)))) else 0);
          any_approved = (approval_required \<and>
            list_ex (\<lambda>(i, v). \<not> is_disabled v \<and> votes v \<ge> least) (index_rows by_vote_name (witnesses s)))
      in
      if is_disabled w then False
      else if \<not> approval_required \<or> \<not> any_approved then True
      else votes w \<ge> least)"

definition schedulable :: "schedule_state \<Rightarrow> witness_object \<Rightarrow> bool" where
  "schedulable s w =
     (if has_hardfork 30 (node_ledger s) then eligible s w
      else \<not> (has_hardfork 14 (node_ledger s) \<and> is_disabled w))"

text \<open>The first argument of the following operations is the state at the start of the selection. The
  highest voted witnesses are elected.\<close>

type_synonym picked = "nat list \<times> string list"

definition elect :: "schedule_state \<Rightarrow> nat \<times> witness_object \<Rightarrow> picked \<Rightarrow> picked schedule_op" where
  "elect s0 r = (\<lambda>(selected, active).
     if \<not> schedulable s0 (snd r) then ret_s (selected, active)
     else
       bind_s (modify_witness (fst r) (\<lambda>w. w\<lparr>schedule := elected\<rparr>)) (\<lambda>_.
       ret_s (selected @ [fst r], active @ [w_owner (snd r)])))"

definition select_voted :: "schedule_state \<Rightarrow> wso_ref \<Rightarrow> picked schedule_op" where
  "select_voted s0 ref =
     bind_s (get_s id) (\<lambda>s.
     for_s (\<lambda>(selected, _). length selected \<ge> unat (max_voted_witnesses (wso_of ref s))) (elect s0)
       (index_rows by_vote_name (witnesses s)) ([], []))"

text \<open>The miners at the head of the queue follow; a processed miner leaves the queue.\<close>

definition pick_miner ::
  "schedule_state \<Rightarrow> nat list \<Rightarrow> nat \<times> witness_object \<Rightarrow> picked \<Rightarrow> picked schedule_op" where
  "pick_miner s0 voted r = (\<lambda>(selected, active).
     bind_s (if fst r \<notin> set voted \<and> schedulable s0 (snd r) then
               bind_s (modify_witness (fst r) (\<lambda>w. w\<lparr>schedule := miner\<rparr>)) (\<lambda>_.
               ret_s (selected @ [fst r], active @ [w_owner (snd r)]))
             else ret_s (selected, active)) (\<lambda>a.
     bind_s (modify_witness (fst r) (\<lambda>w. w\<lparr>pow_worker := 0\<rparr>)) (\<lambda>_.
     bind_s (modify_global (\<lambda>g. g\<lparr>num_pow_witnesses := num_pow_witnesses g - 1\<rparr>)) (\<lambda>_.
     ret_s a))))"

definition select_miners ::
  "schedule_state \<Rightarrow> wso_ref \<Rightarrow> nat list \<Rightarrow> string list \<Rightarrow> picked schedule_op" where
  "select_miners s0 ref voted active =
     bind_s (get_s id) (\<lambda>s.
     for_s (\<lambda>(selected, _). length selected \<ge> unat (max_miner_witnesses (wso_of ref s))) (pick_miner s0 voted)
       (filter (\<lambda>(i, w). pow_worker w > 0) (index_rows by_pow (witnesses s))) ([], active))"

text \<open>The witnesses in the lead by virtual time fill the schedule. The result is the new virtual time,
  the witnesses that were passed, the active witnesses and their number.\<close>

type_synonym running = "128 word \<times> nat list \<times> string list \<times> nat"

definition pick_runner ::
  "schedule_state \<Rightarrow> nat list \<Rightarrow> nat \<times> witness_object \<Rightarrow> running \<Rightarrow> running schedule_op" where
  "pick_runner s0 taken r = (\<lambda>(vt, processed, active, n).
     let vt' = virtual_scheduled_time (snd r); processed' = processed @ [fst r] in
     if \<not> schedulable s0 (snd r) then ret_s (vt', processed', active, n)
     else if fst r \<notin> set taken then
       bind_s (modify_witness (fst r) (\<lambda>w. w\<lparr>schedule := timeshare\<rparr>)) (\<lambda>_.
       ret_s (vt', processed', active @ [w_owner (snd r)], Suc n))
     else ret_s (vt', processed', active, n))"

definition select_runners ::
  "schedule_state \<Rightarrow> wso_ref \<Rightarrow> nat list \<Rightarrow> string list \<Rightarrow> running schedule_op" where
  "select_runners s0 ref taken active =
     bind_s (get_s id) (\<lambda>s.
     for_s (\<lambda>(_, _, _, n). n \<ge> HIVE_MAX_WITNESSES) (pick_runner s0 taken)
       (index_rows by_schedule_time (witnesses s))
       (current_virtual_time (wso_of ref s), [], active, length taken))"

text \<open>The passed witnesses start a new lap; the result tells whether the virtual time overflowed.\<close>

definition advance :: "128 word \<Rightarrow> nat \<Rightarrow> bool \<Rightarrow> bool schedule_op" where
  "advance vt i u =
     bind_s (get_row witnesses i) (\<lambda>w.
     bind_s (lift_s (lap_time w)) (\<lambda>lap.
     let t = vt + lap in
     if t < vt then ret_s True
     else
       bind_s (modify_witness i (\<lambda>w. w\<lparr>virtual_position := 0, virtual_last_update := vt,
                                      virtual_scheduled_time := t\<rparr>)) (\<lambda>_.
       ret_s False)))"

definition eligible_count :: "schedule_state \<Rightarrow> schedule_state \<Rightarrow> nat" where
  "eligible_count s0 s =
     length (filter (\<lambda>(i, w). if has_hardfork 30 (node_ledger s0) then eligible s0 w else \<not> is_disabled w)
       (index_rows by_vote_name (witnesses s)))"

text \<open>The active witnesses, how many of them are elected and mined, and the new virtual time.\<close>

definition select_witnesses :: "wso_ref \<Rightarrow> (string list \<times> nat \<times> nat \<times> 128 word) schedule_op" where
  "select_witnesses ref =
     bind_s (get_s id) (\<lambda>s0.
     bind_s (select_voted s0 ref) (\<lambda>(voted, active1).
     bind_s (select_miners s0 ref voted active1) (\<lambda>(miners, active2).
     bind_s (select_runners s0 ref (voted @ miners) active2) (\<lambda>(vt, processed, active, _).
     bind_s (for_s id (advance vt) processed False) (\<lambda>reset.
     bind_s (if reset then reset_virtual_schedule_time else ret_s ()) (\<lambda>_.
     bind_s (get_s (eligible_count s0)) (\<lambda>n.
     bind_s (check_s (length active = min HIVE_MAX_WITNESSES n)
       ''number of active witnesses does not equal expected_active_witnesses'') (\<lambda>_.
     bind_s (check_s (active \<noteq> []) ''No eligible witness remains to produce blocks'') (\<lambda>_.
     ret_s (active, length active1, length miners, if reset then 0 else vt))))))))))"

section \<open>Votes for versions and hardforks\<close>

text \<open>A \<^verbatim>\<open>flat_map\<close> from keys to numbers is a list in the order of its comparison, which is a strict
  order on versions of the same major number; counting a key increases its number or inserts it.\<close>

primrec tally_add :: "('k \<Rightarrow> 'k \<Rightarrow> bool) \<Rightarrow> 'k \<Rightarrow> ('k \<times> 32 word) list \<Rightarrow> ('k \<times> 32 word) list" where
  "tally_add before k [] = [(k, 1)]"
| "tally_add before k (e # es) =
     (if before (fst e) k then e # tally_add before k es
      else if before k (fst e) then (k, 1) # e # es
      else (fst e, snd e + 1) # es)"

definition tally :: "('k \<Rightarrow> 'k \<Rightarrow> bool) \<Rightarrow> 'k list \<Rightarrow> ('k \<times> 32 word) list" where
  "tally before ks = fold (tally_add before) ks []"

type_synonym hardfork_vote = "32 word \<times> 32 word"

definition vote_less :: "hardfork_vote \<Rightarrow> hardfork_vote \<Rightarrow> bool" where
  "vote_less a b \<longleftrightarrow> version_less (fst a) (fst b) \<or> \<not> version_less (fst b) (fst a) \<and> snd a < snd b"

text \<open>The highest version that enough witnesses run at least, and the first future hardfork with
  enough votes.\<close>

primrec version_majority :: "int \<Rightarrow> (32 word \<times> 32 word) list \<Rightarrow> int \<Rightarrow> (32 word) option" where
  "version_majority quorum [] n = None"
| "version_majority quorum (e # es) n =
     (if n + uint (snd e) \<ge> quorum then Some (fst e) else version_majority quorum es (n + uint (snd e)))"

primrec hardfork_majority ::
  "32 word \<Rightarrow> 32 word \<Rightarrow> (hardfork_vote \<times> 32 word) list \<Rightarrow> hardfork_vote option" where
  "hardfork_majority current quorum [] = None"
| "hardfork_majority current quorum (e # es) =
     (if version_less_eq (fst (fst e)) current then hardfork_majority current quorum es
      else if snd e \<ge> quorum then Some (fst e)
      else hardfork_majority current quorum es)"

definition set_next_hardfork ::
  "32 word \<Rightarrow> (hardfork_vote \<times> 32 word) list \<Rightarrow> hardfork_property_object \<Rightarrow> hardfork_property_object" where
  "set_next_hardfork quorum vs h =
     (case hardfork_majority (current_hardfork_version h) quorum vs of
        Some (v, t) \<Rightarrow>
          if \<not> version_eq (next_hardfork h) v \<or> next_hardfork_time h \<noteq> t
          then h\<lparr>next_hardfork := and v 0xFFFF0000, next_hardfork_time := t\<rparr> else h
      | None \<Rightarrow> h\<lparr>next_hardfork := and (current_hardfork_version h) 0xFFFF0000\<rparr>)"

primrec collect_s :: "('x \<Rightarrow> ('s, 'a) op) \<Rightarrow> 'x list \<Rightarrow> ('s, 'a list) op" where
  "collect_s f [] = ret_s []"
| "collect_s f (x # xs) = bind_s (f x) (\<lambda>y. bind_s (collect_s f xs) (\<lambda>ys. ret_s (y # ys)))"

definition scheduled_witnesses :: "wso_ref \<Rightarrow> witness_object list schedule_op" where
  "scheduled_witnesses ref =
     bind_s (get_s (wso_of ref)) (\<lambda>wso.
     if unat (num_scheduled_witnesses wso) \<le> length (current_shuffled_witnesses wso)
     then collect_s get_witness (take (unat (num_scheduled_witnesses wso)) (current_shuffled_witnesses wso))
     else throw_s Undefined)"

definition is_producing :: "64 word \<Rightarrow> witness_object \<Rightarrow> bool" where
  "is_producing head w \<longleftrightarrow>
     \<not> (last_confirmed_block_num w = 0 \<or> head - last_confirmed_block_num w > 2 * of_nat HIVE_MAX_WITNESSES)"

definition HIVE_HARDFORK_0_22_VERSION :: "32 word" where "HIVE_HARDFORK_0_22_VERSION = 0x00160000"
definition HIVE_HARDFORK_0_23_VERSION :: "32 word" where "HIVE_HARDFORK_0_23_VERSION = 0x00170000"
definition HIVE_HARDFORK_0_23_TIME :: "32 word" where "HIVE_HARDFORK_0_23_TIME = 1584712800"

text \<open>The quorum refers to the producing witnesses, and only their votes count. The result is the
  majority version.\<close>

definition count_votes :: "wso_ref \<Rightarrow> (32 word) schedule_op" where
  "count_votes ref =
     bind_s (get_s id) (\<lambda>s.
     let wso = wso_of ref s; h = hardforks s in
     if \<not> has_hardfork 5 (node_ledger s) then ret_s (majority_version wso)
     else
       bind_s (scheduled_witnesses ref) (\<lambda>ws.
       let producing = filter (is_producing (ucast (head_block_number (dgpo (node_ledger s))))) ws;
           versions = tally version_greater (map running_version producing);
           hardfork_votes = tally vote_less (map (\<lambda>w. (hardfork_version_vote w, hardfork_time_vote w)) producing);
           quorum_basis = (if producing \<noteq> [] then of_nat (length producing) else ucast (num_scheduled_witnesses wso));
           hardfork_vote_quorum = pixa_hardfork_quorum quorum_basis;
           majority_version_quorum = (if has_hardfork 29 (node_ledger s) then hardfork_vote_quorum
             else ucast (hardfork_required_witnesses wso))
       in
       if version_eq (current_hardfork_version h) HIVE_HARDFORK_0_22_VERSION then
         bind_s (if \<not> version_eq (next_hardfork h) HIVE_HARDFORK_0_23_VERSION
                 then update_s (\<lambda>s. s\<lparr>hardforks := (hardforks s)\<lparr>next_hardfork := HIVE_HARDFORK_0_23_VERSION,
                        next_hardfork_time := HIVE_HARDFORK_0_23_TIME\<rparr>\<rparr>)
                 else ret_s ()) (\<lambda>_.
         ret_s (majority_version wso))
       else
         bind_s (update_s (\<lambda>s. s\<lparr>hardforks := set_next_hardfork hardfork_vote_quorum hardfork_votes (hardforks s)\<rparr>)) (\<lambda>_.
         ret_s (case version_majority (uint majority_version_quorum) versions 0 of
                  None \<Rightarrow> majority_version wso | Some v \<Rightarrow> v))))"

section \<open>Installing the schedule\<close>

definition shuffle_word :: "32 word \<Rightarrow> nat \<Rightarrow> 64 word" where
  "shuffle_word now i =
     (let k0 = push_bit 32 (ucast now) + of_nat i * 2685821657736338717 :: 64 word;
          k1 = xor k0 (drop_bit 12 k0);
          k2 = xor k1 (push_bit 25 k1);
          k3 = xor k2 (drop_bit 27 k2)
      in k3 * 2685821657736338717)"

definition swap_entries :: "nat \<Rightarrow> nat \<Rightarrow> 'a list \<Rightarrow> 'a list" where
  "swap_entries i j xs = xs[i := xs ! j, j := xs ! i]"

definition shuffle_step :: "32 word \<Rightarrow> nat \<Rightarrow> nat \<Rightarrow> 'a list \<Rightarrow> 'a list" where
  "shuffle_step now n i xs = swap_entries i (i + unat (shuffle_word now i mod of_nat (n - i))) xs"

definition shuffle_witnesses :: "32 word \<Rightarrow> nat \<Rightarrow> 'a list \<Rightarrow> 'a list" where
  "shuffle_witnesses now n xs = fold (shuffle_step now n) [0..<n] xs"

definition install_schedule ::
  "wso_ref \<Rightarrow> string list \<Rightarrow> nat \<Rightarrow> nat \<Rightarrow> 128 word \<Rightarrow> 32 word \<Rightarrow> unit schedule_op" where
  "install_schedule ref active num_elected num_miners vt majority =
     bind_s (get_s id) (\<lambda>s.
     let wso = wso_of ref s;
         num_timeshare = length active - num_miners - num_elected;
         num = max (of_nat (length active)) 1 :: 8 word;
         names = active @ replicate (HIVE_MAX_WITNESSES - length active) []
     in
     update_s (set_wso ref (wso\<lparr>
       current_shuffled_witnesses := shuffle_witnesses (head_block_time (node_ledger s)) (unat num) names,
       num_scheduled_witnesses := num,
       witness_pay_normalization_factor := ucast (elected_weight wso) * of_nat num_elected +
         ucast (miner_weight wso) * of_nat num_miners + ucast (timeshare_weight wso) * of_nat num_timeshare,
       current_virtual_time := vt,
       next_shuffle_block_num := head_block_number (dgpo (node_ledger s)) + ucast num,
       majority_version := majority,
       hardfork_required_witnesses :=
         (if has_hardfork 29 (node_ledger s) then ucast (pixa_hardfork_quorum (ucast num))
          else hardfork_required_witnesses wso)\<rparr>)))"

section \<open>Median properties\<close>

definition median :: "('w \<Rightarrow> 'k::linorder) \<Rightarrow> 'w list \<Rightarrow> 'k" where
  "median f ws = sort (map f ws) ! (length ws div 2)"

definition HIVE_ACCOUNT_SUBSIDY_PRECISION :: "64 word" where "HIVE_ACCOUNT_SUBSIDY_PRECISION = 10000"
definition HIVE_WITNESS_SUBSIDY_BUDGET_PERCENT :: int where "HIVE_WITNESS_SUBSIDY_BUDGET_PERCENT = 12500"
definition HIVE_WITNESS_SUBSIDY_DECAY_PERCENT :: "64 word" where "HIVE_WITNESS_SUBSIDY_DECAY_PERCENT = 210000"
definition HIVE_DECAY_BACKSTOP_PERCENT :: "128 word" where "HIVE_DECAY_BACKSTOP_PERCENT = 9000"

definition update_global_witness_properties :: "wso_ref \<Rightarrow> unit schedule_op" where
  "update_global_witness_properties ref =
     bind_s (get_s (wso_of ref)) (\<lambda>wso.
     modify_global (\<lambda>g. g\<lparr>maximum_block_size := cp_maximum_block_size (median_props wso), hbd_interest_rate := 0\<rparr>))"

text \<open>The subsidy of new accounts per elected witness is a share of the global one.\<close>

definition per_witness_params :: "int \<Rightarrow> 32 word \<Rightarrow> rd_user_params" where
  "per_witness_params budget decay =
     \<lparr>user_budget_per_time_unit =
        min ((budget * HIVE_WITNESS_SUBSIDY_BUDGET_PERCENT) sdiv HIVE_100_PERCENT) 2147483647,
      user_decay_per_time_unit =
        ucast (min ((ucast decay * HIVE_WITNESS_SUBSIDY_DECAY_PERCENT) div of_int HIVE_100_PERCENT) 4294967295 :: 64 word)\<rparr>"

definition min_subsidy_decay :: "fc_lib \<Rightarrow> rd_dynamics_params \<Rightarrow> int \<Rightarrow> int res" where
  "min_subsidy_decay F rd available =
     bind_r (rd_compute_pool_decay F (decay_params rd) available 1) (\<lambda>median_decay.
     bind_r (div_128 (of_int (max median_decay 0) * HIVE_DECAY_BACKSTOP_PERCENT) (of_int HIVE_100_PERCENT)) (\<lambda>q.
     uint128_to_int64 F q))"

definition update_median_witness_props :: "fc_lib \<Rightarrow> wso_ref \<Rightarrow> unit schedule_op" where
  "update_median_witness_props F ref =
     bind_s (scheduled_witnesses ref) (\<lambda>active.
     if active = [] then throw_s Undefined
     else
       let fee = median (tamount \<circ> account_creation_fee \<circ> w_props) active;
           size = median (cp_maximum_block_size \<circ> w_props) active;
           budget = median (account_subsidy_budget \<circ> w_props) active;
           decay = median (account_subsidy_decay \<circ> w_props) active;
           available = median available_witness_account_subsidies active;
           system_params = \<lparr>system_resource_unit = HIVE_ACCOUNT_SUBSIDY_PRECISION,
             system_decay_per_time_unit_denom_shift = HIVE_RD_DECAY_DENOM_SHIFT\<rparr>;
           user_params = \<lparr>user_budget_per_time_unit = budget, user_decay_per_time_unit = decay\<rparr>
       in
       bind_s (lift_s (rd_validate_user_params user_params)) (\<lambda>_.
       bind_s (get_s id) (\<lambda>s.
       let wso = wso_of ref s in
       bind_s (lift_s (rd_setup_dynamics_params F user_params system_params (account_subsidy_rd wso))) (\<lambda>rd.
       bind_s (lift_s (rd_setup_dynamics_params F (per_witness_params budget decay) system_params
         (account_subsidy_witness_rd wso))) (\<lambda>wrd.
       bind_s (lift_s (min_subsidy_decay F wrd available)) (\<lambda>least.
       bind_s (update_s (set_wso ref (wso\<lparr>
         median_props := \<lparr>account_creation_fee = tiny fee, cp_maximum_block_size = size, cp_hbd_interest_rate = 0,
           account_subsidy_budget = budget, account_subsidy_decay = decay\<rparr>,
         account_subsidy_rd := rd, account_subsidy_witness_rd := wrd\<lparr>min_decay := least\<rparr>\<rparr>))) (\<lambda>_.
       if \<not> has_hardfork 28 (node_ledger s) then update_global_witness_properties ref else ret_s ())))))))"

definition update_witness_schedule4 :: "fc_lib \<Rightarrow> wso_ref \<Rightarrow> unit schedule_op" where
  "update_witness_schedule4 F ref =
     bind_s (select_witnesses ref) (\<lambda>(active, num_elected, num_miners, vt).
     bind_s (count_votes ref) (\<lambda>majority.
     bind_s (install_schedule ref active num_elected num_miners vt majority) (\<lambda>_.
     update_median_witness_props F ref)))"

section \<open>The round\<close>

definition HIVE_START_MINER_VOTING_BLOCK :: "32 word" where
  "HIVE_START_MINER_VOTING_BLOCK = HIVE_BLOCKS_PER_DAY * 30"

definition HIVE_VIRTUAL_SCHEDULE_LAP_LENGTH :: "128 word" where
  "HIVE_VIRTUAL_SCHEDULE_LAP_LENGTH = 18446744073709551615"

text \<open>Before hardfork 4: the nineteen highest voted witnesses, one by virtual time, and the miners.\<close>

definition legacy_elect :: "nat \<times> witness_object \<Rightarrow> string list \<Rightarrow> string list schedule_op" where
  "legacy_elect r active =
     (if pow_worker (snd r) \<noteq> 0 then ret_s active
      else
        bind_s (modify_witness (fst r) (\<lambda>w. w\<lparr>virtual_scheduled_time := - 1\<rparr>)) (\<lambda>_.
        ret_s (active @ [w_owner (snd r)])))"

definition legacy_runner :: "string list \<Rightarrow> (string list \<times> 128 word) schedule_op" where
  "legacy_runner active =
     bind_s (get_s id) (\<lambda>s.
     case dropWhile (\<lambda>(i, w). pow_worker w \<noteq> 0) (index_rows by_schedule_time (witnesses s)) of
       [] \<Rightarrow> ret_s (active, 0)
     | (i, w) # _ \<Rightarrow>
         let vt = (if virtual_scheduled_time w = - 1 then 0 else virtual_scheduled_time w);
             lap = (if has_hardfork 2 (node_ledger s) then HIVE_VIRTUAL_SCHEDULE_LAP_LENGTH2
                    else HIVE_VIRTUAL_SCHEDULE_LAP_LENGTH)
         in
         bind_s (lift_s (bind_r (i64 (votes w + 1)) (\<lambda>d. div_128 lap (of_int d)))) (\<lambda>t.
         bind_s (modify_witness i (\<lambda>w. w\<lparr>virtual_position := 0,
           virtual_scheduled_time := virtual_scheduled_time w + t\<rparr>)) (\<lambda>_.
         ret_s (active @ [w_owner w], vt))))"

definition queued_miners :: "schedule_state \<Rightarrow> (nat \<times> witness_object) list" where
  "queued_miners s = filter (\<lambda>(i, w). pow_worker w \<ge> 1) (index_rows by_pow (witnesses s))"

definition pop_miner :: "unit schedule_op" where
  "pop_miner =
     bind_s (get_s id) (\<lambda>s.
     if num_pow_witnesses (dgpo (node_ledger s)) > of_nat HIVE_MAX_WITNESSES then
       case queued_miners s of [] \<Rightarrow> ret_s ()
       | (i, w) # _ \<Rightarrow>
           bind_s (modify_witness i (\<lambda>w. w\<lparr>pow_worker := 0\<rparr>)) (\<lambda>_.
           modify_global (\<lambda>g. g\<lparr>num_pow_witnesses := num_pow_witnesses g - 1\<rparr>))
     else ret_s ())"

definition legacy_miner ::
  "bool \<Rightarrow> nat \<times> witness_object \<Rightarrow> string list \<times> bool \<Rightarrow> (string list \<times> bool) schedule_op" where
  "legacy_miner one r = (\<lambda>(active, _).
     let active' = active @ [w_owner (snd r)] in
     ret_s (active', one \<or> length active' \<ge> HIVE_MAX_WITNESSES))"

definition update_witness_schedule_pre_hf4 :: "fc_lib \<Rightarrow> unit schedule_op" where
  "update_witness_schedule_pre_hf4 F =
     bind_s (get_s id) (\<lambda>s.
     let by_votes = (\<lambda>s. num_pow_witnesses (dgpo (node_ledger s)) = 0 \<or>
           head_block_number (dgpo (node_ledger s)) > HIVE_START_MINER_VOTING_BLOCK) in
     bind_s (if by_votes s then
               bind_s (for_s (\<lambda>active. length active \<ge> HIVE_MAX_WITNESSES - 2) legacy_elect
                 (index_rows by_vote_name (witnesses s)) []) legacy_runner
             else ret_s ([], 0)) (\<lambda>(active, vt).
     bind_s pop_miner (\<lambda>_.
     bind_s (get_s queued_miners) (\<lambda>queue.
     bind_s (for_s snd (legacy_miner (head_block_number (dgpo (node_ledger s)) > HIVE_START_MINER_VOTING_BLOCK))
       queue (active, False)) (\<lambda>(active, _).
     bind_s (update_s (\<lambda>s.
       let num = max (of_nat (length active)) 1 :: 8 word;
           names = active @ replicate (HIVE_MAX_WITNESSES - length active) [];
           wso = current_wso s
       in s\<lparr>current_wso := wso\<lparr>
         current_shuffled_witnesses := shuffle_witnesses (head_block_time (node_ledger s)) (unat num) names,
         num_scheduled_witnesses := num,
         current_virtual_time := (if by_votes s then vt else current_virtual_time wso),
         next_shuffle_block_num := head_block_number (dgpo (node_ledger s)) + ucast num\<rparr>\<rparr>)) (\<lambda>_.
     update_median_witness_props F Current_wso))))))"

definition copy_values_from :: "witness_schedule_object \<Rightarrow> witness_schedule_object \<Rightarrow> witness_schedule_object" where
  "copy_values_from rhs wso = wso\<lparr>
     current_virtual_time := current_virtual_time rhs,
     next_shuffle_block_num := next_shuffle_block_num rhs,
     current_shuffled_witnesses := current_shuffled_witnesses rhs,
     num_scheduled_witnesses := num_scheduled_witnesses rhs,
     elected_weight := elected_weight rhs,
     timeshare_weight := timeshare_weight rhs,
     miner_weight := miner_weight rhs,
     witness_pay_normalization_factor := witness_pay_normalization_factor rhs,
     median_props := median_props rhs,
     majority_version := majority_version rhs,
     max_voted_witnesses := max_voted_witnesses rhs,
     max_miner_witnesses := max_miner_witnesses rhs,
     max_runner_witnesses := max_runner_witnesses rhs,
     hardfork_required_witnesses := hardfork_required_witnesses rhs,
     account_subsidy_rd := account_subsidy_rd rhs,
     account_subsidy_witness_rd := account_subsidy_witness_rd rhs,
     min_witness_account_subsidy_decay := min_witness_account_subsidy_decay rhs\<rparr>"

definition set_pool_params :: "fc_lib \<Rightarrow> (64 word \<Rightarrow> nat) \<Rightarrow> unit schedule_op" where
  "set_pool_params F find_msb =
     bind_s (get_s id) (\<lambda>s.
     let rd = account_subsidy_rd (current_wso s) in
     if new_accounts_rd s \<noteq> rd then
       bind_s (lift_s (generate_rc_curve_params F find_msb rd default_rc_curve_gen_params)) (\<lambda>c.
       update_s (\<lambda>s. s\<lparr>new_accounts_rd := rd, new_accounts_curve := c\<rparr>))
     else ret_s ())"

definition update_witness_schedule :: "fc_lib \<Rightarrow> (64 word \<Rightarrow> nat) \<Rightarrow> unit schedule_op" where
  "update_witness_schedule F find_msb =
     bind_s (get_s id) (\<lambda>s.
     let hf = (\<lambda>n. has_hardfork n (node_ledger s)) in
     if head_block_number (dgpo (node_ledger s)) mod of_nat HIVE_MAX_WITNESSES \<noteq> 0 then ret_s ()
     else if hf 4 then
       bind_s (if hf 26 then
                 bind_s (update_s (\<lambda>s. s\<lparr>current_wso := copy_values_from (future_wso s) (current_wso s)\<rparr>)) (\<lambda>_.
                 bind_s (if hf 28 then update_global_witness_properties Current_wso else ret_s ()) (\<lambda>_.
                 update_witness_schedule4 F Future_wso))
               else update_witness_schedule4 F Current_wso) (\<lambda>_.
       if hf 20 then set_pool_params F find_msb else ret_s ())
     else update_witness_schedule_pre_hf4 F)"

text \<open>The producer of a slot.\<close>

definition get_scheduled_witness :: "64 word \<Rightarrow> 32 word \<Rightarrow> schedule_state \<Rightarrow> string res" where
  "get_scheduled_witness current_aslot slot_num s =
     (let wso = current_wso s; n = num_scheduled_witnesses wso in
      if n = 0 \<or> unat ((current_aslot + ucast slot_num) mod ucast n) \<ge> length (current_shuffled_witnesses wso)
      then Inl Undefined
      else Inr (current_shuffled_witnesses wso ! unat ((current_aslot + ucast slot_num) mod ucast n)))"

end
