(* ===== verification/Schedule_Laws.thy ===== *)
theory Schedule_Laws
  imports Witness_Schedule "HOL-Library.Multiset"
begin

text \<open>
  Laws of the witness schedule. \<open>same_core\<close> relates states that differ only in what the selection of witnesses
  changes: how a witness was scheduled last, the queue of miners and the virtual times. Over such
  states the selection is a function of the votes, names and keys of the witnesses.
\<close>

section \<open>Loops with a result\<close>

text \<open>A loop whose body computes a function of the result and keeps an invariant of the state.\<close>

primrec pure_for :: "('a \<Rightarrow> bool) \<Rightarrow> ('x \<Rightarrow> 'a \<Rightarrow> 'a) \<Rightarrow> 'x list \<Rightarrow> 'a \<Rightarrow> 'a" where
  "pure_for stop f [] a = a"
| "pure_for stop f (x # xs) a = (if stop a then a else pure_for stop f xs (f x a))"

lemma for_s_pure:
  assumes "\<And>x a s. x \<in> set xs \<Longrightarrow> I s \<Longrightarrow> \<exists>s'. body x a s = Inr (f x a, s') \<and> I s'" and "I s"
  shows "\<exists>s'. for_s stop body xs a s = Inr (pure_for stop f xs a, s') \<and> I s'"
  using assms
proof (induction xs arbitrary: a s)
  case (Cons x xs)
  show ?case
  proof (cases "stop a")
    case False
    obtain t where t: "body x a s = Inr (f x a, t)" "I t" using Cons.prems by force
    then show ?thesis using Cons.IH [of t "f x a"] Cons.prems(1) False by auto
  qed (use Cons.prems(2) in simp)
qed simp

lemma foreach_s_keeps:
  assumes "\<And>x s. x \<in> set xs \<Longrightarrow> I s \<Longrightarrow> \<exists>s'. body x s = Inr ((), s') \<and> I s'" and "I s"
  shows "\<exists>s'. foreach_s xs body s = Inr ((), s') \<and> I s'"
  using assms
proof (induction xs arbitrary: s)
  case (Cons x xs)
  obtain t where t: "body x s = Inr ((), t)" "I t" using Cons.prems by force
  then show ?case using Cons.IH [of t] Cons.prems(1) by auto
qed simp

lemma pure_for_pick:
  "pure_for (\<lambda>(sel, _). m \<le> length sel) (\<lambda>r (sel, act). if P r then (sel @ [g r], act @ [h r]) else (sel, act))
     rs (sel, act) =
   (let chosen = take (m - length sel) (filter P rs) in (sel @ map g chosen, act @ map h chosen))"
proof (induction rs arbitrary: sel act)
  case (Cons r rs)
  show ?case
  proof (cases "m \<le> length sel")
    case False
    then have "m - length sel = Suc (m - Suc (length sel))" by simp
    then show ?thesis using Cons.IH [of "sel @ [g r]" "act @ [h r]"] Cons.IH [of sel act] False
      by (simp add: Let_def)
  qed simp
qed simp

text \<open>The runners: the first component of the result is not predicted.\<close>

lemma pure_for_run:
  fixes k :: "'r \<Rightarrow> 't"
  shows "\<exists>vt n. pure_for (\<lambda>(_, _, _, n). m \<le> n)
     (\<lambda>r (vt, pr, act, n). if P r then (k r, pr @ [g r], act @ [h r], Suc n) else (k r, pr @ [g r], act, n))
     rs (vt0, pr, act, n0) =
   (vt, pr @ map g (take n rs), act @ map h (take (m - n0) (filter P rs)),
    n0 + length (take (m - n0) (filter P rs)))"
proof (induction rs arbitrary: vt0 pr act n0)
  case (Cons r rs)
  show ?case
  proof (cases "m \<le> n0")
    case True
    have "pr = pr @ map g (take 0 (r # rs))" by simp
    then show ?thesis using True by force
  next
    case False
    then have s: "m - n0 = Suc (m - Suc n0)" by simp
    obtain vt n where "pure_for (\<lambda>(_, _, _, n). m \<le> n)
      (\<lambda>r (vt, pr, act, n). if P r then (k r, pr @ [g r], act @ [h r], Suc n) else (k r, pr @ [g r], act, n))
      rs (k r, pr @ [g r], if P r then act @ [h r] else act, if P r then Suc n0 else n0) =
      (vt, (pr @ [g r]) @ map g (take n rs),
       (if P r then act @ [h r] else act) @ map h (take (m - (if P r then Suc n0 else n0)) (filter P rs)),
       (if P r then Suc n0 else n0) + length (take (m - (if P r then Suc n0 else n0)) (filter P rs)))"
      using Cons.IH [of "k r" "pr @ [g r]" "if P r then act @ [h r] else act" "if P r then Suc n0 else n0"] by blast
    then show ?thesis using False s
      by (intro exI [of _ vt] exI [of _ "Suc n"]) (cases "P r"; simp)
  qed
qed force

section \<open>What the selection leaves alone\<close>

definition core :: "witness_object \<Rightarrow> witness_object" where
  "core w = w\<lparr>pow_worker := 0, schedule := none, virtual_last_update := 0, virtual_position := 0,
     virtual_scheduled_time := 0\<rparr>"

definition wso_core :: "witness_schedule_object \<Rightarrow> witness_schedule_object" where
  "wso_core w = w\<lparr>current_virtual_time := 0\<rparr>"

definition ledger_core :: "ledger \<Rightarrow> ledger" where
  "ledger_core l = l\<lparr>dgpo := (dgpo l)\<lparr>num_pow_witnesses := 0\<rparr>\<rparr>"

definition core_rows :: "schedule_state \<Rightarrow> (nat \<times> witness_object) list" where
  "core_rows s = map (\<lambda>(i, w). (i, core w)) (rows (witnesses s))"

definition same_core :: "schedule_state \<Rightarrow> schedule_state \<Rightarrow> bool" where
  "same_core s t \<longleftrightarrow>
     core_rows t = core_rows s \<and> next_id (witnesses t) = next_id (witnesses s) \<and>
     wso_core (current_wso t) = wso_core (current_wso s) \<and> wso_core (future_wso t) = wso_core (future_wso s) \<and>
     hardforks t = hardforks s \<and> ledger_core (node_ledger t) = ledger_core (node_ledger s) \<and>
     new_accounts_rd t = new_accounts_rd s \<and> new_accounts_curve t = new_accounts_curve s"

lemma same_core_refl [simp]: "same_core s s"
  by (simp add: same_core_def)

lemma same_core_trans: "same_core s t \<Longrightarrow> same_core t u \<Longrightarrow> same_core s u"
  by (simp add: same_core_def)

lemma core_simps [simp]:
  "core (w\<lparr>pow_worker := a\<rparr>) = core w" "core (w\<lparr>schedule := b\<rparr>) = core w"
  "core (w\<lparr>virtual_position := p, virtual_last_update := l, virtual_scheduled_time := t\<rparr>) = core w"
  by (simp_all add: core_def)

lemma core_eqD:
  assumes "core v = core w"
  shows "w_owner v = w_owner w" "votes v = votes w" "signing_key v = signing_key w" "w_props v = w_props w"
    "last_confirmed_block_num v = last_confirmed_block_num w" "running_version v = running_version w"
    "hardfork_version_vote v = hardfork_version_vote w" "hardfork_time_vote v = hardfork_time_vote w"
    "available_witness_account_subsidies v = available_witness_account_subsidies w"
  using assms by (cases v; cases w; simp add: core_def)+

lemma core_rows_put:
  assumes "table_wf (witnesses s)" "find_row (witnesses s) i = Some w" "core w' = core w"
  shows "core_rows (set_witnesses (put_row i w' (witnesses s)) s) = core_rows s"
proof -
  have "core (if j = i then w' else v) = core v" if "(j, v) \<in> set (rows (witnesses s))" for j v
    using that assms by (auto simp: find_row_eq [symmetric])
  then show ?thesis by (auto simp: core_rows_def put_row_def)
qed

lemma table_wf_core: "same_core s t \<Longrightarrow> table_wf (witnesses t) \<longleftrightarrow> table_wf (witnesses s)"
proof -
  have f: "map fst (rows (witnesses u)) = map fst (core_rows u)" for u
    by (simp add: core_rows_def case_prod_unfold)
  have "table_wf (witnesses u) \<longleftrightarrow> distinct (map fst (core_rows u)) \<and>
      list_all (\<lambda>i. i < next_id (witnesses u)) (map fst (core_rows u))" for u
    by (simp add: table_wf_def f [symmetric] list_all_iff case_prod_unfold)
  then show "same_core s t \<Longrightarrow> ?thesis" by (simp add: same_core_def)
qed

lemma row_core:
  assumes "same_core s t" "(i, w) \<in> set (rows (witnesses t))"
  obtains v where "(i, v) \<in> set (rows (witnesses s))" "core w = core v"
proof -
  have "(i, core w) \<in> set (core_rows t)" using assms(2) by (force simp: core_rows_def)
  then have "(i, core w) \<in> set (core_rows s)" using assms(1) by (simp add: same_core_def)
  then show ?thesis using that by (auto simp: core_rows_def)
qed

lemma same_core_sym: "same_core s t \<Longrightarrow> same_core t s"
  by (simp add: same_core_def)

lemma modify_row_core:
  assumes "same_core s0 s" "table_wf (witnesses s0)" "i \<in> fst ` set (rows (witnesses s0))"
    and "\<And>w. find_row (witnesses s) i = Some w \<Longrightarrow> \<exists>w'. f w = Inr ((), w') \<and> core w' = core w"
  shows "\<exists>s'. modify_row witnesses set_witnesses i f s = Inr ((), s') \<and> same_core s0 s'"
proof -
  have wf: "table_wf (witnesses s)" using table_wf_core [OF assms(1)] assms(2) by simp
  obtain v where "(i, v) \<in> set (rows (witnesses s0))" using assms(3) by auto
  then obtain w where "(i, w) \<in> set (rows (witnesses s))"
    using row_core [OF same_core_sym [OF assms(1)]] by metis
  then have w: "find_row (witnesses s) i = Some w" using wf by (simp add: find_row_eq)
  then obtain w' where w': "f w = Inr ((), w')" "core w' = core w" using assms(4) by blast
  let ?s = "set_witnesses (put_row i w' (witnesses s)) s"
  have "same_core s ?s"
    using core_rows_put [OF wf w w'(2)] by (simp add: same_core_def put_row_def)
  then show ?thesis
    using w w'(1) same_core_trans [OF assms(1)] by (auto simp: modify_row_def)
qed

lemma modify_witness_core:
  assumes "same_core s0 s" "table_wf (witnesses s0)" "i \<in> fst ` set (rows (witnesses s0))" "\<And>w. core (f w) = core w"
  shows "\<exists>s'. modify_witness i f s = Inr ((), s') \<and> same_core s0 s'"
  unfolding modify_witness_def by (rule modify_row_core [OF assms(1-3)]) (simp add: assms(4))

section \<open>The selection\<close>

definition candidates :: "schedule_state \<Rightarrow> nat list" where
  "candidates s = map fst (filter (\<lambda>r. schedulable s (snd r)) (rows (witnesses s)))"

definition owner_of :: "schedule_state \<Rightarrow> nat \<Rightarrow> string" where
  "owner_of s i = (case find_row (witnesses s) i of None \<Rightarrow> [] | Some w \<Rightarrow> w_owner w)"

text \<open>The witnesses that are elected by votes.\<close>

definition most_voted :: "schedule_state \<Rightarrow> nat \<Rightarrow> nat list" where
  "most_voted s m = take m (map fst (filter (\<lambda>r. schedulable s (snd r)) (index_rows by_vote_name (witnesses s))))"

lemma schedulable_core: "core v = core w \<Longrightarrow> schedulable s v = schedulable s w"
  using core_eqD(2,3) [of v w] by (simp add: schedulable_def eligible_def is_disabled_def)

lemma mset_sort_rows: "mset (sort_rows before rs) = mset rs"
proof -
  have "mset (insert_row before r qs) = add_mset r (mset qs)" for r qs by (induction qs) simp_all
  then show ?thesis by (induction rs) simp_all
qed

lemma index_distinct:
  assumes "table_wf t"
  shows "distinct (map fst (filter P (index_rows before t)))"
proof -
  have "mset (map fst (index_rows before t)) = mset (map fst (rows t))"
    unfolding index_rows_def mset_map mset_sort_rows ..
  from mset_eq_imp_distinct_iff [OF this] have "distinct (map fst (index_rows before t))"
    using assms by (simp add: table_wf_def)
  then show ?thesis by (rule distinct_map_filter)
qed

lemma owner_of_core:
  assumes "same_core s0 s" "table_wf (witnesses s0)" "r \<in> set (rows (witnesses s))"
  shows "w_owner (snd r) = owner_of s0 (fst r)"
proof -
  obtain v where v: "(fst r, v) \<in> set (rows (witnesses s0))" "core (snd r) = core v"
    using row_core [OF assms(1), of "fst r" "snd r"] assms(3) by auto
  then have "find_row (witnesses s0) (fst r) = Some v" using assms(2) by (simp add: find_row_eq)
  then show ?thesis using core_eqD(1) [OF v(2)] by (simp add: owner_of_def)
qed

lemma candidates_in:
  assumes "same_core s0 s"
  shows "fst ` {r \<in> set (rows (witnesses s)). schedulable s0 (snd r)} = set (candidates s0)"
proof (intro set_eqI iffI)
  fix i assume "i \<in> fst ` {r \<in> set (rows (witnesses s)). schedulable s0 (snd r)}"
  then obtain w where w: "(i, w) \<in> set (rows (witnesses s))" "schedulable s0 w" by force
  obtain v where "(i, v) \<in> set (rows (witnesses s0))" "core w = core v" using row_core [OF assms w(1)] .
  then show "i \<in> set (candidates s0)" using w(2) schedulable_core [of w v s0] by (force simp: candidates_def)
next
  fix i assume "i \<in> set (candidates s0)"
  then obtain v where v: "(i, v) \<in> set (rows (witnesses s0))" "schedulable s0 v" by (auto simp: candidates_def)
  obtain w where "(i, w) \<in> set (rows (witnesses s))" "core v = core w"
    using row_core [OF same_core_sym [OF assms] v(1)] .
  then show "i \<in> fst ` {r \<in> set (rows (witnesses s)). schedulable s0 (snd r)}"
    using v(2) schedulable_core [of v w s0] by force
qed

lemma distinct_candidates: "table_wf (witnesses s) \<Longrightarrow> distinct (candidates s)"
  unfolding candidates_def by (rule distinct_map_filter) (simp add: table_wf_def)

lemma open_candidates:
  fixes taken :: "nat list" and before
  assumes "same_core s0 s" "table_wf (witnesses s0)"
  defines "xs \<equiv> filter (\<lambda>r. schedulable s0 (snd r) \<and> fst r \<notin> set taken) (index_rows before (witnesses s))"
  shows "distinct (map fst xs)" "set (map fst xs) = set (candidates s0) - set taken"
    "map (w_owner \<circ> snd) xs = map (owner_of s0) (map fst xs)"
proof -
  show "distinct (map fst xs)"
    unfolding xs_def using index_distinct table_wf_core [OF assms(1)] assms(2) by blast
  show "set (map fst xs) = set (candidates s0) - set taken"
    unfolding candidates_in [OF assms(1), symmetric] xs_def by auto
  have "set xs \<subseteq> set (rows (witnesses s))" unfolding xs_def by auto
  then show "map (w_owner \<circ> snd) xs = map (owner_of s0) (map fst xs)"
    using owner_of_core [OF assms(1,2)] by (auto simp del: split_paired_All)
qed

lemma take_owner:
  "map (w_owner \<circ> snd) xs = map (owner_of s) (map fst xs) \<Longrightarrow>
   map (\<lambda>r. w_owner (snd r)) (take n xs) = map (owner_of s) (map fst (take n xs))"
proof (induction xs arbitrary: n)
  case (Cons x xs)
  then show ?case by (cases n) simp_all
qed simp

lemma row_id_core:
  assumes "same_core s0 s" "r \<in> set (rows (witnesses s))"
  shows "fst r \<in> fst ` set (rows (witnesses s0))"
proof -
  obtain v where "(fst r, v) \<in> set (rows (witnesses s0))"
    using row_core [OF assms(1), of "fst r" "snd r"] assms(2) by auto
  then show ?thesis by (metis fst_conv image_eqI)
qed

lemma select_voted_eq:
  assumes "table_wf (witnesses s0)"
  shows "\<exists>s. select_voted s0 ref s0 =
      Inr ((most_voted s0 (unat (max_voted_witnesses (wso_of ref s0))),
        map (owner_of s0) (most_voted s0 (unat (max_voted_witnesses (wso_of ref s0))))), s) \<and> same_core s0 s"
proof -
  let ?f = "\<lambda>r (sel, act). if schedulable s0 (snd r) then (sel @ [fst r], act @ [w_owner (snd r)]) else (sel, act)"
  let ?L = "index_rows by_vote_name (witnesses s0)" and ?m = "unat (max_voted_witnesses (wso_of ref s0))"
  have step: "\<exists>s'. elect s0 r a s = Inr (?f r a, s') \<and> same_core s0 s'" if r: "r \<in> set ?L" and s: "same_core s0 s" for r a s
  proof -
    have "fst r \<in> fst ` set (rows (witnesses s0))" using r by simp
    then obtain s' where "modify_witness (fst r) (\<lambda>w. w\<lparr>schedule := elected\<rparr>) s = Inr ((), s')" "same_core s0 s'"
      using modify_witness_core [OF s assms, of _ "\<lambda>w. w\<lparr>schedule := elected\<rparr>"] by auto
    then show ?thesis using s by (cases a) (auto simp: elect_def)
  qed
  obtain s where s: "for_s (\<lambda>(sel, _). ?m \<le> length sel) (elect s0) ?L ([], []) s0 =
      Inr (pure_for (\<lambda>(sel, _). ?m \<le> length sel) ?f ?L ([], []), s)" "same_core s0 s"
    using for_s_pure [of ?L "same_core s0" "elect s0" ?f s0 _ "([], [])"] step by fastforce
  moreover have "map (\<lambda>r. w_owner (snd r)) (take ?m (filter (\<lambda>r. schedulable s0 (snd r)) ?L)) =
      map (owner_of s0) (map fst (take ?m (filter (\<lambda>r. schedulable s0 (snd r)) ?L)))"
    by (rule take_owner) (use open_candidates(3) [OF same_core_refl assms, where taken = "[]"] in simp)
  ultimately show ?thesis
    unfolding select_voted_def pure_for_pick by (simp add: most_voted_def take_map Let_def)
qed

lemma pick_miner_core:
  assumes "table_wf (witnesses s0)" "same_core s0 s" "fst r \<in> fst ` set (rows (witnesses s0))"
  shows "\<exists>s'. pick_miner s0 voted r (sel, act) s =
      Inr (if schedulable s0 (snd r) \<and> fst r \<notin> set voted then (sel @ [fst r], act @ [w_owner (snd r)]) else (sel, act), s') \<and>
    same_core s0 s'"
proof -
  let ?P = "schedulable s0 (snd r) \<and> fst r \<notin> set voted"
  let ?a = "if ?P then (sel @ [fst r], act @ [w_owner (snd r)]) else (sel, act)"
  obtain t where t: "modify_witness (fst r) (\<lambda>w. w\<lparr>schedule := miner\<rparr>) s = Inr ((), t)" "same_core s0 t"
    using modify_witness_core [OF assms(2,1,3), of "\<lambda>w. w\<lparr>schedule := miner\<rparr>"] by auto
  define u where "u = (if ?P then t else s)"
  have u: "same_core s0 u" using t(2) assms(2) by (simp add: u_def)
  obtain v where v: "modify_witness (fst r) (\<lambda>w. w\<lparr>pow_worker := 0\<rparr>) u = Inr ((), v)" "same_core s0 v"
    using modify_witness_core [OF u assms(1,3), of "\<lambda>w. w\<lparr>pow_worker := 0\<rparr>"] by auto
  let ?g = "\<lambda>g. g\<lparr>num_pow_witnesses := num_pow_witnesses g - 1\<rparr>"
  let ?w = "v\<lparr>node_ledger := (node_ledger v)\<lparr>dgpo := ?g (dgpo (node_ledger v))\<rparr>\<rparr>"
  have "same_core s0 ?w" using v(2) by (simp add: same_core_def core_rows_def ledger_core_def)
  moreover have "pick_miner s0 voted r (sel, act) s = Inr (?a, ?w)"
    using t(1) v(1) by (auto simp: pick_miner_def modify_global_def u_def split: if_splits)
  ultimately show ?thesis by blast
qed

lemma select_miners_eq:
  assumes "table_wf (witnesses s0)" "same_core s0 s"
  shows "\<exists>s' ids. select_miners s0 ref voted active s = Inr ((ids, active @ map (owner_of s0) ids), s') \<and>
    same_core s0 s' \<and> distinct ids \<and> set ids \<subseteq> set (candidates s0) - set voted \<and>
    length ids \<le> unat (max_miner_witnesses (wso_of ref s))"
proof -
  let ?P = "\<lambda>r. schedulable s0 (snd r) \<and> fst r \<notin> set voted"
  let ?f = "\<lambda>r (sel, act). if ?P r then (sel @ [fst r], act @ [w_owner (snd r)]) else (sel, act)"
  let ?L = "filter (\<lambda>(i, w). pow_worker w > 0) (index_rows by_pow (witnesses s))"
  let ?m = "unat (max_miner_witnesses (wso_of ref s))"
  let ?xs = "take ?m (filter ?P ?L)"
  have step: "\<exists>t'. pick_miner s0 voted r a t = Inr (?f r a, t') \<and> same_core s0 t'"
    if "r \<in> set ?L" "same_core s0 t" for r a t
  proof -
    have "fst r \<in> fst ` set (rows (witnesses s0))" using that(1) row_id_core [OF assms(2)] by auto
    moreover obtain sel act where "a = (sel, act)" by (cases a)
    ultimately show ?thesis using pick_miner_core [OF assms(1) that(2), of r voted sel act] by simp
  qed
  obtain s' where s': "for_s (\<lambda>(sel, _). ?m \<le> length sel) (pick_miner s0 voted) ?L ([], active) s =
      Inr (pure_for (\<lambda>(sel, _). ?m \<le> length sel) ?f ?L ([], active), s')" "same_core s0 s'"
    using for_s_pure [of ?L "same_core s0" "pick_miner s0 voted" ?f s _ "([], active)"] step assms(2) by fastforce
  have sub: "set ?xs \<subseteq> {r \<in> set (rows (witnesses s)). schedulable s0 (snd r)}"
    "fst ` set ?xs \<inter> set voted = {}"
    by (auto dest!: in_set_takeD)
  have "fst ` set ?xs \<subseteq> set (candidates s0)"
    using sub(1) unfolding candidates_in [OF assms(2), symmetric] by (rule image_mono)
  moreover have "distinct (map fst ?xs)"
    unfolding take_map [symmetric] filter_filter using index_distinct table_wf_core [OF assms(2)] assms(1) by (blast intro: distinct_take)
  moreover have "map (\<lambda>r. w_owner (snd r)) ?xs = map (owner_of s0) (map fst ?xs)"
    using owner_of_core [OF assms(2,1)] sub(1) by auto
  moreover have "select_miners s0 ref voted active s = Inr ((map fst ?xs, active @ map (\<lambda>r. w_owner (snd r)) ?xs), s')"
    using s'(1) unfolding select_miners_def pure_for_pick by (simp add: Let_def)
  ultimately show ?thesis
    using s'(2) sub(2) by (intro exI [of _ s'] exI [of _ "map fst ?xs"]) auto
qed

lemma select_runners_eq:
  assumes "table_wf (witnesses s0)" "same_core s0 s"
  shows "\<exists>s' vt processed ids n. select_runners s0 ref taken active s =
      Inr ((vt, processed, active @ map (owner_of s0) ids, n), s') \<and> same_core s0 s' \<and>
    set processed \<subseteq> fst ` set (rows (witnesses s0)) \<and> distinct ids \<and> set ids \<subseteq> set (candidates s0) - set taken \<and>
    length ids = min (HIVE_MAX_WITNESSES - length taken) (card (set (candidates s0) - set taken))"
proof -
  let ?P = "\<lambda>r. schedulable s0 (snd r) \<and> fst r \<notin> set taken"
  let ?f = "\<lambda>r (vt, pr, act, n). if ?P r then (virtual_scheduled_time (snd r), pr @ [fst r], act @ [w_owner (snd r)], Suc n)
    else (virtual_scheduled_time (snd r), pr @ [fst r], act, n)"
  let ?L = "index_rows by_schedule_time (witnesses s)" and ?k = "HIVE_MAX_WITNESSES - length taken"
  let ?a = "(current_virtual_time (wso_of ref s), [], active, length taken)"
  define xs where "xs = filter ?P ?L"
  note xs = open_candidates [OF assms(2,1), of taken by_schedule_time, folded xs_def]
  have step: "\<exists>t'. pick_runner s0 taken r a t = Inr (?f r a, t') \<and> same_core s0 t'"
    if r: "r \<in> set ?L" and t: "same_core s0 t" for r a t
  proof -
    have "fst r \<in> fst ` set (rows (witnesses s0))" using r row_id_core [OF assms(2)] by simp
    then obtain t' where "modify_witness (fst r) (\<lambda>w. w\<lparr>schedule := timeshare\<rparr>) t = Inr ((), t')" "same_core s0 t'"
      using modify_witness_core [OF t assms(1), of _ "\<lambda>w. w\<lparr>schedule := timeshare\<rparr>"] by auto
    moreover obtain vt pr act n where "a = (vt, pr, act, n)" by (cases a)
    ultimately show ?thesis using t by (simp add: pick_runner_def Let_def)
  qed
  obtain vt n where p: "pure_for (\<lambda>(_, _, _, n). HIVE_MAX_WITNESSES \<le> n) ?f ?L ?a =
      (vt, map fst (take n ?L), active @ map (\<lambda>r. w_owner (snd r)) (take ?k xs), length taken + length (take ?k xs))"
    using pure_for_run [of HIVE_MAX_WITNESSES ?P "\<lambda>r. virtual_scheduled_time (snd r)" fst "\<lambda>r. w_owner (snd r)" ?L
      "current_virtual_time (wso_of ref s)" "[]" active "length taken"] unfolding xs_def by auto
  obtain s' where s': "for_s (\<lambda>(_, _, _, n). HIVE_MAX_WITNESSES \<le> n) (pick_runner s0 taken) ?L ?a s =
      Inr (pure_for (\<lambda>(_, _, _, n). HIVE_MAX_WITNESSES \<le> n) ?f ?L ?a, s')" "same_core s0 s'"
    using for_s_pure [of ?L "same_core s0" "pick_runner s0 taken" ?f s _ ?a] step assms(2) by blast
  have "set (map fst (take n ?L)) \<subseteq> fst ` set (rows (witnesses s0))"
    using row_id_core [OF assms(2)] set_take_subset [of n ?L] by auto
  moreover have "length (take ?k xs) = min ?k (card (set (candidates s0) - set taken))"
    using distinct_card [OF xs(1)] xs(2) by (simp add: min.commute)
  moreover have "set (map fst (take ?k xs)) \<subseteq> set (candidates s0) - set taken"
    using xs(2) set_take_subset [of ?k xs] by auto
  moreover have "distinct (map fst (take ?k xs))" using xs(1) by (simp add: take_map [symmetric])
  moreover have "select_runners s0 ref taken active s =
      Inr ((vt, map fst (take n ?L), active @ map (owner_of s0) (map fst (take ?k xs)), length taken + length (take ?k xs)), s')"
    using s'(1) unfolding select_runners_def p take_owner [OF xs(3)] by simp
  ultimately show ?thesis using s'(2)
    by (intro exI [of _ s'] exI [of _ vt] exI [of _ "map fst (take n ?L)"] exI [of _ "map fst (take ?k xs)"]) simp
qed

section \<open>Virtual time\<close>

text \<open>The votes of a witness are neither negative nor the largest \<^verbatim>\<open>int64_t\<close>.\<close>

definition votes_ok :: "schedule_state \<Rightarrow> bool" where
  "votes_ok s \<longleftrightarrow> list_all (\<lambda>(i, w). 0 \<le> votes w \<and> votes w < max_i64) (rows (witnesses s))"

lemma lap_time_returns:
  assumes "0 \<le> votes w" "votes w < max_i64"
  shows "\<exists>t. lap_time w = Inr t"
proof -
  define d :: "128 word" where "d = of_int (votes w + 1)"
  have "uint d = votes w + 1" unfolding d_def using assms by (intro uint_of_int_128) simp_all
  then have "d \<noteq> 0" using assms(1) by auto
  moreover have "i64 (votes w + 1) = Inr (votes w + 1)" using assms by (simp add: i64_def in_i64_def)
  ultimately show ?thesis unfolding lap_time_def d_def by (simp add: div_128_def)
qed

lemma lap_time_core:
  assumes "votes_ok s0" "table_wf (witnesses s0)" "same_core s0 s" "find_row (witnesses s) i = Some w"
  shows "\<exists>t. lap_time w = Inr t"
proof -
  obtain v where v: "(i, v) \<in> set (rows (witnesses s0))" "core w = core v"
    using row_core [OF assms(3) find_row_SomeD [OF assms(4)]] .
  then have "0 \<le> votes v" "votes v < max_i64" using assms(1) by (auto simp: votes_ok_def list_all_iff)
  then show ?thesis using lap_time_returns [of w] core_eqD(2) [OF v(2)] by simp
qed

lemma advance_core:
  assumes "votes_ok s0" "table_wf (witnesses s0)" "set ids \<subseteq> fst ` set (rows (witnesses s0))" "same_core s0 s"
  shows "\<exists>b s'. for_s id (advance vt) ids a s = Inr (b, s') \<and> same_core s0 s'"
  using assms(3,4)
proof (induction ids arbitrary: a s)
  case (Cons i ids)
  show ?case
  proof (cases a)
    case False
    have wf: "table_wf (witnesses s)" using table_wf_core [OF Cons.prems(2)] assms(2) by simp
    obtain v where "(i, v) \<in> set (rows (witnesses s0))" using Cons.prems(1) by auto
    then obtain w where "(i, w) \<in> set (rows (witnesses s))" using row_core [OF same_core_sym [OF Cons.prems(2)]] by metis
    then have w: "find_row (witnesses s) i = Some w" using wf by (simp add: find_row_eq)
    obtain lap where lap: "lap_time w = Inr lap" using lap_time_core [OF assms(1,2) Cons.prems(2) w] by blast
    let ?f = "\<lambda>w. w\<lparr>virtual_position := 0, virtual_last_update := vt, virtual_scheduled_time := vt + lap\<rparr>"
    obtain t where t: "modify_witness i ?f s = Inr ((), t)" "same_core s0 t"
      using modify_witness_core [OF Cons.prems(2) assms(2), of i ?f] Cons.prems(1) by auto
    show ?thesis
    proof (cases "vt + lap < vt")
      case True
      then have "advance vt i False s = Inr (True, s)"
        using w lap by (simp add: advance_def get_row_def read_s_def)
      then show ?thesis using False Cons.IH [of s True] Cons.prems by simp
    next
      case f: False
      then have "advance vt i False s = Inr (False, t)"
        using w lap t(1) by (simp add: advance_def get_row_def read_s_def)
      then show ?thesis using False Cons.IH [of t False] Cons.prems t(2) by simp
    qed
  qed (use Cons.prems in auto)
qed simp

lemma wso_core_time: "wso_core (w\<lparr>current_virtual_time := v\<rparr>) = wso_core w"
  by (simp add: wso_core_def)

lemma reset_core:
  assumes "votes_ok s0" "table_wf (witnesses s0)" "same_core s0 s"
  shows "\<exists>s'. reset_virtual_schedule_time s = Inr ((), s') \<and> same_core s0 s'"
proof -
  let ?ref = "if has_hardfork 27 (node_ledger s) then get_witness_schedule_object_for_irreversibility s else Current_wso"
  let ?s = "set_wso ?ref ((wso_of ?ref s)\<lparr>current_virtual_time := 0\<rparr>) s"
  have s: "same_core s0 ?s"
    using assms(3) by (cases ?ref) (simp_all add: same_core_def core_rows_def wso_core_time)
  have body: "\<exists>t'. modify_row witnesses set_witnesses i (\<lambda>w. bind_r (lap_time w) (\<lambda>t.
      Inr ((), w\<lparr>virtual_position := 0, virtual_last_update := 0, virtual_scheduled_time := t\<rparr>))) t = Inr ((), t') \<and> same_core s0 t'"
    if i: "i \<in> set (map fst (rows (witnesses s)))" and t: "same_core s0 t" for i t
  proof (rule modify_row_core [OF t assms(2)])
    show "i \<in> fst ` set (rows (witnesses s0))" using i row_id_core [OF assms(3)] by auto
    show "\<exists>w'. bind_r (lap_time w) (\<lambda>t. Inr ((), w\<lparr>virtual_position := 0, virtual_last_update := 0,
        virtual_scheduled_time := t\<rparr>)) = Inr ((), w') \<and> core w' = core w"
      if "find_row (witnesses t) i = Some w" for w
      using lap_time_core [OF assms(1,2) t that] by auto
  qed
  show ?thesis
    using foreach_s_keeps [of "map fst (rows (witnesses s))" "same_core s0", OF body s]
    by (simp add: reset_virtual_schedule_time_def Let_def)
qed

end
