(* ===== verification/Schedule_Total.thy ===== *)
theory Schedule_Total
  imports Schedule_Laws Ledger_Steps
begin

text \<open>
  The update of the witness schedule returns: the selection agrees with the count that the code expects, the
  votes are counted, the shuffle permutes the selected witnesses, and the medians of valid
  properties are valid.
\<close>

section \<open>The selection as a whole\<close>

lemma most_voted_candidates:
  assumes "table_wf (witnesses s)"
  shows "distinct (most_voted s m)" "set (most_voted s m) \<subseteq> set (candidates s)" "length (most_voted s m) \<le> m"
proof -
  note xs = open_candidates [OF same_core_refl assms, where taken = "[]" and before = by_vote_name, simplified]
  show "distinct (most_voted s m)" using xs(1) by (simp add: most_voted_def)
  show "set (most_voted s m) \<subseteq> set (candidates s)"
    using xs(2) set_take_subset [of m] by (force simp: most_voted_def)
  show "length (most_voted s m) \<le> m" by (simp add: most_voted_def)
qed

lemma eligible_count_eq:
  assumes "table_wf (witnesses s0)" "same_core s0 s" "has_hardfork 14 (node_ledger s0)"
  shows "eligible_count s0 s = length (candidates s0)"
proof -
  have "eligible_count s0 s = length (filter (\<lambda>r. schedulable s0 (snd r)) (index_rows by_vote_name (witnesses s)))"
    using assms(3) by (simp add: eligible_count_def schedulable_def case_prod_unfold)
  also have "\<dots> = card (set (candidates s0))"
    using distinct_card [OF open_candidates(1) [OF assms(2,1), where taken = "[]" and before = by_vote_name]]
      open_candidates(2) [OF assms(2,1), where taken = "[]" and before = by_vote_name] by simp
  finally show ?thesis using distinct_card [OF distinct_candidates [OF assms(1)]] by simp
qed

lemma filled:
  fixes taken :: "nat list"
  assumes "distinct taken" "set taken \<subseteq> set cs" "distinct cs" "length taken \<le> m"
  shows "length taken + min (m - length taken) (card (set cs - set taken)) = min m (length cs)"
proof -
  have "card (set cs - set taken) = length cs - length taken" "length taken \<le> length cs"
    using assms(1-3) by (simp_all add: card_Diff_subset distinct_card [symmetric] card_mono)
  then show ?thesis using assms(4) by linarith
qed

lemma wso_core_eqD:
  assumes "wso_core v = wso_core w"
  shows "max_miner_witnesses v = max_miner_witnesses w" "max_voted_witnesses v = max_voted_witnesses w"
    "current_shuffled_witnesses v = current_shuffled_witnesses w" "num_scheduled_witnesses v = num_scheduled_witnesses w"
    "account_subsidy_rd v = account_subsidy_rd w" "account_subsidy_witness_rd v = account_subsidy_witness_rd w"
    "majority_version v = majority_version w" "hardfork_required_witnesses v = hardfork_required_witnesses w"
  using assms by (cases v; cases w; simp add: wso_core_def)+

lemma wso_of_core: "same_core s t \<Longrightarrow> wso_core (wso_of ref t) = wso_core (wso_of ref s)"
  by (cases ref) (simp_all add: same_core_def)

lemma select_witnesses_eq:
  assumes "table_wf (witnesses s)" "votes_ok s" "has_hardfork 14 (node_ledger s)" "candidates s \<noteq> []"
    and "unat (max_voted_witnesses (wso_of ref s)) + unat (max_miner_witnesses (wso_of ref s)) \<le> HIVE_MAX_WITNESSES"
  shows "\<exists>ids k vt s'. select_witnesses ref s = Inr ((map (owner_of s) ids,
      length (most_voted s (unat (max_voted_witnesses (wso_of ref s)))), k, vt), s') \<and> same_core s s' \<and>
    distinct ids \<and> set ids \<subseteq> set (candidates s) \<and> length ids = min HIVE_MAX_WITNESSES (length (candidates s)) \<and>
    set (most_voted s (unat (max_voted_witnesses (wso_of ref s)))) \<subseteq> set ids"
proof -
  define voted where "voted = most_voted s (unat (max_voted_witnesses (wso_of ref s)))"
  note voted = most_voted_candidates [OF assms(1), of "unat (max_voted_witnesses (wso_of ref s))", folded voted_def]
  obtain s1 where s1: "select_voted s ref s = Inr ((voted, map (owner_of s) voted), s1)" "same_core s s1"
    using select_voted_eq [OF assms(1)] unfolding voted_def by blast
  obtain s2 miners where s2: "select_miners s ref voted (map (owner_of s) voted) s1 =
      Inr ((miners, map (owner_of s) voted @ map (owner_of s) miners), s2)" "same_core s s2"
    and miners: "distinct miners" "set miners \<subseteq> set (candidates s) - set voted"
      "length miners \<le> unat (max_miner_witnesses (wso_of ref s1))"
    using select_miners_eq [OF assms(1) s1(2)] by blast
  obtain s3 vt processed ids n where s3: "select_runners s ref (voted @ miners) (map (owner_of s) (voted @ miners)) s2 =
      Inr ((vt, processed, map (owner_of s) (voted @ miners) @ map (owner_of s) ids, n), s3)" "same_core s s3"
    and p: "set processed \<subseteq> fst ` set (rows (witnesses s))"
    and ids: "distinct ids" "set ids \<subseteq> set (candidates s) - set (voted @ miners)"
      "length ids = min (HIVE_MAX_WITNESSES - length (voted @ miners)) (card (set (candidates s) - set (voted @ miners)))"
    using select_runners_eq [OF assms(1) s2(2)] by blast
  obtain reset s4 where s4: "for_s id (advance vt) processed False s3 = Inr (reset, s4)" "same_core s s4"
    using advance_core [OF assms(2,1) p s3(2)] by blast
  obtain s5 where s5: "(if reset then reset_virtual_schedule_time else ret_s ()) s4 = Inr ((), s5)" "same_core s s5"
    using reset_core [OF assms(2,1) s4(2)] s4(2) by (cases reset) auto
  define all where "all = voted @ miners @ ids"
  have "max_miner_witnesses (wso_of ref s1) = max_miner_witnesses (wso_of ref s)"
    using wso_core_eqD(1) [OF wso_of_core [OF s1(2)]] by simp
  then have "length (voted @ miners) \<le> HIVE_MAX_WITNESSES" using voted(3) miners(3) assms(5) by simp
  moreover have "distinct (voted @ miners)" "set (voted @ miners) \<subseteq> set (candidates s)"
    using voted(1,2) miners(1,2) by auto
  ultimately have len: "length all = min HIVE_MAX_WITNESSES (length (candidates s))"
    using filled [of "voted @ miners" "candidates s" HIVE_MAX_WITNESSES] distinct_candidates [OF assms(1)] ids(3)
    by (simp add: all_def)
  moreover have "length all > 0" unfolding len using assms(4) by (simp add: HIVE_MAX_WITNESSES_def)
  then have "miners = [] \<longrightarrow> voted = [] \<longrightarrow> ids \<noteq> []" by (auto simp: all_def)
  ultimately have "select_witnesses ref s = Inr ((map (owner_of s) all, length voted, length miners, if reset then 0 else vt), s5)"
    using s1(1) s2(1) s3(1) s4(1) s5(1) eligible_count_eq [OF assms(1) s5(2) assms(3)]
    by (simp add: select_witnesses_def all_def check_s_def check_r_def)
  moreover have "distinct all" "set all \<subseteq> set (candidates s)" "set voted \<subseteq> set all"
    using voted miners ids by (auto simp: all_def)
  ultimately show ?thesis using len s5(2) unfolding voted_def by blast
qed

section \<open>The scheduled witnesses\<close>

definition owners :: "schedule_state \<Rightarrow> string list" where
  "owners s = map (\<lambda>(i, w). w_owner w) (rows (witnesses s))"

definition names_ok :: "schedule_state \<Rightarrow> witness_schedule_object \<Rightarrow> bool" where
  "names_ok s wso \<longleftrightarrow> length (current_shuffled_witnesses wso) = HIVE_MAX_WITNESSES \<and>
     1 \<le> unat (num_scheduled_witnesses wso) \<and> unat (num_scheduled_witnesses wso) \<le> HIVE_MAX_WITNESSES \<and>
     set (take (unat (num_scheduled_witnesses wso)) (current_shuffled_witnesses wso)) \<subseteq> set (owners s)"

lemma owners_core:
  assumes "same_core s t"
  shows "owners t = owners s"
proof -
  have "owners u = map (\<lambda>(i, w). w_owner w) (core_rows u)" for u
    by (simp add: owners_def core_rows_def core_def case_prod_unfold)
  then show ?thesis using assms by (simp add: same_core_def)
qed

lemma get_witness_owner:
  assumes "table_wf (witnesses s)" "n \<in> set (owners s)"
  shows "\<exists>w. get_witness n s = Inr (w, s) \<and> w_owner w = n \<and> w \<in> snd ` set (rows (witnesses s))"
proof -
  have "find_by (\<lambda>w. w_owner w = n) (witnesses s) \<noteq> None"
    using assms(2) by (auto simp: find_by_def owners_def find_None_iff)
  then obtain i where i: "find_by (\<lambda>w. w_owner w = n) (witnesses s) = Some i" by blast
  obtain w where w: "find_row (witnesses s) i = Some w" "w_owner w = n" using find_by_SomeD [OF assms(1) i] .
  then have "w \<in> snd ` set (rows (witnesses s))" using find_row_SomeD [OF w(1)] by force
  then show ?thesis using i w by (simp add: get_witness_def read_s_def)
qed

lemma collect_witnesses:
  assumes "table_wf (witnesses s)" "set ns \<subseteq> set (owners s)"
  shows "\<exists>ws. collect_s get_witness ns s = Inr (ws, s) \<and> map w_owner ws = ns \<and> set ws \<subseteq> snd ` set (rows (witnesses s))"
  using assms(2)
proof (induction ns)
  case (Cons n ns)
  obtain ws where "collect_s get_witness ns s = Inr (ws, s)" "map w_owner ws = ns" "set ws \<subseteq> snd ` set (rows (witnesses s))"
    using Cons by auto
  moreover obtain w where "get_witness n s = Inr (w, s)" "w_owner w = n" "w \<in> snd ` set (rows (witnesses s))"
    using get_witness_owner [OF assms(1), of n] Cons.prems by auto
  ultimately show ?case by (intro exI [of _ "w # ws"]) simp
qed simp

lemma scheduled_witnesses_eq:
  assumes "table_wf (witnesses s)" "names_ok s (wso_of ref s)"
  shows "\<exists>ws. scheduled_witnesses ref s = Inr (ws, s) \<and> ws \<noteq> [] \<and> set ws \<subseteq> snd ` set (rows (witnesses s)) \<and>
    map w_owner ws = take (unat (num_scheduled_witnesses (wso_of ref s))) (current_shuffled_witnesses (wso_of ref s))"
proof -
  let ?ns = "take (unat (num_scheduled_witnesses (wso_of ref s))) (current_shuffled_witnesses (wso_of ref s))"
  obtain ws where ws: "collect_s get_witness ?ns s = Inr (ws, s)" "map w_owner ws = ?ns" "set ws \<subseteq> snd ` set (rows (witnesses s))"
    using collect_witnesses [OF assms(1), of ?ns] assms(2) by (auto simp: names_ok_def)
  have "?ns \<noteq> []" using assms(2) by (auto simp: names_ok_def HIVE_MAX_WITNESSES_def)
  then have "ws \<noteq> []" using ws(2) by auto
  then show ?thesis using ws assms(2) by (simp add: scheduled_witnesses_def names_ok_def)
qed

lemma count_votes_eq:
  assumes "table_wf (witnesses s)" "names_ok s (wso_of ref s)"
  shows "\<exists>v h. count_votes ref s = Inr (v, s\<lparr>hardforks := h\<rparr>)"
proof -
  obtain ws where ws: "scheduled_witnesses ref s = Inr (ws, s)" using scheduled_witnesses_eq [OF assms] by blast
  have s: "\<exists>h. s = s\<lparr>hardforks := h\<rparr>" by (rule exI [of _ "hardforks s"]) simp
  show ?thesis
  proof (cases "has_hardfork 5 (node_ledger s) \<and> \<not> version_eq (current_hardfork_version (hardforks s)) HIVE_HARDFORK_0_22_VERSION")
    case True
    then show ?thesis using ws by (simp add: count_votes_def Let_def) blast
  next
    case False
    then show ?thesis using ws s by (auto simp: count_votes_def Let_def)
  qed
qed

section \<open>The shuffle\<close>

lemma shuffle_step_keeps:
  assumes "i < n" "n \<le> length xs" "n \<le> 21"
  shows "length (shuffle_step now n i xs) = length xs" "drop n (shuffle_step now n i xs) = drop n xs"
    "mset (shuffle_step now n i xs) = mset xs"
proof -
  define j where "j = i + unat (shuffle_word now i mod of_nat (n - i))"
  have u: "unat (of_nat (n - i) :: 64 word) = n - i" using assms(3) by (simp add: unat_of_nat take_bit_nat_eq_self)
  have "unat (shuffle_word now i mod of_nat (n - i)) < n - i"
    unfolding unat_mod u using assms(1) by simp
  then have j: "j < n" using assms(1) by (simp add: j_def)
  have e: "shuffle_step now n i xs = xs[i := xs ! j, j := xs ! i]"
    unfolding shuffle_step_def swap_entries_def j_def ..
  show "length (shuffle_step now n i xs) = length xs" unfolding e by simp
  show "drop n (shuffle_step now n i xs) = drop n xs"
    unfolding e using assms(1) j by (simp add: drop_update_cancel)
  show "mset (shuffle_step now n i xs) = mset xs"
    unfolding e using assms(1,2) j by (intro mset_swap) simp_all
qed

lemma shuffle_keeps:
  assumes "n \<le> length xs" "n \<le> 21"
  shows "length (shuffle_witnesses now n xs) = length xs \<and> mset (take n (shuffle_witnesses now n xs)) = mset (take n xs)"
proof -
  have "length (fold (shuffle_step now n) is ys) = length ys \<and> drop n (fold (shuffle_step now n) is ys) = drop n ys \<and>
      mset (fold (shuffle_step now n) is ys) = mset ys"
    if "set is \<subseteq> {..<n}" "n \<le> length ys" for "is" and ys :: "'a list"
    using that
  proof (induction "is" arbitrary: ys)
    case (Cons i ks)
    then show ?case using shuffle_step_keeps [of i n ys now] assms(2) by simp
  qed simp
  from this [of "[0..<n]" xs] have "length (shuffle_witnesses now n xs) = length xs"
    "drop n (shuffle_witnesses now n xs) = drop n xs" "mset (shuffle_witnesses now n xs) = mset xs"
    using assms(1) by (simp_all add: shuffle_witnesses_def atLeast0LessThan)
  then show ?thesis by (metis append_take_drop_id mset_append add_right_cancel)
qed

lemma install_eq:
  assumes "1 \<le> length active" "length active \<le> HIVE_MAX_WITNESSES"
  shows "\<exists>W. install_schedule ref active e k vt maj s = Inr ((), set_wso ref W s) \<and>
    unat (num_scheduled_witnesses W) = length active \<and> length (current_shuffled_witnesses W) = HIVE_MAX_WITNESSES \<and>
    mset (take (length active) (current_shuffled_witnesses W)) = mset active \<and>
    max_voted_witnesses W = max_voted_witnesses (wso_of ref s) \<and> max_miner_witnesses W = max_miner_witnesses (wso_of ref s)"
proof -
  let ?n = "max (of_nat (length active)) 1 :: 8 word"
  let ?names = "active @ replicate (HIVE_MAX_WITNESSES - length active) []"
  have u: "unat (of_nat (length active) :: 8 word) = length active"
    using assms(2) by (simp add: unat_of_nat take_bit_nat_eq_self HIVE_MAX_WITNESSES_def)
  then have n: "unat ?n = length active"
    using assms(1) by (simp add: max_def word_le_nat_alt)
  have "length (shuffle_witnesses now (length active) ?names) = HIVE_MAX_WITNESSES"
    "mset (take (length active) (shuffle_witnesses now (length active) ?names)) = mset active" for now
    using shuffle_keeps [of "length active" ?names now] assms(2) by (simp_all add: HIVE_MAX_WITNESSES_def)
  moreover have "\<exists>W. install_schedule ref active e k vt maj s = Inr ((), set_wso ref W s) \<and> num_scheduled_witnesses W = ?n \<and>
      current_shuffled_witnesses W = shuffle_witnesses (head_block_time (node_ledger s)) (unat ?n) ?names \<and>
      max_voted_witnesses W = max_voted_witnesses (wso_of ref s) \<and> max_miner_witnesses W = max_miner_witnesses (wso_of ref s)"
    by (simp add: install_schedule_def Let_def split del: if_split) (rule exI, rule conjI, rule refl, simp)
  ultimately show ?thesis using n by auto
qed

section \<open>Medians of valid properties\<close>

definition props_ok :: "witness_object \<Rightarrow> bool" where
  "props_ok w \<longleftrightarrow>
     rd_validate_user_params \<lparr>user_budget_per_time_unit = account_subsidy_budget (w_props w),
       user_decay_per_time_unit = account_subsidy_decay (w_props w)\<rparr> = Inr () \<and>
     0 \<le> available_witness_account_subsidies w \<and> available_witness_account_subsidies w \<le> max_i64"

lemma median_in: "ws \<noteq> [] \<Longrightarrow> median f ws \<in> f ` set ws"
proof -
  assume "ws \<noteq> []"
  then have "sort (map f ws) ! (length ws div 2) \<in> set (sort (map f ws))" by (intro nth_mem) simp
  then show ?thesis by (simp add: median_def)
qed

lemma per_witness_bounds:
  assumes "1 \<le> b" "b \<le> 268435455" "64 \<le> uint d"
  shows "1 \<le> user_budget_per_time_unit (per_witness_params b d)"
    "user_budget_per_time_unit (per_witness_params b d) \<le> 536870912"
    "64 \<le> uint (user_decay_per_time_unit (per_witness_params b d))"
proof -
  have s: "b * 12500 sdiv 10000 = b * 12500 div 10000" using assms(1) sdiv_pos [of 12500 10000 b] by simp
  show "1 \<le> user_budget_per_time_unit (per_witness_params b d)"
    "user_budget_per_time_unit (per_witness_params b d) \<le> 536870912"
    using assms(1,2) s by (auto simp: per_witness_params_def HIVE_WITNESS_SUBSIDY_BUDGET_PERCENT_def HIVE_100_PERCENT_def)
  let ?q = "ucast d * 210000 div 10000 :: 64 word"
  have m: "uint (ucast d * 210000 :: 64 word) = uint d * 210000"
    using word32_bound [of d] uint_mult_64 [of "ucast d" 210000] by (simp add: uint_ucast_32_64)
  have q: "uint ?q = uint d * 210000 div 10000" unfolding uint_div m by simp
  have "uint (min ?q 4294967295) = min (uint d * 21) 4294967295"
    using q by (auto simp: min_def word_le_def)
  moreover have "uint (ucast (w :: 64 word) :: 32 word) = uint w" if "uint w \<le> 4294967295" for w
    using that word64_bound(2) [of w] by (simp add: unsigned_ucast_eq take_bit_int_eq_self)
  ultimately show "64 \<le> uint (user_decay_per_time_unit (per_witness_params b d))"
    using assms(3) by (simp add: per_witness_params_def HIVE_WITNESS_SUBSIDY_DECAY_PERCENT_def HIVE_100_PERCENT_def)
qed

lemma min_subsidy_decay_eq:
  assumes "fc_ok F" "unat (decay_per_time_unit_denom_shift (decay_params rd)) = 36" "0 \<le> a" "a \<le> max_i64"
  shows "\<exists>m. min_subsidy_decay F rd a = Inr m"
proof -
  define c where "c = uint (decay_per_time_unit (decay_params rd)) * a div 68719476736"
  have "uint (decay_per_time_unit (decay_params rd)) * a \<le> 68719476736 * a"
    using assms(3) word32_bound(1) [of "decay_per_time_unit (decay_params rd)"] by (intro mult_right_mono) simp_all
  then have "c \<le> 68719476736 * a div 68719476736" unfolding c_def by (intro zdiv_mono1) simp_all
  then have c: "0 \<le> c" "c \<le> max_i64"
    using assms(3,4) word32_bound(2) [of "decay_per_time_unit (decay_params rd)"] by (simp_all add: c_def pos_imp_zdiv_nonneg_iff)
  let ?w = "of_int c * 9000 :: 128 word"
  have w: "uint ?w = c * 9000"
    using c uint_mult_128 [of "of_int c" 9000] by (simp add: uint_of_int_128)
  have "uint (?w div 10000) \<le> max_i64" unfolding uint_div w using c by simp
  then have "uint128_to_int64 F (?w div 10000) = Inr (uint (?w div 10000))"
    using assms(1) by (simp add: fc_ok_def)
  moreover have "rd_compute_pool_decay F (decay_params rd) a 1 = Inr c"
    using pool_decay_eq [OF assms] assms(3) by (simp add: rd_compute_pool_decay_def c_def)
  ultimately show ?thesis
    using c by (simp add: min_subsidy_decay_def div_128_def HIVE_DECAY_BACKSTOP_PERCENT_def HIVE_100_PERCENT_def)
qed

definition rd_ok :: "rd_dynamics_params \<Rightarrow> bool" where
  "rd_ok rd \<longleftrightarrow> 0 < decay_per_time_unit (decay_params rd) \<and> unat (decay_per_time_unit_denom_shift (decay_params rd)) \<le> 58"

lemma wso_of_set [simp]: "wso_of r (set_wso q W s) = (if r = q then W else wso_of r s)"
  by (cases r; cases q) simp_all

lemma set_wso_simps [simp]:
  "witnesses (set_wso ref W s) = witnesses s" "node_ledger (set_wso ref W s) = node_ledger s"
  "hardforks (set_wso ref W s) = hardforks s" "owners (set_wso ref W s) = owners s"
  by (cases ref; simp add: owners_def)+

lemma wso_of_ledger [simp]: "wso_of r (s\<lparr>node_ledger := l\<rparr>) = wso_of r s" "wso_of r (s\<lparr>hardforks := h\<rparr>) = wso_of r s"
  by (cases r; simp)+

lemma update_median_eq:
  assumes "fc_ok F" "table_wf (witnesses s)" "names_ok s (wso_of ref s)" "list_all (\<lambda>(i, w). props_ok w) (rows (witnesses s))"
  shows "\<exists>W l. update_median_witness_props F ref s = Inr ((), (set_wso ref W s)\<lparr>node_ledger := l\<rparr>) \<and>
    processed_hardforks l = processed_hardforks (node_ledger s) \<and> rd_ok (account_subsidy_rd W) \<and>
    num_scheduled_witnesses W = num_scheduled_witnesses (wso_of ref s) \<and>
    current_shuffled_witnesses W = current_shuffled_witnesses (wso_of ref s) \<and>
    max_voted_witnesses W = max_voted_witnesses (wso_of ref s) \<and> max_miner_witnesses W = max_miner_witnesses (wso_of ref s)"
proof -
  obtain ws where ws: "scheduled_witnesses ref s = Inr (ws, s)" "ws \<noteq> []" "set ws \<subseteq> snd ` set (rows (witnesses s))"
    using scheduled_witnesses_eq [OF assms(2,3)] by blast
  have ok: "props_ok w" if "w \<in> set ws" for w
    using subsetD [OF ws(3) that] assms(4) by (auto simp: list_all_iff)
  define b where "b = median (account_subsidy_budget \<circ> w_props) ws"
  define d where "d = median (account_subsidy_decay \<circ> w_props) ws"
  define a where "a = median available_witness_account_subsidies ws"
  have b: "1 \<le> b" "b \<le> 268435455"
    using median_in [OF ws(2), of "account_subsidy_budget \<circ> w_props"] ok by (auto simp: b_def props_ok_def user_params_valid)
  have d: "64 \<le> uint d"
    using median_in [OF ws(2), of "account_subsidy_decay \<circ> w_props"] ok by (auto simp: d_def props_ok_def user_params_valid)
  have a: "0 \<le> a" "a \<le> max_i64"
    using median_in [OF ws(2), of available_witness_account_subsidies] ok by (auto simp: a_def props_ok_def)
  let ?u = "\<lparr>user_budget_per_time_unit = b, user_decay_per_time_unit = d\<rparr>"
  let ?y = "\<lparr>system_resource_unit = HIVE_ACCOUNT_SUBSIDY_PRECISION, system_decay_per_time_unit_denom_shift = HIVE_RD_DECAY_DENOM_SHIFT\<rparr>"
  have v: "rd_validate_user_params ?u = Inr ()" using b d by (simp add: user_params_valid)
  have y: "system_decay_per_time_unit_denom_shift ?y = 36" by (simp add: HIVE_RD_DECAY_DENOM_SHIFT_def)
  obtain rd where rd: "rd_setup_dynamics_params F ?u ?y (account_subsidy_rd (wso_of ref s)) = Inr rd" "decay_params rd = \<lparr>decay_per_time_unit = d, decay_per_time_unit_denom_shift = 36\<rparr>"
    using rd_setup_eq [OF assms(1) v y] by force
  obtain wrd where wrd: "rd_setup_dynamics_params F (per_witness_params b d) ?y (account_subsidy_witness_rd (wso_of ref s)) = Inr wrd"
      "decay_per_time_unit_denom_shift (decay_params wrd) = 36"
    using rd_setup_bounded [OF assms(1) per_witness_bounds [OF b d] y] by force
  obtain least where least: "min_subsidy_decay F wrd a = Inr least"
    using min_subsidy_decay_eq [OF assms(1) _ a, of wrd] wrd(2) by auto
  have "rd_ok rd" using d rd(2) by (simp add: rd_ok_def word_less_def)
  then show ?thesis
  proof (cases "has_hardfork 28 (node_ledger s)")
    case True
    have same: "set_wso ref X s = (set_wso ref X s)\<lparr>node_ledger := node_ledger s\<rparr>" for X by (cases ref) simp_all
    from True \<open>rd_ok rd\<close> show ?thesis
      using ws(1,2) v rd(1) wrd(1) least
      by (simp add: update_median_witness_props_def Let_def b_def [symmetric] d_def [symmetric] a_def [symmetric])
        (rule exI, rule exI [of _ "node_ledger s"], rule conjI, rule same, simp)
  next
    case False
    with \<open>rd_ok rd\<close> show ?thesis
      using ws(1,2) v rd(1) wrd(1) least
      by (simp add: update_median_witness_props_def update_global_witness_properties_def modify_global_def Let_def
          b_def [symmetric] d_def [symmetric] a_def [symmetric])
        (rule exI, rule exI, rule conjI, rule refl, simp)
  qed
qed

text \<open>A value is a median if it occurs and neither the smaller nor the larger values are a majority.\<close>

definition is_median :: "('w \<Rightarrow> 'k::linorder) \<Rightarrow> 'w list \<Rightarrow> 'k \<Rightarrow> bool" where
  "is_median f ws x \<longleftrightarrow> x \<in> f ` set ws \<and>
     2 * length (filter (\<lambda>w. f w < x) ws) \<le> length ws \<and> 2 * length (filter (\<lambda>w. f w > x) ws) \<le> length ws"

lemma filter_sort_length: "length (filter (\<lambda>w. P (f w)) ws) = length (filter P (sort (map f ws)))"
proof -
  have "mset (filter P (sort (map f ws))) = mset (filter P (map f ws))" by simp
  then have "length (filter P (sort (map f ws))) = length (filter P (map f ws))" by (rule mset_eq_length)
  then show ?thesis by (simp add: filter_map comp_def)
qed

lemma sorted_split:
  fixes ys :: "'k::linorder list"
  assumes "sorted ys" "k < length ys"
  shows "length (filter (\<lambda>y. y < ys ! k) ys) \<le> k" "length (filter (\<lambda>y. y > ys ! k) ys) \<le> length ys - Suc k"
proof -
  have "filter (\<lambda>y. y < ys ! k) (drop k ys) = []"
    using assms by (auto simp: filter_empty_conv in_set_conv_nth not_less sorted_nth_mono)
  then have "filter (\<lambda>y. y < ys ! k) ys = filter (\<lambda>y. y < ys ! k) (take k ys)"
    by (metis append_Nil2 append_take_drop_id filter_append)
  then show "length (filter (\<lambda>y. y < ys ! k) ys) \<le> k" using length_filter_le [of _ "take k ys"] assms(2) by simp
  have "filter (\<lambda>y. y > ys ! k) (take (Suc k) ys) = []"
    using assms by (auto simp: filter_empty_conv in_set_conv_nth not_less sorted_nth_mono)
  then have "filter (\<lambda>y. y > ys ! k) ys = filter (\<lambda>y. y > ys ! k) (drop (Suc k) ys)"
    by (metis append_Nil append_take_drop_id filter_append)
  then show "length (filter (\<lambda>y. y > ys ! k) ys) \<le> length ys - Suc k"
    using length_filter_le [of _ "drop (Suc k) ys"] by simp
qed

lemma median_is_median:
  assumes "ws \<noteq> []"
  shows "is_median f ws (median f ws)"
proof -
  let ?ys = "sort (map f ws)" and ?k = "length ws div 2"
  have k: "?k < length ?ys" using assms by simp
  have "length (filter (\<lambda>y. y < ?ys ! ?k) ?ys) \<le> ?k" "length (filter (\<lambda>y. y > ?ys ! ?k) ?ys) \<le> length ws - Suc ?k"
    using sorted_split [OF _ k] by simp_all
  then have "length (filter (\<lambda>w. f w < median f ws) ws) \<le> ?k" "length (filter (\<lambda>w. f w > median f ws) ws) \<le> length ws - Suc ?k"
    using filter_sort_length [of "\<lambda>y. y < median f ws" f ws] filter_sort_length [of "\<lambda>y. y > median f ws" f ws]
    by (simp_all add: median_def)
  then have "2 * length (filter (\<lambda>w. f w < median f ws) ws) \<le> length ws" "2 * length (filter (\<lambda>w. f w > median f ws) ws) \<le> length ws"
    by presburger+
  then show ?thesis using median_in [OF assms, of f] by (simp add: is_median_def)
qed

lemma update_median_props:
  assumes "scheduled_witnesses ref s = Inr (ws, s)" "update_median_witness_props F ref s = Inr ((), s')"
  shows "ws \<noteq> [] \<and> median_props (wso_of ref s') =
      \<lparr>account_creation_fee = tiny (median (tamount \<circ> account_creation_fee \<circ> w_props) ws),
       cp_maximum_block_size = median (cp_maximum_block_size \<circ> w_props) ws, cp_hbd_interest_rate = 0,
       account_subsidy_budget = median (account_subsidy_budget \<circ> w_props) ws,
       account_subsidy_decay = median (account_subsidy_decay \<circ> w_props) ws\<rparr> \<and>
    (has_hardfork 28 (node_ledger s) \<or>
     maximum_block_size (dgpo (node_ledger s')) = cp_maximum_block_size (median_props (wso_of ref s')))"
  using assms unfolding update_median_witness_props_def Let_def
  by (auto simp: res_simps get_s_def update_s_def ret_s_def update_global_witness_properties_def modify_global_def split: if_splits)

section \<open>The round\<close>

text \<open>What every round relies on and keeps: well-formed witnesses with their own names, some of them enabled,
  and schedules that name witnesses.\<close>

definition witnesses_ok :: "schedule_state \<Rightarrow> bool" where
  "witnesses_ok s \<longleftrightarrow> table_wf (witnesses s) \<and> distinct (owners s) \<and> votes_ok s \<and>
     list_all (\<lambda>(i, w). props_ok w) (rows (witnesses s)) \<and> list_ex (\<lambda>(i, w). \<not> is_disabled w) (rows (witnesses s))"

definition wso_ok :: "schedule_state \<Rightarrow> witness_schedule_object \<Rightarrow> bool" where
  "wso_ok s wso \<longleftrightarrow> names_ok s wso \<and> rd_ok (account_subsidy_rd wso) \<and>
     unat (max_voted_witnesses wso) + unat (max_miner_witnesses wso) \<le> HIVE_MAX_WITNESSES"

text \<open>A schedule elects the witnesses of a state: as many candidates as fit, without repetition, and the
  most voted ones are among them.\<close>

definition elects :: "schedule_state \<Rightarrow> nat \<Rightarrow> witness_schedule_object \<Rightarrow> bool" where
  "elects s m wso \<longleftrightarrow>
     (let names = take (unat (num_scheduled_witnesses wso)) (current_shuffled_witnesses wso) in
      distinct names \<and> length names = min HIVE_MAX_WITNESSES (length (candidates s)) \<and>
      set names \<subseteq> owner_of s ` set (candidates s) \<and> owner_of s ` set (most_voted s m) \<subseteq> set names)"

lemma candidates_nonempty:
  assumes "list_ex (\<lambda>(i, w). \<not> is_disabled w) (rows (witnesses s))"
  shows "candidates s \<noteq> []"
proof -
  obtain r where r: "r \<in> set (rows (witnesses s))" "\<not> is_disabled (snd r)" using assms by (auto simp: list_ex_iff)
  have "\<exists>r \<in> set (rows (witnesses s)). schedulable s (snd r)"
  proof (cases "has_hardfork 30 (node_ledger s) \<and> list_ex (\<lambda>(i, v). \<not> is_disabled v \<and>
      minimum_votes (tamount (total_vesting_shares (dgpo (node_ledger s)))) \<le> votes v) (index_rows by_vote_name (witnesses s))")
    case True
    then obtain q where "q \<in> set (rows (witnesses s))" "\<not> is_disabled (snd q)"
        "minimum_votes (tamount (total_vesting_shares (dgpo (node_ledger s)))) \<le> votes (snd q)"
      by (auto simp: list_ex_iff)
    then show ?thesis using True by (intro bexI [of _ q]) (simp_all add: schedulable_def eligible_def)
  next
    case False
    then have "schedulable s (snd r)" using r(2) by (auto simp: schedulable_def eligible_def Let_def)
    then show ?thesis using r(1) by blast
  qed
  then show ?thesis by (auto simp: candidates_def filter_empty_conv)
qed

lemma witnesses_ok_core:
  assumes "same_core s t"
  shows "witnesses_ok t \<longleftrightarrow> witnesses_ok s"
proof -
  have "votes_ok u \<longleftrightarrow> list_all (\<lambda>(i, w). 0 \<le> votes w \<and> votes w < max_i64) (core_rows u)"
    "list_all (\<lambda>(i, w). props_ok w) (rows (witnesses u)) \<longleftrightarrow> list_all (\<lambda>(i, w). props_ok w) (core_rows u)"
    "list_ex (\<lambda>(i, w). \<not> is_disabled w) (rows (witnesses u)) \<longleftrightarrow> list_ex (\<lambda>(i, w). \<not> is_disabled w) (core_rows u)" for u
    by (simp_all add: votes_ok_def core_rows_def core_def props_ok_def is_disabled_def list.pred_map list_ex_iff
        list_all_iff comp_def case_prod_unfold)
  then show ?thesis
    using table_wf_core [OF assms] owners_core [OF assms] assms by (simp add: witnesses_ok_def same_core_def)
qed

lemma owner_of_inj:
  assumes "table_wf (witnesses s)" "distinct (owners s)"
  shows "inj_on (owner_of s) (fst ` set (rows (witnesses s)))"
proof (rule inj_onI)
  fix i j assume i: "i \<in> fst ` set (rows (witnesses s))" and j: "j \<in> fst ` set (rows (witnesses s))" and e: "owner_of s i = owner_of s j"
  obtain v w where v: "(i, v) \<in> set (rows (witnesses s))" and w: "(j, w) \<in> set (rows (witnesses s))" using i j by auto
  then have "w_owner v = w_owner w"
    using e owner_of_core [OF same_core_refl assms(1) v] owner_of_core [OF same_core_refl assms(1) w] by simp
  moreover have "inj_on (\<lambda>(i, w). w_owner w) (set (rows (witnesses s)))" using assms(2) by (simp add: owners_def distinct_map)
  ultimately show "i = j" using inj_onD [OF _ _ v w] by fastforce
qed

lemma candidates_rows: "set (candidates s) \<subseteq> fst ` set (rows (witnesses s))"
  by (auto simp: candidates_def)

lemma candidate_owner:
  assumes "table_wf (witnesses s)" "i \<in> set (candidates s)"
  shows "owner_of s i \<in> set (owners s)"
proof -
  obtain w where w: "(i, w) \<in> set (rows (witnesses s))" using assms(2) by (auto simp: candidates_def)
  then show ?thesis using owner_of_core [OF same_core_refl assms(1) w] by (force simp: owners_def)
qed

lemma ledger_core_hardforks: "ledger_core l = ledger_core m \<Longrightarrow> processed_hardforks l = processed_hardforks m"
  by (cases l; cases m; simp add: ledger_core_def)

lemma install_medians_eq:
  assumes "fc_ok F" "witnesses_ok s" "1 \<le> length active" "length active \<le> HIVE_MAX_WITNESSES" "set active \<subseteq> set (owners s)"
    and "unat (max_voted_witnesses (wso_of ref s)) + unat (max_miner_witnesses (wso_of ref s)) \<le> HIVE_MAX_WITNESSES"
  shows "\<exists>s'. bind_s (install_schedule ref active e k vt maj) (\<lambda>_. update_median_witness_props F ref) s = Inr ((), s') \<and>
    witnesses s' = witnesses s \<and> processed_hardforks (node_ledger s') = processed_hardforks (node_ledger s) \<and>
    wso_ok s' (wso_of ref s') \<and> (\<forall>r. r \<noteq> ref \<longrightarrow> wso_of r s' = wso_of r s) \<and>
    mset (take (unat (num_scheduled_witnesses (wso_of ref s'))) (current_shuffled_witnesses (wso_of ref s'))) = mset active"
proof -
  obtain W where s1: "install_schedule ref active e k vt maj s = Inr ((), set_wso ref W s)"
    and W: "unat (num_scheduled_witnesses W) = length active" "length (current_shuffled_witnesses W) = HIVE_MAX_WITNESSES"
      "mset (take (length active) (current_shuffled_witnesses W)) = mset active"
      "max_voted_witnesses W = max_voted_witnesses (wso_of ref s)" "max_miner_witnesses W = max_miner_witnesses (wso_of ref s)"
    using install_eq [OF assms(3,4), of ref e k vt maj s] by blast
  have names: "names_ok u W" if "owners u = owners s" for u
    using W(1,2) mset_eq_setD [OF W(3)] assms(3,4,5) that by (simp add: names_ok_def)
  then have "names_ok (set_wso ref W s) (wso_of ref (set_wso ref W s))" by simp
  then obtain V l where s2: "update_median_witness_props F ref (set_wso ref W s) = Inr ((), (set_wso ref V (set_wso ref W s))\<lparr>node_ledger := l\<rparr>)"
    and V: "processed_hardforks l = processed_hardforks (node_ledger s)" "rd_ok (account_subsidy_rd V)"
      "num_scheduled_witnesses V = num_scheduled_witnesses W" "current_shuffled_witnesses V = current_shuffled_witnesses W"
      "max_voted_witnesses V = max_voted_witnesses W" "max_miner_witnesses V = max_miner_witnesses W"
    using update_median_eq [OF assms(1), of "set_wso ref W s" ref] assms(2) by (auto simp: witnesses_ok_def)
  let ?s = "(set_wso ref V (set_wso ref W s))\<lparr>node_ledger := l\<rparr>"
  have "owners ?s = owners s" by (simp add: owners_def)
  then have "names_ok ?s V" using names V(3,4) by (simp add: names_ok_def)
  then show ?thesis
    using s1 s2 V W assms(6) by (intro exI [of _ ?s]) (simp add: wso_ok_def)
qed

lemma update_witness_schedule4_eq:
  assumes "fc_ok F" "witnesses_ok s" "wso_ok s (wso_of ref s)" "has_hardfork 14 (node_ledger s)"
  shows "\<exists>s'. update_witness_schedule4 F ref s = Inr ((), s') \<and> witnesses_ok s' \<and> owners s' = owners s \<and>
    processed_hardforks (node_ledger s') = processed_hardforks (node_ledger s) \<and> wso_ok s' (wso_of ref s') \<and>
    elects s (unat (max_voted_witnesses (wso_of ref s))) (wso_of ref s') \<and>
    (\<forall>r. r \<noteq> ref \<longrightarrow> wso_core (wso_of r s') = wso_core (wso_of r s))"
proof -
  let ?m = "unat (max_voted_witnesses (wso_of ref s))"
  have wf: "table_wf (witnesses s)" and d: "distinct (owners s)" and v: "votes_ok s" and c: "candidates s \<noteq> []"
    using assms(2) candidates_nonempty by (simp_all add: witnesses_ok_def)
  have m: "?m + unat (max_miner_witnesses (wso_of ref s)) \<le> HIVE_MAX_WITNESSES" using assms(3) by (simp add: wso_ok_def)
  obtain ids k vt s1 where s1: "select_witnesses ref s = Inr ((map (owner_of s) ids, length (most_voted s ?m), k, vt), s1)" "same_core s s1"
    and ids: "distinct ids" "set ids \<subseteq> set (candidates s)" "length ids = min HIVE_MAX_WITNESSES (length (candidates s))" "set (most_voted s ?m) \<subseteq> set ids"
    using select_witnesses_eq [OF wf v assms(4) c m] by blast
  let ?active = "map (owner_of s) ids"
  have names: "distinct ?active" "set ?active \<subseteq> set (owners s)"
    using ids(1,2) inj_on_subset [OF owner_of_inj [OF wf d]] candidates_rows [of s] candidate_owner [OF wf]
    by (auto simp: distinct_map)
  have len: "1 \<le> length ?active" "length ?active \<le> HIVE_MAX_WITNESSES"
    using ids(3) c by (cases "candidates s"; simp add: HIVE_MAX_WITNESSES_def)+
  have ok1: "witnesses_ok s1" and o1: "owners s1 = owners s"
    using witnesses_ok_core [OF s1(2)] owners_core [OF s1(2)] assms(2) by simp_all
  note c1 = wso_of_core [OF s1(2)]
  have hf1: "processed_hardforks (node_ledger s1) = processed_hardforks (node_ledger s)"
    using s1(2) by (intro ledger_core_hardforks) (simp add: same_core_def)
  obtain maj h where s2: "count_votes ref s1 = Inr (maj, s1\<lparr>hardforks := h\<rparr>)"
    using count_votes_eq [of s1 ref] ok1 assms(3) wso_core_eqD(3,4) [OF c1] o1 by (auto simp: witnesses_ok_def wso_ok_def names_ok_def)
  let ?s2 = "s1\<lparr>hardforks := h\<rparr>"
  have ok2: "witnesses_ok ?s2" "owners ?s2 = owners s" using ok1 o1 by (simp_all add: witnesses_ok_def owners_def votes_ok_def)
  obtain s3 where s3: "bind_s (install_schedule ref ?active (length (most_voted s ?m)) k vt maj) (\<lambda>_. update_median_witness_props F ref) ?s2 = Inr ((), s3)"
    and w3: "witnesses s3 = witnesses s1" "processed_hardforks (node_ledger s3) = processed_hardforks (node_ledger s1)"
      "wso_ok s3 (wso_of ref s3)" "\<forall>r. r \<noteq> ref \<longrightarrow> wso_of r s3 = wso_of r s1"
      "mset (take (unat (num_scheduled_witnesses (wso_of ref s3))) (current_shuffled_witnesses (wso_of ref s3))) = mset ?active"
    using install_medians_eq [OF assms(1) ok2(1) len, of ref "length (most_voted s ?m)" k vt maj] names(2) ok2(2) m wso_core_eqD(1,2) [OF c1] by auto
  have "witnesses_ok s3" "owners s3 = owners s" using ok1 o1 w3(1) by (simp_all add: witnesses_ok_def owners_def votes_ok_def)
  moreover have "elects s ?m (wso_of ref s3)"
    using mset_eq_imp_distinct_iff [OF w3(5)] mset_eq_length [OF w3(5)] mset_eq_setD [OF w3(5)] names ids by (auto simp: elects_def Let_def)
  ultimately show ?thesis using s1(1) s2 s3 w3 hf1 c1 by (simp add: update_witness_schedule4_def)
qed

definition schedule_inv :: "schedule_state \<Rightarrow> bool" where
  "schedule_inv s \<longleftrightarrow> has_hardfork 14 (node_ledger s) \<and> witnesses_ok s \<and> wso_ok s (current_wso s) \<and>
     (has_hardfork 26 (node_ledger s) \<longrightarrow> wso_ok s (future_wso s))"

lemma copy_values_from_eq: "copy_values_from rhs wso = rhs"
  by (cases rhs; cases wso; simp add: copy_values_from_def)

lemma elects_cong:
  assumes "witnesses t = witnesses s" "processed_hardforks (node_ledger t) = processed_hardforks (node_ledger s)"
    and "total_vesting_shares (dgpo (node_ledger t)) = total_vesting_shares (dgpo (node_ledger s))"
  shows "elects t m wso = elects s m wso"
proof -
  have "schedulable t = schedulable s"
    using assms by (intro ext) (simp add: schedulable_def eligible_def has_hardfork_def)
  then have "candidates t = candidates s" "owner_of t = owner_of s" "most_voted t m = most_voted s m"
    using assms(1) by (auto simp: candidates_def owner_of_def most_voted_def)
  then show ?thesis by (simp add: elects_def)
qed

lemma wso_ok_cong: "owners t = owners s \<Longrightarrow> wso_ok t w = wso_ok s w"
  by (simp add: wso_ok_def names_ok_def)

lemma wso_ok_core: "wso_core v = wso_core w \<Longrightarrow> wso_ok s v = wso_ok s w"
  using wso_core_eqD [of v w] by (simp add: wso_ok_def names_ok_def)

lemma witnesses_ok_cong: "witnesses t = witnesses s \<Longrightarrow> witnesses_ok t = witnesses_ok s"
  by (simp add: witnesses_ok_def owners_def votes_ok_def)

lemma set_pool_params_eq:
  assumes "fc_ok F" "msb_ok f" "rd_ok (account_subsidy_rd (current_wso s))"
  shows "\<exists>s'. set_pool_params F f s = Inr ((), s') \<and> witnesses s' = witnesses s \<and> node_ledger s' = node_ledger s \<and>
    current_wso s' = current_wso s \<and> future_wso s' = future_wso s"
proof -
  obtain c where "generate_rc_curve_params F f (account_subsidy_rd (current_wso s)) default_rc_curve_gen_params = Inr c"
    using curve_exact [OF assms(1,2)] assms(3) unfolding rd_ok_def by blast
  then show ?thesis by (simp add: set_pool_params_def Let_def)
qed

lemma promoted:
  assumes "fc_ok F" "schedule_inv s" "has_hardfork 26 (node_ledger s)"
  shows "\<exists>s'. bind_s (update_s (\<lambda>s. s\<lparr>current_wso := copy_values_from (future_wso s) (current_wso s)\<rparr>)) (\<lambda>_.
      bind_s (if has_hardfork 28 (node_ledger s) then update_global_witness_properties Current_wso else ret_s ()) (\<lambda>_.
      update_witness_schedule4 F Future_wso)) s = Inr ((), s') \<and> schedule_inv s' \<and>
    processed_hardforks (node_ledger s') = processed_hardforks (node_ledger s) \<and>
    elects s (unat (max_voted_witnesses (future_wso s))) (future_wso s') \<and> wso_core (current_wso s') = wso_core (future_wso s)"
proof -
  let ?s1 = "s\<lparr>current_wso := future_wso s\<rparr>"
  obtain s2 where s2: "(if has_hardfork 28 (node_ledger s) then update_global_witness_properties Current_wso else ret_s ()) ?s1 = Inr ((), s2)"
    and p: "witnesses s2 = witnesses s" "processed_hardforks (node_ledger s2) = processed_hardforks (node_ledger s)"
      "total_vesting_shares (dgpo (node_ledger s2)) = total_vesting_shares (dgpo (node_ledger s))"
      "future_wso s2 = future_wso s" "current_wso s2 = future_wso s"
    by (cases "has_hardfork 28 (node_ledger s)") (auto simp: update_global_witness_properties_def modify_global_def)
  have o: "owners s2 = owners s" using p(1) by (simp add: owners_def)
  have "witnesses_ok s2" "wso_ok s2 (wso_of Future_wso s2)" "has_hardfork 14 (node_ledger s2)"
    using assms(2,3) p witnesses_ok_cong [OF p(1)] wso_ok_cong [OF o] by (simp_all add: schedule_inv_def has_hardfork_def)
  from update_witness_schedule4_eq [OF assms(1) this] obtain s' where s': "update_witness_schedule4 F Future_wso s2 = Inr ((), s')"
      "witnesses_ok s'" "owners s' = owners s2" "processed_hardforks (node_ledger s') = processed_hardforks (node_ledger s2)"
      "wso_ok s' (future_wso s')" "elects s2 (unat (max_voted_witnesses (future_wso s2))) (future_wso s')"
      "\<forall>r. r \<noteq> Future_wso \<longrightarrow> wso_core (wso_of r s') = wso_core (wso_of r s2)"
    by auto
  have c: "wso_core (current_wso s') = wso_core (future_wso s)" using spec [OF s'(7), of Current_wso] p(5) by simp
  have "wso_ok s' (current_wso s')"
    using wso_ok_core [OF c] wso_ok_cong [of s' s] s'(3) o assms(2,3) by (simp add: schedule_inv_def)
  then have "schedule_inv s'"
    using s' p assms(2,3) by (simp add: schedule_inv_def has_hardfork_def)
  then show ?thesis
    using s2 s' p c elects_cong [OF p(1-3)] by (simp add: copy_values_from_eq)
qed

lemma round_eq:
  assumes "fc_ok F" "schedule_inv s"
  shows "\<exists>s'. (if has_hardfork 26 (node_ledger s) then
        bind_s (update_s (\<lambda>s. s\<lparr>current_wso := copy_values_from (future_wso s) (current_wso s)\<rparr>)) (\<lambda>_.
        bind_s (if has_hardfork 28 (node_ledger s) then update_global_witness_properties Current_wso else ret_s ()) (\<lambda>_.
        update_witness_schedule4 F Future_wso))
      else update_witness_schedule4 F Current_wso) s = Inr ((), s') \<and> schedule_inv s' \<and>
    (if has_hardfork 26 (node_ledger s)
     then elects s (unat (max_voted_witnesses (future_wso s))) (future_wso s') \<and> wso_core (current_wso s') = wso_core (future_wso s)
     else elects s (unat (max_voted_witnesses (current_wso s))) (current_wso s'))"
proof (cases "has_hardfork 26 (node_ledger s)")
  case True
  then show ?thesis using promoted [OF assms True] by auto
next
  case False
  have "witnesses_ok s" "wso_ok s (wso_of Current_wso s)" "has_hardfork 14 (node_ledger s)"
    using assms(2) by (simp_all add: schedule_inv_def)
  from update_witness_schedule4_eq [OF assms(1) this] False assms(2) show ?thesis
    by (auto simp: schedule_inv_def has_hardfork_def)
qed

section \<open>An example\<close>

text \<open>Two enabled witnesses and one without a key; alice is scheduled alone so far.\<close>

definition example_witness :: "string \<Rightarrow> int \<Rightarrow> public_key_type \<Rightarrow> witness_object" where
  "example_witness n v k =
     \<lparr>w_owner = n, last_confirmed_block_num = 1000, pow_worker = 0, signing_key = k,
      w_props = \<lparr>account_creation_fee = tiny 3, cp_maximum_block_size = 65536, cp_hbd_interest_rate = 0,
        account_subsidy_budget = 797, account_subsidy_decay = 347321\<rparr>,
      votes = v, schedule = none, virtual_last_update = 0, virtual_position = 0, virtual_scheduled_time = 0,
      running_version = 0x011E0000, hardfork_version_vote = 0x011E0000, hardfork_time_vote = 7,
      available_witness_account_subsidies = 0\<rparr>"

definition example_wso :: witness_schedule_object where
  "example_wso =
     \<lparr>current_virtual_time = 0, next_shuffle_block_num = 1008, current_shuffled_witnesses = ''alice'' # replicate 20 [],
      num_scheduled_witnesses = 1, elected_weight = 1, timeshare_weight = 5, miner_weight = 1,
      witness_pay_normalization_factor = 25, median_props = w_props (example_witness [] 0 []), majority_version = 0,
      max_voted_witnesses = 20, max_miner_witnesses = 0, max_runner_witnesses = 1, hardfork_required_witnesses = 1,
      account_subsidy_rd = example_dynamics\<lparr>decay_params := \<lparr>decay_per_time_unit = 347321, decay_per_time_unit_denom_shift = 36\<rparr>\<rparr>,
      account_subsidy_witness_rd = example_dynamics, min_witness_account_subsidy_decay = 0\<rparr>"

definition example_schedule :: schedule_state where
  "example_schedule =
     \<lparr>node_ledger = example_ledger\<lparr>dgpo := (dgpo example_ledger)\<lparr>head_block_number := 1008\<rparr>\<rparr>,
      witnesses = \<lparr>rows = [(0, example_witness ''alice'' 30 (1 # replicate 32 0)), (1, example_witness ''bob'' 50 (2 # replicate 32 0)),
        (2, example_witness ''carol'' 70 (replicate 33 0))], next_id = 3\<rparr>,
      witness_votes = empty_table,
      current_wso = example_wso, future_wso = example_wso,
      hardforks = \<lparr>current_hardfork_version = 0x011D0000, next_hardfork = 0x011D0000, next_hardfork_time = 0\<rparr>,
      new_accounts_rd = example_dynamics, new_accounts_curve = \<lparr>coeff_a = 0, coeff_b = 0, curve_shift = 0\<rparr>\<rparr>"

lemma example_schedule_inv: "schedule_inv example_schedule"
proof -
  have "(1 # replicate 32 0 :: public_key_type) \<noteq> replicate 33 0" by code_simp
  then have "witnesses_ok example_schedule"
    by (simp add: witnesses_ok_def example_schedule_def table_wf_def owners_def votes_ok_def props_ok_def
        user_params_valid is_disabled_def example_witness_def)
  moreover have "wso_ok example_schedule example_wso"
    by (simp add: wso_ok_def names_ok_def rd_ok_def example_wso_def HIVE_MAX_WITNESSES_def owners_def example_schedule_def example_witness_def)
  ultimately show ?thesis
    by (simp add: schedule_inv_def example_schedule_def example_ledger_def has_hardfork_def)
qed

section \<open>Properties\<close>

text \<open>
  C3: Once a round the witness schedule is renewed, and this never fails: with well-formed witnesses of which at
  least one is enabled, the number of selected witnesses is the expected one, the schedules stay
  well-formed, and the new schedule consists of distinct candidates, as many as fit into twenty-one places, among them
  the most voted ones; since hardfork 26 the schedule of the next round takes effect unchanged.
\<close>

theorem schedule_round:
  assumes "fc_ok F" "msb_ok f" "schedule_inv s"
  shows "\<exists>s'. update_witness_schedule F f s = Inr ((), s') \<and> schedule_inv s' \<and>
    (head_block_number (dgpo (node_ledger s)) mod of_nat HIVE_MAX_WITNESSES = 0 \<longrightarrow>
      (if has_hardfork 26 (node_ledger s)
       then elects s (unat (max_voted_witnesses (future_wso s))) (future_wso s') \<and>
         current_shuffled_witnesses (current_wso s') = current_shuffled_witnesses (future_wso s) \<and>
         num_scheduled_witnesses (current_wso s') = num_scheduled_witnesses (future_wso s)
       else elects s (unat (max_voted_witnesses (current_wso s))) (current_wso s')))"
proof (cases "head_block_number (dgpo (node_ledger s)) mod of_nat HIVE_MAX_WITNESSES = 0")
  case True
  have hf4: "has_hardfork 4 (node_ledger s)" using assms(3) by (simp add: schedule_inv_def has_hardfork_def)
  obtain s1 where s1: "(if has_hardfork 26 (node_ledger s) then
        bind_s (update_s (\<lambda>s. s\<lparr>current_wso := copy_values_from (future_wso s) (current_wso s)\<rparr>)) (\<lambda>_.
        bind_s (if has_hardfork 28 (node_ledger s) then update_global_witness_properties Current_wso else ret_s ()) (\<lambda>_.
        update_witness_schedule4 F Future_wso))
      else update_witness_schedule4 F Current_wso) s = Inr ((), s1)" "schedule_inv s1"
    and e: "if has_hardfork 26 (node_ledger s)
     then elects s (unat (max_voted_witnesses (future_wso s))) (future_wso s1) \<and> wso_core (current_wso s1) = wso_core (future_wso s)
     else elects s (unat (max_voted_witnesses (current_wso s))) (current_wso s1)"
    using round_eq [OF assms(1,3)] by blast
  have "rd_ok (account_subsidy_rd (current_wso s1))" using s1(2) by (simp add: schedule_inv_def wso_ok_def)
  then obtain s2 where s2: "(if has_hardfork 20 (node_ledger s) then set_pool_params F f else ret_s ()) s1 = Inr ((), s2)"
    and k: "witnesses s2 = witnesses s1" "node_ledger s2 = node_ledger s1" "current_wso s2 = current_wso s1" "future_wso s2 = future_wso s1"
    using set_pool_params_eq [OF assms(1,2), of s1] by (cases "has_hardfork 20 (node_ledger s)") auto
  have "owners s2 = owners s1" using k(1) by (simp add: owners_def)
  then have "schedule_inv s2"
    using s1(2) k witnesses_ok_cong [OF k(1)] wso_ok_cong [of s2 s1] by (simp add: schedule_inv_def)
  moreover have "update_witness_schedule F f s = Inr ((), s2)"
    using True hf4 s1(1) s2 unfolding update_witness_schedule_def Let_def by simp
  ultimately show ?thesis using e k wso_core_eqD(3,4) [of "current_wso s1" "future_wso s"] by auto
next
  case False
  then show ?thesis using assms(3) by (simp add: update_witness_schedule_def)
qed

theorem schedule_round_witness:
  "(\<exists>s'. update_witness_schedule exact_fc top_bit example_schedule = Inr ((), s') \<and> schedule_inv s' \<and>
      elects example_schedule 20 (future_wso s') \<and> current_shuffled_witnesses (current_wso s') = ''alice'' # replicate 20 []) \<and>
   candidates example_schedule = [0, 1]"
proof
  have "head_block_number (dgpo (node_ledger example_schedule)) mod of_nat HIVE_MAX_WITNESSES = 0"
    "has_hardfork 26 (node_ledger example_schedule)" "future_wso example_schedule = example_wso"
    by (simp_all add: example_schedule_def example_ledger_def has_hardfork_def HIVE_MAX_WITNESSES_def)
  then show "\<exists>s'. update_witness_schedule exact_fc top_bit example_schedule = Inr ((), s') \<and> schedule_inv s' \<and>
      elects example_schedule 20 (future_wso s') \<and> current_shuffled_witnesses (current_wso s') = ''alice'' # replicate 20 []"
    using schedule_round [OF exact_fc_ok top_bit_ok example_schedule_inv] by (auto simp: example_wso_def)
  show "candidates example_schedule = [0, 1]" by code_simp
qed



end
