(* ===== verification/Hardfork_Votes.thy ===== *)
theory Hardfork_Votes
  imports Schedule_Total
begin

text \<open>
  The votes of the producing witnesses for versions and hardforks: the counts of the code are the numbers of
  votes as long as its comparison of versions is an order, and then a hardfork is scheduled exactly when the
  documented share of the producing witnesses agrees on its version and time.
\<close>

section \<open>Comparison of versions\<close>

lemma uint_major_v: "uint (major_v v) = uint v div 16777216"
proof -
  have "major_v v = and (drop_bit 24 v) (drop_bit 24 0xFF000000)" unfolding major_v_def drop_bit_and ..
  also have "drop_bit 24 (0xFF000000 :: 32 word) = mask 8" by code_simp
  finally have "uint (major_v v) = take_bit 8 (uint v div 2 ^ 24)"
    by (simp add: take_bit_eq_mask [symmetric] unsigned_take_bit_eq uint_drop_bit)
  moreover have "0 \<le> uint v div 2 ^ 24" "uint v div 2 ^ 24 < 2 ^ 8" using word32_bound [of v] by (simp_all add: pos_imp_zdiv_nonneg_iff)
  ultimately show ?thesis by (simp add: take_bit_int_eq_self)
qed

lemma uint_low_24: "uint (and v 0x00FFFFFF :: 32 word) = uint v mod 16777216"
proof -
  have "(0x00FFFFFF :: 32 word) = mask 24" by code_simp
  then have "and v 0x00FFFFFF = take_bit 24 v" unfolding take_bit_eq_mask by (rule arg_cong)
  then show ?thesis by (simp add: uint_mod take_bit_eq_mod)
qed

text \<open>Version 0.0.0 and the versions of major number one above 1.0.0; all versions of this chain are among
  them.\<close>

definition usual_version :: "32 word \<Rightarrow> bool" where
  "usual_version v \<longleftrightarrow> v = 0 \<or> 0x01000000 < v \<and> v < 0x02000000"

lemma usual_version_major:
  assumes "usual_version v"
  shows "major_v v = (if v = 0 then 0 else 1)"
proof (cases "v = 0")
  case False
  then have "uint v div 16777216 = 1" using assms by (auto simp: usual_version_def word_less_def)
  then show ?thesis using False uint_major_v [of v] by (simp add: word_uint_eq_iff)
qed (simp add: major_v_def)

lemma usual_version_operand:
  assumes "usual_version v" "usual_version w"
  shows "version_operand v w = (if v = 0 \<and> w \<noteq> 0 then and w 0x00FFFFFF else w)"
proof -
  have "and w 0x01FFFFFF = w" if "w = 0" using that by simp
  then show ?thesis using assms by (simp add: version_operand_def usual_version_major)
qed

lemma usual_version_low:
  assumes "usual_version w" "w \<noteq> 0"
  shows "and w 0x00FFFFFF \<noteq> 0"
proof -
  have w: "16777216 < uint w" "uint w < 33554432" using assms by (auto simp: usual_version_def word_less_def)
  then have "uint w div 16777216 = 1" by simp
  then have "0 < uint w mod 16777216" using w(1) div_mult_mod_eq [of "uint w" 16777216] by simp
  then show ?thesis unfolding uint_low_24 [symmetric] by auto
qed

lemma version_order:
  assumes "usual_version v" "usual_version w"
  shows "version_less v w \<longleftrightarrow> v < w" "version_less_eq v w \<longleftrightarrow> v \<le> w" "version_greater v w \<longleftrightarrow> w < v"
    "version_eq v w \<longleftrightarrow> v = w"
  using usual_version_low [OF assms(2)] word_neq_0_conv
  by (auto simp: version_less_def version_less_eq_def version_greater_def version_eq_def usual_version_operand [OF assms])

text \<open>Between major versions 0 and 1 the comparison is no order: equality is not symmetric, and each of two versions can be
  greater than the other.\<close>

lemma version_comparison_no_order:
  "version_eq 0x00180000 0x01180000" "\<not> version_eq 0x01180000 0x00180000"
  "version_greater 0x00190000 0x01180000" "version_greater 0x01180000 0x00190000"
  by (simp_all add: version_eq_def version_greater_def version_operand_def) code_simp+

section \<open>Counting\<close>

text \<open>What counting relies on: the comparison of the keys that occur is a strict linear order.\<close>

locale key_order =
  fixes before :: "'k \<Rightarrow> 'k \<Rightarrow> bool" and keys :: "'k set"
  assumes asym: "x \<in> keys \<Longrightarrow> y \<in> keys \<Longrightarrow> before x y \<Longrightarrow> \<not> before y x"
    and transitive: "x \<in> keys \<Longrightarrow> y \<in> keys \<Longrightarrow> z \<in> keys \<Longrightarrow> before x y \<Longrightarrow> before y z \<Longrightarrow> before x z"
    and total: "x \<in> keys \<Longrightarrow> y \<in> keys \<Longrightarrow> x \<noteq> y \<Longrightarrow> before x y \<or> before y x"
begin

lemma tally_add_keys: "fst ` set (tally_add before k es) \<subseteq> insert k (fst ` set es)"
  by (induction es) auto

lemma tally_add_sorted:
  assumes "k \<in> keys" "fst ` set es \<subseteq> keys" "sorted_wrt before (map fst es)"
  shows "sorted_wrt before (map fst (tally_add before k es))"
  using assms(2,3)
proof (induction es)
  case (Cons e es)
  have e: "fst e \<in> keys" and es: "fst ` set es \<subseteq> keys" "sorted_wrt before (map fst es)" using Cons.prems by auto
  have le: "before (fst e) x" if "x \<in> fst ` set es" for x using Cons.prems(2) that by auto
  show ?case
  proof (cases "before (fst e) k")
    case True
    then have "\<forall>x \<in> fst ` set (tally_add before k es). before (fst e) x" using tally_add_keys [of k es] le by auto
    then show ?thesis using True Cons.IH [OF es] by simp
  next
    case f: False
    have "\<forall>x \<in> fst ` set es. before k x" if b: "before k (fst e)"
      using transitive [OF assms(1) e _ b] le es(1) by blast
    then show ?thesis using f Cons.prems(2) by (cases "before k (fst e)") simp_all
  qed
qed simp

lemma tally_add_lookup:
  assumes "k \<in> keys" "fst ` set es \<subseteq> keys" "sorted_wrt before (map fst es)"
  shows "map_of (tally_add before k es) =
    (map_of es)(k \<mapsto> (case map_of es k of None \<Rightarrow> 1 | Some n \<Rightarrow> n + 1))"
  using assms(2,3)
proof (induction es)
  case (Cons e es)
  have e: "fst e \<in> keys" and es: "fst ` set es \<subseteq> keys" "sorted_wrt before (map fst es)" using Cons.prems by auto
  have le: "before (fst e) x" if "x \<in> fst ` set es" for x using Cons.prems(2) that by auto
  show ?case
  proof (cases "before (fst e) k")
    case True
    then have "fst e \<noteq> k" using asym [OF e assms(1)] by auto
    then show ?thesis using True Cons.IH [OF es] by (auto simp: fun_eq_iff)
  next
    case f: False
    show ?thesis
    proof (cases "before k (fst e)")
      case True
      have "k \<notin> fst ` set es" using le [of k] f by auto
      then have "map_of es k = None" by (simp add: map_of_eq_None_iff)
      moreover have "fst e \<noteq> k" using True asym [OF assms(1,1)] by auto
      ultimately show ?thesis using True f by (auto simp: fun_eq_iff)
    next
      case False
      then have "fst e = k" using f total [OF e assms(1)] by auto
      then show ?thesis using f False by (auto simp: fun_eq_iff)
    qed
  qed
qed simp

lemma tally_spec:
  assumes "set ks \<subseteq> keys"
  shows "fst ` set (tally before ks) \<subseteq> set ks" "sorted_wrt before (map fst (tally before ks))"
    "map_of (tally before ks) = (\<lambda>k. if k \<in> set ks then Some (of_nat (count_list ks k)) else None)"
proof -
  have "fst ` set (tally before ks) \<subseteq> set ks \<and> sorted_wrt before (map fst (tally before ks)) \<and>
    map_of (tally before ks) = (\<lambda>k. if k \<in> set ks then Some (of_nat (count_list ks k)) else None)"
    using assms
  proof (induction ks rule: rev_induct)
    case (snoc k ks)
    have e: "tally before (ks @ [k]) = tally_add before k (tally before ks)" by (simp add: tally_def)
    from snoc have IH: "fst ` set (tally before ks) \<subseteq> set ks" "sorted_wrt before (map fst (tally before ks))"
      "map_of (tally before ks) = (\<lambda>k. if k \<in> set ks then Some (of_nat (count_list ks k)) else None)" by auto
    have k: "k \<in> keys" "fst ` set (tally before ks) \<subseteq> keys" using snoc.prems IH(1) by auto
    have "fst ` set (tally_add before k (tally before ks)) \<subseteq> set (ks @ [k])"
      using subset_trans [OF tally_add_keys insert_mono [OF IH(1)]] by simp
    moreover have "map_of (tally_add before k (tally before ks)) =
        (\<lambda>x. if x \<in> set (ks @ [k]) then Some (of_nat (count_list (ks @ [k]) x)) else None)"
      unfolding tally_add_lookup [OF k IH(2)] IH(3) by (auto simp: fun_eq_iff)
    ultimately show ?case unfolding e using tally_add_sorted [OF k IH(2)] by blast
  qed (simp add: tally_def)
  then show "fst ` set (tally before ks) \<subseteq> set ks" "sorted_wrt before (map fst (tally before ks))"
    "map_of (tally before ks) = (\<lambda>k. if k \<in> set ks then Some (of_nat (count_list ks k)) else None)" by blast+
qed

lemma sorted_distinct: "set ks \<subseteq> keys \<Longrightarrow> sorted_wrt before ks \<Longrightarrow> distinct ks"
  by (induction ks) (auto dest: asym)

lemma tally_entry:
  assumes "set ks \<subseteq> keys"
  shows "(k, n) \<in> set (tally before ks) \<longleftrightarrow> k \<in> set ks \<and> n = of_nat (count_list ks k)"
proof -
  note spec = tally_spec [OF assms]
  have "distinct (map fst (tally before ks))" using sorted_distinct [OF _ spec(2)] spec(1) assms by auto
  then have "(k, n) \<in> set (tally before ks) \<longleftrightarrow> map_of (tally before ks) k = Some n" by simp
  then show ?thesis unfolding spec(3) by auto
qed

end

definition usual_votes :: "hardfork_vote set" where
  "usual_votes = {v. usual_version (fst v)}"

interpretation hardfork_order: key_order vote_less usual_votes
  by unfold_locales (auto simp: vote_less_def usual_votes_def version_order)

interpretation running_order: key_order version_greater "{v. usual_version v}"
  by unfold_locales (auto simp: version_order)

section \<open>The quorum\<close>

lemma quorum_table:
  "list_all (\<lambda>n. list_all (\<lambda>c. pixa_hardfork_quorum (of_nat n) \<le> of_nat c \<longleftrightarrow> 17 * n \<le> 21 * c) [0..<22]) [1..<22]"
  by code_simp

lemma quorum_share:
  assumes "1 \<le> n" "n \<le> 21" "c \<le> 21"
  shows "pixa_hardfork_quorum (of_nat n) \<le> of_nat c \<longleftrightarrow> 17 * n \<le> 21 * c"
proof -
  have "n \<in> set [1..<22]" "c \<in> set [0..<22]" using assms by auto
  then show ?thesis using quorum_table unfolding list_all_iff by blast
qed

lemma count_two: "x \<noteq> y \<Longrightarrow> count_list xs x + count_list xs y \<le> length xs"
  by (induction xs) auto

lemma share_unique:
  assumes "xs \<noteq> []" "17 * length xs \<le> 21 * count_list xs x" "17 * length xs \<le> 21 * count_list xs y"
  shows "x = y"
proof (rule ccontr)
  assume "x \<noteq> y"
  then have "count_list xs x + count_list xs y \<le> length xs" by (rule count_two)
  moreover have "length xs > 0" using assms(1) by simp
  ultimately show False using assms(2,3) by linarith
qed

lemma hardfork_majority_find:
  "hardfork_majority current quorum es =
   map_option fst (List.find (\<lambda>e. \<not> version_less_eq (fst (fst e)) current \<and> snd e \<ge> quorum) es)"
  by (induction es) auto

definition usual_hardfork :: "32 word \<Rightarrow> bool" where
  "usual_hardfork v \<longleftrightarrow> usual_version v \<and> and v 0xFFFF0000 = v"

lemma usual_not_22:
  assumes "usual_version v"
  shows "\<not> version_eq v HIVE_HARDFORK_0_22_VERSION"
proof -
  have "major_v HIVE_HARDFORK_0_22_VERSION = 0" by code_simp
  then have "version_operand v HIVE_HARDFORK_0_22_VERSION \<in> {0x00160000, and 0x00160000 0x01FFFFFF}"
    by (simp add: version_operand_def HIVE_HARDFORK_0_22_VERSION_def)
  moreover have "and 0x00160000 0x01FFFFFF = (0x00160000 :: 32 word)" by code_simp
  ultimately show ?thesis using assms by (auto simp: version_eq_def usual_version_def word_less_def)
qed

text \<open>The entry that the code finds is the one vote with the quorum.\<close>

lemma majority_vote:
  assumes "set vs \<subseteq> usual_votes" "usual_version current" "length vs \<le> 21" "vs \<noteq> []"
  shows "hardfork_majority current (pixa_hardfork_quorum (of_nat (length vs))) (tally vote_less vs) = Some k \<longleftrightarrow>
    current < fst k \<and> 17 * length vs \<le> 21 * count_list vs k"
proof -
  let ?es = "tally vote_less vs" and ?q = "pixa_hardfork_quorum (of_nat (length vs))"
  let ?P = "\<lambda>e. \<not> version_less_eq (fst (fst e)) current \<and> ?q \<le> snd e"
  have c: "count_list vs k \<le> 21" for k using count_le_length [of vs k] assms(3) by simp
  have entry: "e \<in> set ?es \<longleftrightarrow> fst e \<in> set vs \<and> snd e = of_nat (count_list vs (fst e))" for e
    using hardfork_order.tally_entry [OF assms(1), of "fst e" "snd e"] by simp
  have P: "?P e \<longleftrightarrow> current < fst (fst e) \<and> 17 * length vs \<le> 21 * count_list vs (fst e)" if "e \<in> set ?es" for e
  proof -
    have "usual_version (fst (fst e))" using entry [of e] that assms(1) by (auto simp: usual_votes_def)
    then show ?thesis
      using entry [of e] that assms(2-4) c quorum_share [of "length vs" "count_list vs (fst e)"]
      by (simp add: version_order Suc_le_eq not_le)
  qed
  show ?thesis
  proof
    assume "hardfork_majority current ?q ?es = Some k"
    then obtain e where e: "List.find ?P ?es = Some e" "k = fst e" unfolding hardfork_majority_find by auto
    then have "e \<in> set ?es" "?P e" by (auto simp: find_Some_iff)
    then show "current < fst k \<and> 17 * length vs \<le> 21 * count_list vs k" using P [of e] e(2) by simp
  next
    assume k: "current < fst k \<and> 17 * length vs \<le> 21 * count_list vs k"
    then have "count_list vs k \<noteq> 0" using assms(4) by (cases "count_list vs k") auto
    then have "k \<in> set vs" by (simp add: count_list_0_iff)
    then have k': "(k, of_nat (count_list vs k)) \<in> set ?es" by (simp add: entry)
    then have "List.find ?P ?es \<noteq> None" using P [OF k'] k unfolding find_None_iff by (metis fst_conv)
    then obtain e where e: "List.find ?P ?es = Some e" by blast
    then have "e \<in> set ?es" "?P e" by (auto simp: find_Some_iff)
    then have "fst e = k" using P [of e] k share_unique [OF assms(4)] by blast
    then show "hardfork_majority current ?q ?es = Some k" unfolding hardfork_majority_find using e by simp
  qed
qed

lemma next_hardfork_vote:
  assumes "set vs \<subseteq> usual_votes" "usual_version current" "length vs \<le> 21" "usual_version (next_hardfork h)"
    "current_hardfork_version h = current" "and current 0xFFFF0000 = current" "\<forall>v \<in> set vs. and (fst v) 0xFFFF0000 = fst v"
    "q = (if vs = [] then q else pixa_hardfork_quorum (of_nat (length vs)))"
  defines "h' \<equiv> set_next_hardfork q (tally vote_less vs) h"
  shows "current \<le> next_hardfork h' \<and> (\<forall>v t. current < v \<longrightarrow>
    (next_hardfork h' = v \<and> next_hardfork_time h' = t \<longleftrightarrow> vs \<noteq> [] \<and> 17 * length vs \<le> 21 * count_list vs (v, t)))"
proof (cases "hardfork_majority current q (tally vote_less vs)")
  case None
  then have "next_hardfork h' = current" using assms(5,6) by (simp add: h'_def set_next_hardfork_def)
  moreover have "\<not> (vs \<noteq> [] \<and> 17 * length vs \<le> 21 * count_list vs (v, t))" if "current < v" for v t
    using majority_vote [OF assms(1-3), of "(v, t)"] None assms(8) that by auto
  ultimately show ?thesis by auto
next
  case (Some k)
  obtain v t where k: "k = (v, t)" by (cases k)
  have ne: "vs \<noteq> []" using Some by (auto simp: tally_def)
  then have m: "current < v" "17 * length vs \<le> 21 * count_list vs (v, t)"
    using Some assms(8) majority_vote [OF assms(1-3) ne, of k] k by auto
  then have "count_list vs (v, t) \<noteq> 0" using ne by (cases "count_list vs (v, t)") auto
  then have "(v, t) \<in> set vs" by (simp add: count_list_0_iff)
  then have "usual_version v" "and v 0xFFFF0000 = v" using assms(1,7) by (auto simp: usual_votes_def)
  then have n: "next_hardfork h' = v" "next_hardfork_time h' = t"
    using Some k assms(4,5) by (auto simp: h'_def set_next_hardfork_def version_order)
  have "v' = v \<and> t' = t \<longleftrightarrow> vs \<noteq> [] \<and> 17 * length vs \<le> 21 * count_list vs (v', t')" for v' t'
    using share_unique [OF ne _ m(2), of "(v', t')"] m(2) ne by blast
  then show ?thesis unfolding n using m(1) by (metis order_less_imp_le)
qed

section \<open>Properties\<close>

text \<open>
  C4: A hardfork is scheduled exactly by agreement: after the votes are counted, a version above the current one is
  the next hardfork with its time if and only if at least 17 of every 21 producing witnesses, none of the others being
  counted, voted for this version and this time; without such an agreement no hardfork is scheduled. Versions are those of major
  number one or the default 0.0.0, on which the comparison of versions is an order.
\<close>

theorem hardfork_quorum:
  assumes "scheduled_witnesses ref s = Inr (ws, s)" "length ws \<le> HIVE_MAX_WITNESSES" "has_hardfork 5 (node_ledger s)"
    and "usual_hardfork (current_hardfork_version (hardforks s))" "usual_hardfork (next_hardfork (hardforks s))"
    and "\<forall>w \<in> set ws. usual_hardfork (hardfork_version_vote w)"
    and "producing = filter (is_producing (ucast (head_block_number (dgpo (node_ledger s))))) ws"
  shows "\<exists>ver h. count_votes ref s = Inr (ver, s\<lparr>hardforks := h\<rparr>) \<and>
    current_hardfork_version (hardforks s) \<le> next_hardfork h \<and>
    (\<forall>v t. current_hardfork_version (hardforks s) < v \<longrightarrow>
      (next_hardfork h = v \<and> next_hardfork_time h = t \<longleftrightarrow> producing \<noteq> [] \<and>
        17 * length producing \<le> 21 * count_list (map (\<lambda>w. (hardfork_version_vote w, hardfork_time_vote w)) producing) (v, t)))"
proof -
  let ?vs = "map (\<lambda>w. (hardfork_version_vote w, hardfork_time_vote w)) producing"
  let ?q = "pixa_hardfork_quorum (if producing \<noteq> [] then of_nat (length producing) else ucast (num_scheduled_witnesses (wso_of ref s)))"
  let ?h = "set_next_hardfork ?q (tally vote_less ?vs) (hardforks s)"
  have sub: "set producing \<subseteq> set ws" and len: "length ?vs \<le> 21"
    using assms(2,7) order.trans [OF length_filter_le assms(2)] by (auto simp: HIVE_MAX_WITNESSES_def)
  have "set ?vs \<subseteq> usual_votes" "\<forall>v \<in> set ?vs. and (fst v) 0xFFFF0000 = fst v"
    using assms(6) sub by (auto simp: usual_votes_def usual_hardfork_def)
  from next_hardfork_vote [OF this(1) _ len _ refl _ this(2), of "hardforks s" ?q]
  have "current_hardfork_version (hardforks s) \<le> next_hardfork ?h \<and>
    (\<forall>v t. current_hardfork_version (hardforks s) < v \<longrightarrow>
      (next_hardfork ?h = v \<and> next_hardfork_time ?h = t \<longleftrightarrow> producing \<noteq> [] \<and> 17 * length producing \<le> 21 * count_list ?vs (v, t)))"
    using assms(4,5) by (simp add: usual_hardfork_def)
  moreover have "\<exists>ver. count_votes ref s = Inr (ver, s\<lparr>hardforks := ?h\<rparr>)"
    using assms(1,3) usual_not_22 [of "current_hardfork_version (hardforks s)"] assms(4)
    unfolding assms(7) by (simp add: count_votes_def Let_def usual_hardfork_def)
  ultimately show ?thesis by blast
qed

theorem hardfork_quorum_witness:
  "\<exists>ver h. count_votes Future_wso example_schedule = Inr (ver, example_schedule\<lparr>hardforks := h\<rparr>) \<and>
     next_hardfork h = 0x011E0000 \<and> next_hardfork_time h = 7"
proof -
  let ?ws = "[example_witness ''alice'' 30 (1 # replicate 32 0)]"
  have p: "?ws = filter (is_producing (ucast (head_block_number (dgpo (node_ledger example_schedule))))) ?ws" by code_simp
  have ws: "scheduled_witnesses Future_wso example_schedule = Inr (?ws, example_schedule)"
    by (simp add: scheduled_witnesses_def example_schedule_def example_wso_def get_witness_def find_by_def read_s_def
        find_row_def example_witness_def)
  have "length ?ws \<le> HIVE_MAX_WITNESSES" "has_hardfork 5 (node_ledger example_schedule)"
    "usual_hardfork (current_hardfork_version (hardforks example_schedule))"
    "usual_hardfork (next_hardfork (hardforks example_schedule))" "\<forall>w \<in> set ?ws. usual_hardfork (hardfork_version_vote w)"
    by code_simp+
  from hardfork_quorum [OF ws this p] obtain ver h where
    count: "count_votes Future_wso example_schedule = Inr (ver, example_schedule\<lparr>hardforks := h\<rparr>)"
    and "\<forall>v t. current_hardfork_version (hardforks example_schedule) < v \<longrightarrow>
      (next_hardfork h = v \<and> next_hardfork_time h = t \<longleftrightarrow> ?ws \<noteq> [] \<and>
        17 * length ?ws \<le> 21 * count_list (map (\<lambda>w. (hardfork_version_vote w, hardfork_time_vote w)) ?ws) (v, t))"
    by blast
  moreover have "current_hardfork_version (hardforks example_schedule) < 0x011E0000" by code_simp
  ultimately have "next_hardfork h = 0x011E0000 \<and> next_hardfork_time h = 7" by (simp add: example_witness_def)
  then show ?thesis using count by blast
qed

end
