(* ===== verification/Delayed_Voting.thy ===== *)
theory Delayed_Voting
  imports Witness_Schedule
begin

text \<open>
  Votes for witnesses with delay (\<^verbatim>\<open>delayed_voting_processor.hpp\<close>, \<^verbatim>\<open>delayed_voting.cpp\<close>, the adjustment of votes in
  \<^verbatim>\<open>database.cpp\<close> and \<^verbatim>\<open>database_witness.cpp\<close>): new VESTS count for witnesses thirty days after they were
  received. They wait in daily entries of the account; when an entry matures its VESTS are added along the proxies
  of the account and to the witnesses that the last of them votes for.
\<close>

section \<open>Unsigned shares\<close>

text \<open>An \<^verbatim>\<open>ushare_type\<close> is a \<^verbatim>\<open>safe<uint64_t>\<close> of the library fc, whose operations throw when the result does not
  fit.\<close>

record ushare_lib =
  ushare_add :: "64 word \<Rightarrow> 64 word \<Rightarrow> (64 word) res"
  ushare_sub :: "64 word \<Rightarrow> 64 word \<Rightarrow> (64 word) res"

definition ushare_ok :: "ushare_lib \<Rightarrow> bool" where
  "ushare_ok U \<longleftrightarrow> (\<forall>a b.
     (if unat a + unat b < 2 ^ 64 then ushare_add U a b = Inr (a + b) else throws (ushare_add U a b)) \<and>
     (if b \<le> a then ushare_sub U a b = Inr (a - b) else throws (ushare_sub U a b)))"

definition exact_ushare :: ushare_lib where
  "exact_ushare =
     \<lparr>ushare_add = (\<lambda>a b. if unat a + unat b < 2 ^ 64 then Inr (a + b) else Inl Overflow_exn),
      ushare_sub = (\<lambda>a b. if b \<le> a then Inr (a - b) else Inl Overflow_exn)\<rparr>"

section \<open>The entries of an account\<close>

definition HIVE_DELAYED_VOTING_TOTAL_INTERVAL_SECONDS :: "32 word" where
  "HIVE_DELAYED_VOTING_TOTAL_INTERVAL_SECONDS = 60 * 60 * 24 * 30"

definition HIVE_DELAYED_VOTING_INTERVAL_SECONDS :: "32 word" where
  "HIVE_DELAYED_VOTING_INTERVAL_SECONDS = 60 * 60 * 24 * 1"

type_synonym delayed = "delayed_votes_data list \<times> 64 word"

definition delayed_add :: "ushare_lib \<Rightarrow> 32 word \<Rightarrow> 64 word \<Rightarrow> delayed \<Rightarrow> delayed res" where
  "delayed_add U now val = (\<lambda>(items, sum).
     if val = 0 then Inr (items, sum)
     else if items = [] then
       bind_r (ushare_add U sum val) (\<lambda>sum. Inr ([\<lparr>dv_time = now, dv_val = val\<rparr>], sum))
     else
       let back_obj = last items in
       bind_r (check_r (now \<ge> dv_time back_obj) ''head time must be greater or equal to last delayed voting time'') (\<lambda>_.
       bind_r (ushare_add U sum val) (\<lambda>sum.
       if now \<ge> dv_time back_obj + HIVE_DELAYED_VOTING_INTERVAL_SECONDS
       then Inr (items @ [\<lparr>dv_time = now, dv_val = val\<rparr>], sum)
       else bind_r (ushare_add U (dv_val back_obj) val) (\<lambda>v.
            Inr (butlast items @ [back_obj\<lparr>dv_val := v\<rparr>], sum)))))"

definition erase_front :: "ushare_lib \<Rightarrow> delayed \<Rightarrow> delayed res" where
  "erase_front U = (\<lambda>(items, sum).
     case items of
       obj # rest \<Rightarrow>
         bind_r (check_r (sum \<ge> dv_val obj) ''sum of delayed votings must be greater or equal to zero'') (\<lambda>_.
         bind_r (ushare_sub U sum (dv_val obj)) (\<lambda>sum. Inr (rest, sum)))
     | [] \<Rightarrow> bind_r (check_r (sum = 0) ''sum of delayed votings must be equal to zero'') (\<lambda>_. Inr ([], sum)))"

text \<open>The loop that takes a count away from the newest entries, which come first here.\<close>

fun erase_back :: "ushare_lib \<Rightarrow> delayed_votes_data list \<Rightarrow> 64 word \<Rightarrow> delayed_votes_data list res" where
  "erase_back U [] count = Inl Undefined"
| "erase_back U (obj # rest) count =
     (if count \<ge> dv_val obj then bind_r (ushare_sub U count (dv_val obj)) (erase_back U rest)
      else bind_r (ushare_sub U (dv_val obj) count) (\<lambda>v. Inr (obj\<lparr>dv_val := v\<rparr> # rest)))"

definition erase_votes :: "ushare_lib \<Rightarrow> 64 word \<Rightarrow> delayed \<Rightarrow> delayed res" where
  "erase_votes U count = (\<lambda>(items, sum).
     if count = 0 then Inr (items, sum)
     else
       bind_r (check_r (count \<le> sum) ''number votes to be erased must be greater or equal to sum of delayed votings'') (\<lambda>_.
       if sum = count then Inr ([], 0)
       else
         bind_r (ushare_sub U sum count) (\<lambda>sum.
         bind_r (erase_back U (rev items) count) (\<lambda>items. Inr (rev items, sum)))))"

definition on_delayed :: "(delayed \<Rightarrow> delayed res) \<Rightarrow> account_object \<Rightarrow> (unit \<times> account_object) res" where
  "on_delayed f a =
     bind_r (f (delayed_votes a, sum_delayed_votes a)) (\<lambda>(items, sum).
     Inr ((), a\<lparr>delayed_votes := items, sum_delayed_votes := sum\<rparr>))"

text \<open>Accounts of the node.\<close>

definition node_accounts :: "schedule_state \<Rightarrow> account_object table" where
  "node_accounts s = accounts (node_ledger s)"

definition set_accounts :: "account_object table \<Rightarrow> schedule_state \<Rightarrow> schedule_state" where
  "set_accounts t s = s\<lparr>node_ledger := (node_ledger s)\<lparr>accounts := t\<rparr>\<rparr>"

definition add_delayed_value :: "ushare_lib \<Rightarrow> nat \<Rightarrow> 32 word \<Rightarrow> 64 word \<Rightarrow> unit schedule_op" where
  "add_delayed_value U i now val =
     modify_row node_accounts set_accounts i (on_delayed (delayed_add U now val))"

definition erase_delayed_value :: "ushare_lib \<Rightarrow> nat \<Rightarrow> 64 word \<Rightarrow> unit schedule_op" where
  "erase_delayed_value U i val =
     bind_s (get_row node_accounts i) (\<lambda>a.
     if sum_delayed_votes a = 0 then ret_s ()
     else modify_row node_accounts set_accounts i (on_delayed (erase_votes U val)))"

section \<open>Votes for witnesses\<close>

definition by_account_witness :: "nat \<times> witness_vote_object \<Rightarrow> nat \<times> witness_vote_object \<Rightarrow> bool" where
  "by_account_witness x y \<longleftrightarrow> name_lt (vote_account (snd x)) (vote_account (snd y)) \<or>
     vote_account (snd x) = vote_account (snd y) \<and> name_lt (vote_witness (snd x)) (vote_witness (snd y))"

definition adjust_witness_vote :: "fc_lib \<Rightarrow> nat \<Rightarrow> int \<Rightarrow> unit schedule_op" where
  "adjust_witness_vote F i delta =
     bind_s (get_s id) (\<lambda>s.
     let ref = (if has_hardfork 27 (node_ledger s) then get_witness_schedule_object_for_irreversibility s else Current_wso);
         now = current_virtual_time (wso_of ref s);
         lap = (if has_hardfork 2 (node_ledger s) then HIVE_VIRTUAL_SCHEDULE_LAP_LENGTH2 else HIVE_VIRTUAL_SCHEDULE_LAP_LENGTH)
     in
     modify_row witnesses set_witnesses i (\<lambda>w.
       let position = virtual_position w + of_int (votes w) * (now - virtual_last_update w) in
       bind_r (safe_add F (votes w) delta) (\<lambda>v.
       bind_r (check_r (v \<le> tamount (total_vesting_shares (dgpo (node_ledger s)))) ''w.votes <= total_vesting_shares'') (\<lambda>_.
       bind_r (i64 (v + 1)) (\<lambda>d.
       bind_r (div_128 (lap - position) (of_int d)) (\<lambda>q.
       let t = now + q in
       Inr ((), w\<lparr>virtual_position := position, virtual_last_update := now, votes := v,
         virtual_scheduled_time := (if has_hardfork 4 (node_ledger s) \<and> t < now then - 1 else t)\<rparr>)))))))"

definition adjust_witness_votes :: "fc_lib \<Rightarrow> string \<Rightarrow> int \<Rightarrow> unit schedule_op" where
  "adjust_witness_votes F name delta =
     bind_s (get_s (\<lambda>s. filter (\<lambda>(i, v). vote_account v = name) (index_rows by_account_witness (witness_votes s)))) (\<lambda>vs.
     foreach_s vs (\<lambda>(i, v).
       bind_s (read_s (\<lambda>s. case find_by (\<lambda>w. w_owner w = vote_witness v) (witnesses s) of
         None \<Rightarrow> Inl Out_of_range | Some j \<Rightarrow> Inr j)) (\<lambda>j.
       adjust_witness_vote F j delta)))"

definition HIVE_MAX_PROXY_RECURSION_DEPTH :: nat where "HIVE_MAX_PROXY_RECURSION_DEPTH = 4"

function adjust_proxied_witness_votes :: "fc_lib \<Rightarrow> nat \<Rightarrow> int \<Rightarrow> nat \<Rightarrow> unit schedule_op" where
  "adjust_proxied_witness_votes F i delta depth =
     bind_s (get_row node_accounts i) (\<lambda>a.
     case acc_proxy a of
       None \<Rightarrow> adjust_witness_votes F (acc_name a) delta
     | Some p \<Rightarrow>
         if depth \<ge> HIVE_MAX_PROXY_RECURSION_DEPTH then ret_s ()
         else
           bind_s (read_s (\<lambda>s. check_r (find_row (node_accounts s) p \<noteq> None) ''Account doesn't exist'')) (\<lambda>_.
           bind_s (modify_row node_accounts set_accounts p (\<lambda>a.
             if depth < length (proxied_vsf_votes a) then
               bind_r (safe_add F (proxied_vsf_votes a ! depth) delta) (\<lambda>v.
               Inr ((), a\<lparr>proxied_vsf_votes := (proxied_vsf_votes a)[depth := v]\<rparr>))
             else Inl Undefined)) (\<lambda>_.
           adjust_proxied_witness_votes F p delta (Suc depth))))"
  by pat_completeness auto
termination
  by (relation "measure (\<lambda>(F, i, delta, depth). HIVE_MAX_PROXY_RECURSION_DEPTH - depth)") auto

section \<open>Maturity\<close>

definition oldest_delayed_vote_time :: "account_object \<Rightarrow> 32 word" where
  "oldest_delayed_vote_time a = (case delayed_votes a of [] \<Rightarrow> - 1 | d # _ \<Rightarrow> dv_time d)"

definition by_delayed_voting :: "nat \<times> account_object \<Rightarrow> nat \<times> account_object \<Rightarrow> bool" where
  "by_delayed_voting x y \<longleftrightarrow> oldest_delayed_vote_time (snd x) < oldest_delayed_vote_time (snd y) \<or>
     oldest_delayed_vote_time (snd x) = oldest_delayed_vote_time (snd y) \<and> fst x < fst y"

text \<open>Every round of the loop removes an entry, so there are at most as many rounds as entries.\<close>

definition delayed_entries :: "schedule_state \<Rightarrow> nat" where
  "delayed_entries s = sum_list (map (\<lambda>(i, a). length (delayed_votes a)) (rows (node_accounts s)))"

definition delayed_voting_run :: "fc_lib \<Rightarrow> ushare_lib \<Rightarrow> 32 word \<Rightarrow> unit schedule_op" where
  "delayed_voting_run F U now =
     bind_s (get_s delayed_entries) (\<lambda>n.
     while_s n (\<lambda>s. first_row by_delayed_voting
         (\<lambda>a. delayed_votes a \<noteq> [] \<and> now \<ge> oldest_delayed_vote_time a + HIVE_DELAYED_VOTING_TOTAL_INTERVAL_SECONDS) (node_accounts s)) (\<lambda>i _.
       bind_s (get_row node_accounts i) (\<lambda>a.
       bind_s (adjust_proxied_witness_votes F i (sint (dv_val (hd (delayed_votes a)))) 0) (\<lambda>_.
       modify_row node_accounts set_accounts i (on_delayed (erase_front U))))) ())"

definition process_delayed_voting :: "fc_lib \<Rightarrow> ushare_lib \<Rightarrow> 32 word \<Rightarrow> unit schedule_op" where
  "process_delayed_voting F U timestamp =
     bind_s (get_s id) (\<lambda>s.
     if has_hardfork 24 (node_ledger s) then delayed_voting_run F U timestamp else ret_s ())"

end
