(* ===== verification/Voting_Laws.thy ===== *)
theory Voting_Laws
  imports Delayed_Voting Schedule_Total
begin

text \<open>
  Votes for witnesses: the votes of a witness are the matured VESTS of the accounts that vote for it, directly or
  through up to four proxies. The sums that an account stores for its proxies and the votes of the witnesses are kept
  when votes mature, and the overflow checks and the assertion on the votes of a witness hold.
\<close>

declare adjust_proxied_witness_votes.simps [simp del]

section \<open>Proxies\<close>

text \<open>The account that votes for an account after at most \<open>n\<close> proxies, and the account \<open>n\<close> proxies away.\<close>

primrec governor :: "account_object table \<Rightarrow> nat \<Rightarrow> nat \<Rightarrow> string option" where
  "governor A 0 i = (case find_row A i of None \<Rightarrow> None | Some a \<Rightarrow> if acc_proxy a = None then Some (acc_name a) else None)"
| "governor A (Suc n) i = (case find_row A i of None \<Rightarrow> None | Some a \<Rightarrow>
     (case acc_proxy a of None \<Rightarrow> Some (acc_name a) | Some p \<Rightarrow> governor A n p))"

primrec ancestor :: "account_object table \<Rightarrow> nat \<Rightarrow> nat \<Rightarrow> nat option" where
  "ancestor A 0 i = Some i"
| "ancestor A (Suc n) i = (case ancestor A n i of None \<Rightarrow> None | Some j \<Rightarrow>
     (case find_row A j of None \<Rightarrow> None | Some a \<Rightarrow> acc_proxy a))"

definition ids :: "'a table \<Rightarrow> nat list" where
  "ids t = map fst (rows t)"

text \<open>Accounts that agree in names and proxies.\<close>

definition same_proxies :: "account_object table \<Rightarrow> account_object table \<Rightarrow> bool" where
  "same_proxies A B \<longleftrightarrow> ids B = ids A \<and> next_id B = next_id A \<and>
     (\<forall>i. map_option (\<lambda>a. (acc_name a, acc_proxy a)) (find_row B i) = map_option (\<lambda>a. (acc_name a, acc_proxy a)) (find_row A i))"

lemma same_proxies_refl [simp]: "same_proxies A A"
  by (simp add: same_proxies_def)

lemma same_proxies_trans: "same_proxies A B \<Longrightarrow> same_proxies B C \<Longrightarrow> same_proxies A C"
  by (simp add: same_proxies_def)

lemma ids_put [simp]: "ids (put_row i x t) = ids t"
  by (simp add: ids_def put_row_def case_prod_unfold)

lemma same_proxies_put:
  assumes "find_row A i = Some a" "acc_name b = acc_name a" "acc_proxy b = acc_proxy a"
  shows "same_proxies A (put_row i b A)"
proof -
  have "next_id (put_row i b A) = next_id A" by (simp add: put_row_def)
  then show ?thesis using assms by (auto simp: same_proxies_def find_row_put)
qed

lemma same_proxies_views:
  assumes "same_proxies A B"
  shows "governor B n i = governor A n i" "ancestor B n i = ancestor A n i"
proof -
  have f: "(\<exists>a b. find_row A i = Some a \<and> find_row B i = Some b \<and> acc_name b = acc_name a \<and> acc_proxy b = acc_proxy a) \<or>
      find_row A i = None \<and> find_row B i = None" for i
    using assms by (cases "find_row A i"; cases "find_row B i") (auto simp: same_proxies_def dest: spec [of _ i])
  show "governor B n i = governor A n i"
  proof (induction n arbitrary: i)
    case 0
    show ?case using f [of i] by auto
  next
    case (Suc n)
    show ?case using f [of i] Suc by (auto split: option.split)
  qed
  show "ancestor B n i = ancestor A n i"
  proof (induction n)
    case (Suc n)
    show ?case
    proof (cases "ancestor A n i")
      case (Some j)
      show ?thesis using f [of j] Suc Some by auto
    qed (use Suc in simp)
  qed simp
qed

lemma governor_reach:
  assumes "ancestor A d k = Some i"
  shows "governor A (d + n) k = governor A n i"
  using assms
proof (induction d arbitrary: i n)
  case (Suc d)
  from Suc.prems obtain j a where j: "ancestor A d k = Some j" "find_row A j = Some a" "acc_proxy a = Some i"
    by (auto split: option.splits)
  have "governor A (Suc d + n) k = governor A (Suc n) j" using Suc.IH [OF j(1), of "Suc n"] by simp
  then show ?case using j by simp
qed simp

lemma ancestor_ends:
  assumes "ancestor A d k = Some i" "find_row A i = Some a" "acc_proxy a = None" "d \<le> e"
  shows "ancestor A (Suc e) k = None"
  using assms(4)
proof (induction e)
  case 0
  then show ?case using assms(1-3) by simp
next
  case (Suc e)
  then show ?case using assms(1-3) by (cases "d = Suc e") (simp_all add: le_Suc_eq)
qed

section \<open>Sums of votes\<close>

definition proxy_sum :: "account_object table \<Rightarrow> (nat \<Rightarrow> int) \<Rightarrow> nat \<Rightarrow> nat \<Rightarrow> int" where
  "proxy_sum A m d p = (\<Sum>i\<leftarrow>ids A. if ancestor A (Suc d) i = Some p then m i else 0)"

definition votes_for :: "account_object table \<Rightarrow> witness_vote_object table \<Rightarrow> nat \<Rightarrow> string \<Rightarrow> bool" where
  "votes_for A V i name \<longleftrightarrow> (case governor A HIVE_MAX_PROXY_RECURSION_DEPTH i of None \<Rightarrow> False
     | Some g \<Rightarrow> list_ex (\<lambda>(j, v). vote_account v = g \<and> vote_witness v = name) (rows V))"

definition vote_sum :: "account_object table \<Rightarrow> witness_vote_object table \<Rightarrow> (nat \<Rightarrow> int) \<Rightarrow> string \<Rightarrow> int" where
  "vote_sum A V m name = (\<Sum>i\<leftarrow>ids A. if votes_for A V i name then m i else 0)"

lemma sums_cong:
  assumes "same_proxies A B"
  shows "proxy_sum B = proxy_sum A" "votes_for B = votes_for A" "vote_sum B = vote_sum A"
proof -
  have i: "ids B = ids A" using assms by (simp add: same_proxies_def)
  show "proxy_sum B = proxy_sum A" by (intro ext) (simp add: proxy_sum_def i same_proxies_views [OF assms] del: ancestor.simps)
  show v: "votes_for B = votes_for A" by (intro ext) (simp add: votes_for_def same_proxies_views [OF assms])
  show "vote_sum B = vote_sum A" by (intro ext) (simp add: vote_sum_def i v)
qed

lemma sum_list_raise:
  fixes m :: "nat \<Rightarrow> int"
  assumes "distinct xs" "k \<in> set xs"
  shows "(\<Sum>i\<leftarrow>xs. if P i then (m(k := m k + c)) i else 0) = (\<Sum>i\<leftarrow>xs. if P i then m i else 0) + (if P k then c else 0)"
proof -
  have out: "(\<Sum>i\<leftarrow>ys. if P i then (m(k := m k + c)) i else 0) = (\<Sum>i\<leftarrow>ys. if P i then m i else 0)" if "k \<notin> set ys" for ys
    using that by (induction ys) auto
  show ?thesis using assms
  proof (induction xs)
    case (Cons x xs)
    show ?case
    proof (cases "x = k")
      case True
      then show ?thesis using out [of xs] Cons.prems by simp
    next
      case False
      then show ?thesis using Cons by simp
    qed
  qed simp
qed

lemma sums_raise:
  assumes "distinct (ids A)" "k \<in> set (ids A)"
  shows "proxy_sum A (m(k := m k + c)) d p = proxy_sum A m d p + (if ancestor A (Suc d) k = Some p then c else 0)"
    "vote_sum A V (m(k := m k + c)) name = vote_sum A V m name + (if votes_for A V k name then c else 0)"
  unfolding proxy_sum_def vote_sum_def by (rule sum_list_raise [OF assms])+

lemma sums_bounded:
  assumes "\<And>i. i \<in> set (ids A) \<Longrightarrow> 0 \<le> m i" "(\<Sum>i\<leftarrow>ids A. m i) \<le> T"
  shows "0 \<le> proxy_sum A m d p" "proxy_sum A m d p \<le> T" "0 \<le> vote_sum A V m name" "vote_sum A V m name \<le> T"
proof -
  have "0 \<le> (\<Sum>i\<leftarrow>xs. if P i then m i else 0) \<and> (\<Sum>i\<leftarrow>xs. if P i then m i else 0) \<le> (\<Sum>i\<leftarrow>xs. m i)"
    if "set xs \<subseteq> set (ids A)" for P xs
    using that assms(1) by (induction xs) (auto simp: add_increasing)
  then have "0 \<le> (\<Sum>i\<leftarrow>ids A. if P i then m i else 0)" "(\<Sum>i\<leftarrow>ids A. if P i then m i else 0) \<le> T" for P
    using assms(2) by (meson order.refl order.trans)+
  then show "0 \<le> proxy_sum A m d p" "proxy_sum A m d p \<le> T" "0 \<le> vote_sum A V m name" "vote_sum A V m name \<le> T"
    by (simp_all add: proxy_sum_def vote_sum_def del: ancestor.simps)
qed

section \<open>The votes of a witness\<close>

text \<open>The witnesses named in \<open>N\<close> gain \<open>c\<close> votes; otherwise only virtual times change.\<close>

definition gains :: "int \<Rightarrow> string set \<Rightarrow> nat \<times> witness_object \<Rightarrow> nat \<times> witness_object \<Rightarrow> bool" where
  "gains c N r q \<longleftrightarrow> fst q = fst r \<and>
     core (snd q) = core ((snd r)\<lparr>votes := votes (snd r) + (if w_owner (snd r) \<in> N then c else 0)\<rparr>)"

definition voted :: "int \<Rightarrow> string set \<Rightarrow> witness_object table \<Rightarrow> witness_object table \<Rightarrow> bool" where
  "voted c N W W' \<longleftrightarrow> next_id W' = next_id W \<and> list_all2 (gains c N) (rows W) (rows W')"

lemma core_votes: "core v = core w \<Longrightarrow> core (v\<lparr>votes := x\<rparr>) = core (w\<lparr>votes := x\<rparr>)"
  by (cases v; cases w; simp add: core_def)

lemma voted_none: "voted c {} W W"
  by (simp add: voted_def list_all2_same gains_def)

lemma gainsD:
  assumes "gains c N r q"
  shows "w_owner (snd q) = w_owner (snd r)" "votes (snd q) = votes (snd r) + (if w_owner (snd r) \<in> N then c else 0)"
    "fst q = fst r"
proof -
  have c: "core (snd q) = core ((snd r)\<lparr>votes := votes (snd r) + (if w_owner (snd r) \<in> N then c else 0)\<rparr>)"
    using assms by (simp add: gains_def)
  show "w_owner (snd q) = w_owner (snd r)" "votes (snd q) = votes (snd r) + (if w_owner (snd r) \<in> N then c else 0)"
    using core_eqD(1,2) [OF c] by simp_all
  show "fst q = fst r" using assms by (simp add: gains_def)
qed

lemma gains_step:
  assumes "gains c {n} r r1" "gains c N r1 r2" "n \<notin> N"
  shows "gains c (insert n N) r r2"
proof -
  have a: "core (snd r1) = core ((snd r)\<lparr>votes := votes (snd r) + (if w_owner (snd r) \<in> {n} then c else 0)\<rparr>)"
    using assms(1) by (simp add: gains_def)
  note o = gainsD(1,2) [OF assms(1)]
  have "core (snd r2) = core ((snd r1)\<lparr>votes := votes (snd r1) + (if w_owner (snd r1) \<in> N then c else 0)\<rparr>)"
    using assms(2) by (simp add: gains_def)
  also have "\<dots> = core ((snd r)\<lparr>votes := votes (snd r1) + (if w_owner (snd r1) \<in> N then c else 0)\<rparr>)"
    using core_votes [OF a, of "votes (snd r1) + (if w_owner (snd r1) \<in> N then c else 0)"] by simp
  also have "votes (snd r1) + (if w_owner (snd r1) \<in> N then c else 0) =
      votes (snd r) + (if w_owner (snd r) \<in> insert n N then c else 0)" unfolding o using assms(3) by auto
  finally show ?thesis using assms(1,2) by (simp add: gains_def)
qed

lemma voted_step:
  assumes "voted c {n} W W1" "voted c N W1 W2" "n \<notin> N"
  shows "voted c (insert n N) W W2"
  using assms(1,2) list_all2_trans [of "gains c {n}" "gains c N" "gains c (insert n N)" "rows W" "rows W1" "rows W2"]
    gains_step [OF _ _ assms(3)] by (simp add: voted_def)

lemma voted_row:
  assumes "voted c N W W'" "r' \<in> set (rows W')"
  obtains r where "r \<in> set (rows W)" "gains c N r r'"
proof -
  have "list_all2 (gains c N) (rows W) (rows W')" using assms(1) by (simp add: voted_def)
  then have "\<exists>r \<in> set (rows W). gains c N r r'" using assms(2)
    by (induction rule: list_all2_induct) auto
  then show ?thesis using that by blast
qed

lemma voted_owners:
  assumes "voted c N W W'"
  shows "map (\<lambda>(i, w). w_owner w) (rows W') = map (\<lambda>(i, w). w_owner w) (rows W)" "map fst (rows W') = map fst (rows W)"
proof -
  have "map (\<lambda>(i, w). w_owner w) qs = map (\<lambda>(i, w). w_owner w) rs \<and> map fst qs = map fst rs"
    if "list_all2 (gains c N) rs qs" for rs qs
    using that
  proof (induction rule: list_all2_induct)
    case (Cons r rs q qs)
    show ?case using gainsD(1,3) [OF Cons(1)] Cons by (simp add: case_prod_unfold)
  qed simp
  then show "map (\<lambda>(i, w). w_owner w) (rows W') = map (\<lambda>(i, w). w_owner w) (rows W)" "map fst (rows W') = map fst (rows W)"
    using assms by (auto simp: voted_def)
qed

lemma wf_ids:
  assumes "map fst (rows t) = map fst (rows u)" "next_id t = next_id u"
  shows "table_wf t = table_wf u"
proof -
  have t: "table_wf t \<longleftrightarrow> distinct (map fst (rows t)) \<and> list_all (\<lambda>i. i < next_id t) (map fst (rows t))"
    and u: "table_wf u \<longleftrightarrow> distinct (map fst (rows u)) \<and> list_all (\<lambda>i. i < next_id u) (map fst (rows u))"
    by (simp_all add: table_wf_def list_all_iff case_prod_unfold)
  show ?thesis unfolding t u assms ..
qed

lemma voted_wf: "voted c N W W' \<Longrightarrow> table_wf W' = table_wf W"
  using wf_ids voted_owners(2) unfolding voted_def by blast

lemma voted_put:
  assumes "table_wf W" "distinct (map (\<lambda>(i, w). w_owner w) (rows W))" "find_row W j = Some w" "core w' = core (w\<lparr>votes := votes w + c\<rparr>)"
  shows "voted c {w_owner w} W (put_row j w' W)"
proof -
  have j: "(j, w) \<in> set (rows W)" using find_row_SomeD [OF assms(3)] .
  have "core (if i = j then w' else v) = core (v\<lparr>votes := votes v + (if w_owner v \<in> {w_owner w} then c else 0)\<rparr>)"
    if v: "(i, v) \<in> set (rows W)" for i v
  proof (cases "i = j")
    case True
    then have "v = w" using assms(3) v find_row_eq [OF assms(1), of j v] by simp
    then show ?thesis using True assms(4) by simp
  next
    case False
    have "inj_on (\<lambda>(i, w). w_owner w) (set (rows W))" using assms(2) by (simp add: distinct_map)
    from inj_onD [OF this _ v j] False have "w_owner v \<noteq> w_owner w" by auto
    then show ?thesis using False by simp
  qed
  then show ?thesis by (auto simp: voted_def put_row_def gains_def list_all2_map2 list_all2_same)
qed

lemma adjust_witness_vote_eq:
  assumes "fc_ok F" "table_wf (witnesses s)" "distinct (owners s)" "find_row (witnesses s) j = Some w"
    and "0 \<le> votes w" "0 \<le> c" "votes w + c \<le> tamount (total_vesting_shares (dgpo (node_ledger s)))"
    and "tamount (total_vesting_shares (dgpo (node_ledger s))) < max_i64"
  shows "\<exists>W. adjust_witness_vote F j c s = Inr ((), set_witnesses W s) \<and> voted c {w_owner w} (witnesses s) W"
proof -
  let ?v = "votes w + c"
  have b: "0 \<le> ?v" "?v < max_i64" using assms(5-8) by simp_all
  have add: "safe_add F (votes w) c = Inr ?v"
    using safe_exact(1) [OF assms(1), of "votes w" c] assms(5,6) b by (simp add: in_i64_def)
  have i: "i64 (?v + 1) = Inr (?v + 1)" using b by (simp add: i64_def in_i64_def)
  define d :: "128 word" where "d = of_int (votes w + c + 1)"
  have "uint d = ?v + 1" unfolding d_def using b by (intro uint_of_int_128) simp_all
  then have q: "div_128 x (of_int (votes w + c + 1)) = Inr (x div d)" for x using b(1) by (auto simp: div_128_def d_def)
  have put: "voted c {w_owner w} (witnesses s) (put_row j w' (witnesses s))" if "core w' = core (w\<lparr>votes := ?v\<rparr>)" for w'
    using voted_put [OF assms(2) _ assms(4) that] assms(3) by (simp add: owners_def)
  have core: "core (w\<lparr>virtual_position := p, virtual_last_update := l, votes := ?v, virtual_scheduled_time := t\<rparr>) = core (w\<lparr>votes := ?v\<rparr>)" for p l t
    by (simp add: core_def)
  show ?thesis
    unfolding adjust_witness_vote_def
    using assms(4,7) add i
    by (simp add: modify_row_def Let_def q check_r_def del: of_int_add split del: if_split)
       (rule exI, rule conjI, rule refl, rule put, rule core)
qed

abbreviation vests_total :: "schedule_state \<Rightarrow> int" where
  "vests_total s \<equiv> tamount (total_vesting_shares (dgpo (node_ledger s)))"

lemma voted_loop:
  assumes "fc_ok F" "0 \<le> c" "vests_total s < max_i64"
    and "table_wf (witnesses s)" "distinct (owners s)" "distinct (map (vote_witness \<circ> snd) vs)"
    and "vote_witness ` snd ` set vs \<subseteq> set (owners s)"
    and "\<And>r. r \<in> set (rows (witnesses s)) \<Longrightarrow> 0 \<le> votes (snd r) \<and>
      (w_owner (snd r) \<in> vote_witness ` snd ` set vs \<longrightarrow> votes (snd r) + c \<le> vests_total s)"
  shows "\<exists>W. foreach_s vs (\<lambda>(i, v).
       bind_s (read_s (\<lambda>s. case find_by (\<lambda>w. w_owner w = vote_witness v) (witnesses s) of
         None \<Rightarrow> Inl Out_of_range | Some j \<Rightarrow> Inr j)) (\<lambda>j. adjust_witness_vote F j c)) s = Inr ((), set_witnesses W s) \<and>
    voted c (vote_witness ` snd ` set vs) (witnesses s) W"
  using assms(3-)
proof (induction vs arbitrary: s)
  case Nil
  then show ?case using voted_none by (intro exI [of _ "witnesses s"]) simp
next
  case (Cons r vs)
  obtain i v where r: "r = (i, v)" by (cases r)
  let ?N = "vote_witness ` snd ` set vs"
  have "vote_witness v \<in> set (owners s)" using Cons.prems(5) r by simp
  then have "find_by (\<lambda>w. w_owner w = vote_witness v) (witnesses s) \<noteq> None"
    by (auto simp: find_by_def owners_def find_None_iff) blast
  then obtain j where j: "find_by (\<lambda>w. w_owner w = vote_witness v) (witnesses s) = Some j" by blast
  obtain w where w: "find_row (witnesses s) j = Some w" "w_owner w = vote_witness v"
    using find_by_SomeD [OF Cons.prems(2) j] .
  have b: "0 \<le> votes w" "votes w + c \<le> vests_total s"
    using Cons.prems(6) [OF find_row_SomeD [OF w(1)]] w(2) r by auto
  obtain W where W: "adjust_witness_vote F j c s = Inr ((), set_witnesses W s)" "voted c {vote_witness v} (witnesses s) W"
    using adjust_witness_vote_eq [OF assms(1) Cons.prems(2,3) w(1) b(1) assms(2) b(2) Cons.prems(1)] w(2) by auto
  let ?s = "set_witnesses W s"
  have "owners ?s = owners s" using voted_owners(1) [OF W(2)] by (simp add: owners_def)
  moreover have "0 \<le> votes (snd q) \<and> (w_owner (snd q) \<in> ?N \<longrightarrow> votes (snd q) + c \<le> vests_total ?s)" if q: "q \<in> set (rows W)" for q
  proof -
    obtain p where p: "p \<in> set (rows (witnesses s))" "gains c {vote_witness v} p q" using voted_row [OF W(2) q] .
    have "vote_witness v \<notin> ?N" using Cons.prems(4) r by (auto simp: image_comp)
    then show ?thesis using Cons.prems(6) [OF p(1)] gainsD [OF p(2)] assms(2) r by auto
  qed
  ultimately obtain W' where W': "foreach_s vs (\<lambda>(i, v).
       bind_s (read_s (\<lambda>s. case find_by (\<lambda>w. w_owner w = vote_witness v) (witnesses s) of
         None \<Rightarrow> Inl Out_of_range | Some j \<Rightarrow> Inr j)) (\<lambda>j. adjust_witness_vote F j c)) ?s = Inr ((), set_witnesses W' ?s)"
    "voted c ?N W W'"
    using Cons.IH [of ?s] Cons.prems voted_wf [OF W(2)] by auto
  have "voted c (insert (vote_witness v) ?N) (witnesses s) W'"
    using voted_step [OF W(2) W'(2)] Cons.prems(4) r by (auto simp: image_comp)
  then show ?case using j W(1) W'(1) r by (intro exI [of _ W']) (simp add: read_s_def)
qed

text \<open>The records of votes: one per account and witness, and only for witnesses that exist.\<close>

definition vote_records_ok :: "schedule_state \<Rightarrow> bool" where
  "vote_records_ok s \<longleftrightarrow> distinct (map (\<lambda>(i, v). (vote_account v, vote_witness v)) (rows (witness_votes s))) \<and>
     list_all (\<lambda>(i, v). vote_witness v \<in> set (owners s)) (rows (witness_votes s))"

definition chosen :: "schedule_state \<Rightarrow> string \<Rightarrow> string set" where
  "chosen s name = {n. list_ex (\<lambda>(j, v). vote_account v = name \<and> vote_witness v = n) (rows (witness_votes s))}"

lemma adjust_witness_votes_eq:
  assumes "fc_ok F" "0 \<le> c" "vests_total s < max_i64" "table_wf (witnesses s)" "distinct (owners s)" "vote_records_ok s"
    and "\<And>r. r \<in> set (rows (witnesses s)) \<Longrightarrow> 0 \<le> votes (snd r) \<and>
      (w_owner (snd r) \<in> chosen s name \<longrightarrow> votes (snd r) + c \<le> vests_total s)"
  shows "\<exists>W. adjust_witness_votes F name c s = Inr ((), set_witnesses W s) \<and> voted c (chosen s name) (witnesses s) W"
proof -
  let ?vs = "filter (\<lambda>(i, v). vote_account v = name) (index_rows by_account_witness (witness_votes s))"
  let ?k = "\<lambda>(i, v). (vote_account v, vote_witness v)"
  have n: "vote_witness ` snd ` set ?vs = chosen s name"
    by (auto simp: chosen_def list_ex_iff image_iff) force+
  have "mset (map ?k (index_rows by_account_witness (witness_votes s))) = mset (map ?k (rows (witness_votes s)))"
    unfolding index_rows_def mset_map mset_sort_rows ..
  from mset_eq_imp_distinct_iff [OF this] have "distinct (map ?k (index_rows by_account_witness (witness_votes s)))"
    using assms(6) by (simp add: vote_records_ok_def)
  then have "distinct (map ?k ?vs)" by (rule distinct_map_filter)
  moreover have "map ?k ?vs = map (Pair name) (map (vote_witness \<circ> snd) ?vs)" by auto
  ultimately have "distinct (map (Pair name) (map (vote_witness \<circ> snd) ?vs))" by (simp only:)
  then have "distinct (map (vote_witness \<circ> snd) ?vs)" by (rule distinct_map [THEN iffD1, THEN conjunct1])
  moreover have "vote_witness ` snd ` set ?vs \<subseteq> set (owners s)" using assms(6) by (auto simp: vote_records_ok_def list_all_iff)
  ultimately show ?thesis
    using voted_loop [OF assms(1-5), of ?vs] assms(7) unfolding n by (auto simp: adjust_witness_votes_def)
qed

section \<open>Along the proxies\<close>

definition account_core :: "account_object \<Rightarrow> account_object" where
  "account_core a = a\<lparr>proxied_vsf_votes := []\<rparr>"

definition same_accounts :: "account_object table \<Rightarrow> account_object table \<Rightarrow> bool" where
  "same_accounts A B \<longleftrightarrow> ids B = ids A \<and> next_id B = next_id A \<and>
     (\<forall>i. map_option account_core (find_row B i) = map_option account_core (find_row A i))"

lemma account_coreD:
  assumes "account_core a = account_core b"
  shows "acc_name a = acc_name b" "acc_proxy a = acc_proxy b" "vesting_shares a = vesting_shares b"
    "delayed_votes a = delayed_votes b" "sum_delayed_votes a = sum_delayed_votes b"
  using assms by (cases a; cases b; simp add: account_core_def)+

lemma same_accounts_refl [simp]: "same_accounts A A"
  by (simp add: same_accounts_def)

lemma same_accounts_trans: "same_accounts A B \<Longrightarrow> same_accounts B C \<Longrightarrow> same_accounts A C"
  by (simp add: same_accounts_def)

lemma same_accounts_find:
  assumes "same_accounts A B" "find_row B i = Some b"
  obtains a where "find_row A i = Some a" "account_core b = account_core a"
proof -
  have "map_option account_core (find_row A i) = Some (account_core b)"
    using assms unfolding same_accounts_def by (metis option.simps(9))
  then show ?thesis using that by auto
qed

lemma same_accounts_sym: "same_accounts A B \<Longrightarrow> same_accounts B A"
  by (simp add: same_accounts_def)

lemma same_accounts_proxies:
  assumes "same_accounts A B"
  shows "same_proxies A B"
proof -
  have "map_option (\<lambda>a. (acc_name a, acc_proxy a)) (find_row B i) = map_option (\<lambda>a. (acc_name a, acc_proxy a)) (find_row A i)" for i
  proof -
    have "map_option account_core (find_row B i) = map_option account_core (find_row A i)" using assms by (simp add: same_accounts_def)
    then show ?thesis by (cases "find_row A i"; cases "find_row B i") (auto dest: account_coreD)
  qed
  then show ?thesis using assms by (simp add: same_proxies_def same_accounts_def)
qed

lemma same_accounts_put:
  assumes "find_row A i = Some a" "account_core b = account_core a"
  shows "same_accounts A (put_row i b A)"
proof -
  have "next_id (put_row i b A) = next_id A" by (simp add: put_row_def)
  then show ?thesis using assms by (auto simp: same_accounts_def find_row_put)
qed

lemma same_accounts_wf: "same_accounts A B \<Longrightarrow> table_wf B = table_wf A"
  by (rule wf_ids) (simp_all add: same_accounts_def ids_def)

text \<open>Level \<open>d\<close> of an account is the sum for the accounts that reach it through \<open>d + 1\<close> proxies; levels below \<open>n\<close> already
  use the new weights.\<close>

definition levels_ok :: "nat \<Rightarrow> (nat \<Rightarrow> int) \<Rightarrow> (nat \<Rightarrow> int) \<Rightarrow> account_object table \<Rightarrow> bool" where
  "levels_ok n new old A \<longleftrightarrow> (\<forall>p a. find_row A p = Some a \<longrightarrow> length (proxied_vsf_votes a) = HIVE_MAX_PROXY_RECURSION_DEPTH \<and>
     (\<forall>d < HIVE_MAX_PROXY_RECURSION_DEPTH. proxied_vsf_votes a ! d = proxy_sum A (if d < n then new else old) d p))"

definition votes_tally :: "(nat \<Rightarrow> int) \<Rightarrow> account_object table \<Rightarrow> witness_vote_object table \<Rightarrow> witness_object table \<Rightarrow> bool" where
  "votes_tally m A V W \<longleftrightarrow> (\<forall>r \<in> set (rows W). votes (snd r) = vote_sum A V m (w_owner (snd r)))"

definition proxies_exist :: "account_object table \<Rightarrow> bool" where
  "proxies_exist A \<longleftrightarrow> (\<forall>i a p. find_row A i = Some a \<longrightarrow> acc_proxy a = Some p \<longrightarrow> find_row A p \<noteq> None)"

lemma proxies_exist_cong:
  assumes "same_proxies A B" "proxies_exist A"
  shows "proxies_exist B"
  unfolding proxies_exist_def
proof (intro allI impI)
  have m: "map_option (\<lambda>a. (acc_name a, acc_proxy a)) (find_row B i) = map_option (\<lambda>a. (acc_name a, acc_proxy a)) (find_row A i)" for i
    using assms(1) by (simp add: same_proxies_def)
  fix i b p assume b: "find_row B i = Some b" "acc_proxy b = Some p"
  then obtain a where "find_row A i = Some a" "acc_proxy a = Some p" using m [of i] by (cases "find_row A i") auto
  then have "find_row A p \<noteq> None" using assms(2) unfolding proxies_exist_def by blast
  then show "find_row B p \<noteq> None" using m [of p] by (metis option.map_disc_iff)
qed

lemma levels_raise:
  assumes "levels_ok d new old A" "new = old(k := old k + c)" "distinct (ids A)" "k \<in> set (ids A)"
    "ancestor A (Suc d) k = Some p" "find_row A p = Some b" "d < HIVE_MAX_PROXY_RECURSION_DEPTH"
  defines "B \<equiv> put_row p (b\<lparr>proxied_vsf_votes := (proxied_vsf_votes b)[d := proxied_vsf_votes b ! d + c]\<rparr>) A"
  shows "levels_ok (Suc d) new old B" "same_accounts A B"
proof -
  show same: "same_accounts A B"
    unfolding B_def by (rule same_accounts_put [OF assms(6)]) (simp add: account_core_def)
  note sums = sums_cong(1) [OF same_accounts_proxies [OF same]]
  have raise: "proxy_sum A new d q = proxy_sum A old d q + (if q = p then c else 0)" for q
    unfolding assms(2) sums_raise(1) [OF assms(3,4)] using assms(5) by auto
  have lv: "length (proxied_vsf_votes a) = HIVE_MAX_PROXY_RECURSION_DEPTH"
      "\<And>e. e < HIVE_MAX_PROXY_RECURSION_DEPTH \<Longrightarrow> proxied_vsf_votes a ! e = proxy_sum A (if e < d then new else old) e q"
    if "find_row A q = Some a" for q a
    using assms(1) that unfolding levels_ok_def by blast+
  show "levels_ok (Suc d) new old B"
    unfolding levels_ok_def sums
  proof (intro allI impI conjI)
    fix q a assume a: "find_row B q = Some a"
    then have c: "(if q = p then a = b\<lparr>proxied_vsf_votes := (proxied_vsf_votes b)[d := proxied_vsf_votes b ! d + c]\<rparr> else find_row A q = Some a)"
      using assms(6) by (auto simp: B_def find_row_put split: if_splits)
    then show "length (proxied_vsf_votes a) = HIVE_MAX_PROXY_RECURSION_DEPTH"
      using lv(1) [OF assms(6)] lv(1) [of q a] by (auto split: if_splits)
    fix e assume e: "e < HIVE_MAX_PROXY_RECURSION_DEPTH"
    show "proxied_vsf_votes a ! e = proxy_sum A (if e < Suc d then new else old) e q"
    proof (cases "q = p")
      case True
      then show ?thesis
        using c lv(1) [OF assms(6)] lv(2) [OF assms(6) e] raise [of p] e by (cases "e = d") (auto simp: less_Suc_eq)
    next
      case False
      then show ?thesis using c lv(2) [of q a e] e raise [of q] by (cases "e = d") (auto simp: less_Suc_eq)
    qed
  qed
qed

definition voting_base :: "schedule_state \<Rightarrow> bool" where
  "voting_base s \<longleftrightarrow> table_wf (node_accounts s) \<and> proxies_exist (node_accounts s) \<and> table_wf (witnesses s) \<and>
     distinct (owners s) \<and> vote_records_ok s \<and> vests_total s < max_i64"

definition weights_ok :: "(nat \<Rightarrow> int) \<Rightarrow> schedule_state \<Rightarrow> bool" where
  "weights_ok m s \<longleftrightarrow> (\<forall>i \<in> set (ids (node_accounts s)). 0 \<le> m i) \<and> (\<Sum>i\<leftarrow>ids (node_accounts s). m i) \<le> vests_total s"

lemma governor_end: "find_row A i = Some a \<Longrightarrow> acc_proxy a = None \<Longrightarrow> governor A n i = Some (acc_name a)"
  by (cases n) simp_all

lemma ids_distinct: "table_wf A \<Longrightarrow> distinct (ids A)"
  by (simp add: table_wf_def ids_def)

lemma levels_end:
  assumes "levels_ok d new old A" "new = old(k := old k + c)" "distinct (ids A)" "k \<in> set (ids A)"
    and "\<And>e. d \<le> e \<Longrightarrow> e < HIVE_MAX_PROXY_RECURSION_DEPTH \<Longrightarrow> ancestor A (Suc e) k = None"
  shows "levels_ok HIVE_MAX_PROXY_RECURSION_DEPTH new old A"
proof -
  have "proxy_sum A new e p = proxy_sum A old e p" if "d \<le> e" "e < HIVE_MAX_PROXY_RECURSION_DEPTH" for e p
    unfolding assms(2) sums_raise(1) [OF assms(3,4)] using assms(5) [OF that] by (simp del: ancestor.simps)
  then have "proxy_sum A (if e < d then new else old) e p = proxy_sum A new e p" if "e < HIVE_MAX_PROXY_RECURSION_DEPTH" for e p
    using that by (cases "e < d") simp_all
  then show ?thesis using assms(1) by (simp add: levels_ok_def)
qed

lemma tally_end:
  assumes "fc_ok F" "0 \<le> c" "voting_base s" "new = old(k := old k + c)" "weights_ok old s" "weights_ok new s"
    "k \<in> set (ids (node_accounts s))" "governor (node_accounts s) HIVE_MAX_PROXY_RECURSION_DEPTH k = Some g"
    "votes_tally old (node_accounts s) (witness_votes s) (witnesses s)"
  shows "\<exists>W. adjust_witness_votes F g c s = Inr ((), set_witnesses W s) \<and> voted c (chosen s g) (witnesses s) W \<and>
    votes_tally new (node_accounts s) (witness_votes s) W"
proof -
  let ?A = "node_accounts s" and ?V = "witness_votes s"
  have base: "table_wf (witnesses s)" "distinct (owners s)" "vote_records_ok s" "vests_total s < max_i64" "distinct (ids ?A)"
    using assms(3) ids_distinct by (auto simp: voting_base_def)
  have vf: "votes_for ?A ?V k n \<longleftrightarrow> n \<in> chosen s g" for n using assms(8) by (simp add: votes_for_def chosen_def)
  have raise: "vote_sum ?A ?V new n = vote_sum ?A ?V old n + (if n \<in> chosen s g then c else 0)" for n
    unfolding assms(4) sums_raise(2) [OF base(5) assms(7)] vf ..
  have bounds: "0 \<le> vote_sum ?A ?V old n" "vote_sum ?A ?V new n \<le> vests_total s" for n
    using sums_bounded(3) [of ?A old "vests_total s"] sums_bounded(4) [of ?A new "vests_total s"] assms(5,6) by (auto simp: weights_ok_def)
  have "0 \<le> votes (snd r) \<and> (w_owner (snd r) \<in> chosen s g \<longrightarrow> votes (snd r) + c \<le> vests_total s)"
    if "r \<in> set (rows (witnesses s))" for r
    using bounds [of "w_owner (snd r)"] raise [of "w_owner (snd r)"] assms(9) that by (auto simp: votes_tally_def)
  then obtain W where W: "adjust_witness_votes F g c s = Inr ((), set_witnesses W s)" "voted c (chosen s g) (witnesses s) W"
    using adjust_witness_votes_eq [OF assms(1,2) base(4,1,2,3)] by blast
  have "votes (snd q) = vote_sum ?A ?V new (w_owner (snd q))" if q: "q \<in> set (rows W)" for q
  proof -
    obtain r where r: "r \<in> set (rows (witnesses s))" "gains c (chosen s g) r q" using voted_row [OF W(2) q] .
    then show ?thesis using assms(9) gainsD [OF r(2)] raise by (simp add: votes_tally_def)
  qed
  then show ?thesis using W by (auto simp: votes_tally_def)
qed

lemma set_accounts_simps [simp]:
  "node_accounts (set_accounts A s) = A" "witnesses (set_accounts A s) = witnesses s" "witness_votes (set_accounts A s) = witness_votes s"
  "owners (set_accounts A s) = owners s" "vests_total (set_accounts A s) = vests_total s"
  "set_accounts A (set_accounts B s) = set_accounts A s" "set_accounts (node_accounts s) s = s"
  "set_witnesses W (set_accounts A s) = set_accounts A (set_witnesses W s)" "node_accounts (set_witnesses W s) = node_accounts s"
  by (simp_all add: set_accounts_def node_accounts_def owners_def)

lemma voting_base_accounts:
  assumes "voting_base s" "same_accounts (node_accounts s) B"
  shows "voting_base (set_accounts B s)"
  using assms same_accounts_wf [OF assms(2)] proxies_exist_cong [OF same_accounts_proxies [OF assms(2)]]
  by (simp add: voting_base_def vote_records_ok_def)

text \<open>A step to the next proxy: the addition to its level does not overflow.\<close>

lemma proxy_step:
  assumes "fc_ok F" "0 \<le> c" "new = old(k := old k + c)" "voting_base s" "weights_ok old s" "weights_ok new s"
    "k \<in> set (ids (node_accounts s))" "find_row (node_accounts s) i = Some a" "acc_proxy a = Some p" "find_row (node_accounts s) p = Some b"
    "d < HIVE_MAX_PROXY_RECURSION_DEPTH" "ancestor (node_accounts s) (Suc d) k = Some p" "levels_ok d new old (node_accounts s)"
  shows "adjust_proxied_witness_votes F i c d s = adjust_proxied_witness_votes F p c (Suc d) (set_accounts
    (put_row p (b\<lparr>proxied_vsf_votes := (proxied_vsf_votes b)[d := proxied_vsf_votes b ! d + c]\<rparr>) (node_accounts s)) s)"
proof -
  let ?A = "node_accounts s"
  have dist: "distinct (ids ?A)" using assms(4) ids_distinct by (auto simp: voting_base_def)
  have lv: "d < length (proxied_vsf_votes b)" "proxied_vsf_votes b ! d = proxy_sum ?A old d p"
    using assms(10,11,13) by (auto simp: levels_ok_def)
  moreover have "proxy_sum ?A new d p = proxy_sum ?A old d p + c"
    unfolding assms(3) sums_raise(1) [OF dist assms(7)] using assms(12) by (simp del: ancestor.simps)
  moreover have "0 \<le> proxy_sum ?A old d p" "proxy_sum ?A new d p \<le> vests_total s"
    using sums_bounded(1) [of ?A old "vests_total s"] sums_bounded(2) [of ?A new "vests_total s"] assms(5,6) by (auto simp: weights_ok_def)
  ultimately have "safe_add F (proxied_vsf_votes b ! d) c = Inr (proxied_vsf_votes b ! d + c)"
    using assms(1,2,4) by (intro safe_exact) (auto simp: voting_base_def in_i64_def)
  moreover have "get_row node_accounts i s = Inr (a, s)" using assms(8) by (simp add: get_row_def read_s_def)
  ultimately show ?thesis
    using assms(9-11) lv(1) by (subst adjust_proxied_witness_votes.simps) (simp add: read_s_def modify_row_def)
qed

lemma adjust_proxied_eq:
  assumes "fc_ok F" "0 \<le> c" "new = old(k := old k + c)"
    and "voting_base s" "weights_ok old s" "weights_ok new s" "k \<in> set (ids (node_accounts s))"
    "ancestor (node_accounts s) d k = Some i" "find_row (node_accounts s) i = Some a" "d \<le> HIVE_MAX_PROXY_RECURSION_DEPTH"
    "levels_ok d new old (node_accounts s)" "votes_tally old (node_accounts s) (witness_votes s) (witnesses s)"
  shows "\<exists>A W N. adjust_proxied_witness_votes F i c d s = Inr ((), set_accounts A (set_witnesses W s)) \<and>
    same_accounts (node_accounts s) A \<and> levels_ok HIVE_MAX_PROXY_RECURSION_DEPTH new old A \<and>
    voted c N (witnesses s) W \<and> votes_tally new A (witness_votes s) W"
  using assms(4-)
proof (induction "HIVE_MAX_PROXY_RECURSION_DEPTH - d" arbitrary: d i a s rule: less_induct)
  case less
  let ?D = HIVE_MAX_PROXY_RECURSION_DEPTH and ?A = "node_accounts s" and ?V = "witness_votes s"
  have dist: "distinct (ids ?A)" using less.prems(1) ids_distinct by (auto simp: voting_base_def)
  have gov: "governor ?A ?D k = governor ?A (?D - d) i" using governor_reach [OF less.prems(5), of "?D - d"] less.prems(7) by simp
  have get: "get_row node_accounts i s = Inr (a, s)" using less.prems(6) by (simp add: get_row_def read_s_def)
  show ?case
  proof (cases "acc_proxy a")
    case None
    have "governor ?A ?D k = Some (acc_name a)" unfolding gov by (rule governor_end [OF less.prems(6) None])
    from tally_end [OF assms(1,2) less.prems(1) assms(3) less.prems(2,3,4) this less.prems(9)] obtain W where
      W: "adjust_witness_votes F (acc_name a) c s = Inr ((), set_witnesses W s)" "voted c (chosen s (acc_name a)) (witnesses s) W"
        "votes_tally new ?A ?V W" by blast
    have "levels_ok ?D new old ?A"
      by (rule levels_end [OF less.prems(8) assms(3) dist less.prems(4)]) (rule ancestor_ends [OF less.prems(5,6) None])
    moreover have "adjust_proxied_witness_votes F i c d s = Inr ((), set_accounts ?A (set_witnesses W s))"
      using W(1) None get set_accounts_simps(7) [of "set_witnesses W s"]
      by (subst adjust_proxied_witness_votes.simps) simp
    ultimately show ?thesis using W(2,3) same_accounts_refl by blast
  next
    case (Some p)
    have anc: "ancestor ?A (Suc d) k = Some p" using less.prems(5,6) Some by simp
    obtain b where b: "find_row ?A p = Some b" using less.prems(1,6) Some unfolding voting_base_def proxies_exist_def by blast
    show ?thesis
    proof (cases "d = ?D")
      case True
      then have "governor ?A ?D k = None" unfolding gov using less.prems(6) Some by simp
      then have "\<not> votes_for ?A ?V k n" for n by (simp add: votes_for_def)
      then have "vote_sum ?A ?V new n = vote_sum ?A ?V old n" for n
        unfolding assms(3) sums_raise(2) [OF dist less.prems(4)] by simp
      then have "votes_tally new ?A ?V (witnesses s)" using less.prems(9) by (simp add: votes_tally_def)
      moreover have "adjust_proxied_witness_votes F i c d s = Inr ((), set_accounts ?A (set_witnesses (witnesses s) s))"
        using True Some get by (subst adjust_proxied_witness_votes.simps) simp
      moreover have "levels_ok ?D new old ?A" using less.prems(8) True by simp
      ultimately show ?thesis using voted_none same_accounts_refl by blast
    next
      case False
      then have d: "d < ?D" using less.prems(7) by simp
      define B where "B = put_row p (b\<lparr>proxied_vsf_votes := (proxied_vsf_votes b)[d := proxied_vsf_votes b ! d + c]\<rparr>) ?A"
      note B = levels_raise [OF less.prems(8) assms(3) dist less.prems(4) anc b d, folded B_def]
      note same = same_accounts_proxies [OF B(2)]
      have ids: "ids B = ids ?A" using B(2) by (simp add: same_accounts_def)
      let ?s = "set_accounts B s"
      have step: "adjust_proxied_witness_votes F i c d s = adjust_proxied_witness_votes F p c (Suc d) ?s"
        unfolding B_def by (rule proxy_step [OF assms(1-3) less.prems(1-4,6) Some b d anc less.prems(8)])
      have w: "weights_ok old ?s" "weights_ok new ?s" using less.prems(2,3) ids by (simp_all add: weights_ok_def)
      have an: "ancestor B (Suc d) k = Some p" using anc same_proxies_views(2) [OF same] by (simp del: ancestor.simps)
      obtain a' where a': "find_row B p = Some a'" using b by (simp add: B_def find_row_put)
      have tl: "votes_tally old B ?V (witnesses s)" using less.prems(9) sums_cong(3) [OF same] by (simp add: votes_tally_def)
      have lt: "?D - Suc d < ?D - d" using d by simp
      obtain A W N where W: "adjust_proxied_witness_votes F p c (Suc d) ?s = Inr ((), set_accounts A (set_witnesses W ?s))"
        "same_accounts B A" "levels_ok ?D new old A" "voted c N (witnesses s) W" "votes_tally new A ?V W"
        using less.hyps [of "Suc d" ?s p a', OF lt voting_base_accounts [OF less.prems(1) B(2)] w] d less.prems(4) ids B(1) an a' tl
        by (auto simp del: ancestor.simps)
      show ?thesis
        using step W same_accounts_trans [OF B(2) W(2)]
        by (intro exI [of _ A] exI [of _ W] exI [of _ N]) simp
    qed
  qed
qed

section \<open>The entries of an account\<close>

text \<open>The entries are positive, at least a day apart and add up to the stored sum; their times and the time of their
  maturity fit into 32 bits.\<close>

definition entries_sum :: "delayed_votes_data list \<Rightarrow> int" where
  "entries_sum items = (\<Sum>d\<leftarrow>items. uint (dv_val d))"

definition a_day_apart :: "delayed_votes_data \<Rightarrow> delayed_votes_data \<Rightarrow> bool" where
  "a_day_apart x y \<longleftrightarrow> uint (dv_time x) + 86400 \<le> uint (dv_time y)"

definition entries_ok :: "delayed \<Rightarrow> bool" where
  "entries_ok = (\<lambda>(items, sum). uint sum = entries_sum items \<and> sorted_wrt a_day_apart items \<and>
     list_all (\<lambda>d. 0 < uint (dv_val d) \<and> uint (dv_time d) + 2592000 < 4294967296) items)"

lemma entries_sum_simps [simp]:
  "entries_sum [] = 0" "entries_sum (d # items) = uint (dv_val d) + entries_sum items"
  "entries_sum (xs @ ys) = entries_sum xs + entries_sum ys" "entries_sum (rev xs) = entries_sum xs"
  by (simp_all add: entries_sum_def rev_map [symmetric])

lemma entries_sum_nonneg: "0 \<le> entries_sum items"
  unfolding entries_sum_def by (rule sum_list_nonneg) auto

lemma ushare_add_eq:
  assumes "ushare_ok U" "uint a + uint b < 18446744073709551616"
  shows "ushare_add U a b = Inr (a + b) \<and> uint (a + b) = uint a + uint b"
proof -
  have "int (unat a + unat b) < int (2 ^ 64)" using assms(2) by simp
  then have "unat a + unat b < 2 ^ 64" unfolding of_nat_less_iff .
  then show ?thesis using assms by (simp add: ushare_ok_def uint_word_ariths)
qed

lemma ushare_sub_eq:
  assumes "ushare_ok U" "uint b \<le> uint a"
  shows "ushare_sub U a b = Inr (a - b) \<and> uint (a - b) = uint a - uint b"
  using assms by (simp add: ushare_ok_def word_le_def uint_sub_lem [symmetric])

lemma exact_ushare_ok: "ushare_ok exact_ushare"
  by (simp add: ushare_ok_def exact_ushare_def throws_def)

lemma sorted_last:
  assumes "sorted_wrt a_day_apart items" "d \<in> set items"
  shows "uint (dv_time d) \<le> uint (dv_time (last items))"
proof -
  have "d = last items \<or> a_day_apart d (last items)"
    using assms by (induction items) (auto simp: a_day_apart_def split: if_splits)
  then show ?thesis by (auto simp: a_day_apart_def)
qed

lemma uint_pos:
  fixes val :: "64 word"
  assumes "val \<noteq> 0"
  shows "0 < uint val"
proof -
  have "uint val \<noteq> 0" using assms by (simp add: unsigned_eq_0_iff)
  then show ?thesis using word64_bound(2) [of val] by linarith
qed

lemma delayed_add_keeps:
  assumes "ushare_ok U" "entries_ok (items, tot)" "uint tot + uint val < 18446744073709551616"
    "\<forall>d \<in> set items. dv_time d \<le> now" "uint now + 2592000 < 4294967296"
  shows "\<exists>items' tot'. delayed_add U now val (items, tot) = Inr (items', tot') \<and> entries_ok (items', tot') \<and>
    uint tot' = uint tot + uint val \<and> (\<forall>d \<in> set items'. dv_time d \<le> now)"
proof -
  let ?new = "\<lparr>dv_time = now, dv_val = val\<rparr>"
  note add = ushare_add_eq [OF assms(1,3)]
  show ?thesis
  proof (cases "val = 0 \<or> items = []")
    case True
    then show ?thesis using add assms(2,4,5) uint_pos [of val] by (auto simp: delayed_add_def entries_ok_def word_less_def)
  next
    case False
    then obtain xs b where items: "items = xs @ [b]" by (metis rev_exhaust)
    have v: "0 < uint val" using False uint_pos by blast
    have b: "dv_time b \<le> now" "uint (dv_time b) + 2592000 < 4294967296" using assms(2,4) items by (auto simp: entries_ok_def)
    have day: "uint (dv_time b + HIVE_DELAYED_VOTING_INTERVAL_SECONDS) = uint (dv_time b) + 86400"
      using b(2) by (simp add: HIVE_DELAYED_VOTING_INTERVAL_SECONDS_def uint_word_ariths)
    show ?thesis
    proof (cases "dv_time b + HIVE_DELAYED_VOTING_INTERVAL_SECONDS \<le> now")
      case True
      then have "uint (dv_time b) + 86400 \<le> uint now" using day by (simp add: word_le_def)
      then have "a_day_apart d ?new" if "d \<in> set items" for d
        using sorted_last [of items d] that assms(2) items by (auto simp: entries_ok_def a_day_apart_def)
      then have "entries_ok (items @ [?new], tot + val)"
        using assms(2,5) add v by (auto simp: entries_ok_def sorted_wrt_append)
      then show ?thesis using True False add b items assms(4) by (auto simp: delayed_add_def check_r_def)
    next
      case n: False
      have "entries_sum xs + uint (dv_val b) = uint tot" using assms(2) items by (simp add: entries_ok_def)
      then have "uint (dv_val b) + uint val < 18446744073709551616" using assms(3) entries_sum_nonneg [of xs] by simp
      note addb = ushare_add_eq [OF assms(1) this]
      have "entries_ok (xs @ [b\<lparr>dv_val := dv_val b + val\<rparr>], tot + val)"
        using assms(2) add addb v unfolding items by (auto simp: entries_ok_def sorted_wrt_append a_day_apart_def)
      then show ?thesis using n False add addb b items assms(4) by (auto simp: delayed_add_def check_r_def)
    qed
  qed
qed

text \<open>The loop that erases from the newest entries stops before it runs out of entries.\<close>

lemma erase_back_eq:
  assumes "ushare_ok U" "uint cnt < entries_sum items" "\<forall>d \<in> set items. 0 < uint (dv_val d)"
  shows "\<exists>n v. n < length items \<and> 0 < uint v \<and> erase_back U items cnt = Inr ((items ! n)\<lparr>dv_val := v\<rparr> # drop (Suc n) items) \<and>
    uint v + entries_sum (drop (Suc n) items) = entries_sum items - uint cnt"
  using assms(2,3)
proof (induction items arbitrary: cnt)
  case (Cons d items)
  show ?case
  proof (cases "dv_val d \<le> cnt")
    case True
    note sub = ushare_sub_eq [OF assms(1), of "dv_val d" cnt]
    have c: "ushare_sub U cnt (dv_val d) = Inr (cnt - dv_val d)" "uint (cnt - dv_val d) = uint cnt - uint (dv_val d)"
      using sub True by (simp_all add: word_le_def)
    then obtain n v where "n < length items" "0 < uint v"
        "erase_back U items (cnt - dv_val d) = Inr ((items ! n)\<lparr>dv_val := v\<rparr> # drop (Suc n) items)"
        "uint v + entries_sum (drop (Suc n) items) = entries_sum items - uint (cnt - dv_val d)"
      using Cons.IH [of "cnt - dv_val d"] Cons.prems by auto
    then show ?thesis using True c by (intro exI [of _ "Suc n"] exI [of _ v]) simp
  next
    case False
    then have lt: "uint cnt < uint (dv_val d)" by (simp add: word_le_def)
    then show ?thesis using False ushare_sub_eq [OF assms(1), of cnt "dv_val d"]
      by (intro exI [of _ 0] exI [of _ "dv_val d - cnt"]) simp
  qed
qed simp

lemma erase_votes_keeps:
  assumes "ushare_ok U" "entries_ok (items, tot)" "cnt \<le> tot"
  shows "\<exists>items' tot'. erase_votes U cnt (items, tot) = Inr (items', tot') \<and> entries_ok (items', tot') \<and>
    uint tot' = uint tot - uint cnt \<and> (\<exists>n. map dv_time items' = take n (map dv_time items))"
proof (cases "cnt = 0 \<or> cnt = tot")
  case True
  have "map dv_time items = take (length items) (map dv_time items)" "map dv_time [] = take 0 (map dv_time items)" by simp_all
  then show ?thesis
    using True assms(2,3) by (cases "cnt = 0"; simp add: erase_votes_def check_r_def entries_ok_def; blast)
next
  case False
  have lt: "uint cnt < uint tot" using assms(3) False by (simp add: word_le_def word_uint_eq_iff [of cnt tot])
  note sub = ushare_sub_eq [OF assms(1), of cnt tot]
  have ok: "uint tot = entries_sum items" "sorted_wrt a_day_apart items"
    "list_all (\<lambda>d. 0 < uint (dv_val d) \<and> uint (dv_time d) + 2592000 < 4294967296) items"
    using assms(2) by (simp_all add: entries_ok_def)
  obtain n v where n: "n < length items" "0 < uint v"
      "erase_back U (rev items) cnt = Inr ((rev items ! n)\<lparr>dv_val := v\<rparr> # drop (Suc n) (rev items))"
      "uint v + entries_sum (drop (Suc n) (rev items)) = entries_sum items - uint cnt"
    using erase_back_eq [OF assms(1), of cnt "rev items"] lt ok by (auto simp: list_all_iff)
  define k where "k = length items - Suc n"
  have k: "k < length items" "drop (Suc n) (rev items) = rev (take k items)" "rev items ! n = items ! k"
    using n(1) by (simp_all add: k_def drop_rev rev_nth)
  let ?items = "take k items @ [(items ! k)\<lparr>dv_val := v\<rparr>]"
  have split: "items = take k items @ items ! k # drop (Suc k) items" using k(1) by (rule id_take_nth_drop)
  have "sorted_wrt a_day_apart ?items \<and> list_all (\<lambda>d. 0 < uint (dv_val d) \<and> uint (dv_time d) + 2592000 < 4294967296) ?items"
    using ok(2,3) n(2) by (subst (asm) (1 2) split) (auto simp: sorted_wrt_append a_day_apart_def)
  then have "entries_ok (?items, tot - cnt)" using n(4) k(2) ok(1) sub lt by (simp add: entries_ok_def)
  moreover have "erase_votes U cnt (items, tot) = Inr (?items, tot - cnt)"
    using False n(3) k sub lt assms(3) by (auto simp: erase_votes_def check_r_def)
  moreover have "map dv_time ?items = take (Suc k) (map dv_time items)" using k(1) by (simp add: take_Suc_conv_app_nth take_map)
  ultimately show ?thesis using sub lt by (intro exI [of _ ?items] exI [of _ "tot - cnt"]) auto
qed

lemma erase_front_keeps:
  assumes "ushare_ok U" "entries_ok (d # items, tot)"
  shows "\<exists>tot'. erase_front U (d # items, tot) = Inr (items, tot') \<and> entries_ok (items, tot') \<and>
    uint tot' = uint tot - uint (dv_val d)"
proof -
  have le: "uint (dv_val d) \<le> uint tot" using assms(2) entries_sum_nonneg [of items] by (simp add: entries_ok_def)
  then show ?thesis
    using assms(2) ushare_sub_eq [OF assms(1) le] by (simp add: erase_front_def check_r_def word_le_def entries_ok_def)
qed

section \<open>The invariant\<close>

text \<open>The matured VESTS of an account are its voting power.\<close>

definition voting_power :: "account_object \<Rightarrow> int" where
  "voting_power a = tamount (vesting_shares a) - uint (sum_delayed_votes a)"

definition powers :: "account_object table \<Rightarrow> nat \<Rightarrow> int" where
  "powers A i = (case find_row A i of None \<Rightarrow> 0 | Some a \<Rightarrow> voting_power a)"

definition holdings_ok :: "account_object \<Rightarrow> bool" where
  "holdings_ok a \<longleftrightarrow> entries_ok (delayed_votes a, sum_delayed_votes a) \<and> uint (sum_delayed_votes a) \<le> tamount (vesting_shares a)"

definition voting_inv :: "schedule_state \<Rightarrow> bool" where
  "voting_inv s \<longleftrightarrow> voting_base s \<and> all_rows holdings_ok (node_accounts s) \<and>
     total (\<lambda>a. tamount (vesting_shares a)) (node_accounts s) \<le> vests_total s \<and>
     levels_ok HIVE_MAX_PROXY_RECURSION_DEPTH (powers (node_accounts s)) (powers (node_accounts s)) (node_accounts s) \<and>
     votes_tally (powers (node_accounts s)) (node_accounts s) (witness_votes s) (witnesses s)"

lemma total_ids:
  assumes "table_wf t"
  shows "total f t = (\<Sum>i\<leftarrow>ids t. case find_row t i of None \<Rightarrow> 0 | Some x \<Rightarrow> f x)"
proof -
  have "map (f \<circ> snd) (rows t) = map (\<lambda>i. case find_row t i of None \<Rightarrow> 0 | Some x \<Rightarrow> f x) (ids t)"
    using find_row_eq [OF assms, THEN iffD2] by (auto simp: ids_def)
  then show ?thesis by (simp add: total_def)
qed

lemma powers_sum: "table_wf A \<Longrightarrow> (\<Sum>i\<leftarrow>ids A. powers A i) = total voting_power A"
  using total_ids [of A voting_power] by (simp add: powers_def [abs_def])

lemma same_accounts_total:
  assumes "table_wf A" "same_accounts A B" "\<And>a b. account_core a = account_core b \<Longrightarrow> f a = f b"
  shows "total f B = total f A"
proof -
  have "(case find_row B i of None \<Rightarrow> 0 | Some x \<Rightarrow> f x) = (case find_row A i of None \<Rightarrow> 0 | Some x \<Rightarrow> f x)" for i
  proof -
    have m: "map_option account_core (find_row B i) = map_option account_core (find_row A i)" using assms(2) by (simp add: same_accounts_def)
    show ?thesis
    proof (cases "find_row A i")
      case (Some a)
      then obtain b where "find_row B i = Some b" "account_core b = account_core a" using m by auto
      then show ?thesis using Some assms(3) [of b a] by simp
    qed (use m in simp)
  qed
  moreover have "ids B = ids A" using assms(2) by (simp add: same_accounts_def)
  ultimately show ?thesis
    using total_ids [OF assms(1), of f] total_ids [of B f] same_accounts_wf [OF assms(2)] assms(1) by simp
qed

lemma find_ids: "find_row t i = Some x \<Longrightarrow> i \<in> set (ids t)"
  using find_row_SomeD by (force simp: ids_def)

lemma power_bounds: "holdings_ok a \<Longrightarrow> 0 \<le> voting_power a \<and> voting_power a \<le> tamount (vesting_shares a)"
  by (simp add: holdings_ok_def voting_power_def)

lemma total_mono:
  assumes "all_rows (\<lambda>x. f x \<le> g x) t"
  shows "total f t \<le> total g t"
  unfolding total_def by (rule sum_list_mono) (use assms in \<open>auto simp: all_rows_def list_all_iff\<close>)

lemma weights_ok_powers:
  assumes "table_wf (node_accounts s)" "all_rows holdings_ok (node_accounts s)"
    "total (\<lambda>a. tamount (vesting_shares a)) (node_accounts s) \<le> vests_total s"
  shows "weights_ok (powers (node_accounts s)) s"
proof -
  have "all_rows (\<lambda>a. voting_power a \<le> tamount (vesting_shares a)) (node_accounts s)"
    using assms(2) power_bounds by (auto simp: all_rows_def list_all_iff)
  from total_mono [OF this] have "(\<Sum>i\<leftarrow>ids (node_accounts s). powers (node_accounts s) i) \<le> vests_total s"
    using powers_sum [OF assms(1)] assms(3) by simp
  moreover have "0 \<le> powers (node_accounts s) i" for i
    using power_bounds all_rows_find [OF assms(2)] by (auto simp: powers_def split: option.splits)
  ultimately show ?thesis by (simp add: weights_ok_def)
qed

text \<open>One round of the loop: the oldest entry of an account is added along its proxies and leaves the account.\<close>

definition without_front :: "account_object \<Rightarrow> 64 word \<Rightarrow> account_object" where
  "without_front a n = a\<lparr>delayed_votes := tl (delayed_votes a), sum_delayed_votes := n\<rparr>"

lemma holdings_front:
  assumes "ushare_ok U" "holdings_ok a" "delayed_votes a = d # items"
  shows "\<exists>n. on_delayed (erase_front U) a = Inr ((), without_front a n) \<and> holdings_ok (without_front a n) \<and>
    voting_power (without_front a n) = voting_power a + uint (dv_val d) \<and> uint (dv_val d) \<le> tamount (vesting_shares a)"
proof -
  obtain n where n: "erase_front U (d # items, sum_delayed_votes a) = Inr (items, n)" "entries_ok (items, n)"
      "uint n = uint (sum_delayed_votes a) - uint (dv_val d)"
    using erase_front_keeps [OF assms(1), of d items "sum_delayed_votes a"] assms(2,3) by (auto simp: holdings_ok_def)
  moreover have "uint (dv_val d) \<le> uint (sum_delayed_votes a)" using n(3) word64_bound(2) [of n] by simp
  moreover have "uint (sum_delayed_votes a) - uint (dv_val d) \<le> tamount (vesting_shares a)"
    using assms(2) word64_bound(2) [of "dv_val d"] unfolding holdings_ok_def by linarith
  ultimately show ?thesis
    using assms(2,3) by (intro exI [of _ n]) (simp add: on_delayed_def without_front_def holdings_ok_def voting_power_def)
qed

lemma same_accounts_rows:
  assumes "table_wf A" "same_accounts A B" "all_rows P A" "\<And>a b. account_core a = account_core b \<Longrightarrow> P a = P b"
  shows "all_rows P B"
proof -
  have "P (snd r)" if "r \<in> set (rows B)" for r
  proof -
    have "find_row B (fst r) = Some (snd r)" using that assms(1) same_accounts_wf [OF assms(2)] by (simp add: find_row_eq)
    then obtain a where "find_row A (fst r) = Some a" "account_core (snd r) = account_core a" using same_accounts_find [OF assms(2)] by metis
    then show ?thesis using all_rows_find [OF assms(3)] assms(4) by blast
  qed
  then show ?thesis by (simp add: all_rows_def list_all_iff)
qed

lemma vesting_total_core:
  assumes "table_wf A" "same_accounts A B"
  shows "total (\<lambda>a. tamount (vesting_shares a)) B = total (\<lambda>a. tamount (vesting_shares a)) A"
  by (rule same_accounts_total [OF assms]) (drule account_coreD(3), simp)

lemma holdings_core: "account_core a = account_core b \<Longrightarrow> holdings_ok a = holdings_ok b"
  using account_coreD(3-5) by (metis holdings_ok_def)

lemma power_core: "account_core a = account_core b \<Longrightarrow> voting_power a = voting_power b"
  using account_coreD(3-5) by (metis voting_power_def)

lemma powers_front:
  assumes "same_accounts A B" "find_row A i = Some a" "find_row B i = Some b" "voting_power b' = voting_power a + c"
  shows "powers (put_row i b' B) = (powers A)(i := powers A i + c)"
proof
  fix j
  have "map_option account_core (find_row B j) = map_option account_core (find_row A j)" using assms(1) by (simp add: same_accounts_def)
  then have "powers B j = powers A j" unfolding powers_def by (cases "find_row A j"; cases "find_row B j") (auto dest: power_core)
  then show "powers (put_row i b' B) j = ((powers A)(i := powers A i + c)) j"
    using assms(2-4) by (auto simp: powers_def find_row_put)
qed

lemma levels_front:
  assumes "levels_ok HIVE_MAX_PROXY_RECURSION_DEPTH new old B" "find_row B i = Some b" "proxied_vsf_votes b' = proxied_vsf_votes b"
    "acc_name b' = acc_name b" "acc_proxy b' = acc_proxy b"
  shows "levels_ok HIVE_MAX_PROXY_RECURSION_DEPTH new new (put_row i b' B)"
  using assms(1) sums_cong(1) [OF same_proxies_put [OF assms(2,4,5)]] assms(2,3)
  by (auto simp: levels_ok_def find_row_put split: if_splits)

definition mature_entry :: "fc_lib \<Rightarrow> ushare_lib \<Rightarrow> nat \<Rightarrow> unit schedule_op" where
  "mature_entry F U i =
     bind_s (get_row node_accounts i) (\<lambda>a.
     bind_s (adjust_proxied_witness_votes F i (sint (dv_val (hd (delayed_votes a)))) 0) (\<lambda>_.
     modify_row node_accounts set_accounts i (on_delayed (erase_front U))))"

lemma vesting_bound:
  assumes "table_wf A" "all_rows holdings_ok A" "find_row A i = Some a"
  shows "tamount (vesting_shares a) \<le> total (\<lambda>a. tamount (vesting_shares a)) A"
proof -
  have "0 \<le> tamount (vesting_shares b)" if "holdings_ok b" for b
    using that word64_bound(2) [of "sum_delayed_votes b"] unfolding holdings_ok_def by linarith
  then have "all_rows (\<lambda>b. 0 \<le> tamount (vesting_shares b)) A" using assms(2) by (auto simp: all_rows_def list_all_iff)
  then have "0 \<le> total (\<lambda>a. tamount (vesting_shares a)) (drop_row i A)" by (intro total_nonneg all_rows_drop)
  then show ?thesis using total_drop [OF assms(1,3), of "\<lambda>a. tamount (vesting_shares a)"] by simp
qed

lemma weights_ok_front:
  assumes "ushare_ok U" "table_wf (node_accounts s)" "all_rows holdings_ok (node_accounts s)"
    "total (\<lambda>a. tamount (vesting_shares a)) (node_accounts s) \<le> vests_total s"
    "find_row (node_accounts s) i = Some a" "delayed_votes a = d # items"
  shows "weights_ok ((powers (node_accounts s))(i := powers (node_accounts s) i + uint (dv_val d))) s"
proof -
  let ?A = "node_accounts s"
  obtain n where n: "holdings_ok (without_front a n)" "voting_power (without_front a n) = voting_power a + uint (dv_val d)"
    using holdings_front [OF assms(1) all_rows_find [OF assms(3,5)] assms(6)] by blast
  let ?B = "put_row i (without_front a n) ?A" and ?s = "set_accounts (put_row i (without_front a n) (node_accounts s)) s"
  have "total (\<lambda>a. tamount (vesting_shares a)) ?B = total (\<lambda>a. tamount (vesting_shares a)) ?A"
    using total_put [OF assms(2,5)] by (simp add: without_front_def)
  then have "weights_ok (powers ?B) ?s"
    using weights_ok_powers [of ?s] assms(2-4) n(1) by simp
  then show ?thesis
    unfolding powers_front [OF same_accounts_refl assms(5,5) n(2)] by (simp add: weights_ok_def)
qed

lemma mature_entry_eq:
  assumes "fc_ok F" "ushare_ok U" "voting_inv s" "find_row (node_accounts s) i = Some a" "delayed_votes a = d # items"
  shows "\<exists>B b n W c N. mature_entry F U i s = Inr ((), set_accounts (put_row i (without_front b n) B) (set_witnesses W s)) \<and>
    same_accounts (node_accounts s) B \<and> find_row B i = Some b \<and> voted c N (witnesses s) W \<and>
    voting_inv (set_accounts (put_row i (without_front b n) B) (set_witnesses W s))"
proof -
  let ?A = "node_accounts s" and ?D = HIVE_MAX_PROXY_RECURSION_DEPTH and ?c = "uint (dv_val d)"
  have inv: "voting_base s" "all_rows holdings_ok ?A" "total (\<lambda>a. tamount (vesting_shares a)) ?A \<le> vests_total s"
      "levels_ok ?D (powers ?A) (powers ?A) ?A" "votes_tally (powers ?A) ?A (witness_votes s) (witnesses s)"
    using assms(3) by (simp_all add: voting_inv_def)
  have wf: "table_wf ?A" and T: "vests_total s < max_i64" using inv(1) by (simp_all add: voting_base_def)
  have h: "holdings_ok a" using all_rows_find [OF inv(2) assms(4)] .
  define new where "new = (powers ?A)(i := powers ?A i + ?c)"
  have w: "weights_ok (powers ?A) s" by (rule weights_ok_powers [OF wf inv(2,3)])
  have w': "weights_ok new s" unfolding new_def by (rule weights_ok_front [OF assms(2) wf inv(2,3) assms(4,5)])
  have "?c \<le> max_i64"
    using holdings_front [OF assms(2) h assms(5)] vesting_bound [OF wf inv(2) assms(4)] inv(3) T by auto
  then have c: "sint (dv_val d) = ?c" by (rule sint_small)
  have lv0: "levels_ok 0 new (powers ?A) ?A" using inv(4) by (simp add: levels_ok_def)
  from adjust_proxied_eq [OF assms(1) _ new_def inv(1) w w' find_ids [OF assms(4)] _ assms(4) _ lv0 inv(5)]
  obtain B W N where adj: "adjust_proxied_witness_votes F i ?c 0 s = Inr ((), set_accounts B (set_witnesses W s))"
    and B: "same_accounts ?A B" "levels_ok ?D new (powers ?A) B" "voted ?c N (witnesses s) W" "votes_tally new B (witness_votes s) W"
    by auto
  obtain b where b: "find_row B i = Some b" "account_core b = account_core a"
    using same_accounts_find [OF same_accounts_sym [OF B(1)] assms(4)] by metis
  have db: "delayed_votes b = d # items" "holdings_ok b" "voting_power b = voting_power a"
    using account_coreD(4) [OF b(2)] assms(5) holdings_core [OF b(2)] h power_core [OF b(2)] by simp_all
  obtain n where n: "on_delayed (erase_front U) b = Inr ((), without_front b n)" "holdings_ok (without_front b n)"
      "voting_power (without_front b n) = voting_power a + ?c"
    using holdings_front [OF assms(2) db(2,1)] db(3) by auto
  let ?b = "without_front b n" and ?C = "put_row i (without_front b n) B"
  let ?s = "set_accounts ?C (set_witnesses W s)"
  have fields: "acc_name ?b = acc_name b" "acc_proxy ?b = acc_proxy b" "proxied_vsf_votes ?b = proxied_vsf_votes b" "vesting_shares ?b = vesting_shares b"
    by (simp_all add: without_front_def)
  have same: "same_proxies B ?C" by (rule same_proxies_put [OF b(1) fields(1,2)])
  have wfB: "table_wf B" using same_accounts_wf [OF B(1)] wf by simp
  have pw: "powers ?C = new" unfolding new_def by (rule powers_front [OF B(1) assms(4) b(1) n(3)])
  have o: "owners ?s = owners s" using voted_owners(1) [OF B(3)] by (simp add: owners_def)
  have "voting_base ?s"
    using inv(1) wfB voted_wf [OF B(3)] o proxies_exist_cong [OF same_proxies_trans [OF same_accounts_proxies [OF B(1)] same]]
    by (simp add: voting_base_def vote_records_ok_def)
  moreover have "all_rows holdings_ok ?C"
    using same_accounts_rows [OF wf B(1) inv(2) holdings_core] n(2) by simp
  moreover have "total (\<lambda>a. tamount (vesting_shares a)) ?C = total (\<lambda>a. tamount (vesting_shares a)) ?A"
    unfolding total_put [OF wfB b(1)] fields(4) by (simp add: vesting_total_core [OF wf B(1)])
  moreover have "levels_ok ?D new new ?C" by (rule levels_front [OF B(2) b(1) fields(3,1,2)])
  moreover have "votes_tally new ?C (witness_votes s) W" using B(4) sums_cong(3) [OF same] by (simp add: votes_tally_def)
  ultimately have "voting_inv ?s" using inv(3) pw by (simp add: voting_inv_def)
  moreover have "mature_entry F U i s = Inr ((), ?s)"
    using assms(4,5) adj c b(1) n(1) by (simp add: mature_entry_def get_row_def read_s_def modify_row_def)
  ultimately show ?thesis using B(1,3) b(1) by blast
qed

section \<open>The loop\<close>

definition waiting :: "32 word \<Rightarrow> delayed_votes_data list \<Rightarrow> delayed_votes_data list" where
  "waiting now items = filter (\<lambda>d. uint now < uint (dv_time d) + 2592000) items"

definition account_view :: "32 word \<Rightarrow> account_object \<Rightarrow> string \<times> nat option \<times> VEST_asset \<times> delayed_votes_data list" where
  "account_view now a = (acc_name a, acc_proxy a, vesting_shares a, waiting now (delayed_votes a))"

definition witness_view :: "witness_object table \<Rightarrow> (nat \<times> witness_object) list \<times> nat" where
  "witness_view W = (map (\<lambda>r. (fst r, core ((snd r)\<lparr>votes := 0\<rparr>))) (rows W), next_id W)"

text \<open>Only entries that have matured, the sums of proxies and the votes and virtual times of witnesses change.\<close>

definition matures :: "32 word \<Rightarrow> schedule_state \<Rightarrow> schedule_state \<Rightarrow> bool" where
  "matures now s s' \<longleftrightarrow> s' = set_accounts (node_accounts s') (set_witnesses (witnesses s') s) \<and>
     (\<forall>i. map_option (account_view now) (find_row (node_accounts s') i) = map_option (account_view now) (find_row (node_accounts s) i)) \<and>
     witness_view (witnesses s') = witness_view (witnesses s)"

lemma matures_refl: "matures now s s"
  by (simp add: matures_def)

lemma matures_trans:
  assumes "matures now s t" "matures now t u"
  shows "matures now s u"
proof -
  have t: "t = set_accounts (node_accounts t) (set_witnesses (witnesses t) s)" using assms(1) by (simp add: matures_def)
  have "u = set_accounts (node_accounts u) (set_witnesses (witnesses u) t)" using assms(2) by (simp add: matures_def)
  also have "\<dots> = set_accounts (node_accounts u) (set_witnesses (witnesses u) s)" by (subst t) (simp add: set_accounts_def)
  finally show ?thesis using assms by (simp add: matures_def)
qed

lemma voted_view: "voted c N W W' \<Longrightarrow> witness_view W' = witness_view W"
proof -
  assume v: "voted c N W W'"
  have "map (\<lambda>r. (fst r, core ((snd r)\<lparr>votes := 0\<rparr>))) qs = map (\<lambda>r. (fst r, core ((snd r)\<lparr>votes := 0\<rparr>))) rs"
    if "list_all2 (gains c N) rs qs" for rs qs
    using that
  proof (induction rule: list_all2_induct)
    case (Cons r rs q qs)
    have "core (snd q) = core ((snd r)\<lparr>votes := votes (snd r) + (if w_owner (snd r) \<in> N then c else 0)\<rparr>)"
      using Cons(1) by (simp add: gains_def)
    from core_votes [OF this, of 0] show ?case using Cons gainsD(3) [OF Cons(1)] by simp
  qed simp
  then show ?thesis using v by (simp add: voted_def witness_view_def)
qed

lemma entries_count: "int (delayed_entries s) = total (\<lambda>a. int (length (delayed_votes a))) (node_accounts s)"
proof -
  have "int (sum_list (map (\<lambda>(i, a). length (delayed_votes a)) rs)) = sum_list (map ((\<lambda>a. int (length (delayed_votes a))) \<circ> snd) rs)"
    for rs :: "(nat \<times> account_object) list"
    by (induction rs) auto
  then show ?thesis by (simp add: delayed_entries_def total_def)
qed

lemma mature_step:
  assumes "fc_ok F" "ushare_ok U" "voting_inv s" "find_row (node_accounts s) i = Some a" "delayed_votes a = d # items"
    "uint (dv_time d) + 2592000 \<le> uint now"
  shows "\<exists>s'. mature_entry F U i s = Inr ((), s') \<and> voting_inv s' \<and> matures now s s' \<and> Suc (delayed_entries s') = delayed_entries s"
proof -
  let ?A = "node_accounts s"
  obtain B b n W c N where m: "mature_entry F U i s = Inr ((), set_accounts (put_row i (without_front b n) B) (set_witnesses W s))"
    and B: "same_accounts ?A B" "find_row B i = Some b" "voted c N (witnesses s) W"
      "voting_inv (set_accounts (put_row i (without_front b n) B) (set_witnesses W s))"
    using mature_entry_eq [OF assms(1-5)] by blast
  let ?C = "put_row i (without_front b n) B" and ?s = "set_accounts (put_row i (without_front b n) B) (set_witnesses W s)"
  have wf: "table_wf ?A" using assms(3) by (simp add: voting_inv_def voting_base_def)
  have wfB: "table_wf B" using same_accounts_wf [OF B(1)] wf by simp
  obtain a' where "find_row ?A i = Some a'" "account_core b = account_core a'" using same_accounts_find [OF B(1,2)] .
  then have b: "account_core b = account_core a" using assms(4) by simp
  have db: "delayed_votes b = d # items" using account_coreD(4) [OF b] assms(5) by simp
  have view: "map_option (account_view now) (find_row ?C j) = map_option (account_view now) (find_row ?A j)" for j
  proof -
    have "map_option account_core (find_row B j) = map_option account_core (find_row ?A j)" using B(1) by (simp add: same_accounts_def)
    then have "map_option (account_view now) (find_row B j) = map_option (account_view now) (find_row ?A j)"
      by (cases "find_row ?A j"; cases "find_row B j") (auto simp: account_view_def dest: account_coreD)
    moreover have "account_view now (without_front b n) = account_view now b"
      using db assms(6) by (simp add: account_view_def without_front_def waiting_def)
    ultimately show ?thesis using B(2) by (auto simp: find_row_put)
  qed
  then have "matures now s ?s" using voted_view [OF B(3)] by (simp add: matures_def set_accounts_def node_accounts_def)
  moreover have "total (\<lambda>a. int (length (delayed_votes a))) B = total (\<lambda>a. int (length (delayed_votes a))) ?A"
    by (rule same_accounts_total [OF wf B(1)]) (drule account_coreD(4), simp)
  then have "int (delayed_entries ?s) + 1 = int (delayed_entries s)"
    unfolding entries_count using total_put [OF wfB B(2), of "\<lambda>a. int (length (delayed_votes a))" "without_front b n"] db
    by (simp add: without_front_def)
  then have "Suc (delayed_entries ?s) = delayed_entries s" by linarith
  ultimately show ?thesis using m B(4) by blast
qed

abbreviation due :: "32 word \<Rightarrow> account_object \<Rightarrow> bool" where
  "due now a \<equiv> delayed_votes a \<noteq> [] \<and> now \<ge> oldest_delayed_vote_time a + HIVE_DELAYED_VOTING_TOTAL_INTERVAL_SECONDS"

lemma due_iff:
  assumes "holdings_ok a"
  shows "due now a \<longleftrightarrow> (\<exists>d items. delayed_votes a = d # items \<and> uint (dv_time d) + 2592000 \<le> uint now)"
proof (cases "delayed_votes a")
  case (Cons d items)
  then have "uint (dv_time d) + 2592000 < 4294967296" using assms by (simp add: holdings_ok_def entries_ok_def)
  then have "uint (dv_time d + HIVE_DELAYED_VOTING_TOTAL_INTERVAL_SECONDS) = uint (dv_time d) + 2592000"
    by (simp add: HIVE_DELAYED_VOTING_TOTAL_INTERVAL_SECONDS_def uint_word_ariths)
  then show ?thesis using Cons by (simp add: oldest_delayed_vote_time_def word_le_def)
qed simp

lemma none_due:
  assumes "table_wf A" "all_rows holdings_ok A" "first_row by_delayed_voting (due now) A = None" "find_row A i = Some a"
  shows "\<not> due now a"
proof
  assume d: "due now a"
  let ?L = "index_rows by_delayed_voting A" and ?t = "\<lambda>r. oldest_delayed_vote_time (snd r)"
  have "(i, a) \<in> set ?L" using find_row_SomeD [OF assms(4)] by simp
  then obtain r rs where L: "?L = r # rs" by (cases ?L) auto
  have "sorted_wrt (\<lambda>x y. ?t x \<le> ?t y) ?L"
    unfolding index_rows_def by (rule sorted_sort_rows [of UNIV]) (auto simp: by_delayed_voting_def)
  then have le: "?t r \<le> oldest_delayed_vote_time a" using \<open>(i, a) \<in> set ?L\<close> unfolding L by auto
  have r: "holdings_ok (snd r)" using assms(2) L set_index_rows [of by_delayed_voting A] by (auto simp: all_rows_def list_all_iff)
  have a: "holdings_ok a" using all_rows_find [OF assms(2,4)] .
  obtain e es where e: "delayed_votes a = e # es" "uint (dv_time e) + 2592000 \<le> uint now" using due_iff [OF a] d by blast
  have nd: "\<not> due now (snd r)" using assms(3) L by (cases r) (auto simp: first_row_def split: if_splits)
  show False
  proof (cases "delayed_votes (snd r)")
    case Nil
    have "uint (- 1 :: 32 word) = 4294967295" by code_simp
    then have "uint (dv_time e) = 4294967295" using Nil le e(1) word32_bound(1) [of "dv_time e"]
      by (simp add: oldest_delayed_vote_time_def word_le_def)
    then show False using a e(1) by (simp add: holdings_ok_def entries_ok_def)
  next
    case (Cons f fs)
    then have "uint (dv_time f) \<le> uint (dv_time e)" using le e(1) by (simp add: oldest_delayed_vote_time_def word_le_def)
    then show False using nd due_iff [OF r] Cons e(2) by auto
  qed
qed

lemma not_due_waiting:
  assumes "holdings_ok a" "\<not> due now a"
  shows "waiting now (delayed_votes a) = delayed_votes a"
proof (cases "delayed_votes a")
  case (Cons d items)
  have "uint now < uint (dv_time e) + 2592000" if "e \<in> set (d # items)" for e
    using assms due_iff [OF assms(1)] Cons that by (auto simp: holdings_ok_def entries_ok_def a_day_apart_def)
  then show ?thesis using Cons by (simp add: waiting_def)
qed (simp add: waiting_def)

lemma waiting_bounded:
  assumes "sorted_wrt a_day_apart items" "\<forall>d \<in> set items. uint (dv_time d) \<le> uint now"
  shows "length (waiting now items) \<le> 30"
proof -
  have apart: "86400 * int (length xs) \<le> uint (dv_time (last (x # xs))) - uint (dv_time x)" if "sorted_wrt a_day_apart (x # xs)" for x xs
    using that
  proof (induction xs arbitrary: x)
    case (Cons y ys)
    have "86400 * int (length ys) \<le> uint (dv_time (last (y # ys))) - uint (dv_time y)" using Cons by simp
    moreover have "uint (dv_time x) + 86400 \<le> uint (dv_time y)" using Cons.prems by (simp add: a_day_apart_def)
    moreover have "86400 * n \<le> c - b \<Longrightarrow> a + 86400 \<le> b \<Longrightarrow> 86400 * (n + 1) \<le> c - a" for a b c n :: int by simp
    moreover have l: "last (x # y # ys) = last (y # ys)" "int (length (y # ys)) = int (length ys) + 1" by simp_all
    ultimately show ?case unfolding l by blast
  qed simp
  have s: "sorted_wrt a_day_apart (waiting now items)" using assms(1) by (simp add: waiting_def sorted_wrt_filter)
  show ?thesis
  proof (cases "waiting now items")
    case (Cons x xs)
    have "x \<in> set (waiting now items)" "last (x # xs) \<in> set (waiting now items)" using Cons by (auto simp: last_in_set)
    then have "uint now < uint (dv_time x) + 2592000" "uint (dv_time (last (x # xs))) \<le> uint now"
      using assms(2) by (auto simp: waiting_def)
    then have "86400 * int (length xs) < 2592000" using apart [of x xs] s Cons by simp
    then show ?thesis using Cons by simp
  qed simp
qed

lemma run_eq:
  assumes "fc_ok F" "ushare_ok U" "voting_inv s"
  shows "\<exists>s'. delayed_voting_run F U now s = Inr ((), s') \<and> voting_inv s' \<and> matures now s s' \<and>
    first_row by_delayed_voting (due now) (node_accounts s') = None"
proof -
  let ?first = "\<lambda>s. first_row by_delayed_voting (due now) (node_accounts s)"
  have body: "\<exists>t'. mature_entry F U i t = Inr ((), t') \<and> (voting_inv t' \<and> matures now s t') \<and> Suc (delayed_entries t') = delayed_entries t"
    if t: "voting_inv t" "matures now s t" and f: "?first t = Some i" for t i
  proof -
    have inv: "table_wf (node_accounts t)" "all_rows holdings_ok (node_accounts t)" using t(1) by (simp_all add: voting_inv_def voting_base_def)
    obtain a where a: "find_row (node_accounts t) i = Some a" "due now a" using first_row_SomeD [OF inv(1) f] .
    obtain d items where "delayed_votes a = d # items" "uint (dv_time d) + 2592000 \<le> uint now"
      using due_iff [OF all_rows_find [OF inv(2) a(1)]] a(2) by blast
    from mature_step [OF assms(1,2) t(1) a(1) this] show ?thesis using matures_trans [OF t(2)] by blast
  qed
  have step: "succeeds (\<lambda>t. (voting_inv t \<and> matures now s t) \<and> ?first t = Some i \<and> delayed_entries t = Suc k) (mature_entry F U i)
      (\<lambda>_ t. (voting_inv t \<and> matures now s t) \<and> delayed_entries t \<le> k)" for i k
    unfolding succeeds_def
  proof (intro allI impI)
    fix t assume t: "(voting_inv t \<and> matures now s t) \<and> ?first t = Some i \<and> delayed_entries t = Suc k"
    obtain t' where "mature_entry F U i t = Inr ((), t')" "voting_inv t' \<and> matures now s t'" "Suc (delayed_entries t') = delayed_entries t"
      using body [of t i] t by blast
    then show "\<exists>x t'. mature_entry F U i t = Inr (x, t') \<and> (voting_inv t' \<and> matures now s t') \<and> delayed_entries t' \<le> k"
      using t by (intro exI [of _ "()"] exI [of _ t']) simp
  qed
  have nz: "delayed_entries t \<noteq> 0" if "voting_inv t \<and> matures now s t" "?first t = Some i" for t i
    using body [of t i] that by auto
  have "succeeds (\<lambda>t. (voting_inv t \<and> matures now s t) \<and> delayed_entries t \<le> delayed_entries s)
      (while_s (delayed_entries s) ?first (\<lambda>i _. mature_entry F U i) ()) (\<lambda>_ t. (voting_inv t \<and> matures now s t) \<and> ?first t = None)"
    by (rule succeeds_while [of "\<lambda>_ t. voting_inv t \<and> matures now s t" ?first delayed_entries]) (rule step, rule nz)
  from succeedsD [OF this, of s] assms(3) show ?thesis
    by (auto simp: matures_refl delayed_voting_run_def mature_entry_def)
qed

section \<open>The schedule\<close>

lemma voting_votes_ok:
  assumes "voting_inv s"
  shows "votes_ok s"
proof -
  have inv: "table_wf (node_accounts s)" "all_rows holdings_ok (node_accounts s)" "vests_total s < max_i64"
      "total (\<lambda>a. tamount (vesting_shares a)) (node_accounts s) \<le> vests_total s"
    using assms by (simp_all add: voting_inv_def voting_base_def)
  have "0 \<le> vote_sum (node_accounts s) V (powers (node_accounts s)) n \<and> vote_sum (node_accounts s) V (powers (node_accounts s)) n < max_i64" for V n
    using sums_bounded(3,4) [of "node_accounts s" "powers (node_accounts s)" "vests_total s" V n]
      weights_ok_powers [OF inv(1,2,4)] inv(3) by (auto simp: weights_ok_def)
  then show ?thesis using assms by (auto simp: votes_ok_def list_all_iff voting_inv_def votes_tally_def)
qed

lemma witnesses_ok_view:
  assumes "witness_view (witnesses t) = witness_view (witnesses s)" "witnesses_ok s" "votes_ok t"
  shows "witnesses_ok t \<and> owners t = owners s"
proof -
  define V where "V u = map (\<lambda>r. (fst r, core ((snd r)\<lparr>votes := 0\<rparr>))) (rows (witnesses u))" for u :: schedule_state
  have v: "V t = V s" "next_id (witnesses t) = next_id (witnesses s)" using assms(1) by (simp_all add: witness_view_def V_def)
  have eqs: "map fst (rows (witnesses u)) = map fst (V u)" "owners u = map (\<lambda>r. w_owner (snd r)) (V u)"
    "list_all (\<lambda>(i, w). props_ok w) (rows (witnesses u)) \<longleftrightarrow> list_all (\<lambda>(i, w). props_ok w) (V u)"
    "list_ex (\<lambda>(i, w). \<not> is_disabled w) (rows (witnesses u)) \<longleftrightarrow> list_ex (\<lambda>(i, w). \<not> is_disabled w) (V u)" for u :: schedule_state
    by (simp_all add: V_def owners_def core_def props_ok_def is_disabled_def list_all_iff list_ex_iff case_prod_unfold)
  have "map fst (rows (witnesses t)) = map fst (rows (witnesses s))" unfolding eqs v ..
  then show ?thesis
    using v wf_ids [of "witnesses t" "witnesses s"] assms(2,3) by (simp add: witnesses_ok_def eqs)
qed

lemma matures_schedule:
  assumes "matures now s s'" "voting_inv s'" "schedule_inv s"
  shows "schedule_inv s'"
proof -
  have s': "s' = set_accounts (node_accounts s') (set_witnesses (witnesses s') s)" and v: "witness_view (witnesses s') = witness_view (witnesses s)"
    using assms(1) by (simp_all add: matures_def)
  have same: "current_wso s' = current_wso s" "future_wso s' = future_wso s" "processed_hardforks (node_ledger s') = processed_hardforks (node_ledger s)"
    by (subst s'; simp add: set_accounts_def)+
  have "witnesses_ok s'" "owners s' = owners s"
    using witnesses_ok_view [OF v _ voting_votes_ok [OF assms(2)]] assms(3) by (simp_all add: schedule_inv_def)
  then show ?thesis using assms(3) same wso_ok_cong [of s' s] by (simp add: schedule_inv_def has_hardfork_def)
qed

section \<open>An example\<close>

text \<open>Alice has bob as proxy and 40 of her 100 VESTS are delayed; bob has 50 VESTS and votes for the witness alice.\<close>

definition example_voting :: schedule_state where
  "example_voting = example_schedule\<lparr>
     witnesses := \<lparr>rows = [(0, example_witness ''alice'' 110 (1 # replicate 32 0)), (1, example_witness ''bob'' 0 (2 # replicate 32 0))], next_id = 2\<rparr>,
     witness_votes := \<lparr>rows = [(0, \<lparr>vote_witness = ''alice'', vote_account = ''bob''\<rparr>)], next_id = 1\<rparr>,
     node_ledger := (node_ledger example_schedule)\<lparr>
       accounts := \<lparr>rows =
         [(0, (example_account ''alice'' 0 0)\<lparr>acc_proxy := Some 1, vesting_shares := tiny 100, sum_delayed_votes := 40,
            delayed_votes := [\<lparr>dv_time = 1000, dv_val = 40\<rparr>]\<rparr>),
          (1, (example_account ''bob'' 0 0)\<lparr>vesting_shares := tiny 50, proxied_vsf_votes := [60, 0, 0, 0]\<rparr>)], next_id = 2\<rparr>,
       dgpo := (dgpo (node_ledger example_schedule))\<lparr>total_vesting_shares := tiny 150\<rparr>\<rparr>\<rparr>"

lemma levels_ok_rows:
  assumes "list_all (\<lambda>(p, a). length (proxied_vsf_votes a) = HIVE_MAX_PROXY_RECURSION_DEPTH \<and>
    list_all (\<lambda>d. proxied_vsf_votes a ! d = proxy_sum A m d p) [0..<HIVE_MAX_PROXY_RECURSION_DEPTH]) (rows A)"
  shows "levels_ok HIVE_MAX_PROXY_RECURSION_DEPTH m m A"
  using assms unfolding levels_ok_def by (auto simp: list_all_iff dest!: find_row_SomeD)

lemma proxies_exist_rows:
  assumes "list_all (\<lambda>(i, a). case acc_proxy a of None \<Rightarrow> True | Some p \<Rightarrow> p \<in> set (ids A)) (rows A)"
  shows "proxies_exist A"
proof -
  have "find_row A p \<noteq> None" if "p \<in> set (ids A)" for p using that by (simp add: find_row_def map_of_eq_None_iff ids_def)
  then show ?thesis using assms unfolding proxies_exist_def by (fastforce simp: list_all_iff dest!: find_row_SomeD)
qed

lemma example_voting_inv: "voting_inv example_voting"
proof -
  have "proxies_exist (node_accounts example_voting)" by (rule proxies_exist_rows) code_simp
  moreover have "table_wf (node_accounts example_voting)" "table_wf (witnesses example_voting)" "distinct (owners example_voting)"
    "vote_records_ok example_voting" "vests_total example_voting < max_i64" by code_simp+
  ultimately have "voting_base example_voting" by (simp add: voting_base_def)
  moreover have "all_rows holdings_ok (node_accounts example_voting)" by code_simp
  moreover have "total (\<lambda>a. tamount (vesting_shares a)) (node_accounts example_voting) \<le> vests_total example_voting" by code_simp
  moreover have "levels_ok HIVE_MAX_PROXY_RECURSION_DEPTH (powers (node_accounts example_voting)) (powers (node_accounts example_voting)) (node_accounts example_voting)"
    by (rule levels_ok_rows) code_simp
  moreover have "votes_tally (powers (node_accounts example_voting)) (node_accounts example_voting) (witness_votes example_voting) (witnesses example_voting)"
    by code_simp
  ultimately show ?thesis by (simp add: voting_inv_def)
qed

section \<open>Properties\<close>

text \<open>
  C5: The votes of a witness are the matured VESTS of those who vote for it. In a state where every witness has the sum
  of the matured VESTS of the accounts that vote for it directly or through at most four proxies, and every account the
  sums of those who reach it as proxy, the processing of delayed votes returns: no addition overflows and no witness
  passes the assertion on its votes. The sums agree again, the VESTS of every account are unchanged, exactly the
  entries that are thirty days old have left, at most thirty remain, and the schedule stays well-formed.
\<close>

theorem delayed_votes_mature:
  assumes "fc_ok F" "ushare_ok U" "voting_inv s" "has_hardfork 24 (node_ledger s)"
  shows "\<exists>s'. process_delayed_voting F U now s = Inr ((), s') \<and> voting_inv s' \<and> (schedule_inv s \<longrightarrow> schedule_inv s') \<and>
    (\<forall>i a. find_row (node_accounts s) i = Some a \<longrightarrow> (\<exists>a'. find_row (node_accounts s') i = Some a' \<and>
      acc_name a' = acc_name a \<and> acc_proxy a' = acc_proxy a \<and> vesting_shares a' = vesting_shares a \<and>
      delayed_votes a' = filter (\<lambda>d. uint now < uint (dv_time d) + 2592000) (delayed_votes a) \<and>
      ((\<forall>d \<in> set (delayed_votes a). dv_time d \<le> now) \<longrightarrow> length (delayed_votes a') \<le> 30)))"
proof -
  obtain s' where s': "delayed_voting_run F U now s = Inr ((), s')" "voting_inv s'" "matures now s s'"
      "first_row by_delayed_voting (due now) (node_accounts s') = None"
    using run_eq [OF assms(1-3)] by blast
  have inv: "table_wf (node_accounts s')" "all_rows holdings_ok (node_accounts s')" "all_rows holdings_ok (node_accounts s)"
    using s'(2) assms(3) by (simp_all add: voting_inv_def voting_base_def)
  have "\<exists>a'. find_row (node_accounts s') i = Some a' \<and> acc_name a' = acc_name a \<and> acc_proxy a' = acc_proxy a \<and>
      vesting_shares a' = vesting_shares a \<and> delayed_votes a' = waiting now (delayed_votes a) \<and>
      ((\<forall>d \<in> set (delayed_votes a). dv_time d \<le> now) \<longrightarrow> length (delayed_votes a') \<le> 30)"
    if a: "find_row (node_accounts s) i = Some a" for i a
  proof -
    have "map_option (account_view now) (find_row (node_accounts s') i) = Some (account_view now a)" using s'(3) a by (simp add: matures_def)
    then obtain a' where a': "find_row (node_accounts s') i = Some a'" "account_view now a' = account_view now a" by auto
    have "waiting now (delayed_votes a') = delayed_votes a'"
      by (rule not_due_waiting [OF all_rows_find [OF inv(2) a'(1)] none_due [OF inv(1,2) s'(4) a'(1)]])
    then have "delayed_votes a' = waiting now (delayed_votes a)" using a'(2) by (simp add: account_view_def)
    moreover have "sorted_wrt a_day_apart (delayed_votes a)"
      using all_rows_find [OF inv(3) a] by (simp add: holdings_ok_def entries_ok_def)
    ultimately show ?thesis using a' waiting_bounded [of "delayed_votes a" now] by (auto simp: account_view_def word_le_def)
  qed
  then show ?thesis
    using s' matures_schedule [OF s'(3,2)] assms(4) by (intro exI [of _ s']) (simp add: process_delayed_voting_def waiting_def)
qed

theorem delayed_votes_mature_witness:
  "\<exists>s' a'. process_delayed_voting exact_fc exact_ushare 2593001 example_voting = Inr ((), s') \<and> voting_inv s' \<and>
     find_row (node_accounts s') 0 = Some a' \<and> delayed_votes a' = [] \<and> vesting_shares a' = tiny 100"
proof -
  have hf: "has_hardfork 24 (node_ledger example_voting)" by code_simp
  obtain a where a: "find_row (node_accounts example_voting) 0 = Some a" "vesting_shares a = tiny 100"
      "delayed_votes a = [\<lparr>dv_time = 1000, dv_val = 40\<rparr>]"
    by (simp add: example_voting_def node_accounts_def find_row_def)
  have "filter (\<lambda>d. uint (2593001 :: 32 word) < uint (dv_time d) + 2592000) (delayed_votes a) = []" unfolding a(3) by code_simp
  with delayed_votes_mature [OF exact_fc_ok exact_ushare_ok example_voting_inv hf, of 2593001] a(1,2) show ?thesis by metis
qed

end
