(* ===== verification/Spec2Isabelle.thy ===== *)
theory Spec2Isabelle
  imports Chainbase Fork_Branches Resource_Dynamics Virtual_Supply Order_Book Authority_Complete
    Hardfork_Votes Voting_Laws
begin

text \<open>
  A verification library for the Pixagram blockchain node, a C++ program. The node keeps a
  replicated ledger: witnesses take turns in producing blocks, a block carries signed transactions,
  a transaction carries operations, and an evaluator per operation changes the objects of the chain
  state. Below the operations lies an object store with an undo history, so that the effects of a
  block that turns out to be on a minority fork can be taken back; beside it lies the tree of the
  reversible blocks, from which the node picks the branch to follow. Paths in the following are
  relative to \<^verbatim>\<open>src/libraries\<close>.

  \<^bold>\<open>Conventions.\<close> Unsigned integers are words of their width and wrap. An \<^verbatim>\<open>int64_t\<close> amount is an integer,
  and the checked arithmetic of \<^verbatim>\<open>share_type\<close> throws when a result leaves the range of 64 bits. The fc
  library, which provides the checked integers, 128-bit narrowing and number parsing, is not part
  of the repository: its functions are the fields of the parameter records \<open>fc_lib\<close>, \<open>fc_text\<close> and \<open>ushare_lib\<close>, and the
  hypotheses \<open>fc_ok\<close>, \<open>text_ok\<close> and \<open>ushare_ok\<close> state what the node relies on. They hold for the concrete records
  \<open>exact_fc\<close>, \<open>decimal_text\<close> and \<open>exact_ushare\<close>, on which the witnesses are evaluated. An exception is a value: a fallible
  function has the type \<open>'a res\<close> (\<open>Prelude\<close>), a stateful one the type \<open>('s, 'a) op\<close> (\<open>State_Exn\<close>). A thrown exception
  carries no state, because operations run in an undo session. Behaviour that C++ leaves undefined
  is the exception \<open>Undefined\<close>.

  \<^bold>\<open>Foundations.\<close>
  \<^item> \<open>Prelude\<close>, \<open>Fc_Lib\<close>: exceptions as values, ranges of the integer types, the fc parameters and
    their laws.
  \<^item> \<open>State_Exn\<close>: sequencing, the three loops of the sources, and three collections of proof rules, for
    partial correctness (\<open>valid\<close>), total correctness (\<open>succeeds\<close>) and the change of the state (\<open>moves\<close>).
  \<^item> \<open>Table\<close>: the visible content of an index of \<^verbatim>\<open>chainbase\<close>, ordered indices, and the operations
    \<^verbatim>\<open>get\<close>, \<^verbatim>\<open>modify\<close>, \<^verbatim>\<open>create\<close> and \<^verbatim>\<open>remove\<close> of the database.

  \<^bold>\<open>Assets\<close> (\<^verbatim>\<open>protocol/asset_symbol.hpp\<close>, \<^verbatim>\<open>protocol/asset.hpp\<close>, \<^verbatim>\<open>protocol/asset.cpp\<close>).
  \<open>Asset_Symbol\<close> has the 32-bit encoding of symbols, the decimal identifier with its check digit and
  the wire formats, with round trips and the detection of typing errors. \<open>Asset\<close> has amounts and prices:
  the arithmetic and the comparisons are exact, converting back and forth never gains, the text form
  can be read back. \<open>Balance\<close> (\<^verbatim>\<open>chain/util/balance.hpp\<close>) has the balances that can only be moved.

  \<^bold>\<open>Ledger.\<close> \<open>Ledger\<close> is the record of the objects that hold funds with the operations of
  \<^verbatim>\<open>dynamic_global_property_object\<close> that issue, burn and convert; \<open>Account_Balances\<close> the balance functions of
  \<^verbatim>\<open>chain/database.cpp\<close>. On them stand the evaluators of \<^verbatim>\<open>chain/hive_evaluator_transfer.cpp\<close> and their
  maintenance: \<open>Market\<close> and \<open>Escrow\<close> and \<open>Savings\<close> (\<^verbatim>\<open>chain/database_market.cpp\<close>), \<open>Conversion\<close>
  (\<^verbatim>\<open>chain/database_conversion.cpp\<close>). \<open>Ledger_Laws\<close> introduces the gap between the supply counters and the
  funds of all objects; the theories \<open>Market_Laws\<close>, \<open>Conversion_Laws\<close>, \<open>Escrow_Laws\<close> and \<open>Savings_Laws\<close> show of every operation
  that it leaves the gap as it was. \<open>Supply\<close> has the audit of \<^verbatim>\<open>validate_invariants\<close> and shows that it accepts exactly the
  ledgers without a gap; \<open>Ledger_Steps\<close> puts the operations together into the steps of the chain and
  shows that funds are conserved over any sequence of them. \<open>Virtual_Supply\<close> treats \<^verbatim>\<open>update_virtual_supply\<close>.
  \<open>Order_Book\<close> shows that the matching engine leaves no two orders behind that could trade, and that a
  trade is fair to both sides.

  \<^bold>\<open>Authorities\<close> (\<^verbatim>\<open>protocol/authority.cpp\<close>, \<^verbatim>\<open>protocol/sign_state.hpp\<close>, \<^verbatim>\<open>protocol/transaction_util.cpp\<close>). \<open>Account_Names\<close>
  relates the scan of a name to a grammar. \<open>Authority\<close> is the search for approvals; \<open>Authority_Laws\<close> shows that a
  transaction that passes carries signatures that satisfy every required authority, \<open>Authority_Complete\<close> that
  sufficient signatures are found within the limits of the search.

  \<^bold>\<open>Witnesses\<close> (\<^verbatim>\<open>chain/witness_schedule.cpp\<close>, \<^verbatim>\<open>chain/database_witness.cpp\<close>, \<^verbatim>\<open>chain/util/delayed_voting.cpp\<close>).
  \<open>Witness_Schedule\<close> is \<^verbatim>\<open>update_witness_schedule\<close> over the state \<open>schedule_state\<close>, which adds to the ledger the witnesses, the
  records of votes, the schedules of the current and of the next round, the hardfork properties and the resource parameters of new
  accounts. \<open>Schedule_Laws\<close> describes the selection by votes, mining queue and virtual time as pure functions of
  the state before it; \<open>Schedule_Total\<close> shows that every round returns and installs distinct candidates with the most
  voted among them, and that the properties of the chain are medians. \<open>Hardfork_Votes\<close> shows that the count of votes
  schedules a hardfork exactly by the documented quorum of the producing witnesses, on versions where the comparison of
  versions is an order, and that in general it is none. \<open>Delayed_Voting\<close> has the entries of delayed VESTS, their maturity and the
  adjustment of votes along proxies; \<open>Voting_Laws\<close> shows that the votes of a witness stay the sum of the matured VESTS
  behind it and that the schedule stays well-formed.

  \<^bold>\<open>Object store\<close> (\<^verbatim>\<open>chainbase\<close>). \<open>Chainbase\<close> models the undo stack of an index, the database sessions over
  all indices and the session guard, and shows that it refines a stack of snapshots.

  \<^bold>\<open>Fork database\<close> (\<^verbatim>\<open>chain/fork_database.cpp\<close>). \<open>Fork_Database\<close> models every operation on the tree of
  reversible blocks; \<open>Fork_Linking\<close> shows that it stays well-formed and that the order of delivery does not
  matter; \<open>Fork_Branches\<close> that the walk to the common ancestor of two branches ends.

  \<^bold>\<open>Resources.\<close> \<open>Manabar\<close> (\<^verbatim>\<open>chain/util/manabar.hpp\<close>) and \<open>Resource_Dynamics\<close> (\<^verbatim>\<open>chain/util/rd.cpp\<close>,
  \<^verbatim>\<open>chain/rc/rc_curve.cpp\<close>, \<^verbatim>\<open>chain/rc/rc_utility.cpp\<close>) treat regeneration, decaying pools and their price curve.

  \<^bold>\<open>Bounds.\<close> A loop that takes the first object of an index until none is due runs at most as often as the
  table has rows at its start, because every round removes one or moves it behind the due ones; the bound of \<open>while_s\<close> is that
  number, and running out of it would be \<open>Undefined\<close>. The loop over delayed votes removes an entry of an account in every round, and
  its bound is the number of entries. A vote passes along at most four proxies, the limit of the code. The search for approvals recurses at most as deep as the
  configured limit, which is its structural argument. All other recursions are structural or have a
  termination proof.

  \<^bold>\<open>Not modelled.\<close> Networking, the wallet, the plugins and their APIs, the programs and the block log
  are input and output around the consensus code. Locks, memory accounting and shared memory of
  \<^verbatim>\<open>chainbase\<close> do not change the content of an index. Hashing, signing and serialisation of
  transactions belong to libraries outside the repository. Comments, votes for them, rewards, vesting withdrawals,
  proposals, account creation and recovery, the hardfork procedures, the operations by which accounts vote for witnesses or set a
  proxy, the charging of resource credits and the application of a block as a whole are part of the consensus code
  that the library does not treat; they rest on the objects and indices that are modelled here. Virtual operations, log messages and
  system warnings have no effect on the state and are not recorded.
\<close>

end
